(* ===== verification/Prelude.thy ===== *)
theory Prelude imports Main "HOL-Library.Word" "HOL-Library.Monad_Syntax" begin

text \<open>
  Shared vocabulary of the development: machine integers, byte-addressed physical memory with
  little-endian loads and stores, memory regions, bounded polling loops, and the generic facts
  about them that every component uses. The kernel is built with \<open>cargo build --release\<close>
  (\<open>kernel/Makefile\<close>), so unsigned arithmetic wraps: a \<open>w word\<close> is a Rust \<open>uw\<close> exactly.
  A call that never returns control (a panic, whose handler in \<open>kernel/src/main.rs\<close> halts for
  ever, or an endless loop) is the value \<open>None\<close> of an option type.
\<close>

unbundle bit_operations_syntax

type_synonym u8 = "8 word"
type_synonym u16 = "16 word"
type_synonym u32 = "32 word"
type_synonym u64 = "64 word"

named_theorems mem_simps "loads after stores, and stores at other addresses"
named_theorems frame_intros "operations that leave memory outside a region alone"

section \<open>Words\<close>

lemma unat_of_nat_u64 [simp]: "n < 2 ^ 64 \<Longrightarrow> unat (of_nat n :: u64) = n"
  by (simp add: unat_of_nat take_bit_nat_eq_self)

lemma unat_ucast_u32 [simp]: "unat (ucast (x :: u32) :: u64) = unat x"
proof -
  have "unat x < 2 ^ 32" using unsigned_less [of x] by simp
  then show ?thesis by (simp add: unsigned_ucast_eq take_bit_nat_eq_self)
qed

lemma unat_lt_u32 [simp]: "unat (x :: u32) < 4294967296"
  using unsigned_less [of x] by simp

lemma of_nat_u32_less: "i < n \<Longrightarrow> n < 2 ^ 32 \<Longrightarrow> (of_nat i :: u32) < of_nat n"
  by (simp add: word_less_nat_alt unat_of_nat take_bit_nat_eq_self)

lemma of_nat_unat_u64: "of_nat (unat (x :: u64)) = x"
  by simp

lemma of_nat_u64_inj: "i < 2 ^ 64 \<Longrightarrow> j < 2 ^ 64 \<Longrightarrow> (of_nat i :: u64) = of_nat j \<longleftrightarrow> i = j"
  by (metis unat_of_nat_u64)

lemma add_of_nat_u64_inj:
  "i < 2 ^ 64 \<Longrightarrow> j < 2 ^ 64 \<Longrightarrow> (a :: u64) + of_nat i = a + of_nat j \<longleftrightarrow> i = j"
  by (simp add: of_nat_u64_inj)

lemma unat_lt_u64 [simp]: "unat (x :: u64) < 18446744073709551616"
  using unsigned_less [of x] by simp

lemma unat_le_u64 [simp]: "unat (x :: u64) \<le> 18446744073709551616"
  using unat_lt_u64 [of x] by (rule less_imp_le)

text \<open>The simplifier turns the mask \<open>push_bit n 1\<close> (Rust's \<open>1 << n\<close>) into \<open>2 ^ n\<close>.\<close>

lemma and_exp_iff: "(x :: 'a::len word) AND 2 ^ n \<noteq> 0 \<longleftrightarrow> bit x n"
  using bit_iff_and_push_bit_not_eq_0 [of x n] by simp

lemma bit_or_exp:
  "n < LENGTH('a) \<Longrightarrow> bit (x OR (2 :: 'a::len word) ^ n) k \<longleftrightarrow> bit x k \<or> k = n"
  by (auto simp: bit_simps)

lemma bit_and_not_exp:
  "n < LENGTH('a) \<Longrightarrow> bit (x AND NOT ((2 :: 'a::len word) ^ n)) k \<longleftrightarrow> bit x k \<and> k \<noteq> n"
  by (auto simp: bit_simps dest: bit_imp_le_length)

lemma and_mask_28_le: "(x :: u32) AND 0x0FFFFFFF \<le> 0x0FFFFFFF"
  by (rule word_and_le1)

section \<open>Memory\<close>

type_synonym memory = "u64 \<Rightarrow> u8"

definition rd16 :: "memory \<Rightarrow> u64 \<Rightarrow> u16" where
  "rd16 mem a = ucast (mem a) OR push_bit 8 (ucast (mem (a + 1)))"

definition rd32 :: "memory \<Rightarrow> u64 \<Rightarrow> u32" where
  "rd32 mem a = ucast (rd16 mem a) OR push_bit 16 (ucast (rd16 mem (a + 2)))"

definition rd64 :: "memory \<Rightarrow> u64 \<Rightarrow> u64" where
  "rd64 mem a = ucast (rd32 mem a) OR push_bit 32 (ucast (rd32 mem (a + 4)))"

definition wr16 :: "u64 \<Rightarrow> u16 \<Rightarrow> memory \<Rightarrow> memory" where
  "wr16 a v mem = mem(a := ucast v, a + 1 := ucast (drop_bit 8 v))"

definition wr32 :: "u64 \<Rightarrow> u32 \<Rightarrow> memory \<Rightarrow> memory" where
  "wr32 a v mem = wr16 (a + 2) (ucast (drop_bit 16 v)) (wr16 a (ucast v) mem)"

definition wr64 :: "u64 \<Rightarrow> u64 \<Rightarrow> memory \<Rightarrow> memory" where
  "wr64 a v mem = wr32 (a + 4) (ucast (drop_bit 32 v)) (wr32 a (ucast v) mem)"

lemma split16: "ucast (ucast v :: u8) OR push_bit 8 (ucast (ucast (drop_bit 8 v) :: u8)) = (v :: u16)"
  by (rule bit_word_eqI) (auto simp: bit_simps)

lemma split32: "ucast (ucast v :: u16) OR push_bit 16 (ucast (ucast (drop_bit 16 v) :: u16)) = (v :: u32)"
  by (rule bit_word_eqI) (auto simp: bit_simps)

lemma split64: "ucast (ucast v :: u32) OR push_bit 32 (ucast (ucast (drop_bit 32 v) :: u32)) = (v :: u64)"
  by (rule bit_word_eqI) (auto simp: bit_simps)

lemma rd16_wr16 [simp, mem_simps]: "rd16 (wr16 a v mem) a = v"
  by (simp add: rd16_def wr16_def split16)

lemma rd32_wr32 [simp, mem_simps]: "rd32 (wr32 a v mem) a = v"
  by (simp add: rd32_def wr32_def rd16_def wr16_def split16 split32 add.assoc)

lemma rd64_wr64 [simp, mem_simps]: "rd64 (wr64 a v mem) a = v"
  by (simp add: rd64_def wr64_def rd32_def wr32_def rd16_def wr16_def split16 split32 split64 add.assoc)

lemma rd16_cong: "mem a = mem' b \<Longrightarrow> mem (a + 1) = mem' (b + 1) \<Longrightarrow> rd16 mem a = rd16 mem' b"
  by (simp add: rd16_def)

lemma rd32_cong: "(\<And>i. i < 4 \<Longrightarrow> mem (a + of_nat i) = mem' (b + of_nat i)) \<Longrightarrow> rd32 mem a = rd32 mem' b"
proof -
  assume h: "\<And>i. i < 4 \<Longrightarrow> mem (a + of_nat i) = mem' (b + of_nat i)"
  from h [of 0] h [of 1] h [of 2] h [of 3] show ?thesis
    by (simp add: rd32_def rd16_def add.assoc)
qed

lemma rd64_cong: "(\<And>i. i < 8 \<Longrightarrow> mem (a + of_nat i) = mem' (b + of_nat i)) \<Longrightarrow> rd64 mem a = rd64 mem' b"
proof -
  assume h: "\<And>i. i < 8 \<Longrightarrow> mem (a + of_nat i) = mem' (b + of_nat i)"
  from h [of 0] h [of 1] h [of 2] h [of 3] h [of 4] h [of 5] h [of 6] h [of 7] show ?thesis
    by (simp add: rd64_def rd32_def rd16_def add.assoc)
qed

subsection \<open>Regions\<close>

text \<open>The \<open>n\<close> bytes from address \<open>a\<close> on; addresses wrap at \<open>2 ^ 64\<close> as pointers do.\<close>

definition in_region :: "u64 \<Rightarrow> nat \<Rightarrow> u64 \<Rightarrow> bool" where
  "in_region a n x \<longleftrightarrow> unat (x - a) < n"

lemma in_region_offset [simp]: "i < 2 ^ 64 \<Longrightarrow> in_region a n (a + of_nat i) \<longleftrightarrow> i < n"
  by (simp add: in_region_def)

lemma in_region_start [simp]: "in_region a n a \<longleftrightarrow> 0 < n"
  by (simp add: in_region_def)

lemma in_region_0 [simp]: "\<not> in_region a 0 x"
  by (simp add: in_region_def)

lemma in_regionE:
  assumes "in_region a n x"
  obtains i where "i < n" "i < 2 ^ 64" "x = a + of_nat i"
proof
  show "unat (x - a) < n" using assms by (simp add: in_region_def)
  show "unat (x - a) < 2 ^ 64" by simp
  show "x = a + of_nat (unat (x - a))" by simp
qed

lemma in_region_mono: "in_region a n x \<Longrightarrow> n \<le> n' \<Longrightarrow> in_region a n' x"
  by (simp add: in_region_def)

lemma in_region_sub:
  assumes "in_region (a + of_nat j) n x" "j + n \<le> k" "k \<le> 2 ^ 64"
  shows "in_region a k x"
proof -
  from assms(1) obtain i where i: "i < n" "x = a + of_nat j + of_nat i" by (auto elim: in_regionE)
  then have "x = a + of_nat (j + i)" by simp
  then show ?thesis using i(1) assms(2,3) by (simp del: of_nat_add)
qed

text \<open>Regions given by plain bounds, when they do not wrap.\<close>

lemma in_region_iff_bounds:
  assumes "unat a + n \<le> 2 ^ 64"
  shows "in_region a n x \<longleftrightarrow> unat a \<le> unat x \<and> unat x < unat a + n"
proof (cases "a \<le> x")
  case True
  then have "unat (x - a) = unat x - unat a" by (rule unat_sub)
  with True show ?thesis by (auto simp: in_region_def word_le_nat_alt)
next
  case False
  then have "unat (x - a) = 2 ^ 64 + unat x - unat a"
    by (simp add: unat_sub_if' word_le_nat_alt)
  with False assms show ?thesis by (auto simp: in_region_def word_le_nat_alt)
qed

subsection \<open>Byte ranges\<close>

definition rd_bytes :: "memory \<Rightarrow> u64 \<Rightarrow> nat \<Rightarrow> u8 list" where
  "rd_bytes mem a n = map (\<lambda>i. mem (a + of_nat i)) [0..<n]"

definition wr_bytes :: "u64 \<Rightarrow> u8 list \<Rightarrow> memory \<Rightarrow> memory" where
  "wr_bytes a bs mem = (\<lambda>x. if in_region a (length bs) x then bs ! unat (x - a) else mem x)"

definition fill_bytes :: "u64 \<Rightarrow> nat \<Rightarrow> u8 \<Rightarrow> memory \<Rightarrow> memory" where
  "fill_bytes a n v mem = (\<lambda>x. if in_region a n x then v else mem x)"

lemma length_rd_bytes [simp]: "length (rd_bytes mem a n) = n"
  by (simp add: rd_bytes_def)

lemma nth_rd_bytes [simp]: "i < n \<Longrightarrow> rd_bytes mem a n ! i = mem (a + of_nat i)"
  by (simp add: rd_bytes_def)

lemma rd_bytes_0 [simp]: "rd_bytes mem a 0 = []"
  by (simp add: rd_bytes_def)

lemma rd_bytes_cong:
  "(\<And>i. i < n \<Longrightarrow> mem (a + of_nat i) = mem' (b + of_nat i)) \<Longrightarrow> rd_bytes mem a n = rd_bytes mem' b n"
  by (simp add: rd_bytes_def)

lemma rd_bytes_eqD: "rd_bytes mem a n = xs \<Longrightarrow> i < n \<Longrightarrow> mem (a + of_nat i) = xs ! i"
  by auto

lemma wr_bytes_offset [mem_simps]:
  "i < length bs \<Longrightarrow> i < 2 ^ 64 \<Longrightarrow> wr_bytes a bs mem (a + of_nat i) = bs ! i"
  by (simp add: wr_bytes_def)

lemma wr_bytes_other [mem_simps]: "\<not> in_region a (length bs) x \<Longrightarrow> wr_bytes a bs mem x = mem x"
  by (simp add: wr_bytes_def)

lemma wr_bytes_Nil [simp]: "wr_bytes a [] mem = mem"
  by (simp add: wr_bytes_def)

lemma rd_bytes_wr_bytes [mem_simps]:
  "length bs \<le> 2 ^ 64 \<Longrightarrow> rd_bytes (wr_bytes a bs mem) a (length bs) = bs"
  by (rule nth_equalityI) (simp_all add: mem_simps)

lemma fill_bytes_offset [mem_simps]: "i < n \<Longrightarrow> i < 2 ^ 64 \<Longrightarrow> fill_bytes a n v mem (a + of_nat i) = v"
  by (simp add: fill_bytes_def)

lemma fill_bytes_other [mem_simps]: "\<not> in_region a n x \<Longrightarrow> fill_bytes a n v mem x = mem x"
  by (simp add: fill_bytes_def)

lemma rd_bytes_append: "rd_bytes mem a (n + k) = rd_bytes mem a n @ rd_bytes mem (a + of_nat n) k"
proof (rule nth_equalityI)
  fix i assume i: "i < length (rd_bytes mem a (n + k))"
  show "rd_bytes mem a (n + k) ! i = (rd_bytes mem a n @ rd_bytes mem (a + of_nat n) k) ! i"
  proof (cases "i < n")
    case True
    with i show ?thesis by (simp add: nth_append)
  next
    case False
    with i have "a + of_nat i = a + of_nat n + of_nat (i - n)"
      by (simp add: add.assoc flip: of_nat_add)
    with False i show ?thesis by (simp add: nth_append)
  qed
qed simp

lemma not_in_sub_region:
  "i < 2 ^ 64 \<Longrightarrow> j < 2 ^ 64 \<Longrightarrow> i < j \<Longrightarrow> j + n \<le> 2 ^ 64 \<Longrightarrow> \<not> in_region (a + of_nat j) n (a + of_nat i)"
proof -
  assume h: "i < 2 ^ 64" "j < 2 ^ 64" "i < j" "j + n \<le> 2 ^ 64"
  then have "unat (of_nat i - of_nat j :: u64) = 2 ^ 64 + i - j"
    by (simp add: unat_sub_if')
  then have "n \<le> unat (of_nat i - of_nat j :: u64)" using h by simp
  then show ?thesis by (simp add: in_region_def)
qed

lemma in_region_shift:
  assumes "i < 2 ^ 64" "j < 2 ^ 64" "j + n \<le> 2 ^ 64"
  shows "in_region (a + of_nat j) n (a + of_nat i) \<longleftrightarrow> j \<le> i \<and> i < j + n"
proof (cases "j \<le> i")
  case True
  then have eq: "a + of_nat i = (a + of_nat j) + of_nat (i - j)" by (simp flip: of_nat_add)
  have "in_region (a + of_nat j) n (a + of_nat i) \<longleftrightarrow> i - j < n"
    unfolding eq using assms(1) by (intro in_region_offset) simp
  with True show ?thesis by auto
next
  case False
  with assms not_in_sub_region show ?thesis by auto
qed

text \<open>Replacing the bytes from an offset on.\<close>

definition overwrite :: "'a list \<Rightarrow> nat \<Rightarrow> 'a list \<Rightarrow> 'a list" where
  "overwrite old off bs = take off old @ bs @ drop (off + length bs) old"

lemma length_overwrite [simp]: "off + length bs \<le> length old \<Longrightarrow> length (overwrite old off bs) = length old"
  by (simp add: overwrite_def)

lemma nth_overwrite: "off + length bs \<le> length old \<Longrightarrow> p < length old \<Longrightarrow>
    overwrite old off bs ! p = (if off \<le> p \<and> p < off + length bs then bs ! (p - off) else old ! p)"
  by (auto simp: overwrite_def nth_append)

lemma overwrite_Nil [simp]: "overwrite old off [] = old"
  by (simp add: overwrite_def)

lemma overwrite_append2: "length xs \<le> off \<Longrightarrow> overwrite (xs @ ys) off bs = xs @ overwrite ys (off - length xs) bs"
  by (simp add: overwrite_def)

lemma overwrite_append1: "off + length bs \<le> length xs \<Longrightarrow> overwrite (xs @ ys) off bs = overwrite xs off bs @ ys"
  by (simp add: overwrite_def)

lemma overwrite_across:
  "off + length bs1 = length xs \<Longrightarrow> overwrite (xs @ ys) off (bs1 @ bs2) = overwrite xs off bs1 @ overwrite ys 0 bs2"
proof -
  assume h: "off + length bs1 = length xs"
  then have "off + (length bs1 + length bs2) - length xs = length bs2" by linarith
  with h show ?thesis by (simp add: overwrite_def)
qed

lemma take_drop_overwrite: "off + length bs \<le> length old \<Longrightarrow> take (length bs) (drop off (overwrite old off bs)) = bs"
  by (simp add: overwrite_def)

lemma rd_bytes_wr_bytes_at:
  assumes "o' + length bs \<le> n" "n \<le> 2 ^ 64"
  shows "rd_bytes (wr_bytes (a + of_nat o') bs mem) a n = overwrite (rd_bytes mem a n) o' bs"
proof (rule nth_equalityI)
  fix i assume "i < length (rd_bytes (wr_bytes (a + of_nat o') bs mem) a n)"
  then have i: "i < n" by simp
  show "rd_bytes (wr_bytes (a + of_nat o') bs mem) a n ! i = overwrite (rd_bytes mem a n) o' bs ! i"
  proof (cases "bs = []")
    case False
    then have "o' < 2 ^ 64" using assms by (cases bs) auto
    then have r: "in_region (a + of_nat o') (length bs) (a + of_nat i) \<longleftrightarrow> o' \<le> i \<and> i < o' + length bs"
      using assms i by (intro in_region_shift) auto
    show ?thesis
    proof (cases "o' \<le> i \<and> i < o' + length bs")
      case True
      then have "a + of_nat i - (a + of_nat o') = of_nat (i - o')" by (simp add: of_nat_diff)
      then have "unat (a + of_nat i - (a + of_nat o')) = i - o'" using i assms(2) by (simp only: unat_of_nat_u64)
      with True r i assms(1) show ?thesis by (simp add: wr_bytes_def nth_overwrite)
    next
      case False
      with r i assms(1) show ?thesis by (auto simp: wr_bytes_def nth_overwrite)
    qed
  qed (use i in simp)
qed (use assms in simp)

lemma rd_bytes_slice: "i + k \<le> n \<Longrightarrow> rd_bytes mem (a + of_nat i) k = take k (drop i (rd_bytes mem a n))"
  by (rule nth_equalityI) (simp_all add: add.assoc)

lemma rd_bytes_same: "(\<And>i. i < n \<Longrightarrow> mem (a + of_nat i) = mem' (a + of_nat i)) \<Longrightarrow> rd_bytes mem a n = rd_bytes mem' a n"
  by (rule rd_bytes_cong)

text \<open>A 32- or 64-bit store touches only its own bytes.\<close>

lemma wr32_other [mem_simps]: "\<not> in_region a 4 x \<Longrightarrow> wr32 a v mem x = mem x"
  using in_region_offset [of 0 a 4] in_region_offset [of 1 a 4] in_region_offset [of 2 a 4]
    in_region_offset [of 3 a 4]
  by (auto simp: wr32_def wr16_def add.assoc)

lemma wr64_other [mem_simps]: "\<not> in_region a 8 x \<Longrightarrow> wr64 a v mem x = mem x"
  using in_region_offset [of 0 a 8] in_region_offset [of 1 a 8] in_region_offset [of 2 a 8]
    in_region_offset [of 3 a 8] in_region_offset [of 4 a 8] in_region_offset [of 5 a 8]
    in_region_offset [of 6 a 8] in_region_offset [of 7 a 8]
  by (auto simp: wr64_def wr32_def wr16_def add.assoc)

section \<open>Loops\<close>

text \<open>
  Index ranges with numeral bounds: unfolded only where a proof evaluates one (\<open>upt_eval\<close>), since the
  code's ranges go up to 512.
\<close>

declare upt_rec_numeral [simp del]

lemma upt_0_numeral: "[0..<numeral n] = 0 # [Suc 0..<numeral n]"
  by (simp add: upt_conv_Cons)

lemma upt_1_numeral: "[Suc 0..<numeral n] = (if (1::nat) < numeral n then Suc 0 # [2..<numeral n] else [])"
  by (simp add: upt_conv_Cons numeral_2_eq_2)

lemmas upt_eval = upt_0_numeral upt_1_numeral upt_rec_numeral

text \<open>
  \<open>for i in 0..n\<close> with a body that updates the state is \<open>fold\<close> over \<open>[0..<n]\<close>. A body that may
  not return makes it \<open>for_opt\<close>.
\<close>

fun for_opt :: "('i \<Rightarrow> 's \<Rightarrow> 's option) \<Rightarrow> 'i list \<Rightarrow> 's \<Rightarrow> 's option" where
  "for_opt f [] s = Some s"
| "for_opt f (i # is) s = (case f i s of None \<Rightarrow> None | Some s' \<Rightarrow> for_opt f is s')"

lemma for_opt_append: "for_opt f (xs @ ys) s = Option.bind (for_opt f xs s) (for_opt f ys)"
  by (induction xs arbitrary: s) (auto split: option.splits)

lemma for_opt_snoc: "for_opt f (xs @ [x]) s = (case for_opt f xs s of None \<Rightarrow> None | Some t \<Rightarrow> f x t)"
  by (auto simp: for_opt_append split: option.splits)

lemma for_opt_upt_Suc: "for_opt f [0..<Suc n] s = (case for_opt f [0..<n] s of None \<Rightarrow> None | Some t \<Rightarrow> f n t)"
  by (simp add: for_opt_snoc)

lemma for_opt_map: "for_opt f (map g xs) s = for_opt (\<lambda>x. f (g x)) xs s"
  by (induction xs arbitrary: s) (auto split: option.splits)

lemma for_opt_cong: "(\<And>i s. i \<in> set xs \<Longrightarrow> f i s = g i s) \<Longrightarrow> for_opt f xs s = for_opt g xs s"
  by (induction xs arbitrary: s) (auto split: option.splits)

lemma for_opt_invariant:
  assumes "for_opt f xs s = Some s'" and "P s"
    and "\<And>i s s'. i \<in> set xs \<Longrightarrow> P s \<Longrightarrow> f i s = Some s' \<Longrightarrow> P s'"
  shows "P s'"
  using assms
proof (induction xs arbitrary: s)
  case Nil
  then show ?case by simp
next
  case (Cons x xs)
  then obtain t where t: "f x s = Some t" "for_opt f xs t = Some s'"
    by (auto split: option.splits)
  from Cons.prems(3) [OF _ Cons.prems(2) t(1)] have "P t" by simp
  with t(2) show ?case by (rule Cons.IH) (rule Cons.prems(3) [OF list.set_intros(2)])
qed

lemma fold_invariant_upt:
  assumes "P 0 s" and "\<And>i s. i < n \<Longrightarrow> P i s \<Longrightarrow> P (Suc i) (f i s)"
  shows "P n (fold f [0..<n] s)"
  using assms(2)
proof (induction n)
  case 0
  show ?case using assms(1) by simp
next
  case (Suc n)
  from Suc.IH Suc.prems have "P n (fold f [0..<n] s)" by simp
  with Suc.prems [of n] show ?case by simp
qed

lemma find_append: "find P (xs @ ys) = (case find P xs of None \<Rightarrow> find P ys | Some x \<Rightarrow> Some x)"
  by (induction xs) auto

text \<open>
  \<open>while c && timeout > 0 { body; timeout -= 1 }\<close>: the counter left when the loop stops, and
  the state. The caller tests whether the counter is 0, as the source does.
\<close>

fun poll :: "('s \<Rightarrow> bool) \<Rightarrow> ('s \<Rightarrow> 's) \<Rightarrow> nat \<Rightarrow> 's \<Rightarrow> nat \<times> 's" where
  "poll c body 0 s = (0, s)"
| "poll c body (Suc t) s = (if c s then poll c body t (body s) else (Suc t, s))"

lemma poll_unfold:
  "poll c body t s = (if t = 0 then (0, s) else if c s then poll c body (t - 1) (body s) else (t, s))"
  by (cases t) simp_all

lemma poll_stops_at:
  assumes "\<And>j. j < k \<Longrightarrow> c ((body ^^ j) s)" and "\<not> c ((body ^^ k) s)" and "k < t"
  shows "poll c body t s = (t - k, (body ^^ k) s)"
  using assms
proof (induction k arbitrary: t s)
  case 0
  then show ?case by (cases t) simp_all
next
  case (Suc k)
  obtain t' where t: "t = Suc t'" using Suc.prems(3) by (cases t) auto
  have "poll c body t' (body s) = (t' - k, (body ^^ k) (body s))"
  proof (rule Suc.IH)
    show "c ((body ^^ j) (body s))" if "j < k" for j
      using Suc.prems(1) [of "Suc j"] that by (simp add: funpow_swap1)
    show "\<not> c ((body ^^ k) (body s))" using Suc.prems(2) by (simp add: funpow_swap1)
    show "k < t'" using Suc.prems(3) t by simp
  qed
  with Suc.prems(1) [of 0] t show ?case by (simp add: funpow_swap1)
qed

text \<open>A polling loop runs out of its timeout, or stops at the first state where the condition is off.\<close>

lemma poll_expires: "(\<And>j. j < t \<Longrightarrow> c ((body ^^ j) s)) \<Longrightarrow> poll c body t s = (0, (body ^^ t) s)"
proof (induction t arbitrary: s)
  case (Suc t)
  have "c ((body ^^ j) (body s))" if "j < t" for j
    using Suc.prems [of "Suc j"] that by (simp add: funpow_swap1)
  with Suc.IH [of "body s"] Suc.prems [of 0] show ?case by (simp add: funpow_swap1)
qed simp

lemma poll_cases:
  obtains (expired) "\<And>j. j < t \<Longrightarrow> c ((body ^^ j) s)" "poll c body t s = (0, (body ^^ t) s)"
  | (stopped) k where "k < t" "\<And>j. j < k \<Longrightarrow> c ((body ^^ j) s)" "\<not> c ((body ^^ k) s)"
      "poll c body t s = (t - k, (body ^^ k) s)"
proof (cases "\<exists>k<t. \<not> c ((body ^^ k) s)")
  case True
  define k where "k = (LEAST k. \<not> c ((body ^^ k) s))"
  from True obtain k' where k': "k' < t" "\<not> c ((body ^^ k') s)" by blast
  have "\<not> c ((body ^^ k) s)" unfolding k_def using k'(2) by (rule LeastI)
  moreover have "k < t" using k' Least_le [of "\<lambda>k. \<not> c ((body ^^ k) s)" k'] by (simp add: k_def)
  moreover have "c ((body ^^ j) s)" if "j < k" for j using not_less_Least [of j] that k_def by blast
  ultimately show thesis using poll_stops_at [of k c body s t] stopped by blast
next
  case False
  then show thesis using poll_expires [of t c body s] expired by blast
qed

lemma poll_now [simp]: "\<not> c s \<Longrightarrow> poll c body t s = (t, s)"
  by (cases t) simp_all

lemma poll_le: "fst (poll c body t s) \<le> t"
  by (induction t arbitrary: s) (auto simp: le_Suc_eq)

end
