(* ===== verification/Machine.thy ===== *)
theory Machine imports Prelude begin

text \<open>
  The machine the drivers run on: physical memory, which the model has in full, and the devices,
  which are not code of the repository. The devices are a parameter: a state of any type
  \<open>'d\<close> and a \<open>bus\<close> that says what a register read returns, what a register or port write does to
  the devices, and how far devices (and their DMA into memory) get while the CPU spins. What a
  driver relies on of its device is stated as a hypothesis on the bus where it is needed.
\<close>

record 'd machine =
  ram :: memory
  dev :: 'd

record 'd bus =
  mmio_rd :: "u64 \<Rightarrow> 'd \<Rightarrow> u32"
  mmio_wr :: "u64 \<Rightarrow> u32 \<Rightarrow> 'd \<Rightarrow> 'd"
  spin :: "nat \<Rightarrow> 'd machine \<Rightarrow> 'd machine"
  pio_in8 :: "u16 \<Rightarrow> 'd \<Rightarrow> u8 \<times> 'd"
  pio_out8 :: "u16 \<Rightarrow> u8 \<Rightarrow> 'd \<Rightarrow> 'd"
  pio_in32 :: "u16 \<Rightarrow> 'd \<Rightarrow> u32 \<times> 'd"
  pio_out32 :: "u16 \<Rightarrow> u32 \<Rightarrow> 'd \<Rightarrow> 'd"
  rdtsc :: "'d \<Rightarrow> u64 \<times> 'd"
  rdmsr :: "u32 \<Rightarrow> 'd \<Rightarrow> u64"

text \<open>Register access and stores to memory, as updates of the machine.\<close>

definition reg_rd :: "'d bus \<Rightarrow> u64 \<Rightarrow> 'd machine \<Rightarrow> u32" where
  "reg_rd bus a m = mmio_rd bus a (dev m)"

definition reg_wr :: "'d bus \<Rightarrow> u64 \<Rightarrow> u32 \<Rightarrow> 'd machine \<Rightarrow> 'd machine" where
  "reg_wr bus a v m = m\<lparr>dev := mmio_wr bus a v (dev m)\<rparr>"

definition in8 :: "'d bus \<Rightarrow> u16 \<Rightarrow> 'd machine \<Rightarrow> u8 \<times> 'd machine" where
  "in8 bus p m = (case pio_in8 bus p (dev m) of (v, d) \<Rightarrow> (v, m\<lparr>dev := d\<rparr>))"

definition out8 :: "'d bus \<Rightarrow> u16 \<Rightarrow> u8 \<Rightarrow> 'd machine \<Rightarrow> 'd machine" where
  "out8 bus p v m = m\<lparr>dev := pio_out8 bus p v (dev m)\<rparr>"

definition on_ram :: "(memory \<Rightarrow> memory) \<Rightarrow> 'd machine \<Rightarrow> 'd machine" where
  "on_ram f m = m\<lparr>ram := f (ram m)\<rparr>"

definition st8 :: "u64 \<Rightarrow> u8 \<Rightarrow> memory \<Rightarrow> memory" where
  "st8 a v mem = mem(a := v)"

text \<open>Byte stores at fixed offsets from a base, in order.\<close>

definition st8s :: "u64 \<Rightarrow> (nat \<times> u8) list \<Rightarrow> memory \<Rightarrow> memory" where
  "st8s a ws mem = fold (\<lambda>(i, v). st8 (a + of_nat i) v) ws mem"

lemma on_ram_simps [simp]: "ram (on_ram f m) = f (ram m)" "dev (on_ram f m) = dev m"
  by (simp_all add: on_ram_def)

lemma on_ram_on_ram [simp]: "on_ram f (on_ram g m) = on_ram (f \<circ> g) m"
  by (simp add: on_ram_def)

lemma reg_wr_simps [simp]: "ram (reg_wr bus a v m) = ram m"
    "dev (reg_wr bus a v m) = mmio_wr bus a v (dev m)"
  by (simp_all add: reg_wr_def)

lemma reg_rd_on_ram [simp]: "reg_rd bus a (on_ram f m) = reg_rd bus a m"
  by (simp add: reg_rd_def)

lemma machine_eqI: "ram m = ram m' \<Longrightarrow> dev m = dev m' \<Longrightarrow> m = m'"
  for m m' :: "'d machine"
  by (cases m; cases m') simp

lemma st8_other [mem_simps]: "x \<noteq> a \<Longrightarrow> st8 a v mem x = mem x"
  by (simp add: st8_def)

lemma st8s_other:
  "\<not> in_region a n x \<Longrightarrow> (\<And>i v. (i, v) \<in> set ws \<Longrightarrow> i < n \<and> i < 2 ^ 64) \<Longrightarrow> st8s a ws mem x = mem x"
proof (induction ws arbitrary: mem)
  case Nil
  then show ?case by (simp add: st8s_def)
next
  case (Cons w ws)
  obtain i v where w: "w = (i, v)" by (cases w)
  have "i < n \<and> i < 2 ^ 64" using Cons.prems(2) [of i v] by (simp add: w)
  then have "x \<noteq> a + of_nat i" using Cons.prems(1) by auto
  moreover have "st8s a ws (st8 (a + of_nat i) v mem) x = st8 (a + of_nat i) v mem x"
    by (rule Cons.IH) (use Cons.prems in auto)
  ultimately show ?case by (simp add: w st8s_def st8_def)
qed

lemma st8s_Nil [simp]: "st8s a [] mem = mem"
  by (simp add: st8s_def)

lemma st8s_Cons [simp]: "st8s a ((i, v) # ws) mem = st8s a ws (st8 (a + of_nat i) v mem)"
  by (simp add: st8s_def)

lemma st8s_at:
  "distinct (map fst ws) \<Longrightarrow> (\<And>j w. (j, w) \<in> set ws \<Longrightarrow> j < 2 ^ 64) \<Longrightarrow> i < 2 ^ 64 \<Longrightarrow>
    st8s a ws mem (a + of_nat i) = (case map_of ws i of Some v \<Rightarrow> v | None \<Rightarrow> mem (a + of_nat i))"
proof (induction ws arbitrary: mem)
  case Nil
  then show ?case by simp
next
  case (Cons w ws)
  obtain j v where w: "w = (j, v)" by (cases w)
  have j: "j < 2 ^ 64" using Cons.prems(2) [of j v] by (simp add: w)
  have IH: "st8s a ws mem' (a + of_nat i) = (case map_of ws i of Some v \<Rightarrow> v | None \<Rightarrow> mem' (a + of_nat i))" for mem'
    by (rule Cons.IH) (use Cons.prems w in auto)
  have eq: "a + of_nat i = a + of_nat j \<longleftrightarrow> i = j" using j Cons.prems(3) by (rule add_of_nat_u64_inj [rotated])
  have ne: "of_nat i = (of_nat j :: u64) \<longleftrightarrow> i = j" using eq by simp
  show ?case
  proof (cases "i = j")
    case True
    then have "map_of ws i = None" using Cons.prems(1) by (simp add: w map_of_eq_None_iff)
    then show ?thesis using True IH [of "st8 (a + of_nat j) v mem"] by (simp add: w st8_def)
  next
    case False
    then show ?thesis using ne IH [of "st8 (a + of_nat j) v mem"]
      by (simp add: w st8_def split: option.splits)
  qed
qed

end
