(* ===== verification/Block_Device.thy ===== *)
theory Block_Device imports Machine begin

text \<open>
  What the file system relies on of the disk: reading a sector puts its 512 bytes into the data
  buffer, writing one stores the buffer's bytes on the disk, and apart from the buffer and
  the driver's own command structures (\<open>scratch\<close>) memory is unchanged. \<open>valid\<close> says which sectors
  the disk has. The AHCI driver provides it (\<open>Ahci\<close>).

  The file system reaches the disk through four global variables and two driver calls. \<open>disk_io\<close>
  holds what it sees of them: the port (\<open>AHCI_PORT\<close>, an \<open>i32\<close>, \<open>-1\<close> when there is none), the address
  of the data buffer (\<open>AHCI_DATA_PTR\<close>), and the calls \<open>ahci::read_sector\<close> and \<open>write_sector\<close> on
  a sector number. Every call site drops the driver's success flag, so a call yields the machine
  after it, or \<open>None\<close> when it never returns.
\<close>

record 'd disk_io =
  io_port :: u32
  io_data :: u64
  io_read :: "u64 \<Rightarrow> 'd machine \<Rightarrow> 'd machine option"
  io_write :: "u64 \<Rightarrow> 'd machine \<Rightarrow> 'd machine option"
  io_spin :: "nat \<Rightarrow> 'd machine \<Rightarrow> 'd machine"

locale block_device =
  fixes io :: "'d disk_io"
    and disk :: "'d machine \<Rightarrow> u64 \<Rightarrow> u8 list"
    and valid :: "u64 \<Rightarrow> bool"
    and scratch :: "u64 \<Rightarrow> bool"
    and inv :: "'d machine \<Rightarrow> bool"
  assumes port_present: "inv m \<Longrightarrow> io_port io \<noteq> -1"
    and sector_length: "inv m \<Longrightarrow> length (disk m l) = 512"
    and read_ok: "inv m \<Longrightarrow> valid l \<Longrightarrow> \<exists>m'. io_read io l m = Some m' \<and> inv m' \<and> disk m' = disk m
        \<and> rd_bytes (ram m') (io_data io) 512 = disk m l \<and> (\<forall>x. \<not> scratch x \<longrightarrow> ram m' x = ram m x)"
    and write_ok: "inv m \<Longrightarrow> valid l \<Longrightarrow> \<exists>m'. io_write io l m = Some m' \<and> inv m'
        \<and> disk m' = (disk m)(l := rd_bytes (ram m) (io_data io) 512) \<and> (\<forall>x. \<not> scratch x \<longrightarrow> ram m' x = ram m x)"
    and spin_ok: "inv m \<Longrightarrow> inv (io_spin io n m) \<and> disk (io_spin io n m) = disk m
        \<and> (\<forall>x. \<not> scratch x \<longrightarrow> ram (io_spin io n m) x = ram m x)"
    and buffer_scratch: "inv m \<Longrightarrow> in_region (io_data io) 512 x \<Longrightarrow> scratch x"
    and ram_inv_iff: "inv (on_ram f m) = inv m"
    and ram_disk: "disk (on_ram f m) = disk m"
begin

lemma readE:
  assumes "inv m" "valid l"
  obtains m' where "io_read io l m = Some m'" "inv m'" "disk m' = disk m"
    "rd_bytes (ram m') (io_data io) 512 = disk m l" "\<And>x. \<not> scratch x \<Longrightarrow> ram m' x = ram m x"
  using read_ok [OF assms] by blast

lemma writeE:
  assumes "inv m" "valid l"
  obtains m' where "io_write io l m = Some m'" "inv m'" "disk m' = (disk m)(l := rd_bytes (ram m) (io_data io) 512)"
    "\<And>x. \<not> scratch x \<Longrightarrow> ram m' x = ram m x"
  using write_ok [OF assms] by blast

text \<open>A step that leaves the disk alone, and memory apart from the driver's.\<close>

definition keeps :: "'d machine \<Rightarrow> 'd machine \<Rightarrow> bool" where
  "keeps m m' \<longleftrightarrow> inv m' \<and> disk m' = disk m \<and> (\<forall>x. \<not> scratch x \<longrightarrow> ram m' x = ram m x)"

lemma keeps_refl: "inv m \<Longrightarrow> keeps m m"
  by (simp add: keeps_def)

lemma keeps_trans: "keeps m m' \<Longrightarrow> keeps m' m'' \<Longrightarrow> keeps m m''"
  by (simp add: keeps_def)

lemma keepsD: "keeps m m' \<Longrightarrow> inv m'" "keeps m m' \<Longrightarrow> disk m' = disk m"
    "keeps m m' \<Longrightarrow> \<not> scratch x \<Longrightarrow> ram m' x = ram m x"
  by (simp_all add: keeps_def)

lemma spin_keeps: "inv m \<Longrightarrow> keeps m (io_spin io n m)"
  using spin_ok unfolding keeps_def by blast

lemma read_keeps:
  assumes "inv m" "valid l"
  obtains m' where "io_read io l m = Some m'" "keeps m m'" "rd_bytes (ram m') (io_data io) 512 = disk m l"
  using read_ok [OF assms] unfolding keeps_def by blast

text \<open>Reading a sector, changing bytes of the buffer and writing it back.\<close>

lemma read_modify_write:
  assumes "inv m" "valid l"
    and f: "\<And>mem. rd_bytes mem (io_data io) 512 = disk m l \<Longrightarrow> rd_bytes (f mem) (io_data io) 512 = xs"
    and frame: "\<And>mem x. \<not> scratch x \<Longrightarrow> f mem x = mem x"
  shows "\<exists>m1 m2. io_read io l m = Some m1 \<and> io_write io l (on_ram f m1) = Some m2 \<and> inv m2
      \<and> disk m2 = (disk m)(l := xs) \<and> (\<forall>x. \<not> scratch x \<longrightarrow> ram m2 x = ram m x)"
proof -
  from assms(1,2) obtain m1 where m1: "io_read io l m = Some m1" "inv m1" "disk m1 = disk m"
      "rd_bytes (ram m1) (io_data io) 512 = disk m l" "\<And>x. \<not> scratch x \<Longrightarrow> ram m1 x = ram m x"
    by (rule readE) blast
  have "inv (on_ram f m1)" using m1 by (simp add: ram_inv_iff)
  then obtain m2 where m2: "io_write io l (on_ram f m1) = Some m2" "inv m2"
      "disk m2 = (disk (on_ram f m1))(l := rd_bytes (ram (on_ram f m1)) (io_data io) 512)"
      "\<And>x. \<not> scratch x \<Longrightarrow> ram m2 x = ram (on_ram f m1) x"
    by (rule writeE [OF _ assms(2)]) blast
  show ?thesis
    using m1 m2 f [OF m1(4)] frame by (auto simp: ram_disk)
qed

text \<open>What was written is what is read back, and no other sector changes.\<close>

lemma write_then_read:
  assumes "inv m" "valid l" "valid l'"
  shows "\<exists>m1 m2. io_write io l m = Some m1 \<and> io_read io l' m1 = Some m2 \<and> inv m2
      \<and> rd_bytes (ram m2) (io_data io) 512 = (if l' = l then rd_bytes (ram m) (io_data io) 512 else disk m l')"
proof -
  from assms(1,2) obtain m1 where m1: "io_write io l m = Some m1" "inv m1"
      "disk m1 = (disk m)(l := rd_bytes (ram m) (io_data io) 512)" "\<And>x. \<not> scratch x \<Longrightarrow> ram m1 x = ram m x"
    by (rule writeE) blast
  from m1(2) assms(3) obtain m2 where "io_read io l' m1 = Some m2" "inv m2" "disk m2 = disk m1"
      "rd_bytes (ram m2) (io_data io) 512 = disk m1 l'" "\<And>x. \<not> scratch x \<Longrightarrow> ram m2 x = ram m1 x"
    by (rule readE) blast
  with m1 show ?thesis by auto
qed

end

end
