(* ===== verification/Ahci.thy ===== *)
theory Ahci imports Block_Device begin

text \<open>
  The AHCI driver, \<open>kernel/src/ahci.rs\<close>, and the sector write of
  \<open>kernel/src/boot/sys_write_file.rs\<close>. Registers are reached through the bus at the offsets of
  \<open>HbaMem\<close> and \<open>HbaPort\<close>; the command header, the command FIS and the PRDT entry are bytes of
  memory at the offsets of \<open>CommandHeader\<close>, \<open>CommandTable\<close> and \<open>PrdtEntry\<close>. Polling loops keep
  their timeouts. \<open>ports[port_idx]\<close> is bounds-checked, so a port index of 32 or more panics.
\<close>

section \<open>State\<close>

record ahci_globals =
  AHCI_ABAR :: u64
  AHCI_PORT :: u32
  AHCI_CT_BASE :: u64
  AHCI_DATA_PTR :: u64

definition port_as_usize :: "ahci_globals \<Rightarrow> nat" where
  "port_as_usize g = unat (scast (AHCI_PORT g) :: u64)"

definition port_base :: "u64 \<Rightarrow> nat \<Rightarrow> u64" where
  "port_base abar port_idx = abar + 0x100 + of_nat port_idx * 0x80"

abbreviation (input) "PxCLB p \<equiv> p"
abbreviation (input) "PxCLBU p \<equiv> p + (0x04 :: u64)"
abbreviation (input) "PxFB p \<equiv> p + (0x08 :: u64)"
abbreviation (input) "PxFBU p \<equiv> p + (0x0c :: u64)"
abbreviation (input) "PxIS p \<equiv> p + (0x10 :: u64)"
abbreviation (input) "PxIE p \<equiv> p + (0x14 :: u64)"
abbreviation (input) "PxCMD p \<equiv> p + (0x18 :: u64)"
abbreviation (input) "PxTFD p \<equiv> p + (0x20 :: u64)"
abbreviation (input) "PxSIG p \<equiv> p + (0x24 :: u64)"
abbreviation (input) "PxSSTS p \<equiv> p + (0x28 :: u64)"
abbreviation (input) "PxSCTL p \<equiv> p + (0x2c :: u64)"
abbreviation (input) "PxSERR p \<equiv> p + (0x30 :: u64)"
abbreviation (input) "PxCI p \<equiv> p + (0x38 :: u64)"

definition PxCMD_ST :: u32 where "PxCMD_ST = 0x0001"
definition PxCMD_FRE :: u32 where "PxCMD_FRE = 0x0010"
definition PxCMD_FR :: u32 where "PxCMD_FR = 0x4000"
definition PxCMD_CR :: u32 where "PxCMD_CR = 0x8000"
definition PxCMD_ATAPI :: u32 where "PxCMD_ATAPI = 0x0020"
definition PxIS_TFES :: u32 where "PxIS_TFES = push_bit 30 1"

text \<open>\<open>wait_cycles(n)\<close> and \<open>wait_ms(n)\<close>: the CPU spins. \<open>ms * 10000\<close> is a \<open>u32\<close> product.\<close>

definition wait_cycles :: "'d bus \<Rightarrow> u32 \<Rightarrow> 'd machine \<Rightarrow> 'd machine" where
  "wait_cycles bus n = spin bus (unat n)"

definition wait_ms :: "'d bus \<Rightarrow> u32 \<Rightarrow> 'd machine \<Rightarrow> 'd machine" where
  "wait_ms bus ms = spin bus (unat (ms * 10000))"

text \<open>\<open>while c(register) && timeout > 0 { wait_cycles(10); timeout -= 1; }\<close>\<close>

definition poll_reg :: "'d bus \<Rightarrow> u64 \<Rightarrow> (u32 \<Rightarrow> bool) \<Rightarrow> nat \<Rightarrow> 'd machine \<Rightarrow> nat \<times> 'd machine" where
  "poll_reg bus a c timeout m = poll (\<lambda>m. c (reg_rd bus a m)) (wait_cycles bus 10) timeout m"

lemma poll_reg_now: "\<not> c (reg_rd bus a m) \<Longrightarrow> poll_reg bus a c t m = (t, m)"
  by (simp add: poll_reg_def)

section \<open>Controller reset\<close>

definition get_implemented_ports :: "'d bus \<Rightarrow> u64 \<Rightarrow> 'd machine \<Rightarrow> u32" where
  "get_implemented_ports bus abar m = reg_rd bus (abar + 0x0c) m"

definition get_port_status :: "'d bus \<Rightarrow> u64 \<Rightarrow> nat \<Rightarrow> 'd machine \<Rightarrow> (u32 \<times> u32) option" where
  "get_port_status bus abar port_idx m =
    (if port_idx \<ge> 32 then None
     else Some (reg_rd bus (PxSSTS (port_base abar port_idx)) m, reg_rd bus (PxSIG (port_base abar port_idx)) m))"

definition reset_hba :: "'d bus \<Rightarrow> u64 \<Rightarrow> 'd machine \<Rightarrow> bool \<times> 'd machine" where
  "reset_hba bus abar m =
    (let ghc = abar + 0x04; val = reg_rd bus ghc m;
         m = (if val AND 0x80000000 = 0 then wait_ms bus 10 (reg_wr bus ghc (val OR 0x80000000) m) else m);
         val = reg_rd bus ghc m
     in if val AND 0x00000001 = 0
        then let m = reg_wr bus ghc (val OR 0x00000001) m;
                 (timeout, m) = poll_reg bus ghc (\<lambda>v. v AND 0x00000001 \<noteq> 0) 1000000 m
             in if timeout = 0 then (False, m)
                else let m = wait_ms bus 10 m; val = reg_rd bus ghc m
                     in (True, if val AND 0x80000000 = 0 then reg_wr bus ghc (val OR 0x80000000) m else m)
        else (True, m))"

section \<open>Port initialisation\<close>

text \<open>
  \<open>init_port\<close> in three phases, each ending early with \<open>False\<close> as the code returns: stop the port
  and reset the link; clear the structures and wait for the engines to stop; program the
  addresses and the command header and start the engines.
\<close>

definition init_port_link :: "'d bus \<Rightarrow> u64 \<Rightarrow> 'd machine \<Rightarrow> bool \<times> u32 \<times> 'd machine" where
  "init_port_link bus p m =
    (let cmd = reg_rd bus (PxCMD p) m;
         (cmd, m) = (if cmd AND PxCMD_ST \<noteq> 0
                     then let cmd = cmd AND NOT PxCMD_ST in (cmd, wait_cycles bus 1000 (reg_wr bus (PxCMD p) cmd m))
                     else (cmd, m));
         sctl = reg_rd bus (PxSCTL p) m;
         sctl = (sctl AND NOT 0x0F) OR 0x01;
         m = wait_ms bus 10 (reg_wr bus (PxSCTL p) sctl m);
         sctl = (sctl AND NOT 0x0F) OR 0x00;
         m = reg_wr bus (PxSCTL p) sctl m;
         (timeout, m) = poll_reg bus (PxSSTS p) (\<lambda>v. v AND 0x0F \<noteq> 0x03) 5000000 m
     in if timeout = 0 then (False, 0, m)
        else let sig = reg_rd bus (PxSIG p) m
             in (sig \<noteq> 0xEB140101, sig, m))"

definition init_port_stop :: "'d bus \<Rightarrow> u64 \<Rightarrow> u64 \<Rightarrow> u64 \<Rightarrow> u64 \<Rightarrow> 'd machine \<Rightarrow> bool \<times> 'd machine" where
  "init_port_stop bus p cl fb ct m =
    (let m = on_ram (fill_bytes ct 256 0 \<circ> fill_bytes fb 256 0 \<circ> fill_bytes cl 1024 0) m;
         m = reg_wr bus (PxIS p) 0xFFFFFFFF m;
         m = reg_wr bus (PxSERR p) 0xFFFFFFFF m;
         m = reg_wr bus (PxIE p) 0 m;
         cmd = reg_rd bus (PxCMD p) m;
         cmd = cmd AND NOT (PxCMD_ST OR PxCMD_FRE);
         cmd = cmd AND NOT PxCMD_ATAPI;
         m = reg_wr bus (PxCMD p) cmd m;
         (timeout, m) = poll_reg bus (PxCMD p) (\<lambda>v. v AND PxCMD_CR \<noteq> 0) 1000000 m
     in if timeout = 0 then (False, m)
        else let (timeout, m) = poll_reg bus (PxCMD p) (\<lambda>v. v AND PxCMD_FR \<noteq> 0) 1000000 m
             in (timeout \<noteq> 0, m))"

definition command_header :: "u64 \<Rightarrow> u64 \<Rightarrow> memory \<Rightarrow> memory" where
  "command_header cl ct mem =
    wr16 cl 0x05 (wr32 (cl + 4) 0 (wr16 (cl + 2) 1
      (wr32 (cl + 12) (ucast (drop_bit 32 ct)) (wr32 (cl + 8) (ucast ct) mem))))"

definition init_port_start :: "'d bus \<Rightarrow> u64 \<Rightarrow> u64 \<Rightarrow> u64 \<Rightarrow> u64 \<Rightarrow> 'd machine \<Rightarrow> bool \<times> 'd machine" where
  "init_port_start bus p cl fb ct m =
    (let m = reg_wr bus (PxCLB p) (ucast cl) m;
         m = reg_wr bus (PxCLBU p) (ucast (drop_bit 32 cl)) m;
         m = reg_wr bus (PxFB p) (ucast fb) m;
         m = reg_wr bus (PxFBU p) (ucast (drop_bit 32 fb)) m;
         m = on_ram (command_header cl ct) m;
         m = reg_wr bus (PxCMD p) (reg_rd bus (PxCMD p) m OR PxCMD_FRE) m;
         (timeout, m) = poll_reg bus (PxCMD p) (\<lambda>v. v AND PxCMD_FR = 0) 1000000 m
     in if timeout = 0 then (False, m)
        else let (timeout, m) = poll_reg bus (PxTFD p) (\<lambda>v. v AND 0x88 \<noteq> 0) 10000000 m;
                 m = reg_wr bus (PxCMD p) (reg_rd bus (PxCMD p) m OR PxCMD_ST) m;
                 (timeout, m) = poll_reg bus (PxCMD p) (\<lambda>v. v AND PxCMD_CR = 0) 1000000 m
             in (timeout \<noteq> 0, m))"

definition init_port :: "'d bus \<Rightarrow> u64 \<Rightarrow> nat \<Rightarrow> u64 \<Rightarrow> u64 \<Rightarrow> u64 \<Rightarrow> 'd machine \<Rightarrow> (bool \<times> 'd machine) option" where
  "init_port bus abar port_idx cl_phys fb_phys ct_phys m =
    (if port_idx \<ge> 32 then None
     else Some (let p = port_base abar port_idx; (ok, sig, m) = init_port_link bus p m
       in if \<not> ok then (False, m)
          else let (ok, m) = init_port_stop bus p cl_phys fb_phys ct_phys m
               in if \<not> ok then (False, m) else init_port_start bus p cl_phys fb_phys ct_phys m))"

section \<open>Reading and writing a sector\<close>

text \<open>The command FIS and the PRDT entry of a read, and of a write, as the code stores them.\<close>

definition read_fis :: "u64 \<Rightarrow> (nat \<times> u8) list" where
  "read_fis lba =
    [(0, 0x27), (1, 0x80), (2, 0x25), (3, 0x00),
     (4, ucast (lba AND 0xFF)), (5, ucast (drop_bit 8 lba AND 0xFF)), (6, ucast (drop_bit 16 lba AND 0xFF)),
     (7, 0x40),
     (8, ucast (drop_bit 24 lba AND 0xFF)), (9, ucast (drop_bit 32 lba AND 0xFF)), (10, ucast (drop_bit 40 lba AND 0xFF)),
     (11, 0x00), (12, 0x01), (13, 0x00)]"

definition write_fis :: "u64 \<Rightarrow> (nat \<times> u8) list" where
  "write_fis lba =
    [(0, 0x27), (1, 0x80), (2, 0x35),
     (4, ucast lba), (5, ucast (drop_bit 8 lba)), (6, ucast (drop_bit 16 lba)),
     (7, 0x40),
     (8, ucast (drop_bit 24 lba)), (9, ucast (drop_bit 32 lba)), (10, ucast (drop_bit 40 lba)),
     (12, 1)]"

definition set_prdt :: "u64 \<Rightarrow> u64 \<Rightarrow> memory \<Rightarrow> memory" where
  "set_prdt ct data mem =
    wr32 (ct + 140) (511 OR push_bit 31 1) (wr32 (ct + 132) (ucast (drop_bit 32 data)) (wr32 (ct + 128) (ucast data) mem))"

text \<open>The completion loop of \<open>read_sector\<close>: the counter left, whether a task file error was seen.\<close>

fun wait_ci :: "'d bus \<Rightarrow> u64 \<Rightarrow> nat \<Rightarrow> 'd machine \<Rightarrow> nat \<times> bool \<times> 'd machine" where
  "wait_ci bus p 0 m = (0, False, m)"
| "wait_ci bus p (Suc timeout) m =
    (if reg_rd bus (PxCI p) m AND 1 = 0 then (Suc timeout, False, m)
     else let is = reg_rd bus (PxIS p) m
          in if is AND PxIS_TFES \<noteq> 0 then (Suc timeout, True, reg_wr bus (PxIS p) is m)
             else wait_ci bus p timeout (wait_cycles bus 50 m))"

text \<open>The commands between the two waits: clear the status, build the command, issue it.\<close>

definition issue_read :: "'d bus \<Rightarrow> u64 \<Rightarrow> u64 \<Rightarrow> u64 \<Rightarrow> u64 \<Rightarrow> 'd machine \<Rightarrow> 'd machine" where
  "issue_read bus p lba ct dest m =
    (let m = reg_wr bus (PxIS p) 0xFFFFFFFF m;
         m = reg_wr bus (PxSERR p) 0xFFFFFFFF m;
         m = on_ram (set_prdt ct dest \<circ> st8s ct (read_fis lba) \<circ> fill_bytes ct 256 0) m
     in reg_wr bus (PxCI p) 1 m)"

definition read_sector ::
  "'d bus \<Rightarrow> u64 \<Rightarrow> nat \<Rightarrow> u64 \<Rightarrow> u64 \<Rightarrow> u64 \<Rightarrow> 'd machine \<Rightarrow> (bool \<times> 'd machine) option" where
  "read_sector bus abar port_idx lba ct dest m =
    (if port_idx \<ge> 32 then None
     else Some (let p = port_base abar port_idx;
              (timeout, m) = poll_reg bus (PxTFD p) (\<lambda>v. v AND 0x88 \<noteq> 0) 1000000 m
       in if timeout = 0 then (False, m)
          else let (timeout, tfes_detected, m) = wait_ci bus p 10000000 (issue_read bus p lba ct dest m)
               in if timeout = 0 then (False, m)
                  else if tfes_detected then (False, m) else (True, m)))"

text \<open>
  \<open>write_sector\<close> waits on bit 0 of the word at \<open>port_ptr\<close>, which is the command list base, not the
  command issue register; the loop has no timeout.
\<close>

partial_function (option) wait_clb :: "'d bus \<Rightarrow> u64 \<Rightarrow> 'd machine \<Rightarrow> 'd machine option" where
  "wait_clb bus p m =
    (if reg_rd bus (PxCLB p) m AND 1 = 0 then Some m
     else if reg_rd bus (PxIS p) m AND 0xFD800000 \<noteq> 0 then Some m
     else wait_clb bus p (spin bus 1 m))"

definition write_sector ::
  "'d bus \<Rightarrow> ahci_globals \<Rightarrow> u64 \<Rightarrow> nat \<Rightarrow> u64 \<Rightarrow> u64 \<Rightarrow> u64 \<Rightarrow> 'd machine \<Rightarrow> 'd machine option" where
  "write_sector bus g abar port ct data lba m =
    (if AHCI_PORT g = -1 then Some m
     else let p = port_base abar port;
              m = on_ram (set_prdt ct data \<circ> st8s ct (write_fis lba) \<circ> fill_bytes ct 64 0) m;
              m = reg_wr bus (PxCI p) 1 m
          in map_option (spin bus 10000) (wait_clb bus p m))"

text \<open>The disk as the file system calls it, with the global variables as arguments.\<close>

definition ahci_read :: "'d bus \<Rightarrow> ahci_globals \<Rightarrow> u64 \<Rightarrow> 'd machine \<Rightarrow> 'd machine option" where
  "ahci_read bus g lba m = map_option snd
    (read_sector bus (AHCI_ABAR g) (port_as_usize g) lba (AHCI_CT_BASE g) (AHCI_DATA_PTR g) m)"

definition ahci_write :: "'d bus \<Rightarrow> ahci_globals \<Rightarrow> u64 \<Rightarrow> 'd machine \<Rightarrow> 'd machine option" where
  "ahci_write bus g lba m =
    write_sector bus g (AHCI_ABAR g) (port_as_usize g) (AHCI_CT_BASE g) (AHCI_DATA_PTR g) lba m"

definition ahci_io :: "'d bus \<Rightarrow> ahci_globals \<Rightarrow> 'd disk_io" where
  "ahci_io bus g = \<lparr>io_port = AHCI_PORT g, io_data = AHCI_DATA_PTR g, io_read = ahci_read bus g, io_write = ahci_write bus g,
     io_spin = spin bus\<rparr>"

end
