(* ===== verification/Ahci_Disk.thy ===== *)
theory Ahci_Disk imports Ahci begin

text \<open>
  What the AHCI driver relies on of the controller (\<open>ahci_contract\<close>), and the proof that under it
  \<open>read_sector\<close> and \<open>write_sector\<close> are the block device the file system uses. The contract is over
  the command structures in memory: the controller decodes the FIS and the PRDT that the driver
  stored, so a driver that encodes a sector number wrongly does not meet it.
\<close>

section \<open>The command structures, decoded\<close>

definition fis_lba :: "memory \<Rightarrow> u64 \<Rightarrow> u64" where
  "fis_lba mem ct = ucast (mem (ct + of_nat 4)) OR push_bit 8 (ucast (mem (ct + of_nat 5)))
    OR push_bit 16 (ucast (mem (ct + of_nat 6))) OR push_bit 24 (ucast (mem (ct + of_nat 8)))
    OR push_bit 32 (ucast (mem (ct + of_nat 9))) OR push_bit 40 (ucast (mem (ct + of_nat 10)))"

definition is_command :: "u8 \<Rightarrow> memory \<Rightarrow> u64 \<Rightarrow> bool" where
  "is_command opcode mem ct \<longleftrightarrow> mem (ct + of_nat 0) = 0x27 \<and> mem (ct + of_nat 1) = 0x80
    \<and> mem (ct + of_nat 2) = opcode \<and> mem (ct + of_nat 7) = 0x40
    \<and> mem (ct + of_nat 12) = 1 \<and> mem (ct + of_nat 13) = 0 \<and> rd32 mem (ct + 140) = 0x800001FF"

definition prdt_dba :: "memory \<Rightarrow> u64 \<Rightarrow> u64" where
  "prdt_dba mem ct = rd64 mem (ct + 128)"

lemma take_8: "ucast (ucast l :: u8) = take_bit 8 (l :: u64)"
  by (rule bit_word_eqI) (auto simp: bit_simps)

lemma take_add_8: "take_bit n l OR push_bit n (ucast (ucast (drop_bit n l) :: u8)) = take_bit (n + 8) (l :: u64)"
proof (rule bit_word_eqI)
  fix i assume "i < LENGTH(64)"
  then show "bit (take_bit n l OR push_bit n (ucast (ucast (drop_bit n l) :: u8))) i = bit (take_bit (n + 8) l) i"
    by (cases "i < n") (auto simp: bit_simps)
qed

lemma split_lba: "ucast (ucast l :: u8) OR push_bit 8 (ucast (ucast (drop_bit 8 l) :: u8))
    OR push_bit 16 (ucast (ucast (drop_bit 16 l) :: u8)) OR push_bit 24 (ucast (ucast (drop_bit 24 l) :: u8))
    OR push_bit 32 (ucast (ucast (drop_bit 32 l) :: u8)) OR push_bit 40 (ucast (ucast (drop_bit 40 l) :: u8))
    = take_bit 48 (l :: u64)"
  using take_add_8 [of 8 l] take_add_8 [of 16 l] take_add_8 [of 24 l] take_add_8 [of 32 l] take_add_8 [of 40 l]
  by (simp only: take_8 or.assoc [symmetric]) simp

lemma take_48: "(l :: u64) < 2 ^ 48 \<Longrightarrow> take_bit 48 l = l"
  unfolding take_bit_eq_mod by (erule mod_word_less)

lemma and_mask_ucast_eq: "(ucast (x AND mask 8 :: u64) :: u8) = ucast x"
  by (rule bit_word_eqI) (auto simp: bit_simps)

lemma ucast_and_ff: "(ucast (x AND 0xFF :: u64) :: u8) = ucast x"
proof -
  have "(0xFF :: u64) = mask 8" by (simp add: mask_eq_exp_minus_1)
  then show ?thesis by (metis and_mask_ucast_eq)
qed

text \<open>What \<open>read_sector\<close> and \<open>write_sector\<close> store, read back.\<close>

definition store_command :: "(nat \<times> u8) list \<Rightarrow> nat \<Rightarrow> u64 \<Rightarrow> u64 \<Rightarrow> memory \<Rightarrow> memory" where
  "store_command fis n ct data mem = set_prdt ct data (st8s ct fis (fill_bytes ct n 0 mem))"

lemma rd32_prdt: "rd32 (set_prdt ct data mem) (ct + 140) = 0x800001FF"
  by (simp add: set_prdt_def)

lemma add_offset_neq: "i < 2 ^ 64 \<Longrightarrow> j < 2 ^ 64 \<Longrightarrow> i \<noteq> j \<Longrightarrow> (a :: u64) + of_nat i \<noteq> a + of_nat j"
  by (metis add_of_nat_u64_inj)

lemma set_prdt_low:
  assumes "i < 128" shows "set_prdt ct data mem (ct + of_nat i) = mem (ct + of_nat i)"
proof -
  have "\<not> in_region (ct + of_nat j) 4 (ct + of_nat i)" if "128 \<le> j" "j \<le> 140" for j
    using assms that by (intro not_in_sub_region) auto
  from this [of 128] this [of 132] this [of 140] show ?thesis
    by (simp add: set_prdt_def wr32_other)
qed

lemma set_prdt_other:
  assumes "\<not> in_region ct 256 x" shows "set_prdt ct data mem x = mem x"
proof -
  have "\<not> in_region (ct + of_nat j) 4 x" if "j \<le> 140" for j
    using assms that in_region_sub [of ct j 4 x 256] by auto
  from this [of 128] this [of 132] this [of 140] show ?thesis
    by (simp add: set_prdt_def wr32_other)
qed

lemma prdt_dba_set_prdt: "prdt_dba (set_prdt ct data mem) ct = data"
proof -
  let ?m = "wr64 (ct + 128) data mem"
  have eq: "set_prdt ct data mem = wr32 (ct + 140) (511 OR push_bit 31 1) ?m"
    by (simp add: set_prdt_def wr64_def add.assoc)
  have "rd64 (wr32 (ct + 140) v ?m) (ct + 128) = rd64 ?m (ct + 128)" for v
  proof (rule rd64_cong)
    fix i :: nat assume "i < 8"
    then have "\<not> in_region (ct + of_nat 140) 4 (ct + of_nat (128 + i))"
      by (intro not_in_sub_region) auto
    then show "wr32 (ct + 140) v ?m (ct + 128 + of_nat i) = ?m (ct + 128 + of_nat i)"
      by (intro wr32_other) (simp add: add.assoc)
  qed
  then show ?thesis by (simp add: prdt_dba_def eq)
qed

lemma store_command_at:
  assumes "distinct (map fst fis)" "\<forall>(j, w) \<in> set fis. j < 64" "i < 64" "64 \<le> n"
  shows "store_command fis n ct data mem (ct + of_nat i) = (case map_of fis i of Some v \<Rightarrow> v | None \<Rightarrow> 0)"
proof -
  have "i < 2 ^ 64" using assms(3) by simp
  have "st8s ct fis (fill_bytes ct n 0 mem) (ct + of_nat i) =
      (case map_of fis i of Some v \<Rightarrow> v | None \<Rightarrow> fill_bytes ct n 0 mem (ct + of_nat i))"
    by (rule st8s_at) (use assms in auto)
  then show ?thesis
    using assms \<open>i < 2 ^ 64\<close> by (simp add: store_command_def set_prdt_low fill_bytes_offset cong: option.case_cong)
qed

lemma store_command_other:
  assumes "\<not> in_region ct 256 x" "\<forall>(j, w) \<in> set fis. j < 64" "n \<le> 256"
  shows "store_command fis n ct data mem x = mem x"
proof -
  have "st8s ct fis (fill_bytes ct n 0 mem) x = fill_bytes ct n 0 mem x"
    by (rule st8s_other [where n = 256 and a = ct]) (use assms in auto)
  moreover have "\<not> in_region ct n x" using assms(1,3) in_region_mono by blast
  ultimately show ?thesis using assms(1) by (simp add: store_command_def set_prdt_other fill_bytes_other)
qed

lemma store_command_rest:
  "rd32 (store_command fis n ct data mem) (ct + 140) = 0x800001FF"
  "prdt_dba (store_command fis n ct data mem) ct = data"
  by (simp_all add: store_command_def rd32_prdt prdt_dba_set_prdt)

lemma read_command:
  "is_command 0x25 (store_command (read_fis lba) 256 ct data mem) ct"
  "fis_lba (store_command (read_fis lba) 256 ct data mem) ct = take_bit 48 lba"
proof -
  have at: "store_command (read_fis lba) 256 ct data mem (ct + of_nat i)
      = (case map_of (read_fis lba) i of Some v \<Rightarrow> v | None \<Rightarrow> 0)" if "i < 64" for i
    using that by (intro store_command_at) (simp_all add: read_fis_def)
  show "is_command 0x25 (store_command (read_fis lba) 256 ct data mem) ct"
    unfolding is_command_def using at [of 0] at [of 1] at [of 2] at [of 7] at [of 12] at [of 13]
    by (simp add: store_command_rest read_fis_def)
  show "fis_lba (store_command (read_fis lba) 256 ct data mem) ct = take_bit 48 lba"
    unfolding fis_lba_def split_lba [symmetric]
    using at [of 4] at [of 5] at [of 6] at [of 8] at [of 9] at [of 10]
    by (simp add: read_fis_def ucast_and_ff)
qed

lemma write_command:
  "is_command 0x35 (store_command (write_fis lba) 64 ct data mem) ct"
  "fis_lba (store_command (write_fis lba) 64 ct data mem) ct = take_bit 48 lba"
proof -
  have at: "store_command (write_fis lba) 64 ct data mem (ct + of_nat i)
      = (case map_of (write_fis lba) i of Some v \<Rightarrow> v | None \<Rightarrow> 0)" if "i < 64" for i
    using that by (intro store_command_at) (simp_all add: write_fis_def)
  show "is_command 0x35 (store_command (write_fis lba) 64 ct data mem) ct"
    unfolding is_command_def using at [of 0] at [of 1] at [of 2] at [of 7] at [of 12] at [of 13]
    by (simp add: store_command_rest write_fis_def)
  show "fis_lba (store_command (write_fis lba) 64 ct data mem) ct = take_bit 48 lba"
    unfolding fis_lba_def split_lba [symmetric]
    using at [of 4] at [of 5] at [of 6] at [of 8] at [of 9] at [of 10]
    by (simp add: write_fis_def)
qed

section \<open>The controller contract\<close>

text \<open>
  \<open>idle\<close> are the controller states with no command outstanding, \<open>sectors\<close> the disk contents,
  \<open>cap\<close> the number of sectors, \<open>dma\<close> the memory the controller writes on its own account (received
  FIS, byte count in the command header). Documented behaviour, for a disk without faults: an idle port is neither
  busy nor requesting data, and stays as it is while the CPU spins; clearing the status registers changes nothing
  else; a command list base register has its low bits clear; issuing a 48-bit DMA read of one sector below \<open>cap\<close>
  completes without a task file error within the time the driver polls, with the sector at the PRDT address.

  The clause on writes is not documented behaviour but what this driver needs for its writes to work at
  all: the controller takes the direction of the transfer from the command in the FIS, not from the write bit of the
  command header, which the driver leaves clear, and has finished within the 10000 spins that \<open>write_sector\<close>
  waits, which does not look at the command issue bit. Emulated controllers can be like that; on others the
  properties of the file system that write to the disk do not apply.
\<close>

definition contract_idle :: "'d bus \<Rightarrow> u64 \<Rightarrow> ('d \<Rightarrow> bool) \<Rightarrow> ('d \<Rightarrow> u64 \<Rightarrow> u8 list) \<Rightarrow> bool" where
  "contract_idle bus p idle sectors \<longleftrightarrow>
    (\<forall>d. idle d \<longrightarrow> (\<forall>l. length (sectors d l) = 512)
       \<and> mmio_rd bus (PxTFD p) d AND 0x88 = 0
       \<and> mmio_rd bus (PxCLB p) (mmio_wr bus (PxCI p) 1 d) AND 1 = 0
       \<and> (\<forall>a\<in>{PxIS p, PxSERR p}. \<forall>v. idle (mmio_wr bus a v d) \<and> sectors (mmio_wr bus a v d) = sectors d))"

definition contract_spin :: "'d bus \<Rightarrow> ('d \<Rightarrow> bool) \<Rightarrow> ('d \<Rightarrow> u64 \<Rightarrow> u8 list) \<Rightarrow> (u64 \<Rightarrow> bool) \<Rightarrow> bool" where
  "contract_spin bus idle sectors dma \<longleftrightarrow>
    (\<forall>m n. idle (dev m) \<longrightarrow> idle (dev (spin bus n m)) \<and> sectors (dev (spin bus n m)) = sectors (dev m)
       \<and> (\<forall>x. \<not> dma x \<longrightarrow> ram (spin bus n m) x = ram m x))"

definition contract_read ::
  "'d bus \<Rightarrow> u64 \<Rightarrow> u64 \<Rightarrow> ('d \<Rightarrow> bool) \<Rightarrow> ('d \<Rightarrow> u64 \<Rightarrow> u8 list) \<Rightarrow> u64 \<Rightarrow> (u64 \<Rightarrow> bool) \<Rightarrow> bool" where
  "contract_read bus p ct idle sectors cap dma \<longleftrightarrow>
    (\<forall>m. idle (dev m) \<longrightarrow> is_command 0x25 (ram m) ct \<longrightarrow> fis_lba (ram m) ct < cap \<longrightarrow>
      (\<exists>k<10000000. let s = \<lambda>j. (wait_cycles bus 50 ^^ j) (reg_wr bus (PxCI p) 1 m) in
         (\<forall>j<k. reg_rd bus (PxCI p) (s j) AND 1 \<noteq> 0 \<and> reg_rd bus (PxIS p) (s j) AND PxIS_TFES = 0)
         \<and> reg_rd bus (PxCI p) (s k) AND 1 = 0
         \<and> idle (dev (s k)) \<and> sectors (dev (s k)) = sectors (dev m)
         \<and> rd_bytes (ram (s k)) (prdt_dba (ram m) ct) 512 = sectors (dev m) (fis_lba (ram m) ct)
         \<and> (\<forall>x. \<not> dma x \<longrightarrow> \<not> in_region (prdt_dba (ram m) ct) 512 x \<longrightarrow> ram (s k) x = ram m x)))"

definition contract_write ::
  "'d bus \<Rightarrow> u64 \<Rightarrow> u64 \<Rightarrow> ('d \<Rightarrow> bool) \<Rightarrow> ('d \<Rightarrow> u64 \<Rightarrow> u8 list) \<Rightarrow> u64 \<Rightarrow> (u64 \<Rightarrow> bool) \<Rightarrow> bool" where
  "contract_write bus p ct idle sectors cap dma \<longleftrightarrow>
    (\<forall>m. idle (dev m) \<longrightarrow> is_command 0x35 (ram m) ct \<longrightarrow> fis_lba (ram m) ct < cap \<longrightarrow>
      (let m' = spin bus 10000 (reg_wr bus (PxCI p) 1 m) in
         idle (dev m')
         \<and> sectors (dev m') = (sectors (dev m))(fis_lba (ram m) ct := rd_bytes (ram m) (prdt_dba (ram m) ct) 512)
         \<and> (\<forall>x. \<not> dma x \<longrightarrow> ram m' x = ram m x)))"

definition ahci_contract ::
  "'d bus \<Rightarrow> ahci_globals \<Rightarrow> ('d \<Rightarrow> bool) \<Rightarrow> ('d \<Rightarrow> u64 \<Rightarrow> u8 list) \<Rightarrow> u64 \<Rightarrow> (u64 \<Rightarrow> bool) \<Rightarrow> bool" where
  "ahci_contract bus g idle sectors cap dma \<longleftrightarrow>
    (let p = port_base (AHCI_ABAR g) (port_as_usize g); ct = AHCI_CT_BASE g in
      port_as_usize g < 32 \<and> cap \<le> 2 ^ 48
      \<and> (\<forall>x. \<not> (in_region ct 256 x \<and> in_region (AHCI_DATA_PTR g) 512 x))
      \<and> contract_idle bus p idle sectors
      \<and> contract_spin bus idle sectors dma
      \<and> contract_read bus p ct idle sectors cap dma
      \<and> contract_write bus p ct idle sectors cap dma)"

definition ahci_scratch :: "ahci_globals \<Rightarrow> (u64 \<Rightarrow> bool) \<Rightarrow> u64 \<Rightarrow> bool" where
  "ahci_scratch g dma x \<longleftrightarrow> dma x \<or> in_region (AHCI_CT_BASE g) 256 x \<or> in_region (AHCI_DATA_PTR g) 512 x"

lemma port_present: "port_as_usize g < 32 \<Longrightarrow> AHCI_PORT g \<noteq> -1"
  by (auto simp: port_as_usize_def unsigned_minus_1_eq_mask mask_eq_exp_minus_1)

lemma contract_idleD:
  assumes "contract_idle bus p idle sectors" "idle d"
  shows "length (sectors d l) = 512" "mmio_rd bus (PxTFD p) d AND 0x88 = 0"
    "mmio_rd bus (PxCLB p) (mmio_wr bus (PxCI p) 1 d) AND 1 = 0"
    "idle (mmio_wr bus (PxIS p) v d)" "sectors (mmio_wr bus (PxIS p) v d) = sectors d"
    "idle (mmio_wr bus (PxSERR p) v d)" "sectors (mmio_wr bus (PxSERR p) v d) = sectors d"
  using assms unfolding contract_idle_def by blast+

section \<open>The waiting loops\<close>

lemma wait_ci_completes:
  assumes "\<And>j. j < k \<Longrightarrow> reg_rd bus (PxCI p) ((wait_cycles bus 50 ^^ j) m) AND 1 \<noteq> 0
      \<and> reg_rd bus (PxIS p) ((wait_cycles bus 50 ^^ j) m) AND PxIS_TFES = 0"
    and "reg_rd bus (PxCI p) ((wait_cycles bus 50 ^^ k) m) AND 1 = 0" and "k < t"
  shows "wait_ci bus p t m = (t - k, False, (wait_cycles bus 50 ^^ k) m)"
  using assms
proof (induction k arbitrary: t m)
  case 0
  then show ?case by (cases t) simp_all
next
  case (Suc k)
  obtain t' where t: "t = Suc t'" using Suc.prems(3) by (cases t) auto
  have "wait_ci bus p t' (wait_cycles bus 50 m) = (t' - k, False, (wait_cycles bus 50 ^^ k) (wait_cycles bus 50 m))"
  proof (rule Suc.IH)
    fix j assume "j < k"
    then show "reg_rd bus (PxCI p) ((wait_cycles bus 50 ^^ j) (wait_cycles bus 50 m)) AND 1 \<noteq> 0
        \<and> reg_rd bus (PxIS p) ((wait_cycles bus 50 ^^ j) (wait_cycles bus 50 m)) AND PxIS_TFES = 0"
      using Suc.prems(1) [of "Suc j"] by (simp add: funpow_swap1)
  next
    show "reg_rd bus (PxCI p) ((wait_cycles bus 50 ^^ k) (wait_cycles bus 50 m)) AND 1 = 0"
      using Suc.prems(2) by (simp add: funpow_swap1)
    show "k < t'" using Suc.prems(3) t by simp
  qed
  with Suc.prems(1) [of 0] t show ?case by (simp add: funpow_swap1)
qed

text \<open>The three ways the completion loop ends.\<close>

lemma wait_ci_success_iff:
  "(case wait_ci bus p t m of (t', tfes, m') \<Rightarrow> t' \<noteq> 0 \<and> \<not> tfes) \<longleftrightarrow>
    (\<exists>k<t. let s = \<lambda>j. (wait_cycles bus 50 ^^ j) m in
      (\<forall>j<k. reg_rd bus (PxCI p) (s j) AND 1 \<noteq> 0 \<and> reg_rd bus (PxIS p) (s j) AND PxIS_TFES = 0)
      \<and> reg_rd bus (PxCI p) (s k) AND 1 = 0)"
proof (induction bus p t m rule: wait_ci.induct)
  case (1 bus p m)
  then show ?case by simp
next
  case (2 bus p t m)
  let ?ci = "\<lambda>m. reg_rd bus (PxCI p) m AND 1 \<noteq> 0" and ?tf = "\<lambda>m. reg_rd bus (PxIS p) m AND PxIS_TFES \<noteq> 0"
  let ?s = "\<lambda>j. (wait_cycles bus 50 ^^ j) m"
  have step: "(\<exists>k<Suc t. (\<forall>j<k. ?ci (?s j) \<and> \<not> ?tf (?s j)) \<and> \<not> ?ci (?s k)) \<longleftrightarrow>
      \<not> ?ci m \<or> \<not> ?tf m \<and> (\<exists>k<t. (\<forall>j<k. ?ci (?s (Suc j)) \<and> \<not> ?tf (?s (Suc j))) \<and> \<not> ?ci (?s (Suc k)))"
    unfolding Ex_less_Suc2 All_less_Suc2 by auto
  show ?case
  proof (cases "?ci m \<and> \<not> ?tf m")
    case True
    then have "wait_ci bus p (Suc t) m = wait_ci bus p t (wait_cycles bus 50 m)" by simp
    with 2 True step show ?thesis by (simp add: Let_def funpow_swap1)
  next
    case False
    with step show ?thesis by (auto simp: Let_def)
  qed
qed

lemma wait_clb_now: "reg_rd bus (PxCLB p) m AND 1 = 0 \<Longrightarrow> wait_clb bus p m = Some m"
  by (simp add: wait_clb.simps)

section \<open>Sector reads and writes\<close>

lemma store_command_read: "set_prdt ct dest \<circ> st8s ct fis \<circ> fill_bytes ct n 0 = store_command fis n ct dest"
  by (simp add: fun_eq_iff store_command_def)

lemma fis_small: "\<forall>(j, w) \<in> set (read_fis lba). j < 64" "\<forall>(j, w) \<in> set (write_fis lba). j < 64"
  by (simp_all add: read_fis_def write_fis_def)

lemma ahci_read_sector:
  assumes c: "ahci_contract bus g idle sectors cap dma" and i: "idle (dev m)" and l: "lba < cap"
  shows "\<exists>m'. read_sector bus (AHCI_ABAR g) (port_as_usize g) lba (AHCI_CT_BASE g) (AHCI_DATA_PTR g) m = Some (True, m')
      \<and> idle (dev m') \<and> sectors (dev m') = sectors (dev m)
      \<and> rd_bytes (ram m') (AHCI_DATA_PTR g) 512 = sectors (dev m) lba
      \<and> (\<forall>x. \<not> ahci_scratch g dma x \<longrightarrow> ram m' x = ram m x)"
proof -
  define p where "p = port_base (AHCI_ABAR g) (port_as_usize g)"
  define ct where "ct = AHCI_CT_BASE g"
  define m1 where "m1 = on_ram (store_command (read_fis lba) 256 ct (AHCI_DATA_PTR g))
    (reg_wr bus (PxSERR p) 0xFFFFFFFF (reg_wr bus (PxIS p) 0xFFFFFFFF m))"
  have ci: "contract_idle bus p idle sectors" and cr: "contract_read bus p ct idle sectors cap dma"
    and cap: "cap \<le> 2 ^ 48" and port: "port_as_usize g < 32"
    using c by (auto simp: ahci_contract_def Let_def p_def ct_def)
  have lba: "take_bit 48 lba = lba" by (rule take_48) (use l cap in \<open>rule less_le_trans\<close>)
  have idle1: "idle (dev m1)" and sec1: "sectors (dev m1) = sectors (dev m)"
    using contract_idleD(4-7) [OF ci] i by (simp_all add: m1_def)
  have mem1: "ram m1 = store_command (read_fis lba) 256 ct (AHCI_DATA_PTR g) (ram m)"
    by (simp add: m1_def)
  have dba: "prdt_dba (ram m1) ct = AHCI_DATA_PTR g" and fis: "fis_lba (ram m1) ct = lba"
    and cmd: "is_command 0x25 (ram m1) ct"
    by (simp_all add: mem1 store_command_rest read_command lba)
  obtain k where k: "k < 10000000" and s: "let s = \<lambda>j. (wait_cycles bus 50 ^^ j) (reg_wr bus (PxCI p) 1 m1) in
      (\<forall>j<k. reg_rd bus (PxCI p) (s j) AND 1 \<noteq> 0 \<and> reg_rd bus (PxIS p) (s j) AND PxIS_TFES = 0)
      \<and> reg_rd bus (PxCI p) (s k) AND 1 = 0 \<and> idle (dev (s k)) \<and> sectors (dev (s k)) = sectors (dev m1)
      \<and> rd_bytes (ram (s k)) (AHCI_DATA_PTR g) 512 = sectors (dev m1) lba
      \<and> (\<forall>x. \<not> dma x \<longrightarrow> \<not> in_region (AHCI_DATA_PTR g) 512 x \<longrightarrow> ram (s k) x = ram m1 x)"
    using cr [unfolded contract_read_def, rule_format, OF idle1 cmd, unfolded fis, OF l, unfolded dba] by blast
  define m' where "m' = (wait_cycles bus 50 ^^ k) (reg_wr bus (PxCI p) 1 m1)"
  have w: "wait_ci bus p 10000000 (reg_wr bus (PxCI p) 1 m1) = (10000000 - k, False, m')"
    unfolding m'_def by (rule wait_ci_completes [OF _ _ k]) (use s in \<open>simp_all add: Let_def\<close>)
  have issue: "issue_read bus p lba ct (AHCI_DATA_PTR g) m = reg_wr bus (PxCI p) 1 m1"
    by (simp add: issue_read_def store_command_read m1_def)
  have tfd: "poll_reg bus (PxTFD p) (\<lambda>v. v AND 0x88 \<noteq> 0) 1000000 m = (1000000, m)"
    using contract_idleD(2) [OF ci i] by (intro poll_reg_now) (simp add: reg_rd_def)
  have "read_sector bus (AHCI_ABAR g) (port_as_usize g) lba ct (AHCI_DATA_PTR g) m = Some (True, m')"
    using port k by (simp add: read_sector_def p_def [symmetric] tfd issue w Let_def)
  moreover have "ram m' x = ram m x" if "\<not> ahci_scratch g dma x" for x
    using that s store_command_other [OF _ fis_small(1)]
    by (simp add: ahci_scratch_def Let_def m'_def mem1 ct_def)
  ultimately show ?thesis using s by (auto simp: Let_def m'_def sec1 ct_def)
qed

lemma ahci_write_sector:
  assumes c: "ahci_contract bus g idle sectors cap dma" and i: "idle (dev m)" and l: "lba < cap"
  shows "\<exists>m'. write_sector bus g (AHCI_ABAR g) (port_as_usize g) (AHCI_CT_BASE g) (AHCI_DATA_PTR g) lba m = Some m'
      \<and> idle (dev m')
      \<and> sectors (dev m') = (sectors (dev m))(lba := rd_bytes (ram m) (AHCI_DATA_PTR g) 512)
      \<and> (\<forall>x. \<not> ahci_scratch g dma x \<longrightarrow> ram m' x = ram m x)"
proof -
  define p where "p = port_base (AHCI_ABAR g) (port_as_usize g)"
  define ct where "ct = AHCI_CT_BASE g"
  define m1 where "m1 = on_ram (store_command (write_fis lba) 64 ct (AHCI_DATA_PTR g)) m"
  define m' where "m' = spin bus 10000 (reg_wr bus (PxCI p) 1 m1)"
  have ci: "contract_idle bus p idle sectors" and cw: "contract_write bus p ct idle sectors cap dma"
    and cap: "cap \<le> 2 ^ 48" and port: "port_as_usize g < 32"
    and dj: "\<And>x. \<not> (in_region ct 256 x \<and> in_region (AHCI_DATA_PTR g) 512 x)"
    using c by (auto simp: ahci_contract_def Let_def p_def ct_def)
  have lba: "take_bit 48 lba = lba" by (rule take_48) (use l cap in \<open>rule less_le_trans\<close>)
  have idle1: "idle (dev m1)" and dev1: "dev m1 = dev m" using i by (simp_all add: m1_def)
  have mem1: "ram m1 = store_command (write_fis lba) 64 ct (AHCI_DATA_PTR g) (ram m)"
    by (simp add: m1_def)
  have dba: "prdt_dba (ram m1) ct = AHCI_DATA_PTR g" and fis: "fis_lba (ram m1) ct = lba"
    and cmd: "is_command 0x35 (ram m1) ct"
    by (simp_all add: mem1 store_command_rest write_command lba)
  have buf: "rd_bytes (ram m1) (AHCI_DATA_PTR g) 512 = rd_bytes (ram m) (AHCI_DATA_PTR g) 512"
  proof (rule rd_bytes_cong)
    fix i :: nat assume "i < 512"
    then have "\<not> in_region ct 256 (AHCI_DATA_PTR g + of_nat i)"
      using dj [of "AHCI_DATA_PTR g + of_nat i"] by simp
    then show "ram m1 (AHCI_DATA_PTR g + of_nat i) = ram m (AHCI_DATA_PTR g + of_nat i)"
      by (simp add: mem1 store_command_other fis_small)
  qed
  have s: "idle (dev m') \<and> sectors (dev m') = (sectors (dev m))(lba := rd_bytes (ram m) (AHCI_DATA_PTR g) 512)
      \<and> (\<forall>x. \<not> dma x \<longrightarrow> ram m' x = ram m1 x)"
    using cw [unfolded contract_write_def, rule_format, OF idle1 cmd, unfolded fis, OF l, unfolded dba]
    by (simp add: Let_def m'_def buf dev1)
  have w: "wait_clb bus p (reg_wr bus (PxCI p) 1 m1) = Some (reg_wr bus (PxCI p) 1 m1)"
    using contract_idleD(3) [OF ci idle1] by (intro wait_clb_now) (simp add: reg_rd_def)
  have "write_sector bus g (AHCI_ABAR g) (port_as_usize g) ct (AHCI_DATA_PTR g) lba m = Some m'"
    using port_present [OF port]
    by (simp add: write_sector_def p_def [symmetric] store_command_read m1_def [symmetric] w Let_def m'_def)
  moreover have "ram m' x = ram m x" if "\<not> ahci_scratch g dma x" for x
    using that s store_command_other [OF _ fis_small(2)]
    by (simp add: ahci_scratch_def mem1 ct_def)
  ultimately show ?thesis using s by (auto simp: ct_def)
qed

section \<open>The driver is a block device\<close>

interpretation ahci: block_device "ahci_io bus g" "\<lambda>m. sectors (dev m)" "\<lambda>l. l < cap" "ahci_scratch g dma"
    "\<lambda>m. ahci_contract bus g idle sectors cap dma \<and> idle (dev m)"
  for bus :: "'d bus" and g idle sectors cap dma
proof
  fix m :: "'d machine" and l x f
  assume inv: "ahci_contract bus g idle sectors cap dma \<and> idle (dev m)"
  then show "io_port (ahci_io bus g) \<noteq> - 1"
    by (auto simp: ahci_io_def ahci_contract_def Let_def dest: port_present)
  show "length (sectors (dev m) l) = 512"
    using inv contract_idleD(1) by (auto simp: ahci_contract_def Let_def)
  show "in_region (io_data (ahci_io bus g)) 512 x \<Longrightarrow> ahci_scratch g dma x"
    by (simp add: ahci_io_def ahci_scratch_def)
  show "(ahci_contract bus g idle sectors cap dma \<and> idle (dev (io_spin (ahci_io bus g) n m)))
      \<and> sectors (dev (io_spin (ahci_io bus g) n m)) = sectors (dev m)
      \<and> (\<forall>x. \<not> ahci_scratch g dma x \<longrightarrow> ram (io_spin (ahci_io bus g) n m) x = ram m x)" for n
    using inv by (auto simp: ahci_io_def ahci_contract_def contract_spin_def ahci_scratch_def Let_def)
  assume "l < cap"
  with inv show "\<exists>m'. io_read (ahci_io bus g) l m = Some m'
      \<and> (ahci_contract bus g idle sectors cap dma \<and> idle (dev m')) \<and> sectors (dev m') = sectors (dev m)
      \<and> rd_bytes (ram m') (io_data (ahci_io bus g)) 512 = sectors (dev m) l
      \<and> (\<forall>x. \<not> ahci_scratch g dma x \<longrightarrow> ram m' x = ram m x)"
    using ahci_read_sector [of bus g idle sectors cap dma m l] by (auto simp: ahci_io_def ahci_read_def)
  show "\<exists>m'. io_write (ahci_io bus g) l m = Some m' \<and> (ahci_contract bus g idle sectors cap dma \<and> idle (dev m'))
      \<and> sectors (dev m') = (sectors (dev m))(l := rd_bytes (ram m) (io_data (ahci_io bus g)) 512)
      \<and> (\<forall>x. \<not> ahci_scratch g dma x \<longrightarrow> ram m' x = ram m x)"
    using ahci_write_sector [of bus g idle sectors cap dma m l] inv \<open>l < cap\<close>
    by (auto simp: ahci_io_def ahci_write_def)
qed simp_all

lemma ahci_keeps:
  "block_device.keeps (\<lambda>m. sectors (dev m)) (ahci_scratch g dma)
      (\<lambda>m. ahci_contract bus g idle sectors cap dma \<and> idle (dev m)) m m' \<Longrightarrow>
    idle (dev m') \<and> sectors (dev m') = sectors (dev m) \<and> (\<forall>x. \<not> ahci_scratch g dma x \<longrightarrow> ram m' x = ram m x)"
  by (simp add: ahci.keeps_def)

end
