(* ===== verification/Pci.thy ===== *)
theory Pci imports Machine begin

text \<open>
  PCI configuration access and device discovery, \<open>kernel/src/pci.rs\<close>. Configuration space is
  reached by writing an address to port 0xCF8 and reading or writing port 0xCFC; what the ports
  answer is the bus parameter.
\<close>

section \<open>State and operations\<close>

record pci_device =
  pci_bus :: u8
  pci_dev :: u8
  pci_function :: u8
  vendor_id :: u16
  class_code :: u8
  sub_class :: u8
  bar0 :: u32
  bar1 :: u32
  bar5 :: u32

definition config_address :: "u8 \<Rightarrow> u8 \<Rightarrow> u8 \<Rightarrow> u8 \<Rightarrow> u32" where
  "config_address b device func offset =
    push_bit 16 (ucast b) OR push_bit 11 (ucast device) OR push_bit 8 (ucast func)
      OR (ucast offset AND 0xfc) OR 0x80000000"

definition config_read_u32 :: "'d bus \<Rightarrow> u8 \<Rightarrow> u8 \<Rightarrow> u8 \<Rightarrow> u8 \<Rightarrow> 'd \<Rightarrow> u32 \<times> 'd" where
  "config_read_u32 bus b device func offset d =
    (let address = config_address b device func offset;
         d = pio_out32 bus 0x0CF8 address d
     in pio_in32 bus 0x0CFC d)"

definition config_write_u32 :: "'d bus \<Rightarrow> u8 \<Rightarrow> u8 \<Rightarrow> u8 \<Rightarrow> u8 \<Rightarrow> u32 \<Rightarrow> 'd \<Rightarrow> 'd" where
  "config_write_u32 bus b device func offset value d =
    (let address = config_address b device func offset;
         d = pio_out32 bus 0x0CF8 address d;
         d = pio_out32 bus 0x0CFC value d
     in snd (config_read_u32 bus b device func offset d))"

fun ahci_scan :: "'d bus \<Rightarrow> u8 list \<Rightarrow> 'd \<Rightarrow> pci_device option \<times> 'd" where
  "ahci_scan bus [] d = (None, d)"
| "ahci_scan bus (slot # devs) d =
    (let (reg0, d) = config_read_u32 bus 0 slot 0 0x00 d in
     if reg0 AND 0xffff = 0xffff then ahci_scan bus devs d
     else let (reg8, d) = config_read_u32 bus 0 slot 0 0x08 d in
       if (ucast (drop_bit 24 reg8) :: u8) = 0x01 \<and> (ucast (drop_bit 16 reg8) :: u8) = 0x06
       then let (b5, d) = config_read_u32 bus 0 slot 0 0x24 d
            in (Some \<lparr>pci_bus = 0, pci_dev = slot, pci_function = 0, vendor_id = ucast (reg0 AND 0xffff),
                  class_code = 0x01, sub_class = 0x06, bar0 = 0, bar1 = 0, bar5 = b5\<rparr>, d)
       else ahci_scan bus devs d)"

definition find_ahci_device :: "'d bus \<Rightarrow> 'd \<Rightarrow> pci_device option \<times> 'd" where
  "find_ahci_device bus d = ahci_scan bus (map of_nat [0..<32]) d"

fun e1000_scan :: "'d bus \<Rightarrow> u8 list \<Rightarrow> 'd \<Rightarrow> pci_device option \<times> 'd" where
  "e1000_scan bus [] d = (None, d)"
| "e1000_scan bus (slot # devs) d =
    (let (reg0, d) = config_read_u32 bus 0 slot 0 0x00 d in
     if reg0 AND 0xffff = 0xffff then e1000_scan bus devs d
     else let vendor = (ucast (reg0 AND 0xffff) :: u16); device_id = (ucast (drop_bit 16 reg0) :: u16) in
       if vendor = 0x8086 \<and> device_id = 0x100E
       then let (reg8, d) = config_read_u32 bus 0 slot 0 0x08 d;
                cls = (ucast (drop_bit 24 reg8) :: u8); sub = (ucast (drop_bit 16 reg8) :: u8)
            in if cls = 0x02 \<and> sub = 0x00
               then let (b0, d) = config_read_u32 bus 0 slot 0 0x10 d;
                        (b1, d) = config_read_u32 bus 0 slot 0 0x14 d
                    in (Some \<lparr>pci_bus = 0, pci_dev = slot, pci_function = 0, vendor_id = vendor,
                          class_code = cls, sub_class = sub, bar0 = b0, bar1 = b1, bar5 = 0\<rparr>, d)
               else e1000_scan bus devs d
       else e1000_scan bus devs d)"

definition find_e1000 :: "'d bus \<Rightarrow> 'd \<Rightarrow> pci_device option \<times> 'd" where
  "find_e1000 bus d = e1000_scan bus (map of_nat [0..<32]) d"

definition enable_bus_master :: "'d bus \<Rightarrow> pci_device \<Rightarrow> 'd \<Rightarrow> 'd" where
  "enable_bus_master bus pd d =
    (let (cmd, d) = config_read_u32 bus (pci_bus pd) (pci_dev pd) (pci_function pd) 0x04 d
     in config_write_u32 bus (pci_bus pd) (pci_dev pd) (pci_function pd) 0x04 (cmd OR 0x06) d)"

definition get_mmio_base :: "pci_device \<Rightarrow> u64" where
  "get_mmio_base pd =
    (let low = ucast (bar0 pd AND 0xFFFFFFF0); high = push_bit 32 (ucast (bar1 pd)) in high OR low)"

section \<open>Configuration space\<close>

text \<open>
  Documented behaviour of the configuration mechanism: a read of the data port returns the register
  \<open>cfg\<close> of the address last written to the address port, and changes no register.
\<close>

definition pci_contract :: "'d bus \<Rightarrow> ('d \<Rightarrow> u32 \<Rightarrow> u32) \<Rightarrow> bool" where
  "pci_contract bus cfg \<longleftrightarrow>
    (\<forall>d a. fst (pio_in32 bus 0x0CFC (pio_out32 bus 0x0CF8 a d)) = cfg d a
      \<and> cfg (snd (pio_in32 bus 0x0CFC (pio_out32 bus 0x0CF8 a d))) = cfg d)"

lemma config_read_cfg:
  assumes "pci_contract bus cfg"
  obtains d' where "config_read_u32 bus b slot f off d = (cfg d (config_address b slot f off), d')" "cfg d' = cfg d"
  using assms unfolding pci_contract_def config_read_u32_def Let_def
  by (metis prod.collapse)

definition is_ahci :: "(u32 \<Rightarrow> u32) \<Rightarrow> u8 \<Rightarrow> bool" where
  "is_ahci c slot \<longleftrightarrow> c (config_address 0 slot 0 0) AND 0xffff \<noteq> 0xffff
    \<and> (ucast (drop_bit 24 (c (config_address 0 slot 0 8))) :: u8) = 0x01
    \<and> (ucast (drop_bit 16 (c (config_address 0 slot 0 8))) :: u8) = 0x06"

definition is_e1000 :: "(u32 \<Rightarrow> u32) \<Rightarrow> u8 \<Rightarrow> bool" where
  "is_e1000 c slot \<longleftrightarrow> (ucast (c (config_address 0 slot 0 0) AND 0xffff) :: u16) = 0x8086
    \<and> (ucast (drop_bit 16 (c (config_address 0 slot 0 0))) :: u16) = 0x100E
    \<and> (ucast (drop_bit 24 (c (config_address 0 slot 0 8))) :: u8) = 0x02
    \<and> (ucast (drop_bit 16 (c (config_address 0 slot 0 8))) :: u8) = 0x00"

lemma ahci_scan_spec:
  assumes "pci_contract bus cfg"
  shows "map_option (\<lambda>pd. (pci_dev pd, bar5 pd)) (fst (ahci_scan bus devs d)) =
    map_option (\<lambda>slot. (slot, cfg d (config_address 0 slot 0 0x24))) (List.find (is_ahci (cfg d)) devs)"
proof (induction devs arbitrary: d)
  case Nil
  then show ?case by simp
next
  case (Cons x xs)
  obtain d1 where d1: "config_read_u32 bus 0 x 0 0 d = (cfg d (config_address 0 x 0 0), d1)" "cfg d1 = cfg d"
    by (rule config_read_cfg [OF assms])
  obtain d2 where d2: "config_read_u32 bus 0 x 0 8 d1 = (cfg d1 (config_address 0 x 0 8), d2)" "cfg d2 = cfg d1"
    by (rule config_read_cfg [OF assms])
  obtain d3 where d3: "config_read_u32 bus 0 x 0 0x24 d2 = (cfg d2 (config_address 0 x 0 0x24), d3)" "cfg d3 = cfg d2"
    by (rule config_read_cfg [OF assms])
  show ?case
    using Cons.IH [of d1] Cons.IH [of d2] d1 d2 d3 by (simp add: Let_def is_ahci_def)
qed

lemma e1000_scan_spec:
  assumes "pci_contract bus cfg"
  shows "map_option (\<lambda>pd. (pci_dev pd, bar0 pd, bar1 pd)) (fst (e1000_scan bus devs d)) =
    map_option (\<lambda>slot. (slot, cfg d (config_address 0 slot 0 0x10), cfg d (config_address 0 slot 0 0x14)))
      (List.find (is_e1000 (cfg d)) devs)"
proof (induction devs arbitrary: d)
  case Nil
  then show ?case by simp
next
  case (Cons x xs)
  obtain d1 where d1: "config_read_u32 bus 0 x 0 0 d = (cfg d (config_address 0 x 0 0), d1)" "cfg d1 = cfg d"
    by (rule config_read_cfg [OF assms])
  obtain d2 where d2: "config_read_u32 bus 0 x 0 8 d1 = (cfg d1 (config_address 0 x 0 8), d2)" "cfg d2 = cfg d1"
    by (rule config_read_cfg [OF assms])
  obtain d3 where d3: "config_read_u32 bus 0 x 0 0x10 d2 = (cfg d2 (config_address 0 x 0 0x10), d3)" "cfg d3 = cfg d2"
    by (rule config_read_cfg [OF assms])
  obtain d4 where d4: "config_read_u32 bus 0 x 0 0x14 d3 = (cfg d3 (config_address 0 x 0 0x14), d4)" "cfg d4 = cfg d3"
    by (rule config_read_cfg [OF assms])
  show ?case
    using Cons.IH [of d1] Cons.IH [of d2] d1 d2 d3 d4
    by (cases "cfg d (config_address 0 x 0 0) AND 0xffff = 0xffff") (auto simp: Let_def is_e1000_def)
qed

text \<open>A bus whose configuration space has an AHCI controller in slot 4: the device state is the latch.\<close>

definition pci_sample_cfg :: "u32 \<Rightarrow> u32" where
  "pci_sample_cfg a = (if a = config_address 0 4 0 0 then 0x29228086
     else if a = config_address 0 4 0 8 then 0x01060102
     else if a = config_address 0 4 0 0x24 then 0xFEB00000 else 0xFFFFFFFF)"

definition pci_sample_bus :: "u32 bus" where
  "pci_sample_bus = \<lparr>mmio_rd = (\<lambda>_ _. 0), mmio_wr = (\<lambda>_ _ d. d), spin = (\<lambda>_ m. m),
    pio_in8 = (\<lambda>_ d. (0, d)), pio_out8 = (\<lambda>_ _ d. d),
    pio_in32 = (\<lambda>p d. (if p = 0x0CFC then pci_sample_cfg d else 0, d)),
    pio_out32 = (\<lambda>p v d. if p = 0x0CF8 then v else d), rdtsc = (\<lambda>d. (0, d)), rdmsr = (\<lambda>_ _. 0)\<rparr>"

lemma pci_sample_contract: "pci_contract pci_sample_bus (\<lambda>_. pci_sample_cfg)"
  by (simp add: pci_contract_def pci_sample_bus_def)

section \<open>Properties\<close>

text \<open>
  Device discovery finds the lowest of the 32 slots of bus 0 that holds an AHCI controller
  (class 1, subclass 6), and the lowest that holds an Intel 82540EM network card, and returns the
  base address registers of that slot; a slot with no device is skipped.
\<close>

theorem pci_discovery:
  assumes "pci_contract bus cfg"
  shows "map_option (\<lambda>pd. (pci_dev pd, bar5 pd)) (fst (find_ahci_device bus d)) =
      map_option (\<lambda>slot. (slot, cfg d (config_address 0 slot 0 0x24))) (List.find (is_ahci (cfg d)) (map of_nat [0..<32]))
    \<and> map_option (\<lambda>pd. (pci_dev pd, bar0 pd, bar1 pd)) (fst (find_e1000 bus d)) =
      map_option (\<lambda>slot. (slot, cfg d (config_address 0 slot 0 0x10), cfg d (config_address 0 slot 0 0x14)))
        (List.find (is_e1000 (cfg d)) (map of_nat [0..<32]))"
  using ahci_scan_spec [OF assms] e1000_scan_spec [OF assms]
  by (simp add: find_ahci_device_def find_e1000_def)

theorem pci_discovery_witness:
  "map_option (\<lambda>pd. (pci_dev pd, bar5 pd)) (fst (find_ahci_device pci_sample_bus 0)) = Some (4, 0xFEB00000)"
  using pci_discovery [OF pci_sample_contract, of 0]
  by (simp add: upt_eval is_ahci_def pci_sample_cfg_def config_address_def)

end
