(* ===== verification/Ahci_Setup.thy ===== *)
theory Ahci_Setup imports Ahci Pci begin

text \<open>
  Bringing up the disk, as \<open>kmain\<close> does it twice with the same code (standard boot and debug
  shell): find the controller, enable bus mastering, reset it, and take the lowest implemented
  port that \<open>init_port\<close> brings up. Also what a successful \<open>init_port\<close> leaves in memory.
\<close>

definition main_wait_ms :: "'d bus \<Rightarrow> u64 \<Rightarrow> 'd machine \<Rightarrow> 'd machine" where
  "main_wait_ms bus ms = spin bus (unat (ms * 10000))"

fun select_port :: "'d bus \<Rightarrow> u64 \<Rightarrow> u32 \<Rightarrow> u64 \<Rightarrow> u64 \<Rightarrow> u64 \<Rightarrow> nat list \<Rightarrow> 'd machine \<Rightarrow> (u32 \<times> 'd machine) option" where
  "select_port bus abar pi cl_base fb_base ct_base [] m = Some (-1, m)"
| "select_port bus abar pi cl_base fb_base ct_base (i # is) m =
    (if pi AND push_bit i 1 \<noteq> 0
     then case init_port bus abar i cl_base fb_base ct_base m of
            None \<Rightarrow> None
          | Some (ok, m) \<Rightarrow> if ok then Some (of_nat i, m) else select_port bus abar pi cl_base fb_base ct_base is m
     else select_port bus abar pi cl_base fb_base ct_base is m)"

definition setup_controller :: "'d bus \<Rightarrow> 'd machine \<Rightarrow> u64 \<times> 'd machine" where
  "setup_controller bus m =
    (case find_ahci_device bus (dev m) of
       (None, d) \<Rightarrow> (0, m\<lparr>dev := d\<rparr>)
     | (Some pd, d) \<Rightarrow>
         (let abar = ucast (bar5 pd);
              m = m\<lparr>dev := enable_bus_master bus pd d\<rparr>;
              m = snd (reset_hba bus abar m);
              m = main_wait_ms bus 100 m
          in (abar, reg_wr bus (abar + 4) 0x80000000 m)))"

definition ahci_setup :: "'d bus \<Rightarrow> u64 \<Rightarrow> 'd machine \<Rightarrow> (ahci_globals \<times> 'd machine) option" where
  "ahci_setup bus ahci_mem_common m =
    (let cl_base = ahci_mem_common; fb_base = ahci_mem_common + 1024; ct_base = ahci_mem_common + 2048;
         data_ptr = 0x10000000;
         (abar, m) = setup_controller bus m;
         r = (if abar \<noteq> 0
              then let m = main_wait_ms bus 500 m;
                       m = snd (reset_hba bus abar m);
                       m = main_wait_ms bus 100 m;
                       pi = get_implemented_ports bus abar m
                   in select_port bus abar pi cl_base fb_base ct_base [0..<32] m
              else Some (-1, m))
     in case r of None \<Rightarrow> None
        | Some (active_port, m) \<Rightarrow>
            Some (\<lparr>AHCI_ABAR = abar, AHCI_PORT = active_port, AHCI_CT_BASE = ct_base, AHCI_DATA_PTR = data_ptr\<rparr>, m))"

lemma init_port_returns: "port_idx < 32 \<Longrightarrow> \<exists>r. init_port bus abar port_idx cl fb ct m = Some r"
  by (simp add: init_port_def)

section \<open>What a successful port initialisation leaves in memory\<close>

text \<open>The bus writes only inside \<open>R\<close> on its own account.\<close>

definition dma_within :: "'d bus \<Rightarrow> (u64 \<Rightarrow> bool) \<Rightarrow> bool" where
  "dma_within bus R \<longleftrightarrow> (\<forall>n m x. \<not> R x \<longrightarrow> ram (spin bus n m) x = ram m x)"

lemma spin_frame: "dma_within bus R \<Longrightarrow> \<not> R x \<Longrightarrow> ram (spin bus n m) x = ram m x"
  by (simp add: dma_within_def)

lemma poll_reg_frame:
  assumes "dma_within bus R" "\<not> R x" shows "ram (snd (poll_reg bus a c t m)) x = ram m x"
  unfolding poll_reg_def
proof (induction t arbitrary: m)
  case (Suc t)
  then show ?case using spin_frame [OF assms] by (simp add: wait_cycles_def)
qed simp

lemma poll_reg_frameD: "dma_within bus R \<Longrightarrow> \<not> R x \<Longrightarrow> poll_reg bus a c t m = (t', m') \<Longrightarrow> ram m' x = ram m x"
  by (metis poll_reg_frame snd_conv)

lemma init_port_link_frame:
  assumes "dma_within bus R" "\<not> R x" "init_port_link bus p m = (ok, sig, m')"
  shows "ram m' x = ram m x"
  using assms(3) spin_frame [OF assms(1,2)]
  by (auto simp: init_port_link_def Let_def wait_cycles_def wait_ms_def
      dest!: poll_reg_frameD [OF assms(1,2)] split: prod.splits if_splits)

lemma init_port_stop_mem:
  assumes "dma_within bus R" "\<not> R x" "init_port_stop bus p cl fb ct m = (ok, m')"
  shows "ram m' x = fill_bytes ct 256 0 (fill_bytes fb 256 0 (fill_bytes cl 1024 0 (ram m))) x"
  using assms(3)
  by (auto simp: init_port_stop_def Let_def dest!: poll_reg_frameD [OF assms(1,2)] split: prod.splits if_splits)

lemma init_port_start_mem:
  assumes "dma_within bus R" "\<not> R x" "init_port_start bus p cl fb ct m = (ok, m')"
  shows "ram m' x = command_header cl ct (ram m) x"
  using assms(3)
  by (auto simp: init_port_start_def Let_def dest!: poll_reg_frameD [OF assms(1,2)] split: prod.splits if_splits)

lemma command_header_reads:
  "rd16 (command_header cl ct mem) cl = 5" "rd16 (command_header cl ct mem) (cl + 2) = 1"
  "rd32 (command_header cl ct mem) (cl + 4) = 0" "rd64 (command_header cl ct mem) (cl + 8) = ct"
proof -
  let ?h = "command_header cl ct mem"
  show "rd16 ?h cl = 5" by (simp add: command_header_def)
  show "rd16 ?h (cl + 2) = 1"
    by (simp add: command_header_def rd16_def wr16_def wr32_def add.assoc)
  show "rd32 ?h (cl + 4) = 0"
    by (simp add: command_header_def rd32_def rd16_def wr16_def wr32_def add.assoc)
  have "rd64 ?h (cl + 8) = rd64 (wr64 (cl + 8) ct mem) (cl + 8)"
    by (simp add: command_header_def rd64_def rd32_def rd16_def wr64_def wr16_def wr32_def add.assoc)
  then show "rd64 ?h (cl + 8) = ct" by simp
qed

lemma command_header_other: "\<not> in_region cl 16 x \<Longrightarrow> command_header cl ct mem x = mem x"
proof -
  assume h: "\<not> in_region cl 16 x"
  have "x \<noteq> cl + of_nat i" if "i < 16" for i
    using h that by auto
  from this [of 0] this [of 1] this [of 2] this [of 3] this [of 4] this [of 5] this [of 6] this [of 7]
    this [of 8] this [of 9] this [of 10] this [of 11] this [of 12] this [of 13] this [of 14] this [of 15]
  show ?thesis by (simp add: command_header_def wr16_def wr32_def add.assoc)
qed

section \<open>Properties\<close>

text \<open>A port that comes up at once: the engines follow the command register, the link is there.\<close>

definition port_sim_bus :: "u64 \<Rightarrow> u32 bus" where
  "port_sim_bus p = \<lparr>mmio_rd = (\<lambda>a d. if a = PxCMD p
      then (d AND 0x11) OR (if d AND 0x10 \<noteq> 0 then 0x4000 else 0) OR (if d AND 1 \<noteq> 0 then 0x8000 else 0)
      else if a = PxSSTS p then 3 else 0),
    mmio_wr = (\<lambda>a v d. if a = PxCMD p then v else d), spin = (\<lambda>_ m. m),
    pio_in8 = (\<lambda>_ d. (0, d)), pio_out8 = (\<lambda>_ _ d. d), pio_in32 = (\<lambda>_ d. (0xFFFFFFFF, d)), pio_out32 = (\<lambda>_ _ d. d),
    rdtsc = (\<lambda>d. (0, d)), rdmsr = (\<lambda>_ _. 0)\<rparr>"

lemma port_sim_init:
  "\<exists>m'. init_port (port_sim_bus (port_base 0xFEB00000 0)) 0xFEB00000 0 0x4000000 0x4000400 0x4000800
      \<lparr>ram = (\<lambda>_. 0xAA), dev = 0\<rparr> = Some (True, m')"
  by (simp add: init_port_def init_port_link_def init_port_stop_def init_port_start_def Let_def poll_reg_now
      reg_rd_def reg_wr_def port_sim_bus_def wait_cycles_def wait_ms_def PxCMD_ST_def PxCMD_FRE_def
      PxCMD_FR_def PxCMD_CR_def PxCMD_ATAPI_def on_ram_def)

text \<open>
  When \<open>init_port\<close> succeeds and the controller has written only to its received-FIS area, command
  header 0 in memory is the one the driver's commands need (a 5-word FIS, one PRDT entry, zero byte
  count, the command table's address), the command table is zero, and nothing outside the three
  structures has changed.
\<close>

theorem init_port_memory:
  assumes "init_port bus abar port_idx cl fb ct m = Some (True, m')"
    and dma: "dma_within bus (in_region fb 256)"
    and "\<And>x. \<not> (in_region cl 1024 x \<and> in_region fb 256 x)"
    and "\<And>x. \<not> (in_region ct 256 x \<and> in_region fb 256 x)"
    and "\<And>x. \<not> (in_region cl 1024 x \<and> in_region ct 256 x)"
  shows "rd16 (ram m') cl = 5 \<and> rd16 (ram m') (cl + 2) = 1 \<and> rd32 (ram m') (cl + 4) = 0 \<and> rd64 (ram m') (cl + 8) = ct
    \<and> rd_bytes (ram m') ct 256 = replicate 256 0
    \<and> (\<forall>x. \<not> in_region cl 1024 x \<longrightarrow> \<not> in_region fb 256 x \<longrightarrow> \<not> in_region ct 256 x \<longrightarrow> ram m' x = ram m x)"
proof -
  define p where "p = port_base abar port_idx"
  from assms(1) obtain sig m1 m2 where
      l: "init_port_link bus p m = (True, sig, m1)" and s: "init_port_stop bus p cl fb ct m1 = (True, m2)"
      and t: "init_port_start bus p cl fb ct m2 = (True, m')"
    by (auto simp: init_port_def p_def Let_def split: if_splits prod.splits)
  have mem: "ram m' x = command_header cl ct (ram m2) x" and mem2: "ram m2 x = fill_bytes ct 256 0 (fill_bytes fb 256 0 (fill_bytes cl 1024 0 (ram m))) x"
    if "\<not> in_region fb 256 x" for x
    using init_port_start_mem [OF dma that t] init_port_stop_mem [OF dma that s] init_port_link_frame [OF dma that l]
    by (simp_all add: fill_bytes_def)
  have cl: "ram m' (cl + of_nat i) = command_header cl ct (ram m2) (cl + of_nat i)" if "i < 16" for i
    using assms(3) [of "cl + of_nat i"] that by (intro mem) simp
  have "rd16 (ram m') cl = 5 \<and> rd16 (ram m') (cl + 2) = 1 \<and> rd32 (ram m') (cl + 4) = 0 \<and> rd64 (ram m') (cl + 8) = ct"
  proof (intro conjI)
    show "rd16 (ram m') cl = 5" using cl [of 0] cl [of 1] command_header_reads(1) [of cl ct "ram m2"]
      by (simp add: rd16_def)
    show "rd16 (ram m') (cl + 2) = 1" using cl [of 2] cl [of 3] command_header_reads(2) [of cl ct "ram m2"]
      by (simp add: rd16_def add.assoc)
    have "rd32 (ram m') (cl + 4) = rd32 (command_header cl ct (ram m2)) (cl + 4)"
    proof (rule rd32_cong)
      fix i :: nat assume "i < 4"
      then show "ram m' (cl + 4 + of_nat i) = command_header cl ct (ram m2) (cl + 4 + of_nat i)"
        using cl [of "4 + i"] by (simp add: add.assoc)
    qed
    then show "rd32 (ram m') (cl + 4) = 0" by (simp add: command_header_reads)
    have "rd64 (ram m') (cl + 8) = rd64 (command_header cl ct (ram m2)) (cl + 8)"
    proof (rule rd64_cong)
      fix i :: nat assume "i < 8"
      then show "ram m' (cl + 8 + of_nat i) = command_header cl ct (ram m2) (cl + 8 + of_nat i)"
        using cl [of "8 + i"] by (simp add: add.assoc)
    qed
    then show "rd64 (ram m') (cl + 8) = ct" by (simp add: command_header_reads)
  qed
  moreover have frame: "ram m' x = fill_bytes ct 256 0 (ram m) x"
    if "\<not> in_region cl 1024 x" "\<not> in_region fb 256 x" for x
  proof -
    have "\<not> in_region cl 16 x" using that(1) in_region_mono [of cl 16 x 1024] by auto
    then show ?thesis using mem [OF that(2)] mem2 [OF that(2)] that by (simp add: command_header_other fill_bytes_def)
  qed
  have "rd_bytes (ram m') ct 256 = replicate 256 0"
  proof (rule nth_equalityI)
    fix i assume "i < length (rd_bytes (ram m') ct 256)"
    then have i: "i < 256" by simp
    then have "ram m' (ct + of_nat i) = 0"
      using assms(4,5) [of "ct + of_nat i"] by (simp add: frame fill_bytes_def)
    with i show "rd_bytes (ram m') ct 256 ! i = replicate 256 0 ! i" by simp
  qed simp
  ultimately show ?thesis using frame by (auto simp: fill_bytes_def)
qed

theorem init_port_memory_witness:
  "\<exists>m'. init_port (port_sim_bus (port_base 0xFEB00000 0)) 0xFEB00000 0 0x4000000 0x4000400 0x4000800
      \<lparr>ram = (\<lambda>_. 0xAA), dev = 0\<rparr> = Some (True, m')
    \<and> rd64 (ram m') 0x4000008 = 0x4000800 \<and> ram m' 0 = 0xAA"
proof -
  obtain m' where m': "init_port (port_sim_bus (port_base 0xFEB00000 0)) 0xFEB00000 0 0x4000000 0x4000400 0x4000800
      \<lparr>ram = (\<lambda>_. 0xAA), dev = 0\<rparr> = Some (True, m')"
    using port_sim_init by blast
  have "dma_within (port_sim_bus (port_base 0xFEB00000 0)) (in_region 0x4000400 256)"
    by (simp add: dma_within_def port_sim_bus_def)
  from init_port_memory [OF m' this] m' show ?thesis
    by (simp add: in_region_iff_bounds)
qed

text \<open>
  Bringing up the disk always returns: either a port below 32, whose bit is set in the
  implemented-ports register, was initialised, or \<open>AHCI_PORT\<close> is -1; with no AHCI controller on the
  PCI bus it is -1 and the register base is 0. The command table is 2048 bytes into the block that
  \<open>kmain\<close> allocated, the sector buffer at 0x10000000.
\<close>

theorem ahci_setup_returns:
  "\<exists>g m'. ahci_setup bus mem m = Some (g, m') \<and> AHCI_CT_BASE g = mem + 2048 \<and> AHCI_DATA_PTR g = 0x10000000
    \<and> (AHCI_PORT g = -1 \<or> AHCI_PORT g < 32)
    \<and> (fst (find_ahci_device bus (dev m)) = None \<longrightarrow> AHCI_ABAR g = 0 \<and> AHCI_PORT g = -1)"
proof -
  have sel: "\<exists>q m'. select_port bus abar pi cl fb ct is m = Some (q, m') \<and> (q = -1 \<or> q < 32)"
    if "\<forall>i\<in>set is. i < 32" for abar pi cl fb ct "is" m
    using that
  proof (induction "is" arbitrary: m)
    case Nil
    then show ?case by simp
  next
    case (Cons i "is")
    obtain ok m1 where p: "init_port bus abar i cl fb ct m = Some (ok, m1)"
      using Cons.prems init_port_returns [of i bus abar cl fb ct m] by auto
    have i: "(of_nat i :: u32) < 32"
      using Cons.prems of_nat_u32_less [of i 32] by simp
    have "\<exists>q m'. select_port bus abar pi cl fb ct is m = Some (q, m') \<and> (q = -1 \<or> q < 32)" for m
      by (rule Cons.IH) (use Cons.prems in simp)
    with p i show ?case by (cases ok) simp_all
  qed
  obtain abar m1 where c: "setup_controller bus m = (abar, m1)" by fastforce
  have none: "abar = 0" if "fst (find_ahci_device bus (dev m)) = None"
    using that c by (cases "find_ahci_device bus (dev m)") (auto simp: setup_controller_def)
  have all: "\<forall>i\<in>set [0..<32]. i < (32 :: nat)" by simp
  show ?thesis
  proof (cases "abar = 0")
    case True
    then show ?thesis by (simp add: ahci_setup_def c Let_def)
  next
    case False
    define m2 where "m2 = main_wait_ms bus 100 (snd (reset_hba bus abar (main_wait_ms bus 500 m1)))"
    obtain q m3 where sp: "select_port bus abar (get_implemented_ports bus abar m2) mem (mem + 1024) (mem + 2048) [0..<32] m2
        = Some (q, m3)" and q: "q = -1 \<or> q < 32"
      using sel [OF all] by metis
    have "ahci_setup bus mem m = Some (\<lparr>AHCI_ABAR = abar, AHCI_PORT = q, AHCI_CT_BASE = mem + 2048,
        AHCI_DATA_PTR = 0x10000000\<rparr>, m3)"
      unfolding ahci_setup_def Let_def c prod.case m2_def [symmetric] sp
      by (simp only: False not_False_eq_True if_True option.case prod.case)
    with q none False show ?thesis by fastforce
  qed
qed

theorem ahci_setup_returns_witness:
  "\<exists>g m'. ahci_setup (port_sim_bus 0) 0x4000000 \<lparr>ram = (\<lambda>_. 0), dev = 0\<rparr> = Some (g, m') \<and> AHCI_PORT g = -1"
proof -
  have "config_read_u32 (port_sim_bus 0) 0 slot 0 0 d = (0xFFFFFFFF, d)" for slot d
    by (simp add: config_read_u32_def port_sim_bus_def Let_def)
  then have "fst (ahci_scan (port_sim_bus 0) slots d) = None" for slots d
    by (induction slots) simp_all
  then have "fst (find_ahci_device (port_sim_bus 0) (dev \<lparr>ram = (\<lambda>_. 0), dev = 0\<rparr>)) = None"
    by (simp add: find_ahci_device_def)
  with ahci_setup_returns [of "port_sim_bus 0" "0x4000000" "\<lparr>ram = (\<lambda>_. 0), dev = 0\<rparr>"] show ?thesis by blast
qed

end
