(* ===== verification/Ahci_Correct.thy ===== *)
theory Ahci_Correct imports Ahci_Disk Ahci_Setup begin

text \<open>
  The properties of the AHCI driver, and a concrete controller that meets the contract
  (\<open>sim_bus\<close>): it executes the command the driver stored in memory as soon as the CPU spins, and goes by the
  command, not by the write bit of the header. The witnesses of this theory and of the file system run on it.
\<close>

section \<open>A controller that meets the contract\<close>

record sim =
  sim_sectors :: "u64 \<Rightarrow> u8 list"
  sim_pending :: bool

definition sim_execute :: "u64 \<Rightarrow> sim machine \<Rightarrow> sim machine" where
  "sim_execute ct m =
    (let lba = fis_lba (ram m) ct; dba = prdt_dba (ram m) ct in
     if ram m (ct + 2) = 0x25
     then m\<lparr>ram := wr_bytes dba (sim_sectors (dev m) lba) (ram m), dev := (dev m)\<lparr>sim_pending := False\<rparr>\<rparr>
     else if ram m (ct + 2) = 0x35
     then m\<lparr>dev := \<lparr>sim_sectors = (sim_sectors (dev m))(lba := rd_bytes (ram m) dba 512), sim_pending = False\<rparr>\<rparr>
     else m)"

definition sim_bus :: "u64 \<Rightarrow> u64 \<Rightarrow> sim bus" where
  "sim_bus p ct =
    \<lparr>mmio_rd = (\<lambda>a d. if a = PxCI p \<and> sim_pending d then 1 else 0),
     mmio_wr = (\<lambda>a v d. if a = PxCI p \<and> v AND 1 \<noteq> 0 then d\<lparr>sim_pending := True\<rparr> else d),
     spin = (\<lambda>n m. if 0 < n \<and> sim_pending (dev m) then sim_execute ct m else m),
     pio_in8 = (\<lambda>_ d. (0, d)), pio_out8 = (\<lambda>_ _ d. d), pio_in32 = (\<lambda>_ d. (0, d)), pio_out32 = (\<lambda>_ _ d. d),
     rdtsc = (\<lambda>d. (0, d)), rdmsr = (\<lambda>_ _. 0)\<rparr>"

definition sim_idle :: "sim \<Rightarrow> bool" where
  "sim_idle d \<longleftrightarrow> \<not> sim_pending d \<and> (\<forall>l. length (sim_sectors d l) = 512)"

lemma sim_contract_idle: "contract_idle (sim_bus p ct) p sim_idle sim_sectors"
  by (simp add: contract_idle_def sim_bus_def sim_idle_def)

lemma sim_contract_spin: "contract_spin (sim_bus p ct) sim_idle sim_sectors (\<lambda>x. False)"
  by (simp add: contract_spin_def sim_bus_def sim_idle_def)

lemma sim_contract_read: "contract_read (sim_bus p ct) p ct sim_idle sim_sectors cap (\<lambda>x. False)"
  unfolding contract_read_def
proof (intro allI impI)
  fix m :: "sim machine"
  assume idle: "sim_idle (dev m)" and cmd: "is_command 0x25 (ram m) ct"
  let ?m = "reg_wr (sim_bus p ct) (PxCI p) 1 m"
  have op: "ram m (ct + 2) = 0x25" using cmd by (simp add: is_command_def)
  have len: "length (sim_sectors (dev m) (fis_lba (ram m) ct)) = 512" using idle by (simp add: sim_idle_def)
  show "\<exists>k<10000000. let s = \<lambda>j. (wait_cycles (sim_bus p ct) 50 ^^ j) ?m in
      (\<forall>j<k. reg_rd (sim_bus p ct) (PxCI p) (s j) AND 1 \<noteq> 0 \<and> reg_rd (sim_bus p ct) (PxIS p) (s j) AND PxIS_TFES = 0)
      \<and> reg_rd (sim_bus p ct) (PxCI p) (s k) AND 1 = 0
      \<and> sim_idle (dev (s k)) \<and> sim_sectors (dev (s k)) = sim_sectors (dev m)
      \<and> rd_bytes (ram (s k)) (prdt_dba (ram m) ct) 512 = sim_sectors (dev m) (fis_lba (ram m) ct)
      \<and> (\<forall>x. \<not> False \<longrightarrow> \<not> in_region (prdt_dba (ram m) ct) 512 x \<longrightarrow> ram (s k) x = ram m x)"
    using idle op len rd_bytes_wr_bytes [of "sim_sectors (dev m) (fis_lba (ram m) ct)" "prdt_dba (ram m) ct" "ram m"]
    by (intro exI [of _ 1])
       (simp add: Let_def wait_cycles_def sim_execute_def reg_rd_def reg_wr_def sim_bus_def sim_idle_def wr_bytes_other)
qed

lemma sim_contract_write: "contract_write (sim_bus p ct) p ct sim_idle sim_sectors cap (\<lambda>x. False)"
  unfolding contract_write_def
proof (intro allI impI)
  fix m :: "sim machine"
  assume idle: "sim_idle (dev m)" and cmd: "is_command 0x35 (ram m) ct"
  let ?m = "reg_wr (sim_bus p ct) (PxCI p) 1 m"
  have op: "ram m (ct + 2) = 0x35" using cmd by (simp add: is_command_def)
  show "let m' = spin (sim_bus p ct) 10000 ?m in sim_idle (dev m')
      \<and> sim_sectors (dev m') = (sim_sectors (dev m))(fis_lba (ram m) ct := rd_bytes (ram m) (prdt_dba (ram m) ct) 512)
      \<and> (\<forall>x. \<not> False \<longrightarrow> ram m' x = ram m x)"
    using idle op by (simp add: Let_def sim_execute_def reg_wr_def sim_bus_def sim_idle_def)
qed

definition sim_globals :: ahci_globals where
  "sim_globals = \<lparr>AHCI_ABAR = 0xFEB00000, AHCI_PORT = 0, AHCI_CT_BASE = 0x4000800, AHCI_DATA_PTR = 0x10000000\<rparr>"

definition sim_hw :: "sim bus" where
  "sim_hw = sim_bus (port_base (AHCI_ABAR sim_globals) (port_as_usize sim_globals)) (AHCI_CT_BASE sim_globals)"

lemma sim_ahci_contract: "ahci_contract sim_hw sim_globals sim_idle sim_sectors (2 ^ 48) (\<lambda>x. False)"
proof -
  have "port_as_usize sim_globals < 32" by (simp add: port_as_usize_def sim_globals_def)
  moreover have "\<not> (in_region (AHCI_CT_BASE sim_globals) 256 x \<and> in_region (AHCI_DATA_PTR sim_globals) 512 x)" for x
    by (simp add: sim_globals_def in_region_iff_bounds)
  ultimately show ?thesis
    by (simp add: ahci_contract_def Let_def sim_hw_def sim_contract_idle sim_contract_spin sim_contract_read sim_contract_write)
qed

definition sim_machine :: "sim machine" where
  "sim_machine = \<lparr>ram = (\<lambda>x. ucast x),
    dev = \<lparr>sim_sectors = (\<lambda>l. if l = 5 then replicate 512 0x55 else replicate 512 0), sim_pending = False\<rparr>\<rparr>"

lemma sim_machine_idle: "sim_idle (dev sim_machine)"
  by (simp add: sim_idle_def sim_machine_def)

section \<open>Properties\<close>

text \<open>
  C25. On a controller that meets its contract, reading sector \<open>lba\<close> reports success, the buffer holds
  the sector's 512 bytes, the disk is unchanged, and no memory outside the driver's own structures
  and the buffer changes. The sector number passes through the six LBA bytes of the command FIS.
\<close>

theorem read_sector_correct:
  assumes "ahci_contract bus g idle sectors cap dma" and "idle (dev m)" and "lba < cap"
  shows "\<exists>m'. read_sector bus (AHCI_ABAR g) (port_as_usize g) lba (AHCI_CT_BASE g) (AHCI_DATA_PTR g) m = Some (True, m')
      \<and> idle (dev m') \<and> sectors (dev m') = sectors (dev m)
      \<and> rd_bytes (ram m') (AHCI_DATA_PTR g) 512 = sectors (dev m) lba
      \<and> (\<forall>x. \<not> ahci_scratch g dma x \<longrightarrow> ram m' x = ram m x)"
  using assms by (rule ahci_read_sector)

theorem read_sector_correct_witness:
  "\<exists>m'. read_sector sim_hw (AHCI_ABAR sim_globals) (port_as_usize sim_globals) 5
        (AHCI_CT_BASE sim_globals) (AHCI_DATA_PTR sim_globals) sim_machine = Some (True, m')
    \<and> rd_bytes (ram m') (AHCI_DATA_PTR sim_globals) 512 = replicate 512 0x55"
  using read_sector_correct [OF sim_ahci_contract sim_machine_idle, of 5]
  by (auto simp: sim_machine_def)



text \<open>
  C34. \<open>read_sector\<close> always returns on an existing port, and reports success exactly when the port
  stopped being busy within the first 1000000 polls and the command issue bit then cleared within
  10000000 polls with no task file error before: every timeout and error gives \<open>false\<close>.
\<close>

theorem read_sector_outcome:
  assumes "port_idx < 32"
  shows "\<exists>ok m'. read_sector bus abar port_idx lba ct dest m = Some (ok, m')
    \<and> (ok \<longleftrightarrow> (\<exists>i<1000000. let p = port_base abar port_idx; free = (wait_cycles bus 10 ^^ i) m;
          s = \<lambda>j. (wait_cycles bus 50 ^^ j) (issue_read bus p lba ct dest free) in
        (\<forall>j<i. reg_rd bus (PxTFD p) ((wait_cycles bus 10 ^^ j) m) AND 0x88 \<noteq> 0)
        \<and> reg_rd bus (PxTFD p) free AND 0x88 = 0
        \<and> (\<exists>k<10000000. (\<forall>j<k. reg_rd bus (PxCI p) (s j) AND 1 \<noteq> 0 \<and> reg_rd bus (PxIS p) (s j) AND PxIS_TFES = 0)
            \<and> reg_rd bus (PxCI p) (s k) AND 1 = 0)))"
proof -
  define p where "p = port_base abar port_idx"
  let ?busy = "\<lambda>m. reg_rd bus (PxTFD p) m AND 0x88 \<noteq> 0"
  let ?w = "wait_cycles bus 10"
  have port: "\<not> 32 \<le> port_idx" using assms by simp
  show ?thesis
  proof (cases rule: poll_cases [of 1000000 ?busy ?w m])
    case expired
    then have "read_sector bus abar port_idx lba ct dest m = Some (False, (?w ^^ 1000000) m)"
      using port by (simp add: read_sector_def poll_reg_def p_def [symmetric] Let_def)
    with expired(1) show ?thesis by (auto simp: p_def Let_def)
  next
    case (stopped i)
    obtain t tfes m' where w: "wait_ci bus p 10000000 (issue_read bus p lba ct dest ((?w ^^ i) m)) = (t, tfes, m')"
      by (metis prod_cases3)
    then have r: "read_sector bus abar port_idx lba ct dest m = Some (t \<noteq> 0 \<and> \<not> tfes, m')"
      using port stopped by (auto simp: read_sector_def poll_reg_def p_def [symmetric] Let_def)
    have uniq: "j = i" if "\<not> ?busy ((?w ^^ j) m)" "\<forall>i<j. ?busy ((?w ^^ i) m)" for j
      using that stopped(2,3) by (meson linorder_neqE_nat)
    show ?thesis
      using r wait_ci_success_iff [of bus p 10000000 "issue_read bus p lba ct dest ((?w ^^ i) m)"]
        stopped(1-3) uniq unfolding w p_def [symmetric] Let_def by (smt (verit) case_prod_conv)
  qed
qed

theorem read_sector_outcome_witness:
  "\<exists>ok m'. read_sector sim_hw 0xFEB00000 0 5 0x4000800 0x10000000 sim_machine = Some (ok, m')"
  using read_sector_outcome [of 0 sim_hw "0xFEB00000" 5 "0x4000800" "0x10000000" sim_machine] by auto

text \<open>
  \<open>write_sector\<close> never looks at the command issue register: with the command list base aligned
  as the controller requires (bit 0 clear), it returns after a fixed delay of 10000 spins whether
  or not the write has completed, and nothing tells the caller.
\<close>

theorem write_sector_fixed_delay:
  assumes "AHCI_PORT g \<noteq> -1"
    and "\<And>d. mmio_rd bus (PxCLB (port_base abar port)) d AND 1 = 0"
  shows "write_sector bus g abar port ct data lba m = Some (spin bus 10000
      (reg_wr bus (PxCI (port_base abar port)) 1
        (on_ram (set_prdt ct data \<circ> st8s ct (write_fis lba) \<circ> fill_bytes ct 64 0) m)))"
  using assms by (simp add: write_sector_def Let_def wait_clb_now reg_rd_def)

theorem write_sector_fixed_delay_witness:
  "write_sector (sim_hw\<lparr>spin := \<lambda>_ m. m\<rparr>) sim_globals 0xFEB00000 0 0x4000800 0x10000000 5 sim_machine
    \<noteq> None"
proof -
  have clb: "mmio_rd (sim_hw\<lparr>spin := \<lambda>_ m. m\<rparr>) (PxCLB (port_base 0xFEB00000 0)) d AND 1 = 0" for d
    by (simp add: sim_hw_def sim_bus_def port_base_def sim_globals_def port_as_usize_def)
  show ?thesis
    using write_sector_fixed_delay [of sim_globals "sim_hw\<lparr>spin := \<lambda>_ m. m\<rparr>" "0xFEB00000" 0 "0x4000800" "0x10000000" 5 sim_machine, OF _ clb]
    by (simp add: sim_globals_def)
qed

end
