(* ===== verification/Fat32.thy ===== *)
theory Fat32 imports Ahci_Disk begin

text \<open>
  The FAT32 reader, \<open>kernel/src/file.rs\<close>: mounting the first partition, cluster arithmetic and
  directory lookup. Every pointer the code forms into the data buffer stays inside its 512 bytes, so
  the definitions read the buffer's image (\<open>buffer\<close>), a list of 512 bytes. The structures
  \<open>Fat32Bpb\<close> and \<open>DirectoryEntry\<close> are packed, their fields are little-endian at fixed offsets. A
  \<open>&str\<close> is its list of bytes. The loops that follow the FAT have no bound in the code and are
  partial functions: a cyclic chain never returns (\<open>None\<close>).
\<close>

section \<open>The data buffer\<close>

definition buffer :: "'d disk_io \<Rightarrow> 'd machine \<Rightarrow> u8 list" where
  "buffer io m = rd_bytes (ram m) (io_data io) 512"

definition le16 :: "u8 list \<Rightarrow> nat \<Rightarrow> u16" where
  "le16 bs i = ucast (bs ! i) OR push_bit 8 (ucast (bs ! (i + 1)))"

definition le32 :: "u8 list \<Rightarrow> nat \<Rightarrow> u32" where
  "le32 bs i = ucast (le16 bs i) OR push_bit 16 (ucast (le16 bs (i + 2)))"

lemma length_buffer [simp]: "length (buffer io m) = 512"
  by (simp add: buffer_def)

section \<open>Mounting\<close>

text \<open>
  \<open>abar\<close>, \<open>port\<close> and \<open>cl_base\<close> of \<open>SimpleFileSystem\<close> are only passed on to the driver, so they are
  part of \<open>disk_io\<close>.
\<close>

record simple_fs =
  cluster_begin_lba :: u64
  sectors_per_clus :: u8
  root_cluster :: u32
  reserved_secs :: u16
  fat_sz32 :: u32
  num_fats :: u8
  part_lba :: u64

definition mbr_part_lba :: "u8 list \<Rightarrow> u64" where
  "mbr_part_lba mbr =
    (let part_offset = 446 + 8 in
      ucast (mbr ! part_offset) OR push_bit 8 (ucast (mbr ! (part_offset + 1)))
      OR push_bit 16 (ucast (mbr ! (part_offset + 2))) OR push_bit 24 (ucast (mbr ! (part_offset + 3))))"

definition parse_bpb :: "u64 \<Rightarrow> u8 list \<Rightarrow> simple_fs option" where
  "parse_bpb p vbr =
    (if le16 vbr 11 \<noteq> 512 then None
     else let cluster_begin = p + ucast (le16 vbr 14) + ucast (vbr ! 16) * ucast (le32 vbr 36)
          in Some \<lparr>cluster_begin_lba = cluster_begin, sectors_per_clus = vbr ! 13, root_cluster = le32 vbr 44,
               reserved_secs = le16 vbr 14, fat_sz32 = le32 vbr 36, num_fats = vbr ! 16, part_lba = p\<rparr>)"

definition fs_init :: "'d disk_io \<Rightarrow> 'd machine \<Rightarrow> (simple_fs option \<times> 'd machine) option" where
  "fs_init io m = do {
     m \<leftarrow> io_read io 0 m;
     let p = mbr_part_lba (buffer io m);
     m \<leftarrow> io_read io p m;
     Some (parse_bpb p (buffer io m), m)
   }"

definition get_lba_of_cluster :: "simple_fs \<Rightarrow> u32 \<Rightarrow> u64" where
  "get_lba_of_cluster fs cluster = cluster_begin_lba fs + (ucast cluster - 2) * ucast (sectors_per_clus fs)"

definition get_fat_lba :: "simple_fs \<Rightarrow> u64" where
  "get_fat_lba fs = part_lba fs + ucast (reserved_secs fs)"

text \<open>The sector and the byte offset in it of a cluster's FAT entry.\<close>

definition fat_sector :: "simple_fs \<Rightarrow> u32 \<Rightarrow> u64" where
  "fat_sector fs cluster = (let fat_offset = ucast cluster * 4 in get_fat_lba fs + fat_offset div 512)"

definition fat_slot :: "u32 \<Rightarrow> nat" where
  "fat_slot cluster = (let fat_offset = (ucast cluster :: u64) * 4 in unat (fat_offset mod 512))"

definition read_fat :: "'d disk_io \<Rightarrow> simple_fs \<Rightarrow> u32 \<Rightarrow> 'd machine \<Rightarrow> (u32 \<times> 'd machine) option" where
  "read_fat io fs cluster m = do {
     m \<leftarrow> io_read io (fat_sector fs cluster) m;
     Some (le32 (buffer io m) (fat_slot cluster) AND 0x0FFFFFFF, m)
   }"

definition live_cluster :: "u32 \<Rightarrow> bool" where
  "live_cluster c \<longleftrightarrow> c < 0x0FFFFFF8 \<and> c \<noteq> 0"

section \<open>Directory entries\<close>

definition dir_entry :: "u8 list \<Rightarrow> nat \<Rightarrow> u8 list" where
  "dir_entry sec j = take 32 (drop (32 * j) sec)"

definition entry_name :: "u8 list \<Rightarrow> u8 list" where "entry_name e = take 11 e"
definition entry_attr :: "u8 list \<Rightarrow> u8" where "entry_attr e = e ! 11"
definition entry_size :: "u8 list \<Rightarrow> u32" where "entry_size e = le32 e 28"

definition entry_cluster :: "u8 list \<Rightarrow> u32" where
  "entry_cluster e = push_bit 16 (ucast (le16 e 20)) OR ucast (le16 e 26)"

definition display_name :: "u8 list \<Rightarrow> u8 list" where
  "display_name e = filter (\<lambda>b. b \<noteq> 0x20) (take 8 (entry_name e))
     @ (if entry_name e ! 8 \<noteq> 0x20 then 0x2E # filter (\<lambda>b. b \<noteq> 0x20) (drop 8 (entry_name e)) else [])"

definition to_ascii_lowercase :: "u8 \<Rightarrow> u8" where
  "to_ascii_lowercase b = (if 0x41 \<le> b \<and> b \<le> 0x5A then b OR 0x20 else b)"

definition eq_ignore_ascii_case :: "u8 list \<Rightarrow> u8 list \<Rightarrow> bool" where
  "eq_ignore_ascii_case a b \<longleftrightarrow> length a = length b \<and> map to_ascii_lowercase a = map to_ascii_lowercase b"

definition starts_with :: "u8 list \<Rightarrow> u8 list \<Rightarrow> bool" where
  "starts_with s prefix \<longleftrightarrow> length prefix \<le> length s \<and> take (length prefix) s = prefix"

text \<open>What a lookup asks of one entry: the entry's answer, or \<open>None\<close> to go on.\<close>

definition match_entry :: "u8 list \<Rightarrow> u8 list \<Rightarrow> (u32 \<times> u32) option" where
  "match_entry name e = (if eq_ignore_ascii_case (display_name e) name then Some (entry_cluster e, entry_size e) else None)"

definition match_directory :: "u8 list \<Rightarrow> u8 list \<Rightarrow> u32 option" where
  "match_directory name e =
    (if entry_attr e AND 0x10 \<noteq> 0 \<and> starts_with (entry_name e) name then Some (entry_cluster e) else None)"

section \<open>Directory lookup\<close>

text \<open>The outcome of scanning one sector: an answer, the end of the directory, or go on.\<close>

datatype 'a scan = Found 'a | End_Of_Dir | Not_Here

fun scan_entries :: "(u8 list \<Rightarrow> 'a option) \<Rightarrow> u8 list \<Rightarrow> nat list \<Rightarrow> 'a scan" where
  "scan_entries f sec [] = Not_Here"
| "scan_entries f sec (j # js) =
    (let e = dir_entry sec j in
     if entry_name e ! 0 = 0x00 then End_Of_Dir
     else if entry_name e ! 0 = 0xE5 then scan_entries f sec js
     else if entry_attr e = 0x0F then scan_entries f sec js
     else case f e of Some x \<Rightarrow> Found x | None \<Rightarrow> scan_entries f sec js)"

fun scan_cluster :: "'d disk_io \<Rightarrow> (u8 list \<Rightarrow> 'a option) \<Rightarrow> u64 \<Rightarrow> nat list \<Rightarrow> 'd machine \<Rightarrow> ('a scan \<times> 'd machine) option" where
  "scan_cluster io f lba [] m = Some (Not_Here, m)"
| "scan_cluster io f lba (i # is) m =
    (case io_read io (lba + of_nat i) m of None \<Rightarrow> None
     | Some m \<Rightarrow> (case scan_entries f (buffer io m) [0..<16] of
           Not_Here \<Rightarrow> scan_cluster io f lba is m
         | r \<Rightarrow> Some (r, m)))"

partial_function (option) dir_walk ::
  "'d disk_io \<Rightarrow> simple_fs \<Rightarrow> (u8 list \<Rightarrow> 'a option) \<Rightarrow> u32 \<Rightarrow> 'd machine \<Rightarrow> ('a option \<times> 'd machine) option" where
  "dir_walk io fs f current m =
    (if live_cluster current
     then case scan_cluster io f (get_lba_of_cluster fs current) [0..<unat (sectors_per_clus fs)] m of
            None \<Rightarrow> None
          | Some (r, m) \<Rightarrow> (case r of
                Found x \<Rightarrow> Some (Some x, m)
              | End_Of_Dir \<Rightarrow> Some (None, m)
              | Not_Here \<Rightarrow> (case read_fat io fs current m of None \<Rightarrow> None
                  | Some (next_c, m) \<Rightarrow> dir_walk io fs f next_c m))
     else Some (None, m))"

definition find_directory ::
  "'d disk_io \<Rightarrow> simple_fs \<Rightarrow> u32 \<Rightarrow> u8 list \<Rightarrow> 'd machine \<Rightarrow> (u32 option \<times> 'd machine) option" where
  "find_directory io fs cluster name m = dir_walk io fs (match_directory name) cluster m"

definition find_entry ::
  "'d disk_io \<Rightarrow> simple_fs \<Rightarrow> u32 \<Rightarrow> u8 list \<Rightarrow> 'd machine \<Rightarrow> ((u32 \<times> u32) option \<times> 'd machine) option" where
  "find_entry io fs cluster name m = dir_walk io fs (match_entry name) cluster m"

section \<open>The file system on disk\<close>

text \<open>
  The specification: the FAT, the cluster chains and the directory as functions of the disk contents
  \<open>D\<close>. A directory is the list of its 32-byte entries up to the first whose name starts with 0.
\<close>

definition fat_value :: "simple_fs \<Rightarrow> (u64 \<Rightarrow> u8 list) \<Rightarrow> u32 \<Rightarrow> u32" where
  "fat_value fs D c = le32 (D (fat_sector fs c)) (fat_slot c) AND 0x0FFFFFFF"

inductive cluster_chain :: "simple_fs \<Rightarrow> (u64 \<Rightarrow> u8 list) \<Rightarrow> u32 \<Rightarrow> u32 list \<Rightarrow> bool" for fs D where
  chain_end: "\<not> live_cluster c \<Longrightarrow> cluster_chain fs D c []"
| chain_step: "live_cluster c \<Longrightarrow> cluster_chain fs D (fat_value fs D c) cs \<Longrightarrow> cluster_chain fs D c (c # cs)"

inductive_cases chain_NilE: "cluster_chain fs D c []"
inductive_cases chain_ConsE: "cluster_chain fs D c (c' # cs)"
inductive_simps chain_Cons_iff: "cluster_chain fs D c (c' # cs)"
inductive_simps chain_Nil_iff: "cluster_chain fs D c []"

lemma cluster_chain_unique: "cluster_chain fs D c cs \<Longrightarrow> cluster_chain fs D c cs' \<Longrightarrow> cs = cs'"
proof (induction arbitrary: cs' rule: cluster_chain.induct)
  case (chain_end c)
  then show ?case by (auto elim: cluster_chain.cases)
next
  case (chain_step c cs)
  from chain_step.prems chain_step.hyps(1) obtain cs'' where "cs' = c # cs''" "cluster_chain fs D (fat_value fs D c) cs''"
    by (auto elim: cluster_chain.cases)
  with chain_step.IH show ?case by blast
qed

definition cluster_lbas :: "simple_fs \<Rightarrow> u32 \<Rightarrow> u64 list" where
  "cluster_lbas fs c = map (\<lambda>i. get_lba_of_cluster fs c + of_nat i) [0..<unat (sectors_per_clus fs)]"

definition dir_entries :: "simple_fs \<Rightarrow> (u64 \<Rightarrow> u8 list) \<Rightarrow> u32 list \<Rightarrow> u8 list list" where
  "dir_entries fs D cs = concat (map (\<lambda>l. map (dir_entry (D l)) [0..<16]) (concat (map (cluster_lbas fs) cs)))"

fun first_some :: "('a \<Rightarrow> 'b option) \<Rightarrow> 'a list \<Rightarrow> 'b option" where
  "first_some f [] = None"
| "first_some f (x # xs) = (case f x of None \<Rightarrow> first_some f xs | Some y \<Rightarrow> Some y)"

definition entry_in_use :: "u8 list \<Rightarrow> bool" where
  "entry_in_use e \<longleftrightarrow> entry_name e ! 0 \<noteq> 0xE5 \<and> entry_attr e \<noteq> 0x0F"

definition dir_lookup :: "(u8 list \<Rightarrow> 'a option) \<Rightarrow> u8 list list \<Rightarrow> 'a option" where
  "dir_lookup f es = first_some f (filter entry_in_use (takeWhile (\<lambda>e. entry_name e ! 0 \<noteq> 0) es))"

definition spc :: "simple_fs \<Rightarrow> nat" where
  "spc fs = unat (sectors_per_clus fs)"

lemma spc_less: "spc fs < 256"
  using unsigned_less [of "sectors_per_clus fs"] by (simp add: spc_def)

text \<open>
  The sectors of the data clusters, as plain numbers: they do not wrap on a disk whose data region
  starts below \<open>2 ^ 63\<close>, lie in the data region, and two clusters share none.
\<close>

lemma cluster_lbas_num:
  assumes "unat (cluster_begin_lba fs) < 2 ^ 63" "2 \<le> c" "l \<in> set (cluster_lbas fs c)"
  obtains i where "i < spc fs" "unat l = unat (cluster_begin_lba fs) + (unat c - 2) * spc fs + i"
proof -
  from assms(3) obtain i where i: "i < spc fs" "l = get_lba_of_cluster fs c + of_nat i"
    by (auto simp: cluster_lbas_def spc_def)
  have k: "2 \<le> unat c" using assms(2) by (simp add: word_le_nat_alt)
  have "unat c - 2 \<le> 2 ^ 32" by (rule order_trans [OF diff_le_self less_imp_le]) simp
  then have "(unat c - 2) * spc fs \<le> 2 ^ 32 * 255" using spc_less [of fs] by (intro mult_le_mono) simp_all
  then have lt: "unat (cluster_begin_lba fs) + (unat c - 2) * spc fs + i < 2 ^ 64"
    using assms(1) i(1) spc_less [of fs] by simp
  have "l = of_nat (unat (cluster_begin_lba fs) + (unat c - 2) * spc fs + i)"
    using k i(2) by (simp add: get_lba_of_cluster_def unsigned_ucast_eq of_nat_diff spc_def)
  then have "unat l = unat (cluster_begin_lba fs) + (unat c - 2) * spc fs + i"
    by (simp only: unat_of_nat_u64 [OF lt])
  with i(1) show thesis by (rule that)
qed

lemma cluster_lbas_ge:
  "unat (cluster_begin_lba fs) < 2 ^ 63 \<Longrightarrow> 2 \<le> c \<Longrightarrow> l \<in> set (cluster_lbas fs c) \<Longrightarrow> cluster_begin_lba fs \<le> l"
  by (erule cluster_lbas_num) (auto simp: word_le_nat_alt)

lemma cluster_lbas_disj:
  assumes "unat (cluster_begin_lba fs) < 2 ^ 63" "2 \<le> c" "2 \<le> c'" "c \<noteq> c'"
  shows "set (cluster_lbas fs c) \<inter> set (cluster_lbas fs c') = {}"
proof (rule equals0I)
  fix l assume "l \<in> set (cluster_lbas fs c) \<inter> set (cluster_lbas fs c')"
  then have l: "l \<in> set (cluster_lbas fs c)" "l \<in> set (cluster_lbas fs c')" by simp_all
  from cluster_lbas_num [OF assms(1,2) l(1)] obtain i where
      i: "i < spc fs" "unat l = unat (cluster_begin_lba fs) + (unat c - 2) * spc fs + i" by blast
  from cluster_lbas_num [OF assms(1,3) l(2)] obtain j where
      j: "j < spc fs" "unat l = unat (cluster_begin_lba fs) + (unat c' - 2) * spc fs + j" by blast
  have "((unat c - 2) * spc fs + i) div spc fs = unat c - 2" "((unat c' - 2) * spc fs + j) div spc fs = unat c' - 2"
    using i(1) j(1) by simp_all
  moreover have "(unat c - 2) * spc fs + i = (unat c' - 2) * spc fs + j" using i(2) j(2) by simp
  ultimately have "unat c - 2 = unat c' - 2" by simp
  moreover have "2 \<le> unat c" "2 \<le> unat c'" using assms(2,3) by (simp_all add: word_le_nat_alt)
  ultimately have "unat c = unat c'" by simp
  with assms(4) show False by (simp add: word_unat_eq_iff)
qed

text \<open>Cluster 0, which empty files have, is put two clusters below the data region.\<close>

lemma cluster_0_num:
  assumes "2 * spc fs \<le> unat (cluster_begin_lba fs)" "l \<in> set (cluster_lbas fs 0)"
  obtains i where "i < spc fs" "unat l = unat (cluster_begin_lba fs) - 2 * spc fs + i"
proof -
  from assms(2) obtain i where i: "i < spc fs" "l = get_lba_of_cluster fs 0 + of_nat i"
    by (auto simp: cluster_lbas_def spc_def)
  have lt: "unat (cluster_begin_lba fs) - 2 * spc fs + i < 2 ^ 64"
  proof -
    have "unat (cluster_begin_lba fs) < 2 ^ 64" using unsigned_less [of "cluster_begin_lba fs"] by simp
    moreover have "unat (cluster_begin_lba fs) - 2 * spc fs + i \<le> unat (cluster_begin_lba fs)" using i(1) assms(1) by simp
    ultimately show ?thesis by (rule le_less_trans [rotated])
  qed
  have "l = of_nat (unat (cluster_begin_lba fs) - 2 * spc fs + i)"
    using assms(1) i(2) by (simp add: get_lba_of_cluster_def unsigned_ucast_eq of_nat_diff spc_def)
  then have "unat l = unat (cluster_begin_lba fs) - 2 * spc fs + i" by (simp only: unat_of_nat_u64 [OF lt])
  with i(1) show thesis by (rule that)
qed

lemma cluster_0_below:
  assumes "2 * spc fs \<le> unat (cluster_begin_lba fs)" "l \<in> set (cluster_lbas fs 0)"
  shows "l < cluster_begin_lba fs"
proof -
  obtain i where "i < spc fs" "unat l = unat (cluster_begin_lba fs) - 2 * spc fs + i"
    using cluster_0_num [OF assms] .
  then show ?thesis using assms(1) by (simp add: word_less_nat_alt)
qed

lemma cluster_0_in_fat:
  assumes "unat (get_fat_lba fs) + 2 * spc fs \<le> unat (cluster_begin_lba fs)" "l \<in> set (cluster_lbas fs 0)"
  shows "get_fat_lba fs \<le> l"
proof -
  have le: "2 * spc fs \<le> unat (cluster_begin_lba fs)" using assms(1) by simp
  obtain i where "unat l = unat (cluster_begin_lba fs) - 2 * spc fs + i"
    using cluster_0_num [OF le assms(2)] .
  then show ?thesis using assms(1) by (simp add: word_le_nat_alt)
qed

text \<open>The sectors a walk of the chain \<open>cs\<close> reads exist on the disk.\<close>

definition chain_valid :: "(u64 \<Rightarrow> bool) \<Rightarrow> simple_fs \<Rightarrow> u32 list \<Rightarrow> bool" where
  "chain_valid valid fs cs \<longleftrightarrow> (\<forall>c\<in>set cs. valid (fat_sector fs c) \<and> (\<forall>l\<in>set (cluster_lbas fs c). valid l))"

lemma chain_valid_Cons [simp]: "chain_valid valid fs (c # cs) \<longleftrightarrow>
    valid (fat_sector fs c) \<and> (\<forall>l\<in>set (cluster_lbas fs c). valid l) \<and> chain_valid valid fs cs"
  by (auto simp: chain_valid_def)

lemma chain_valid_Nil [simp]: "chain_valid valid fs []"
  by (simp add: chain_valid_def)

section \<open>Scanning is lookup\<close>

fun scan_list :: "(u8 list \<Rightarrow> 'a option) \<Rightarrow> u8 list list \<Rightarrow> 'a scan" where
  "scan_list f [] = Not_Here"
| "scan_list f (e # es) = (if entry_name e ! 0 = 0 then End_Of_Dir
     else if \<not> entry_in_use e then scan_list f es
     else case f e of Some x \<Rightarrow> Found x | None \<Rightarrow> scan_list f es)"

lemma scan_entries_list: "scan_entries f sec js = scan_list f (map (dir_entry sec) js)"
  by (induction js) (auto simp: Let_def entry_in_use_def split: option.splits)

lemma scan_list_append: "scan_list f (xs @ ys) = (case scan_list f xs of Not_Here \<Rightarrow> scan_list f ys | r \<Rightarrow> r)"
  by (induction xs) (auto split: option.splits)

lemma dir_lookup_scan: "dir_lookup f es = (case scan_list f es of Found x \<Rightarrow> Some x | _ \<Rightarrow> None)"
  by (induction es) (auto simp: dir_lookup_def split: option.splits)

context block_device begin

lemma read_bufferE:
  assumes "inv m" "valid l"
  obtains m' where "io_read io l m = Some m'" "keeps m m'" "buffer io m' = disk m l"
  using read_keeps [OF assms] unfolding buffer_def by blast

lemma read_fatE:
  assumes "inv m" "valid (fat_sector fs c)"
  obtains m' where "read_fat io fs c m = Some (fat_value fs (disk m) c, m')" "keeps m m'"
  using assms by (auto intro: that elim!: read_bufferE [of m "fat_sector fs c"] simp: read_fat_def fat_value_def)

lemma scan_cluster_spec:
  assumes "inv m" "\<forall>i\<in>set is. valid (lba + of_nat i)"
  shows "\<exists>m'. scan_cluster io f lba is m =
      Some (scan_list f (concat (map (\<lambda>i. map (dir_entry (disk m (lba + of_nat i))) [0..<16]) is)), m') \<and> keeps m m'"
  using assms
proof (induction "is" arbitrary: m)
  case Nil
  then show ?case by (simp add: keeps_refl)
next
  case (Cons i "is")
  then obtain m1 where m1: "io_read io (lba + of_nat i) m = Some m1" "keeps m m1"
      "buffer io m1 = disk m (lba + of_nat i)"
    by (auto elim!: read_bufferE [of m "lba + of_nat i"])
  have inv1: "inv m1" and d1: "disk m1 = disk m" using m1(2) by (auto dest: keepsD)
  obtain m2 where m2: "scan_cluster io f lba is m1 =
      Some (scan_list f (concat (map (\<lambda>i. map (dir_entry (disk m (lba + of_nat i))) [0..<16]) is)), m2)" "keeps m1 m2"
    using Cons.IH [OF inv1] Cons.prems d1 by auto
  show ?case
    using m1 m2 keeps_trans [OF m1(2) m2(2)]
    by (auto simp: scan_entries_list scan_list_append simp del: upt_rec_numeral split: scan.splits)
qed

lemma dir_walk_spec:
  assumes "cluster_chain fs D c cs" "disk m = D" "inv m" "chain_valid valid fs cs"
  shows "\<exists>m'. dir_walk io fs f c m = Some (dir_lookup f (dir_entries fs D cs), m') \<and> keeps m m'"
  using assms
proof (induction arbitrary: m rule: cluster_chain.induct)
  case (chain_end c)
  then show ?case by (subst dir_walk.simps) (simp add: dir_entries_def dir_lookup_def keeps_refl)
next
  case (chain_step c cs)
  let ?es = "concat (map (\<lambda>l. map (dir_entry (D l)) [0..<16]) (cluster_lbas fs c))"
  have v: "\<forall>i\<in>set [0..<unat (sectors_per_clus fs)]. valid (get_lba_of_cluster fs c + of_nat i)"
    using chain_step.prems(3) by (auto simp: cluster_lbas_def)
  obtain m1 where m1: "scan_cluster io f (get_lba_of_cluster fs c) [0..<unat (sectors_per_clus fs)] m = Some (scan_list f ?es, m1)"
      "keeps m m1"
    using scan_cluster_spec [OF chain_step.prems(2) v, of f] chain_step.prems(1)
    by (auto simp: cluster_lbas_def comp_def simp del: upt_rec_numeral)
  have inv1: "inv m1" and d1: "disk m1 = D" using m1(2) chain_step.prems(1) by (auto dest: keepsD)
  obtain m2 where m2: "read_fat io fs c m1 = Some (fat_value fs D c, m2)" "keeps m1 m2"
    using chain_step.prems(3) inv1 d1 by (auto elim!: read_fatE [of m1 fs c])
  have inv2: "inv m2" and d2: "disk m2 = D" using m2(2) d1 by (auto dest: keepsD)
  obtain m3 where m3: "dir_walk io fs f (fat_value fs D c) m2 = Some (dir_lookup f (dir_entries fs D cs), m3)" "keeps m2 m3"
    using chain_step.IH [OF d2 inv2] chain_step.prems(3) by auto
  have split: "dir_lookup f (dir_entries fs D (c # cs)) = (case scan_list f ?es of
      Not_Here \<Rightarrow> dir_lookup f (dir_entries fs D cs) | Found x \<Rightarrow> Some x | End_Of_Dir \<Rightarrow> None)"
    by (simp add: dir_lookup_scan dir_entries_def scan_list_append del: upt_rec_numeral split: scan.splits)
  have k2: "keeps m m2" using m1(2) m2(2) by (rule keeps_trans)
  have k3: "keeps m m3" using k2 m3(2) by (rule keeps_trans)
  show ?case
  proof (cases "scan_list f ?es")
    case (Found x)
    then show ?thesis using m1 by (subst dir_walk.simps) (simp add: chain_step.hyps(1) split)
  next
    case End_Of_Dir
    then show ?thesis using m1 by (subst dir_walk.simps) (simp add: chain_step.hyps(1) split)
  next
    case Not_Here
    then show ?thesis using m1(1) m2(1) m3(1) k3
      by (subst dir_walk.simps) (simp add: chain_step.hyps(1) split)
  qed
qed

text \<open>Mounting reads the MBR's first partition entry and that partition's boot sector.\<close>

lemma fs_init_spec:
  assumes "inv m" "valid 0" "valid (mbr_part_lba (disk m 0))"
  shows "\<exists>m'. fs_init io m = Some (parse_bpb (mbr_part_lba (disk m 0)) (disk m (mbr_part_lba (disk m 0))), m') \<and> keeps m m'"
proof -
  obtain m1 where m1: "io_read io 0 m = Some m1" "keeps m m1" "buffer io m1 = disk m 0"
    by (rule read_bufferE [OF assms(1,2)])
  have "inv m1" "disk m1 = disk m" using m1(2) by (auto dest: keepsD)
  then obtain m2 where m2: "io_read io (mbr_part_lba (disk m 0)) m1 = Some m2" "keeps m1 m2"
      "buffer io m2 = disk m (mbr_part_lba (disk m 0))"
    using read_bufferE [OF _ assms(3), of m1] by metis
  show ?thesis using m1 m2 keeps_trans [OF m1(2) m2(2)] by (simp add: fs_init_def Let_def)
qed

end

text \<open>The volume a disk holds, as \<open>fs_init\<close> reads it.\<close>

definition volume_at :: "(u64 \<Rightarrow> bool) \<Rightarrow> (u64 \<Rightarrow> u8 list) \<Rightarrow> simple_fs \<Rightarrow> bool" where
  "volume_at valid D fs \<longleftrightarrow> valid 0 \<and> valid (mbr_part_lba (D 0))
    \<and> parse_bpb (mbr_part_lba (D 0)) (D (mbr_part_lba (D 0))) = Some fs"

context block_device begin

lemma fs_init_volume:
  assumes "inv m" "volume_at valid (disk m) fs"
  obtains m' where "fs_init io m = Some (Some fs, m')" "keeps m m'"
  using fs_init_spec [of m] assms by (auto simp: volume_at_def)

end

end
