(* ===== verification/Sample_Disk.thy ===== *)
theory Sample_Disk imports Ahci_Correct Fat32 begin

text \<open>
  A small FAT32 volume on the simulated controller, for the witnesses: the partition starts at
  sector 1, the FAT is sector 2, one sector per cluster, the root directory is cluster 2 (sector 3)
  and holds \<open>A.TXT\<close>, whose five bytes are in cluster 3 (sector 4).
\<close>

definition sample_sector :: "(nat \<times> u8) list \<Rightarrow> u8 list" where
  "sample_sector ws = map (\<lambda>i. case map_of ws i of Some v \<Rightarrow> v | None \<Rightarrow> 0) [0..<512]"

lemma length_sample_sector [simp]: "length (sample_sector ws) = 512"
  by (simp add: sample_sector_def del: upt_rec_numeral)

lemma nth_sample_sector [simp]:
  "i < 512 \<Longrightarrow> sample_sector ws ! i = (case map_of ws i of Some v \<Rightarrow> v | None \<Rightarrow> 0)"
  by (simp add: sample_sector_def del: upt_rec_numeral)

definition sample_disk :: "u64 \<Rightarrow> u8 list" where
  "sample_disk l = sample_sector (
     if l = 0 then [(454, 1)]
     else if l = 1 then [(11, 0), (12, 2), (13, 1), (14, 1), (16, 1), (36, 1), (44, 2)]
     else if l = 2 then [(8, 0xFF), (9, 0xFF), (10, 0xFF), (11, 0x0F), (12, 0xFF), (13, 0xFF), (14, 0xFF), (15, 0x0F)]
     else if l = 3 then [(0, 0x41), (1, 0x20), (2, 0x20), (3, 0x20), (4, 0x20), (5, 0x20), (6, 0x20), (7, 0x20),
       (8, 0x54), (9, 0x58), (10, 0x54), (11, 0x20), (26, 3), (28, 5)]
     else if l = 4 then [(0, 0x48), (1, 0x45), (2, 0x4C), (3, 0x4C), (4, 0x4F)]
     else [])"

definition sample_fs :: simple_fs where
  "sample_fs = \<lparr>cluster_begin_lba = 3, sectors_per_clus = 1, root_cluster = 2, reserved_secs = 1,
     fat_sz32 = 1, num_fats = 1, part_lba = 1\<rparr>"

definition sample_machine :: "sim machine" where
  "sample_machine = \<lparr>ram = (\<lambda>_. 0), dev = \<lparr>sim_sectors = sample_disk, sim_pending = False\<rparr>\<rparr>"

lemma sample_idle: "sim_idle (dev sample_machine)"
  by (simp add: sim_idle_def sample_machine_def sample_disk_def)

lemma sample_sectors [simp]: "sim_sectors (dev sample_machine) = sample_disk"
  by (simp add: sample_machine_def)

lemma sample_length [simp]: "length (sample_disk l) = 512"
  by (simp add: sample_disk_def)

lemma sample_mbr: "mbr_part_lba (sample_disk 0) = 1"
  by (simp add: mbr_part_lba_def sample_disk_def)

lemma sample_volume: "volume_at (\<lambda>l. l < 2 ^ 48) sample_disk sample_fs"
  by (simp add: volume_at_def sample_mbr)
     (simp add: sample_disk_def parse_bpb_def le16_def le32_def sample_fs_def Let_def)

lemma sample_fat: "fat_value sample_fs sample_disk 2 = 0x0FFFFFFF" "fat_value sample_fs sample_disk 3 = 0x0FFFFFFF"
  by (simp_all add: fat_value_def fat_sector_def fat_slot_def get_fat_lba_def sample_fs_def Let_def sample_disk_def
      le32_def le16_def)

lemma sample_chain: "c = 2 \<or> c = 3 \<Longrightarrow> cluster_chain sample_fs sample_disk c [c]"
  using sample_fat by (auto simp: chain_Cons_iff chain_Nil_iff live_cluster_def)

lemma sample_lbas: "cluster_lbas sample_fs 2 = [3]" "cluster_lbas sample_fs 3 = [4]"
  by (simp_all add: cluster_lbas_def sample_fs_def get_lba_of_cluster_def)

lemma sample_chain_valid: "c = 2 \<or> c = 3 \<Longrightarrow> chain_valid (\<lambda>l. l < 2 ^ 48) sample_fs [c]"
  by (elim disjE; simp add: sample_lbas; simp add: fat_sector_def get_fat_lba_def sample_fs_def Let_def)

lemma dir_entry_eval: "length sec = 512 \<Longrightarrow> j < 16 \<Longrightarrow> dir_entry sec j = map (\<lambda>i. sec ! (32 * j + i)) [0..<32]"
  by (rule nth_equalityI) (simp_all add: dir_entry_def del: upt_rec_numeral)

lemma sample_entries: "dir_lookup f (dir_entries sample_fs sample_disk [2]) = f (dir_entry (sample_disk 3) 0)"
proof -
  have e0: "entry_name (dir_entry (sample_disk 3) 0) ! 0 = 0x41" "entry_attr (dir_entry (sample_disk 3) 0) = 0x20"
    by (simp_all add: entry_name_def entry_attr_def dir_entry_def sample_disk_def)
  have e1: "entry_name (dir_entry (sample_disk 3) 1) ! 0 = 0"
    by (simp add: entry_name_def dir_entry_def sample_disk_def)
  have "map (dir_entry (sample_disk 3)) [0..<16] = dir_entry (sample_disk 3) 0 # dir_entry (sample_disk 3) 1 # map (dir_entry (sample_disk 3)) [2..<16]"
    by (simp add: upt_eval)
  with e0 e1 show ?thesis
    by (simp add: dir_lookup_def dir_entries_def sample_lbas entry_in_use_def del: upt_rec_numeral split: option.splits)
qed

lemma slice_sample_sector:
  "i + n \<le> 512 \<Longrightarrow> take n (drop i (sample_sector ws)) = map (\<lambda>j. case map_of ws j of Some v \<Rightarrow> v | None \<Rightarrow> 0) [i..<i + n]"
  by (rule nth_equalityI) simp_all

lemma sample_scratch: "unat a + n \<le> 0x4000800 \<Longrightarrow> i < n \<Longrightarrow> \<not> ahci_scratch sim_globals (\<lambda>x. False) (a + of_nat i)"
proof -
  assume h: "unat a + n \<le> 0x4000800" "i < n"
  then have "unat (a + of_nat i) = unat a + i"
    by (simp add: unat_word_ariths unat_of_nat take_bit_nat_eq_self)
  with h show ?thesis by (simp add: ahci_scratch_def sim_globals_def in_region_iff_bounds)
qed

lemma sample_name: "match_entry [0x61, 0x2E, 0x74, 0x78, 0x74] (dir_entry (sample_disk 3) 0) = Some (3, 5)"
  by (simp add: match_entry_def dir_entry_eval upt_eval)
     (simp add: sample_disk_def display_name_def entry_name_def eq_ignore_ascii_case_def to_ascii_lowercase_def
       entry_cluster_def entry_size_def le16_def le32_def)

end
