(* ===== verification/Fat32_Correct.thy ===== *)
theory Fat32_Correct imports Sample_Disk begin

text \<open>The properties of mounting, cluster arithmetic and directory lookup, on the AHCI driver.\<close>

text \<open>
  C23. Looking a name up in a directory returns the cluster and the size of the first entry in use
  whose 8.3 name equals it up to ASCII case, in the directory as the disk holds it (the entries of
  its cluster chain up to the end mark), or nothing when there is none; the disk is unchanged, and
  so is memory outside the driver's. On a finite chain of existing sectors the walk always returns.
\<close>

theorem find_entry_lookup:
  assumes "ahci_contract bus g idle sectors cap dma" "idle (dev m)"
    and "cluster_chain fs (sectors (dev m)) c cs" "chain_valid (\<lambda>l. l < cap) fs cs"
  shows "\<exists>m'. find_entry (ahci_io bus g) fs c name m =
        Some (dir_lookup (match_entry name) (dir_entries fs (sectors (dev m)) cs), m')
      \<and> idle (dev m') \<and> sectors (dev m') = sectors (dev m)
      \<and> (\<forall>x. \<not> ahci_scratch g dma x \<longrightarrow> ram m' x = ram m x)"
proof -
  have inv: "ahci_contract bus g idle sectors cap dma \<and> idle (dev m)" using assms(1,2) by blast
  from ahci.dir_walk_spec [OF assms(3) refl inv assms(4), of "match_entry name"] ahci_keeps
  show ?thesis unfolding find_entry_def by blast
qed

theorem find_entry_lookup_witness:
  "\<exists>m'. find_entry (ahci_io sim_hw sim_globals) sample_fs 2 [0x61, 0x2E, 0x74, 0x78, 0x74] sample_machine = Some (Some (3, 5), m')"
proof -
  show ?thesis
    using find_entry_lookup [OF sim_ahci_contract sample_idle, of sample_fs 2 "[2]" "[0x61, 0x2E, 0x74, 0x78, 0x74]"]
      sample_chain [of 2] sample_chain_valid [of 2] by (auto simp: sample_entries sample_name)
qed

text \<open>
  C32. On a volume whose sector numbers do not wrap, the sectors of two different data clusters never
  overlap and never fall below the data region. Cluster 0, the first cluster of an empty file, does: when the
  data region starts at least two clusters into the disk, all its sectors are below the data region, and when the
  FATs take at least the sectors of two clusters, all of them are sectors of the FATs.
\<close>

theorem cluster_lbas_disjoint:
  assumes "unat (cluster_begin_lba fs) < 2 ^ 63" and "2 \<le> c" "2 \<le> c'"
  shows "(c \<noteq> c' \<longrightarrow> set (cluster_lbas fs c) \<inter> set (cluster_lbas fs c') = {})
    \<and> (\<forall>l\<in>set (cluster_lbas fs c). cluster_begin_lba fs \<le> l)
    \<and> (2 * unat (sectors_per_clus fs) \<le> unat (cluster_begin_lba fs) \<longrightarrow>
         (\<forall>l\<in>set (cluster_lbas fs 0). l < cluster_begin_lba fs))
    \<and> (unat (get_fat_lba fs) + 2 * unat (sectors_per_clus fs) \<le> unat (cluster_begin_lba fs) \<longrightarrow>
         (\<forall>l\<in>set (cluster_lbas fs 0). get_fat_lba fs \<le> l \<and> l < cluster_begin_lba fs))"
  using cluster_lbas_disj [OF assms(1)] cluster_lbas_ge [OF assms(1)] assms(2,3)
    cluster_0_below [of fs] cluster_0_in_fat [of fs] by (auto simp: spc_def)

text \<open>The sample volume with FATs of 98 sectors: they start at sector 2, the data region at sector 100.\<close>

theorem cluster_lbas_disjoint_witness:
  "set (cluster_lbas (sample_fs\<lparr>cluster_begin_lba := 100, fat_sz32 := 98\<rparr>) 2)
      \<inter> set (cluster_lbas (sample_fs\<lparr>cluster_begin_lba := 100, fat_sz32 := 98\<rparr>) 3) = {}
    \<and> set (cluster_lbas (sample_fs\<lparr>cluster_begin_lba := 100, fat_sz32 := 98\<rparr>) 0) \<subseteq> {2..<100}"
  using cluster_lbas_disjoint [of "sample_fs\<lparr>cluster_begin_lba := 100, fat_sz32 := 98\<rparr>" 2 3]
  by (auto simp: sample_fs_def get_fat_lba_def)

end
