(* ===== verification/Fd_Table.thy ===== *)
theory Fd_Table imports Machine begin

text \<open>
  The file descriptor table of \<open>kernel/src/boot/fd.rs\<close>: 256 slots, of which 0 to 2 are never handed
  out. \<open>i32\<close> and \<open>i64\<close> results are words, read as two's complement. The functions that return a
  mutable reference (\<open>get_fd_mut\<close>) are updates of the slot.
\<close>

section \<open>State and operations\<close>

record file_descriptor =
  fd_cluster :: u32
  fd_position :: u64
  fd_is_dir :: bool
  fd_size :: u32

type_synonym fd_table = "file_descriptor option list"

definition FD_TABLE_0 :: fd_table where
  "FD_TABLE_0 = replicate 256 None"

fun fd_scan :: "file_descriptor \<Rightarrow> nat list \<Rightarrow> fd_table \<Rightarrow> u32 \<times> fd_table" where
  "fd_scan d [] tbl = (-1, tbl)"
| "fd_scan d (i # is) tbl = (if tbl ! i = None then (of_nat i, tbl[i := Some d]) else fd_scan d is tbl)"

definition allocate_fd :: "u32 \<Rightarrow> bool \<Rightarrow> u32 \<Rightarrow> fd_table \<Rightarrow> u32 \<times> fd_table" where
  "allocate_fd cluster is_dir file_size tbl =
    fd_scan \<lparr>fd_cluster = cluster, fd_position = 0, fd_is_dir = is_dir, fd_size = file_size\<rparr> [3..<256] tbl"

definition get_fd :: "u32 \<Rightarrow> fd_table \<Rightarrow> file_descriptor option" where
  "get_fd fd tbl = (if unat fd < 256 then tbl ! unat fd else None)"

definition set_fd :: "u32 \<Rightarrow> file_descriptor \<Rightarrow> fd_table \<Rightarrow> fd_table" where
  "set_fd fd d tbl = (case get_fd fd tbl of Some _ \<Rightarrow> tbl[unat fd := Some d] | None \<Rightarrow> tbl)"

definition close_fd :: "u32 \<Rightarrow> fd_table \<Rightarrow> bool \<times> fd_table" where
  "close_fd fd tbl = (if fd \<ge> 3 \<and> unat fd < 256 then (True, tbl[unat fd := None]) else (False, tbl))"

definition seek :: "u64 \<Rightarrow> file_descriptor \<Rightarrow> file_descriptor" where
  "seek pos d = d\<lparr>fd_position := pos\<rparr>"

definition sys_seek :: "u32 \<Rightarrow> u64 \<Rightarrow> fd_table \<Rightarrow> u64 \<times> fd_table" where
  "sys_seek fd pos tbl = (case get_fd fd tbl of
       Some d \<Rightarrow> (fd_position (seek pos d), set_fd fd (seek pos d) tbl)
     | None \<Rightarrow> (-1, tbl))"

definition lseek_target :: "file_descriptor \<Rightarrow> u64 \<Rightarrow> u32 \<Rightarrow> u64 option" where
  "lseek_target d offset whence =
    (if whence = 0 then Some offset
     else if whence = 1 then Some (fd_position d + offset)
     else if whence = 2 then Some (ucast (fd_size d) + offset)
     else None)"

definition sys_lseek :: "u32 \<Rightarrow> u64 \<Rightarrow> u32 \<Rightarrow> fd_table \<Rightarrow> u64 \<times> fd_table" where
  "sys_lseek fd offset whence tbl = (case get_fd fd tbl of
       None \<Rightarrow> (-1, tbl)
     | Some d \<Rightarrow> (case lseek_target d offset whence of
           None \<Rightarrow> (-1, tbl)
         | Some new_pos \<Rightarrow> if sint new_pos < 0 then (-1, tbl)
             else (new_pos, set_fd fd (d\<lparr>fd_position := new_pos\<rparr>) tbl)))"

text \<open>\<open>FileStat\<close> is 24 bytes; the padding after \<open>is_dir\<close> is left as it is.\<close>

definition sys_fstat :: "u32 \<Rightarrow> u64 \<Rightarrow> fd_table \<Rightarrow> memory \<Rightarrow> bool \<times> memory" where
  "sys_fstat fd buf_ptr tbl mem = (case get_fd fd tbl of
       None \<Rightarrow> (False, mem)
     | Some d \<Rightarrow> (True, st8 (buf_ptr + 16) (if fd_is_dir d then 1 else 0)
         (wr64 (buf_ptr + 8) (fd_position d) (wr32 (buf_ptr + 4) (fd_cluster d) (wr32 buf_ptr (fd_size d) mem)))))"

section \<open>A table of handles\<close>

text \<open>
  What the rest of the kernel relies on of the table: an open handle is the lowest slot that was
  free and holds what was put in it, an operation on one handle does not touch another, and a closed
  handle is gone. \<open>handles\<close> are the numbers that can be handed out.
\<close>

locale handle_table =
  fixes lookup :: "'h \<Rightarrow> 't \<Rightarrow> 'a option"
    and alloc :: "'a \<Rightarrow> 't \<Rightarrow> ('h \<times> 't) option"
    and store :: "'h \<Rightarrow> 'a \<Rightarrow> 't \<Rightarrow> 't"
    and free :: "'h \<Rightarrow> 't \<Rightarrow> 't"
    and handles :: "'h set"
    and ok :: "'t \<Rightarrow> bool"
  assumes alloc_ok: "ok t \<Longrightarrow> alloc a t = Some (h, t') \<Longrightarrow> ok t' \<and> h \<in> handles \<and> lookup h t = None
      \<and> lookup h t' = Some a \<and> (\<forall>k. k \<noteq> h \<longrightarrow> lookup k t' = lookup k t)"
    and alloc_full: "ok t \<Longrightarrow> alloc a t = None \<longleftrightarrow> (\<forall>h\<in>handles. lookup h t \<noteq> None)"
    and store_ok: "ok t \<Longrightarrow> lookup h t \<noteq> None \<Longrightarrow> ok (store h a t) \<and> lookup h (store h a t) = Some a
      \<and> (\<forall>k. k \<noteq> h \<longrightarrow> lookup k (store h a t) = lookup k t)"
    and free_ok: "ok t \<Longrightarrow> h \<in> handles \<Longrightarrow> ok (free h t) \<and> lookup h (free h t) = None
      \<and> (\<forall>k. k \<noteq> h \<longrightarrow> lookup k (free h t) = lookup k t)"
begin

lemma open_close_open:
  assumes "ok t" "alloc a t = Some (h, t')"
  shows "\<exists>k t''. alloc b (free h t') = Some (k, t'') \<and> lookup k t = None \<and> lookup k t'' = Some b
    \<and> (\<forall>j. j \<noteq> k \<longrightarrow> lookup j t'' = lookup j t)"
proof -
  from alloc_ok [OF assms] have a: "ok t'" "h \<in> handles" "lookup h t = None" "\<forall>k. k \<noteq> h \<longrightarrow> lookup k t' = lookup k t"
    by blast+
  from free_ok [OF a(1,2)] have f: "ok (free h t')" "lookup h (free h t') = None"
    "\<forall>k. k \<noteq> h \<longrightarrow> lookup k (free h t') = lookup k t'" by blast+
  have same: "lookup k (free h t') = lookup k t" for k using a f by metis
  from alloc_full [OF f(1), of b] f(2) a(2) obtain k t'' where k: "alloc b (free h t') = Some (k, t'')"
    by (cases "alloc b (free h t')") auto
  with alloc_ok [OF f(1) k] same show ?thesis by auto
qed

lemma stored_is_found: "ok t \<Longrightarrow> lookup h t = Some a \<Longrightarrow> lookup h (store h b t) = Some b"
  using store_ok [of t h b] by simp

end

section \<open>The descriptor table is a table of handles\<close>

definition fd_ok :: "fd_table \<Rightarrow> bool" where
  "fd_ok tbl \<longleftrightarrow> length tbl = 256"

definition fd_handles :: "u32 set" where
  "fd_handles = {fd. 3 \<le> unat fd \<and> unat fd < 256}"

definition alloc_entry :: "file_descriptor \<Rightarrow> fd_table \<Rightarrow> (u32 \<times> fd_table) option" where
  "alloc_entry d tbl = (case fd_scan d [3..<256] tbl of (fd, tbl') \<Rightarrow> if fd = -1 then None else Some (fd, tbl'))"

lemma unat_u32_small: "i < 256 \<Longrightarrow> unat (of_nat i :: u32) = i"
  by (simp add: unat_of_nat take_bit_nat_eq_self)

lemma u32_small_neq: "i < 256 \<Longrightarrow> (of_nat i :: u32) \<noteq> -1"
proof
  assume h: "i < 256" "(of_nat i :: u32) = -1"
  then have "unat (of_nat i :: u32) = unat (-1 :: u32)" by simp
  with h(1) show False by (simp add: unat_u32_small unsigned_minus_1_eq_mask mask_eq_exp_minus_1)
qed

text \<open>The scan stops at the first free slot of its range.\<close>

lemma fd_scan_cases:
  assumes "\<forall>i\<in>set is. i < 256"
  shows "(\<forall>i\<in>set is. tbl ! i \<noteq> None) \<and> fd_scan d is tbl = (-1, tbl) \<or>
    (\<exists>xs i ys. is = xs @ i # ys \<and> (\<forall>j\<in>set xs. tbl ! j \<noteq> None) \<and> tbl ! i = None
      \<and> fd_scan d is tbl = (of_nat i, tbl[i := Some d]))"
  using assms
proof (induction "is")
  case Nil
  then show ?case by simp
next
  case (Cons i "is")
  show ?case
  proof (cases "tbl ! i = None")
    case True
    then show ?thesis by (intro disjI2 exI [of _ "[]"] exI [of _ i] exI [of _ "is"]) simp
  next
    case False
    from Cons consider "\<forall>i\<in>set is. tbl ! i \<noteq> None" "fd_scan d is tbl = (-1, tbl)"
      | xs k ys where "is = xs @ k # ys" "\<forall>j\<in>set xs. tbl ! j \<noteq> None" "tbl ! k = None"
        "fd_scan d is tbl = (of_nat k, tbl[k := Some d])" by auto
    then show ?thesis
    proof cases
      case 1
      with False show ?thesis by (intro disjI1) auto
    next
      case 2
      with False show ?thesis by (intro disjI2 exI [of _ "i # xs"] exI [of _ k] exI [of _ ys]) auto
    qed
  qed
qed

lemma upt_split_at: "[a..<b] = xs @ i # ys \<Longrightarrow> a \<le> i \<and> i < b \<and> xs = [a..<i]"
proof -
  assume h: "[a..<b] = xs @ i # ys"
  then have i: "i \<in> set [a..<b]" and len: "length xs < length [a..<b]" by simp_all
  have "[a..<b] ! length xs = i" using h by simp
  then have "a + length xs = i" using len by simp
  moreover have "xs = take (length xs) [a..<b]" using h by simp
  ultimately show ?thesis using i len by (auto simp: take_upt)
qed

lemma fd_scan_lowest:
  obtains (full) "\<And>i. 3 \<le> i \<Longrightarrow> i < 256 \<Longrightarrow> tbl ! i \<noteq> None" "fd_scan d [3..<256] tbl = (-1, tbl)"
  | (free) i where "3 \<le> i" "i < 256" "tbl ! i = None" "\<And>j. 3 \<le> j \<Longrightarrow> j < i \<Longrightarrow> tbl ! j \<noteq> None"
      "fd_scan d [3..<256] tbl = (of_nat i, tbl[i := Some d])"
proof -
  have "\<forall>i\<in>set [3..<256]. i < (256 :: nat)" by simp
  from fd_scan_cases [OF this, of tbl d] show thesis
  proof (elim disjE exE conjE)
    assume "\<forall>i\<in>set [3..<256]. tbl ! i \<noteq> None" "fd_scan d [3..<256] tbl = (-1, tbl)"
    then show thesis by (intro full) auto
  next
    fix xs i ys
    assume h: "[3..<256] = xs @ i # ys" "\<forall>j\<in>set xs. tbl ! j \<noteq> None" "tbl ! i = None"
      "fd_scan d [3..<256] tbl = (of_nat i, tbl[i := Some d])"
    from upt_split_at [OF h(1)] h(2-4) show thesis by (intro free [of i]) auto
  qed
qed

lemma u32_unat_neq: "(k :: u32) \<noteq> h \<Longrightarrow> unat k \<noteq> unat h"
  by (simp add: word_unat_eq_iff)

lemma alloc_entryE:
  assumes "fd_ok tbl" "alloc_entry d tbl = Some (h, tbl')"
  obtains i where "3 \<le> i" "i < 256" "tbl ! i = None" "h = of_nat i" "tbl' = tbl[i := Some d]"
    "\<And>j. 3 \<le> j \<Longrightarrow> j < i \<Longrightarrow> tbl ! j \<noteq> None"
proof (rule fd_scan_lowest [of tbl d])
  assume "fd_scan d [3..<256] tbl = (-1, tbl)"
  with assms(2) show thesis by (simp add: alloc_entry_def)
next
  fix i assume i: "3 \<le> i" "i < 256" "tbl ! i = None" "\<And>j. 3 \<le> j \<Longrightarrow> j < i \<Longrightarrow> tbl ! j \<noteq> None"
    and s: "fd_scan d [3..<256] tbl = (of_nat i, tbl[i := Some d])"
  have "h = of_nat i" "tbl' = tbl[i := Some d]"
    using assms(2) u32_small_neq [OF i(2)] by (simp_all add: alloc_entry_def s)
  with i show thesis by (intro that [of i]) auto
qed

interpretation fds: handle_table get_fd alloc_entry set_fd "\<lambda>fd tbl. snd (close_fd fd tbl)" fd_handles fd_ok
proof
  fix t t' :: fd_table and a h
  assume ok: "fd_ok t"
  show "fd_ok t' \<and> h \<in> fd_handles \<and> get_fd h t = None \<and> get_fd h t' = Some a \<and> (\<forall>k. k \<noteq> h \<longrightarrow> get_fd k t' = get_fd k t)"
    if al: "alloc_entry a t = Some (h, t')"
  proof -
    obtain i where i: "3 \<le> i" "i < 256" "t ! i = None" "h = of_nat i" "t' = t[i := Some a]"
      by (rule alloc_entryE [OF ok al])
    have h: "unat h = i" using i by (simp add: unat_u32_small)
    have "unat k \<noteq> i" if "k \<noteq> h" for k using u32_unat_neq [OF that] h by simp
    with i h ok show ?thesis by (auto simp: fd_ok_def fd_handles_def get_fd_def nth_list_update)
  qed
  show "alloc_entry a t = None \<longleftrightarrow> (\<forall>h\<in>fd_handles. get_fd h t \<noteq> None)"
  proof (rule fd_scan_lowest [of t a])
    assume "\<And>i. 3 \<le> i \<Longrightarrow> i < 256 \<Longrightarrow> t ! i \<noteq> None" "fd_scan a [3..<256] t = (-1, t)"
    then show ?thesis by (auto simp: alloc_entry_def fd_handles_def get_fd_def)
  next
    fix i assume i: "3 \<le> i" "i < 256" "t ! i = None" "fd_scan a [3..<256] t = (of_nat i, t[i := Some a])"
    have "of_nat i \<in> fd_handles" "get_fd (of_nat i) t = None"
      using i by (simp_all add: fd_handles_def get_fd_def unat_u32_small)
    moreover have "alloc_entry a t \<noteq> None" using i(4) u32_small_neq [OF i(2)] by (simp add: alloc_entry_def)
    ultimately show ?thesis by blast
  qed
  show "fd_ok (set_fd h a t) \<and> get_fd h (set_fd h a t) = Some a \<and> (\<forall>k. k \<noteq> h \<longrightarrow> get_fd k (set_fd h a t) = get_fd k t)"
    if "get_fd h t \<noteq> None"
    using that ok by (auto simp: set_fd_def get_fd_def fd_ok_def nth_list_update word_unat_eq_iff [symmetric]
        split: option.splits if_splits)
  show "fd_ok (snd (close_fd h t)) \<and> get_fd h (snd (close_fd h t)) = None
      \<and> (\<forall>k. k \<noteq> h \<longrightarrow> get_fd k (snd (close_fd h t)) = get_fd k t)" if "h \<in> fd_handles"
    using that ok by (auto simp: close_fd_def get_fd_def fd_ok_def fd_handles_def word_le_nat_alt nth_list_update
        word_unat_eq_iff [symmetric])
qed

lemma allocate_fd_alloc: "allocate_fd c dir sz tbl =
    (case alloc_entry \<lparr>fd_cluster = c, fd_position = 0, fd_is_dir = dir, fd_size = sz\<rparr> tbl of
       Some r \<Rightarrow> r | None \<Rightarrow> (-1, tbl))"
proof (rule fd_scan_lowest [of tbl "\<lparr>fd_cluster = c, fd_position = 0, fd_is_dir = dir, fd_size = sz\<rparr>"])
  fix i assume "i < 256" "fd_scan \<lparr>fd_cluster = c, fd_position = 0, fd_is_dir = dir, fd_size = sz\<rparr> [3..<256] tbl
      = (of_nat i, tbl[i := Some \<lparr>fd_cluster = c, fd_position = 0, fd_is_dir = dir, fd_size = sz\<rparr>])"
  then show ?thesis by (simp add: allocate_fd_def alloc_entry_def u32_small_neq)
qed (simp add: allocate_fd_def alloc_entry_def)

section \<open>Properties\<close>

text \<open>
  C33. Opening a file takes the lowest free descriptor from 3 to 255, at position 0, and leaves every
  other descriptor alone; it fails with -1 and the table unchanged exactly when all of them are
  open. Closing the descriptor gives back the table as it was.
\<close>

theorem fd_open_close:
  assumes "length tbl = 256"
  shows "case allocate_fd c dir sz tbl of (fd, tbl') \<Rightarrow>
    (if \<forall>i\<in>{3..<256}. tbl ! i \<noteq> None then fd = -1 \<and> tbl' = tbl
     else unat fd = (LEAST i. 3 \<le> i \<and> tbl ! i = None) \<and> unat fd < 256
       \<and> get_fd fd tbl' = Some \<lparr>fd_cluster = c, fd_position = 0, fd_is_dir = dir, fd_size = sz\<rparr>
       \<and> (\<forall>k. k \<noteq> fd \<longrightarrow> get_fd k tbl' = get_fd k tbl)
       \<and> close_fd fd tbl' = (True, tbl))"
proof -
  let ?d = "\<lparr>fd_cluster = c, fd_position = 0, fd_is_dir = dir, fd_size = sz\<rparr>"
  have ok: "fd_ok tbl" using assms by (simp add: fd_ok_def)
  show ?thesis
  proof (cases "alloc_entry ?d tbl")
    case None
    have "tbl ! i \<noteq> None" if "3 \<le> i" "i < 256" for i
    proof -
      have "(of_nat i :: u32) \<in> fd_handles" using that by (simp add: fd_handles_def unat_u32_small)
      then have "get_fd (of_nat i) tbl \<noteq> None" using fds.alloc_full [OF ok, of ?d] None by blast
      then show ?thesis using that by (simp add: get_fd_def unat_u32_small)
    qed
    with None show ?thesis by (simp add: allocate_fd_alloc)
  next
    case (Some r)
    obtain fd tbl' where r: "r = (fd, tbl')" by fastforce
    with Some have al: "alloc_entry ?d tbl = Some (fd, tbl')" by simp
    obtain i where i: "3 \<le> i" "i < 256" "tbl ! i = None" "fd = of_nat i" "tbl' = tbl[i := Some ?d]"
      "\<And>j. 3 \<le> j \<Longrightarrow> j < i \<Longrightarrow> tbl ! j \<noteq> None"
      by (rule alloc_entryE [OF ok al]) blast
    have fd: "unat fd = i" using i by (simp add: unat_u32_small)
    have "(LEAST i. 3 \<le> i \<and> tbl ! i = None) = i"
    proof (rule Least_equality)
      show "i \<le> j" if "3 \<le> j \<and> tbl ! j = None" for j
        using i(6) [of j] that by (meson not_le_imp_less)
    qed (use i in simp)
    moreover have "close_fd fd tbl' = (True, tbl)"
      using i fd assms by (simp add: close_fd_def word_le_nat_alt list_update_same_conv)
    moreover have "\<not> (\<forall>i\<in>{3..<256}. tbl ! i \<noteq> None)" using i(1-3) by force
    moreover have "allocate_fd c dir sz tbl = (fd, tbl')" by (simp add: allocate_fd_alloc al)
    ultimately show ?thesis
      using fds.alloc_ok [OF ok al] i(2) fd by (simp only: prod.case if_False) blast
  qed
qed

theorem fd_open_close_witness:
  "close_fd (fst (allocate_fd 5 False 100 FD_TABLE_0)) (snd (allocate_fd 5 False 100 FD_TABLE_0)) = (True, FD_TABLE_0)"
proof -
  have "FD_TABLE_0 ! 3 = None" by (simp add: FD_TABLE_0_def)
  then have n: "\<not> (\<forall>i\<in>{3..<256}. FD_TABLE_0 ! i \<noteq> None)" by force
  have "length FD_TABLE_0 = 256" by (simp add: FD_TABLE_0_def)
  from fd_open_close [OF this, of 5 False 100] n show ?thesis
    by (simp only: if_False split_beta)
qed

text \<open>The position \<open>lseek\<close> asks for, as an integer.\<close>

definition lseek_position :: "file_descriptor \<Rightarrow> u64 \<Rightarrow> u32 \<Rightarrow> int" where
  "lseek_position d offset whence =
    (if whence = 0 then 0 else if whence = 1 then sint (fd_position d) else uint (fd_size d)) + sint offset"

lemma sint_add_in_range: "- (2 ^ 63) \<le> sint a + sint b \<Longrightarrow> sint a + sint b < 2 ^ 63 \<Longrightarrow> sint (a + b :: u64) = sint a + sint b"
  by (simp add: sint_word_ariths(1) signed_take_bit_int_eq_self)

lemma sint_ucast_u32: "sint (ucast (x :: u32) :: u64) = uint x"
proof -
  have "uint x < 2 ^ 32" using unsigned_less [of x] by simp
  have "- (2 ^ 63) \<le> (0 :: int)" by simp
  also have "0 \<le> uint x" by simp
  finally have lo: "- (2 ^ 63) \<le> uint x" .
  have "uint x < 2 ^ 63" using \<open>uint x < 2 ^ 32\<close> by simp
  with lo have "signed_take_bit 63 (uint x) = uint x"
    by (rule signed_take_bit_int_eq_self)
  moreover have "uint (ucast x :: u64) = uint x"
    using \<open>uint x < 2 ^ 32\<close> by (simp add: unsigned_ucast_eq take_bit_int_eq_self)
  ultimately show ?thesis by (simp add: sint_uint)
qed

text \<open>
  \<open>sys_lseek\<close> on every branch: on a closed descriptor or an unknown \<open>whence\<close> it returns -1 and
  changes nothing; otherwise, when the requested position (from the start, the current position or
  the end of the file) fits in an \<open>i64\<close>, a negative one returns -1 and changes nothing, and any other
  one becomes the descriptor's position and is returned, with every other descriptor unchanged.
\<close>

theorem lseek_outcomes:
  assumes "length tbl = 256"
  shows "(get_fd fd tbl = None \<longrightarrow> sys_lseek fd offset whence tbl = (-1, tbl))
    \<and> (whence > 2 \<longrightarrow> sys_lseek fd offset whence tbl = (-1, tbl))
    \<and> (\<forall>d. get_fd fd tbl = Some d \<longrightarrow> whence \<le> 2 \<longrightarrow>
        - (2 ^ 63) \<le> lseek_position d offset whence \<longrightarrow> lseek_position d offset whence < 2 ^ 63 \<longrightarrow>
        (if lseek_position d offset whence < 0 then sys_lseek fd offset whence tbl = (-1, tbl)
         else case sys_lseek fd offset whence tbl of (r, tbl') \<Rightarrow>
           sint r = lseek_position d offset whence \<and> get_fd fd tbl' = Some (d\<lparr>fd_position := r\<rparr>)
           \<and> (\<forall>k. k \<noteq> fd \<longrightarrow> get_fd k tbl' = get_fd k tbl)))"
proof (intro conjI impI allI)
  show "sys_lseek fd offset whence tbl = (-1, tbl)" if "get_fd fd tbl = None"
    using that by (simp add: sys_lseek_def)
  show "sys_lseek fd offset whence tbl = (-1, tbl)" if "whence > 2"
    using that by (auto simp: sys_lseek_def lseek_target_def split: option.splits)
next
  fix d
  assume d: "get_fd fd tbl = Some d" and w: "whence \<le> 2"
    and lo: "- (2 ^ 63) \<le> lseek_position d offset whence" and hi: "lseek_position d offset whence < 2 ^ 63"
  have "unat whence \<le> 2" using w by (simp add: word_le_nat_alt)
  then have "unat whence = 0 \<or> unat whence = 1 \<or> unat whence = 2" by linarith
  then have "whence = 0 \<or> whence = 1 \<or> whence = 2" by (simp add: word_unat_eq_iff)
  then obtain t where t: "lseek_target d offset whence = Some t" "sint t = lseek_position d offset whence"
    using lo hi sint_add_in_range [of "fd_position d" offset] sint_add_in_range [of "ucast (fd_size d)" offset]
    by (auto simp: lseek_target_def lseek_position_def sint_ucast_u32)
  have st: "get_fd fd (set_fd fd (d\<lparr>fd_position := t\<rparr>) tbl) = Some (d\<lparr>fd_position := t\<rparr>)"
    "\<forall>k. k \<noteq> fd \<longrightarrow> get_fd k (set_fd fd (d\<lparr>fd_position := t\<rparr>) tbl) = get_fd k tbl"
    using fds.store_ok [of tbl fd "d\<lparr>fd_position := t\<rparr>"] assms d by (auto simp: fd_ok_def)
  show "if lseek_position d offset whence < 0 then sys_lseek fd offset whence tbl = (-1, tbl)
      else case sys_lseek fd offset whence tbl of (r, tbl') \<Rightarrow>
        sint r = lseek_position d offset whence \<and> get_fd fd tbl' = Some (d\<lparr>fd_position := r\<rparr>)
        \<and> (\<forall>k. k \<noteq> fd \<longrightarrow> get_fd k tbl' = get_fd k tbl)"
    using t st d by (simp add: sys_lseek_def)
qed

theorem lseek_outcomes_witness:
  "let tbl = FD_TABLE_0[5 := Some \<lparr>fd_cluster = 9, fd_position = 10, fd_is_dir = False, fd_size = 100\<rparr>] in
    sint (fst (sys_lseek 5 (-3) 1 tbl)) = 7 \<and> sys_lseek 5 (-11) 1 tbl = (-1, tbl)"
proof -
  let ?tbl = "FD_TABLE_0[5 := Some \<lparr>fd_cluster = 9, fd_position = 10, fd_is_dir = False, fd_size = 100\<rparr>]"
  have len: "length ?tbl = 256" by (simp add: FD_TABLE_0_def)
  have d: "get_fd 5 ?tbl = Some \<lparr>fd_cluster = 9, fd_position = 10, fd_is_dir = False, fd_size = 100\<rparr>"
    by (simp add: get_fd_def FD_TABLE_0_def)
  show ?thesis
    using lseek_outcomes [OF len, of 5 "-3" 1] lseek_outcomes [OF len, of 5 "-11" 1] d
    by (simp add: lseek_position_def split_beta)
qed

end
