(* ===== verification/File_Read.thy ===== *)
theory File_Read imports Fat32 Fd_Table begin

text \<open>
  Opening and reading a file, \<open>kernel/src/boot/fd.rs\<close>: the walk to the cluster of the file position,
  and the copy of the sectors' bytes to the caller's buffer. \<open>usize\<close> counts that the code's guards
  keep within the caller's length or a cluster are naturals; positions and cluster sizes that can
  wrap stay 64-bit words, and \<open>cluster_size - read_offset\<close> wraps as it does in the code when the
  chain ends before the position.
\<close>

section \<open>Following the chain\<close>

definition next_cluster :: "'d disk_io \<Rightarrow> simple_fs \<Rightarrow> u32 \<Rightarrow> 'd machine \<Rightarrow> (u32 option \<times> 'd machine) option" where
  "next_cluster io fs cluster m =
    (if io_port io = -1 then Some (None, m)
     else case read_fat io fs cluster m of None \<Rightarrow> None
       | Some (n, m) \<Rightarrow> Some (if live_cluster n then Some n else None, m))"

definition cluster_size :: "simple_fs \<Rightarrow> u64" where
  "cluster_size fs = ucast (sectors_per_clus fs) * 512"

lemma unat_cluster_size: "unat (cluster_size fs) = spc fs * 512"
proof -
  have "cluster_size fs = of_nat (spc fs * 512)" by (simp add: cluster_size_def spc_def unsigned_ucast_eq)
  moreover have "spc fs * 512 < 2 ^ 64" using spc_less [of fs] by simp
  ultimately show ?thesis by (simp only: unat_of_nat_u64)
qed

text \<open>
  The walk to the cluster of the file position, with the step to the next cluster as a parameter:
  reading only follows the chain, writing extends it. The flag says whether the position was
  reached, or the step gave no cluster.
\<close>

partial_function (option) skip_clusters ::
  "(u32 \<Rightarrow> 'd machine \<Rightarrow> (u32 option \<times> 'd machine) option) \<Rightarrow> u64 \<Rightarrow> u64 \<Rightarrow> u32 \<Rightarrow> u64 \<Rightarrow> 'd machine
    \<Rightarrow> (bool \<times> u32 \<times> u64 \<times> 'd machine) option" where
  "skip_clusters advance csize offset current_cluster cluster_start m =
    (if cluster_start + csize \<le> offset
     then case advance current_cluster m of None \<Rightarrow> None
        | Some (r, m) \<Rightarrow> (case r of
              Some n \<Rightarrow> skip_clusters advance csize offset n (cluster_start + csize) m
            | None \<Rightarrow> Some (False, current_cluster, cluster_start, m))
     else Some (True, current_cluster, cluster_start, m))"

section \<open>One cluster\<close>

text \<open>Which bytes of a sector take part in a transfer of \<open>n\<close> bytes at \<open>off\<close>: their start and number.\<close>

definition sector_copy :: "nat \<Rightarrow> nat \<Rightarrow> nat \<Rightarrow> (nat \<times> nat) option" where
  "sector_copy sector_start off n =
    (let sector_end = sector_start + 512 in
     if sector_end > off \<and> sector_start < off + n
     then let copy_start = (if sector_start > off then sector_start else off);
              copy_end = (if sector_end < off + n then sector_end else off + n)
          in Some (copy_start, copy_end - copy_start)
     else None)"

definition read_step ::
  "'d disk_io \<Rightarrow> u64 \<Rightarrow> u64 \<Rightarrow> nat \<Rightarrow> nat \<Rightarrow> nat \<Rightarrow> nat \<times> 'd machine \<Rightarrow> (nat \<times> 'd machine) option" where
  "read_step io lba buf off n i = (\<lambda>(bytes_read, m).
    case io_read io (lba + of_nat i) m of None \<Rightarrow> None
    | Some m \<Rightarrow> (case sector_copy (i * 512) off n of
          None \<Rightarrow> Some (bytes_read, m)
        | Some (copy_start, copy_len) \<Rightarrow>
            Some (bytes_read + copy_len,
              on_ram (wr_bytes (buf + of_nat (copy_start - off))
                (rd_bytes (ram m) (io_data io + of_nat (copy_start - i * 512)) copy_len)) m)))"

definition read_cluster ::
  "'d disk_io \<Rightarrow> simple_fs \<Rightarrow> u32 \<Rightarrow> u64 \<Rightarrow> nat \<Rightarrow> u64 \<Rightarrow> 'd machine \<Rightarrow> (nat \<times> 'd machine) option" where
  "read_cluster io fs cluster buf len offset m =
    (if io_port io = -1 then Some (0, m)
     else if cluster_size fs = 0 then None
     else let lba = get_lba_of_cluster fs cluster;
              cluster_offset = unat (offset mod cluster_size fs);
              read_size = min len (unat (cluster_size fs) - cluster_offset)
          in for_opt (read_step io lba buf cluster_offset read_size) [0..<unat (sectors_per_clus fs)] (0, m))"

section \<open>The system calls\<close>

function read_loop ::
  "'d disk_io \<Rightarrow> simple_fs \<Rightarrow> u32 \<Rightarrow> u64 \<Rightarrow> nat \<Rightarrow> nat \<Rightarrow> u64 \<Rightarrow> 'd machine \<Rightarrow> (nat \<times> 'd machine) option" where
  "read_loop io fs cur_cluster buf remaining acc read_offset m =
    (if remaining = 0 then Some (acc, m)
     else let chunk_size = min remaining (unat (cluster_size fs - read_offset)) in
       case read_cluster io fs cur_cluster buf chunk_size read_offset m of None \<Rightarrow> None
       | Some (n, m) \<Rightarrow>
           if n = 0 then Some (acc, m)
           else if remaining - n > 0
           then case next_cluster io fs cur_cluster m of None \<Rightarrow> None
              | Some (None, m) \<Rightarrow> Some (acc + n, m)
              | Some (Some c, m) \<Rightarrow> read_loop io fs c (buf + of_nat n) (remaining - n) (acc + n) 0 m
           else Some (acc + n, m))"
  by pat_completeness auto

termination
  by (relation "measure (\<lambda>(io, fs, c, buf, remaining, t, off, m). remaining)") auto

definition sys_read_file ::
  "'d disk_io \<Rightarrow> u32 \<Rightarrow> u64 \<Rightarrow> u64 \<Rightarrow> fd_table \<Rightarrow> 'd machine \<Rightarrow> (u64 \<times> fd_table \<times> 'd machine) option" where
  "sys_read_file io fd buf_ptr buf_len tbl m =
    (if buf_ptr = 0 \<or> buf_len = 0 then Some (-1, tbl, m)
     else case get_fd fd tbl of
       None \<Rightarrow> Some (-1, tbl, m)
     | Some d \<Rightarrow>
         if fd_is_dir d then Some (-1, tbl, m)
         else let offset = fd_position d;
                  max_read = min (unat buf_len) (unat (ucast (fd_size d) :: u64) - unat offset)
              in if max_read = 0 then Some (0, tbl, m)
                 else case fs_init io m of
                     None \<Rightarrow> None
                   | Some (None, m) \<Rightarrow> Some (-1, tbl, m)
                   | Some (Some fs, m) \<Rightarrow>
                       (case skip_clusters (next_cluster io fs) (cluster_size fs) offset (fd_cluster d) 0 m of
                          None \<Rightarrow> None
                        | Some (_, cluster, start, m) \<Rightarrow>
                            (case read_loop io fs cluster buf_ptr max_read 0 (offset - start) m of
                               None \<Rightarrow> None
                             | Some (total_read, m) \<Rightarrow>
                                 Some (of_nat total_read,
                                   set_fd fd (d\<lparr>fd_position := fd_position d + of_nat total_read\<rparr>) tbl, m))))"

definition syscall_open ::
  "'d disk_io \<Rightarrow> u8 list \<Rightarrow> fd_table \<Rightarrow> 'd machine \<Rightarrow> (u32 \<times> fd_table \<times> 'd machine) option" where
  "syscall_open io path tbl m =
    (if io_port io = -1 then Some (-1, tbl, m)
     else case fs_init io m of
         None \<Rightarrow> None
       | Some (None, m) \<Rightarrow> Some (-1, tbl, m)
       | Some (Some fs, m) \<Rightarrow>
           (case find_entry io fs (root_cluster fs) path m of
              None \<Rightarrow> None
            | Some (None, m) \<Rightarrow> Some (-1, tbl, m)
            | Some (Some (c, sz), m) \<Rightarrow>
                (case allocate_fd c False sz tbl of (fd, tbl) \<Rightarrow> Some (fd, tbl, m))))"

section \<open>The bytes of a file on disk\<close>

definition cluster_bytes :: "simple_fs \<Rightarrow> (u64 \<Rightarrow> u8 list) \<Rightarrow> u32 \<Rightarrow> u8 list" where
  "cluster_bytes fs D c = concat (map D (cluster_lbas fs c))"

definition file_bytes :: "simple_fs \<Rightarrow> (u64 \<Rightarrow> u8 list) \<Rightarrow> u32 list \<Rightarrow> u8 list" where
  "file_bytes fs D cs = concat (map (cluster_bytes fs D) cs)"

text \<open>The clusters of a file: its first cluster, whatever its number, then the chain from there.\<close>

definition file_chain :: "simple_fs \<Rightarrow> (u64 \<Rightarrow> u8 list) \<Rightarrow> u32 \<Rightarrow> u32 list \<Rightarrow> bool" where
  "file_chain fs D c cs \<longleftrightarrow> (\<exists>rest. cs = c # rest \<and> cluster_chain fs D (fat_value fs D c) rest)"

lemma length_concat_const: "(\<And>x. x \<in> set xs \<Longrightarrow> length (f x) = k) \<Longrightarrow> length (concat (map f xs)) = length xs * k"
  by (induction xs) auto

lemma concat_take_const:
  "(\<And>x. x \<in> set xs \<Longrightarrow> length (f x) = k) \<Longrightarrow> i < length xs \<Longrightarrow>
    take k (drop (i * k) (concat (map f xs))) = f (xs ! i)"
proof (induction xs arbitrary: i)
  case (Cons x xs)
  then show ?case by (cases i) (simp_all add: drop_append)
qed simp

lemma length_cluster_bytes: "(\<And>l. length (D l) = 512) \<Longrightarrow> length (cluster_bytes fs D c) = spc fs * 512"
  by (simp add: cluster_bytes_def length_concat_const cluster_lbas_def spc_def comp_def)

lemma cluster_bytes_sector:
  assumes "\<And>l. length (D l) = 512" "i < spc fs"
  shows "take 512 (drop (i * 512) (cluster_bytes fs D c)) = D (get_lba_of_cluster fs c + of_nat i)"
proof -
  have "take 512 (drop (i * 512) (cluster_bytes fs D c)) = D (cluster_lbas fs c ! i)"
    unfolding cluster_bytes_def using assms
    by (intro concat_take_const) (simp_all add: cluster_lbas_def spc_def)
  then show ?thesis using assms(2) by (simp add: cluster_lbas_def spc_def)
qed

section \<open>The sectors of a transfer tile it\<close>

text \<open>How much of a transfer of \<open>n\<close> bytes at \<open>off\<close> the first \<open>k\<close> sectors hold.\<close>

definition done_by :: "nat \<Rightarrow> nat \<Rightarrow> nat \<Rightarrow> nat" where
  "done_by off n k = min n (k * 512 - off)"

lemma sector_copy_Some:
  assumes "sector_copy (k * 512) off n = Some (s, l)"
  shows "s = off + done_by off n k" "done_by off n (Suc k) = done_by off n k + l" "k * 512 \<le> s" "s + l \<le> k * 512 + 512"
  using assms by (auto simp: sector_copy_def done_by_def Let_def min_def split: if_splits)

lemma sector_copy_None: "sector_copy (k * 512) off n = None \<Longrightarrow> done_by off n (Suc k) = done_by off n k"
  by (auto simp: sector_copy_def done_by_def Let_def min_def split: if_splits)

lemma done_by_0 [simp]: "done_by off n 0 = 0"
  by (simp add: done_by_def)

lemma done_by_le: "done_by off n k \<le> n"
  by (simp add: done_by_def)

lemma done_by_all: "off + n \<le> k * 512 \<Longrightarrow> done_by off n k = n"
  by (simp add: done_by_def)

end
