(* ===== verification/File_Write.thy ===== *)
theory File_Write imports File_Read begin

text \<open>
  Writing a file, \<open>kernel/src/boot/sys_write_file.rs\<close>: allocating clusters, linking them in the FAT,
  copying the caller's bytes into sectors read and written back, and updating the directory entry's
  size. The system call runs \<open>cli\<close> first and \<open>sti\<close> only where it returns an error, so the interrupt
  flag at the end is part of the result.
\<close>

section \<open>The FAT\<close>

text \<open>The file has its own copy of \<open>next_cluster\<close>, line for line the one of \<open>fd.rs\<close>.\<close>

definition write_next_cluster :: "'d disk_io \<Rightarrow> simple_fs \<Rightarrow> u32 \<Rightarrow> 'd machine \<Rightarrow> (u32 option \<times> 'd machine) option" where
  "write_next_cluster io fs cluster m = next_cluster io fs cluster m"

fun free_in_sector :: "u8 list \<Rightarrow> nat \<Rightarrow> nat list \<Rightarrow> u32 option" where
  "free_in_sector sec sector_off [] = None"
| "free_in_sector sec sector_off (i # is) =
    (if le32 sec (4 * i) AND 0x0FFFFFFF = 0
     then let cluster = (of_nat (sector_off * 128 + i) :: u32) in
       if cluster \<ge> 2 then Some cluster else free_in_sector sec sector_off is
     else free_in_sector sec sector_off is)"

fun free_scan :: "'d disk_io \<Rightarrow> u64 \<Rightarrow> nat list \<Rightarrow> 'd machine \<Rightarrow> (u32 option \<times> 'd machine) option" where
  "free_scan io fat_lba [] m = Some (None, m)"
| "free_scan io fat_lba (s # ss) m =
    (case io_read io (fat_lba + of_nat s) m of None \<Rightarrow> None
     | Some m \<Rightarrow> (case free_in_sector (buffer io m) s [0..<128] of
           Some c \<Rightarrow> Some (Some c, m)
         | None \<Rightarrow> free_scan io fat_lba ss m))"

definition alloc_cluster :: "'d disk_io \<Rightarrow> simple_fs \<Rightarrow> 'd machine \<Rightarrow> (u32 option \<times> 'd machine) option" where
  "alloc_cluster io fs m =
    (if io_port io = -1 then Some (None, m)
     else free_scan io (get_fat_lba fs) [0..<unat (fat_sz32 fs)] m)"

definition set_fat_entry :: "'d disk_io \<Rightarrow> simple_fs \<Rightarrow> u32 \<Rightarrow> u32 \<Rightarrow> 'd machine \<Rightarrow> 'd machine option" where
  "set_fat_entry io fs cluster value m =
    (if io_port io = -1 then Some m
     else case io_read io (fat_sector fs cluster) m of None \<Rightarrow> None
       | Some m \<Rightarrow>
           (let current = le32 (buffer io m) (fat_slot cluster);
                new_val = (current AND 0xF0000000) OR (value AND 0x0FFFFFFF)
            in io_write io (fat_sector fs cluster)
                 (on_ram (wr32 (io_data io + of_nat (fat_slot cluster)) new_val) m)))"

text \<open>The next cluster of a file being written: the one that follows, or a new one linked in.\<close>

definition next_or_alloc :: "'d disk_io \<Rightarrow> simple_fs \<Rightarrow> u32 \<Rightarrow> 'd machine \<Rightarrow> (u32 option \<times> 'd machine) option" where
  "next_or_alloc io fs cur_cluster m =
    (case write_next_cluster io fs cur_cluster m of None \<Rightarrow> None
     | Some (Some n, m) \<Rightarrow> Some (Some n, m)
     | Some (None, m) \<Rightarrow>
         (case alloc_cluster io fs m of None \<Rightarrow> None
          | Some (None, m) \<Rightarrow> Some (None, m)
          | Some (Some new_cluster, m) \<Rightarrow>
              (case set_fat_entry io fs cur_cluster new_cluster m of None \<Rightarrow> None
               | Some m \<Rightarrow> (case set_fat_entry io fs new_cluster 0x0FFFFFFF m of None \<Rightarrow> None
                   | Some m \<Rightarrow> Some (Some new_cluster, m)))))"

section \<open>One cluster\<close>

definition write_step ::
  "'d disk_io \<Rightarrow> u64 \<Rightarrow> u64 \<Rightarrow> nat \<Rightarrow> nat \<Rightarrow> nat \<Rightarrow> 'd machine \<Rightarrow> 'd machine option" where
  "write_step io lba src off n i m =
    (case io_read io (lba + of_nat i) m of None \<Rightarrow> None
     | Some m \<Rightarrow>
         (let m = (case sector_copy (i * 512) off n of
                None \<Rightarrow> m
              | Some (copy_start, copy_len) \<Rightarrow>
                  on_ram (wr_bytes (io_data io + of_nat (copy_start - i * 512))
                    (rd_bytes (ram m) (src + of_nat (copy_start - off)) copy_len)) m)
          in io_write io (lba + of_nat i) m))"

definition write_cluster ::
  "'d disk_io \<Rightarrow> simple_fs \<Rightarrow> u32 \<Rightarrow> u64 \<Rightarrow> nat \<Rightarrow> u64 \<Rightarrow> 'd machine \<Rightarrow> (nat \<times> 'd machine) option" where
  "write_cluster io fs cluster src len offset m =
    (if io_port io = -1 then Some (0, m)
     else if cluster_size fs = 0 then None
     else let lba = get_lba_of_cluster fs cluster;
              cluster_offset = unat (offset mod cluster_size fs);
              write_size = min len (unat (cluster_size fs) - cluster_offset)
          in map_option (\<lambda>m. (write_size, m))
               (for_opt (write_step io lba src cluster_offset write_size) [0..<unat (sectors_per_clus fs)] m))"

section \<open>The directory entry\<close>

fun find_slot :: "u32 \<Rightarrow> u8 list \<Rightarrow> nat list \<Rightarrow> nat scan" where
  "find_slot target sec [] = Not_Here"
| "find_slot target sec (j # js) =
    (let e = dir_entry sec j in
     if entry_name e ! 0 = 0x00 then End_Of_Dir
     else if entry_name e ! 0 = 0xE5 then find_slot target sec js
     else if entry_attr e = 0x0F then find_slot target sec js
     else if entry_cluster e = target then Found j
     else find_slot target sec js)"

text \<open>The flag says whether \<open>update_dir_entry\<close> is done, by an update or the end of the directory.\<close>

fun update_cluster :: "'d disk_io \<Rightarrow> u32 \<Rightarrow> u32 \<Rightarrow> u64 \<Rightarrow> nat list \<Rightarrow> 'd machine \<Rightarrow> (bool \<times> 'd machine) option" where
  "update_cluster io target new_size lba [] m = Some (False, m)"
| "update_cluster io target new_size lba (i # is) m =
    (case io_read io (lba + of_nat i) m of None \<Rightarrow> None
     | Some m \<Rightarrow> (case find_slot target (buffer io m) [0..<16] of
           End_Of_Dir \<Rightarrow> Some (True, m)
         | Found j \<Rightarrow> (case io_write io (lba + of_nat i)
               (on_ram (wr32 (io_data io + of_nat (32 * j + 28)) new_size) m) of None \<Rightarrow> None
             | Some m \<Rightarrow> Some (True, m))
         | Not_Here \<Rightarrow> update_cluster io target new_size lba is m))"

partial_function (option) update_walk ::
  "'d disk_io \<Rightarrow> simple_fs \<Rightarrow> u32 \<Rightarrow> u32 \<Rightarrow> u32 \<Rightarrow> 'd machine \<Rightarrow> 'd machine option" where
  "update_walk io fs target new_size current m =
    (if live_cluster current
     then case update_cluster io target new_size (get_lba_of_cluster fs current) [0..<unat (sectors_per_clus fs)] m of
            None \<Rightarrow> None
          | Some (finished, m) \<Rightarrow>
              if finished then Some m
              else (case read_fat io fs current m of None \<Rightarrow> None
                | Some (n, m) \<Rightarrow> update_walk io fs target new_size n m)
     else Some m)"

definition update_dir_entry :: "'d disk_io \<Rightarrow> simple_fs \<Rightarrow> u32 \<Rightarrow> u32 \<Rightarrow> 'd machine \<Rightarrow> 'd machine option" where
  "update_dir_entry io fs target_cluster new_size m =
    (if io_port io = -1 then Some m else update_walk io fs target_cluster new_size (root_cluster fs) m)"

section \<open>The system call\<close>

function write_loop ::
  "'d disk_io \<Rightarrow> simple_fs \<Rightarrow> u32 \<Rightarrow> u64 \<Rightarrow> nat \<Rightarrow> nat \<Rightarrow> u64 \<Rightarrow> 'd machine \<Rightarrow> (nat \<times> 'd machine) option" where
  "write_loop io fs cur_cluster src remaining written write_offset m =
    (if remaining = 0 then Some (written, m)
     else case write_cluster io fs cur_cluster src remaining write_offset m of None \<Rightarrow> None
       | Some (n, m) \<Rightarrow>
           if n = 0 then Some (written, m)
           else if remaining - n > 0
           then case next_or_alloc io fs cur_cluster m of None \<Rightarrow> None
              | Some (None, m) \<Rightarrow> Some (written + n, m)
              | Some (Some c, m) \<Rightarrow> write_loop io fs c (src + of_nat n) (remaining - n) (written + n) 0 m
           else Some (written + n, m))"
  by pat_completeness auto

termination
  by (relation "measure (\<lambda>(io, fs, c, src, remaining, w, off, m). remaining)") auto

text \<open>
  After the data: the descriptor's position, its size and the directory entry when the file grew, and
  a read of sector 2048. \<open>d\<close> is the descriptor that \<open>get_fd_mut\<close> finds again.
\<close>

definition write_finish ::
  "'d disk_io \<Rightarrow> simple_fs \<Rightarrow> u32 \<Rightarrow> nat \<Rightarrow> fd_table \<Rightarrow> 'd machine \<Rightarrow> (fd_table \<times> 'd machine) option" where
  "write_finish io fs fd written tbl m =
    (case (case get_fd fd tbl of
        None \<Rightarrow> Some (tbl, m)
      | Some d \<Rightarrow>
          (let d = d\<lparr>fd_position := fd_position d + of_nat written\<rparr> in
           if fd_position d > ucast (fd_size d)
           then let d = d\<lparr>fd_size := ucast (fd_position d)\<rparr> in
             (case update_dir_entry io fs (fd_cluster d) (fd_size d) m of None \<Rightarrow> None
              | Some m \<Rightarrow> Some (set_fd fd d tbl, io_spin io 500000 m))
           else Some (set_fd fd d tbl, m))) of
       None \<Rightarrow> None
     | Some (tbl, m) \<Rightarrow>
         if io_port io \<noteq> -1 then map_option (\<lambda>m. (tbl, m)) (io_read io 2048 m) else Some (tbl, m))"

text \<open>The result: the return value, whether interrupts are enabled, the table, the machine.\<close>

definition sys_write_file ::
  "'d disk_io \<Rightarrow> u32 \<Rightarrow> u64 \<Rightarrow> u64 \<Rightarrow> fd_table \<Rightarrow> 'd machine \<Rightarrow> (u64 \<times> bool \<times> fd_table \<times> 'd machine) option" where
  "sys_write_file io fd buf_ptr buf_len tbl m =
    (if buf_ptr = 0 \<or> buf_len = 0 then Some (-1, True, tbl, m)
     else case get_fd fd tbl of
       None \<Rightarrow> Some (-1, True, tbl, m)
     | Some d \<Rightarrow>
         if fd_is_dir d then Some (-1, True, tbl, m)
         else case fs_init io m of
             None \<Rightarrow> None
           | Some (None, m) \<Rightarrow> Some (-1, True, tbl, m)
           | Some (Some fs, m) \<Rightarrow>
               (case skip_clusters (next_or_alloc io fs) (cluster_size fs) (fd_position d) (fd_cluster d) 0 m of
                  None \<Rightarrow> None
                | Some (reached, cluster, start, m) \<Rightarrow>
                    if \<not> reached then Some (-1, True, tbl, m)
                    else (case write_loop io fs cluster buf_ptr (unat buf_len) 0 (fd_position d - start) m of
                        None \<Rightarrow> None
                      | Some (written, m) \<Rightarrow>
                          (case write_finish io fs fd written tbl m of None \<Rightarrow> None
                           | Some (tbl, m) \<Rightarrow> Some (of_nat written, False, tbl, m)))))"

end
