(* ===== verification/File_Read_Correct.thy ===== *)
theory File_Read_Correct imports File_Read Sample_Disk begin

text \<open>
  Reading a file returns its bytes: the lemmas for one cluster, for the walk to the position and for
  the loop over clusters, on any block device; and the properties on the AHCI driver.
\<close>

lemma length_file_bytes: "(\<And>l. length (D l) = 512) \<Longrightarrow> length (file_bytes fs D cs) = length cs * (spc fs * 512)"
  by (simp add: file_bytes_def length_concat_const length_cluster_bytes)

lemma file_bytes_Cons: "file_bytes fs D (c # cs) = cluster_bytes fs D c @ file_bytes fs D cs"
  by (simp add: file_bytes_def)

context block_device begin

text \<open>\<open>bs\<close> was delivered at \<open>buf\<close>: nothing else that the caller owns has changed.\<close>

definition delivered :: "u64 \<Rightarrow> u8 list \<Rightarrow> 'd machine \<Rightarrow> 'd machine \<Rightarrow> bool" where
  "delivered buf bs m m' \<longleftrightarrow> inv m' \<and> disk m' = disk m \<and> rd_bytes (ram m') buf (length bs) = bs
    \<and> (\<forall>x. \<not> scratch x \<longrightarrow> \<not> in_region buf (length bs) x \<longrightarrow> ram m' x = ram m x)"

definition user_buffer :: "u64 \<Rightarrow> nat \<Rightarrow> bool" where
  "user_buffer buf n \<longleftrightarrow> n \<le> 2 ^ 64 \<and> (\<forall>i<n. \<not> scratch (buf + of_nat i))"

lemma delivered_Nil: "inv m \<Longrightarrow> delivered buf [] m m"
  by (simp add: delivered_def)

lemma user_buffer_le: "user_buffer buf n \<Longrightarrow> k \<le> n \<Longrightarrow> user_buffer buf k"
  by (simp add: user_buffer_def)

lemma user_buffer_drop: "user_buffer buf n \<Longrightarrow> i + k \<le> n \<Longrightarrow> user_buffer (buf + of_nat i) k"
proof -
  assume u: "user_buffer buf n" "i + k \<le> n"
  have "\<not> scratch (buf + of_nat i + of_nat j)" if "j < k" for j
  proof -
    have "\<not> scratch (buf + of_nat (i + j))" using u that by (simp add: user_buffer_def del: of_nat_add)
    then show ?thesis by (simp add: add.assoc)
  qed
  with u show ?thesis by (simp add: user_buffer_def)
qed

lemma delivered_keeps:
  assumes "delivered buf bs m m'" "keeps m' m''" "user_buffer buf (length bs)"
  shows "delivered buf bs m m''"
proof -
  have "rd_bytes (ram m'') buf (length bs) = rd_bytes (ram m') buf (length bs)"
    using assms by (intro rd_bytes_same) (auto simp: user_buffer_def keeps_def)
  then show ?thesis using assms by (auto simp: delivered_def keeps_def)
qed

lemma keeps_delivered: "keeps m m' \<Longrightarrow> delivered buf bs m' m'' \<Longrightarrow> delivered buf bs m m''"
  by (auto simp: delivered_def keeps_def)

text \<open>Deliveries to adjacent places compose.\<close>

lemma delivered_append:
  assumes "delivered buf xs m m'" "delivered (buf + of_nat (length xs)) ys m' m''"
    and u: "user_buffer buf (length xs + length ys)"
  shows "delivered buf (xs @ ys) m m''"
proof -
  let ?b = "buf + of_nat (length xs)"
  have big: "length xs + length ys \<le> 2 ^ 64" using u by (simp add: user_buffer_def)
  have "rd_bytes (ram m'') buf (length xs) = rd_bytes (ram m') buf (length xs)"
  proof (rule rd_bytes_same)
    fix i assume i: "i < length xs"
    have "\<not> in_region ?b (length ys) (buf + of_nat i)"
    proof (cases "length ys = 0")
      case False
      then have "0 < length ys" by simp
      with i big show ?thesis by (intro not_in_sub_region) linarith+
    qed simp
    moreover have "\<not> scratch (buf + of_nat i)" using u i by (simp add: user_buffer_def)
    ultimately show "ram m'' (buf + of_nat i) = ram m' (buf + of_nat i)"
      using assms(2) by (simp add: delivered_def)
  qed
  moreover have "ram m'' x = ram m x" if x: "\<not> scratch x" "\<not> in_region buf (length xs + length ys) x" for x
  proof -
    have "\<not> in_region buf (length xs) x" using x(2) in_region_mono by fastforce
    moreover have "\<not> in_region ?b (length ys) x" using x(2) in_region_sub [OF _ _ big] by blast
    ultimately show ?thesis using assms x(1) by (simp add: delivered_def)
  qed
  ultimately show ?thesis using assms by (auto simp: delivered_def rd_bytes_append)
qed

lemma delivered_copy:
  assumes "inv m" "length bs \<le> 2 ^ 64"
  shows "delivered buf bs m (on_ram (wr_bytes buf bs) m)"
  using assms by (auto simp: delivered_def ram_inv_iff ram_disk rd_bytes_wr_bytes wr_bytes_other)

section \<open>One cluster\<close>

lemma read_cluster_loop:
  fixes off :: nat
  assumes inv: "inv m" and u: "user_buffer buf n"
    and v: "\<And>i. i < spc fs \<Longrightarrow> valid (get_lba_of_cluster fs c + of_nat i)" and k: "k \<le> spc fs"
  defines "X \<equiv> drop off (cluster_bytes fs (disk m) c)"
  shows "\<exists>m'. for_opt (read_step io (get_lba_of_cluster fs c) buf off n) [0..<k] (0, m) = Some (done_by off n k, m')
    \<and> delivered buf (take (done_by off n k) X) m m'"
  using k
proof (induction k)
  case 0
  then show ?case using inv by (simp add: delivered_Nil)
next
  case (Suc k)
  let ?w = "done_by off n k" and ?lba = "get_lba_of_cluster fs c + of_nat k"
  let ?CB = "cluster_bytes fs (disk m) c"
  from Suc obtain m1 where m1: "for_opt (read_step io (get_lba_of_cluster fs c) buf off n) [0..<k] (0, m) = Some (?w, m1)"
      "delivered buf (take ?w X) m m1" by auto
  have len: "length (disk m l) = 512" for l using inv by (rule sector_length)
  have inv1: "inv m1" and d1: "disk m1 = disk m" using m1(2) by (auto simp: delivered_def)
  from inv1 v [of k] Suc.prems obtain m2 where m2: "io_read io ?lba m1 = Some m2" "keeps m1 m2"
      "rd_bytes (ram m2) (io_data io) 512 = disk m ?lba"
    using read_keeps [of m1 ?lba] d1 by auto
  have wn: "?w \<le> n" by (rule done_by_le)
  have uw: "user_buffer buf (length (take ?w X))" using u wn by (auto intro: user_buffer_le)
  have del2: "delivered buf (take ?w X) m m2" by (rule delivered_keeps [OF m1(2) m2(2) uw])
  show ?case
  proof (cases "sector_copy (k * 512) off n")
    case None
    then have "read_step io (get_lba_of_cluster fs c) buf off n k (?w, m1) = Some (?w, m2)"
      using m2(1) by (simp add: read_step_def)
    with m1(1) del2 sector_copy_None [OF None] show ?thesis by (simp add: for_opt_upt_Suc del: upt_Suc)
  next
    case (Some sl)
    obtain s l where sl: "sl = (s, l)" by fastforce
    note c = sector_copy_Some [OF Some [unfolded sl]]
    have "rd_bytes (ram m2) (io_data io + of_nat (s - k * 512)) l = take l (drop (s - k * 512) (disk m ?lba))"
      using c(4) m2(3) rd_bytes_slice [of "s - k * 512" l 512] c(3) by simp
    also have "disk m ?lba = take 512 (drop (k * 512) ?CB)"
      using Suc.prems len by (intro cluster_bytes_sector [symmetric]) simp_all
    also have "take l (drop (s - k * 512) (take 512 (drop (k * 512) ?CB))) = take l (drop s ?CB)"
      using c(3,4) by (simp add: drop_take min_def)
    also have "drop s ?CB = drop ?w X" by (simp add: c(1) X_def add.commute)
    finally have bytes: "rd_bytes (ram m2) (io_data io + of_nat (s - k * 512)) l = take l (drop ?w X)" .
    have full: "?w + l \<le> length X"
      using c(1,4) Suc.prems len by (simp add: X_def length_cluster_bytes)
    let ?m3 = "on_ram (wr_bytes (buf + of_nat ?w) (take l (drop ?w X))) m2"
    have "?w + l \<le> n" using c(2) done_by_le [of off n "Suc k"] by simp
    then have u3: "user_buffer buf (length (take ?w X) + length (take l (drop ?w X)))"
      using full u by (auto intro: user_buffer_le)
    have "delivered (buf + of_nat (length (take ?w X))) (take l (drop ?w X)) m2 ?m3"
      using full u3 delivered_copy [of m2 "take l (drop ?w X)"] keepsD(1) [OF m2(2)]
      by (simp add: user_buffer_def)
    from delivered_append [OF del2 this u3] have "delivered buf (take (?w + l) X) m ?m3"
      by (simp add: take_add)
    moreover have "read_step io (get_lba_of_cluster fs c) buf off n k (?w, m1) = Some (?w + l, ?m3)"
      using m2(1) Some bytes c(1) by (simp add: read_step_def sl)
    ultimately show ?thesis using m1(1) c(2) by (simp add: for_opt_upt_Suc del: upt_Suc)
  qed
qed

lemma read_cluster_spec:
  assumes inv: "inv m" and u: "user_buffer buf n" and v: "\<forall>l\<in>set (cluster_lbas fs c). valid l"
    and off: "unat offset < spc fs * 512" and n: "n = min len (spc fs * 512 - unat offset)"
  shows "\<exists>m'. read_cluster io fs c buf len offset m = Some (n, m')
    \<and> delivered buf (take n (drop (unat offset) (cluster_bytes fs (disk m) c))) m m'"
proof -
  have cs: "cluster_size fs \<noteq> 0" using off unat_cluster_size [of fs] by auto
  have "offset mod cluster_size fs = offset"
    using off unat_cluster_size [of fs] by (intro mod_word_less) (simp add: word_less_nat_alt)
  moreover have "done_by (unat offset) n (spc fs) = n" using off n by (intro done_by_all) simp
  moreover have "valid (get_lba_of_cluster fs c + of_nat i)" if "i < spc fs" for i
    using v that by (simp add: cluster_lbas_def spc_def)
  ultimately show ?thesis
    using read_cluster_loop [OF inv u, of fs c "spc fs" "unat offset"] port_present [OF inv] cs n
    by (simp add: read_cluster_def unat_cluster_size Let_def spc_def [symmetric])
qed

section \<open>The chain\<close>

lemma next_clusterE:
  assumes "inv m" "valid (fat_sector fs c)"
  obtains m' where "next_cluster io fs c m =
      Some (if live_cluster (fat_value fs (disk m) c) then Some (fat_value fs (disk m) c) else None, m')" "keeps m m'"
  using assms by (auto intro: that elim!: read_fatE [of m fs c] simp: next_cluster_def port_present)

lemma next_cluster_chain:
  assumes "inv m" "disk m = D" "file_chain fs D c cs" "chain_valid valid fs cs"
  obtains m' where "next_cluster io fs c m = Some (case cs of _ # n # _ \<Rightarrow> Some n | _ \<Rightarrow> None, m')" "keeps m m'"
proof -
  from assms(3) obtain rest where cs: "cs = c # rest" "cluster_chain fs D (fat_value fs D c) rest"
    by (auto simp: file_chain_def)
  then obtain m' where m': "next_cluster io fs c m =
      Some (if live_cluster (fat_value fs D c) then Some (fat_value fs D c) else None, m')" "keeps m m'"
    using assms next_clusterE [of m fs c] by auto
  from cs have "(if live_cluster (fat_value fs D c) then Some (fat_value fs D c) else None)
      = (case cs of _ # n # _ \<Rightarrow> Some n | _ \<Rightarrow> None)"
    by (cases rest) (auto simp: chain_Nil_iff chain_Cons_iff)
  with m' show thesis by (intro that) auto
qed

lemma file_chain_tail: "file_chain fs D c (c # n # rest) \<Longrightarrow> file_chain fs D n (n # rest)"
  by (auto simp: file_chain_def chain_Cons_iff)

text \<open>A step function that goes to the next cluster of a chain where there is one.\<close>

definition follows ::
  "simple_fs \<Rightarrow> (u64 \<Rightarrow> u8 list) \<Rightarrow> (u32 \<Rightarrow> 'd machine \<Rightarrow> (u32 option \<times> 'd machine) option) \<Rightarrow> bool" where
  "follows fs D advance \<longleftrightarrow> (\<forall>c n rest m. inv m \<longrightarrow> disk m = D \<longrightarrow> file_chain fs D c (c # n # rest) \<longrightarrow>
    chain_valid valid fs (c # n # rest) \<longrightarrow> (\<exists>m'. advance c m = Some (Some n, m') \<and> keeps m m'))"

lemma next_cluster_follows: "follows fs D (next_cluster io fs)"
  unfolding follows_def
proof (intro allI impI)
  fix c n rest m
  assume h: "inv m" "disk m = D" "file_chain fs D c (c # n # rest)" "chain_valid valid fs (c # n # rest)"
  obtain m' where "next_cluster io fs c m = Some (case c # n # rest of _ # n # _ \<Rightarrow> Some n | _ \<Rightarrow> None, m')" "keeps m m'"
    by (rule next_cluster_chain [OF h])
  then show "\<exists>m'. next_cluster io fs c m = Some (Some n, m') \<and> keeps m m'" by simp
qed

lemma skip_clusters_spec:
  assumes "inv m" "disk m = D" "file_chain fs D c cs" "chain_valid valid fs cs"
    and "unat start \<le> unat offset" "unat offset - unat start < length (file_bytes fs D cs)" "unat offset < 2 ^ 63"
    and len: "\<And>l. length (D l) = 512"
    and adv: "follows fs D advance"
  shows "\<exists>c' start' cs' m'. skip_clusters advance (cluster_size fs) offset c start m = Some (True, c', start', m') \<and> keeps m m'
    \<and> file_chain fs D c' cs' \<and> chain_valid valid fs cs'
    \<and> unat start' \<le> unat offset \<and> unat offset - unat start' < spc fs * 512
    \<and> (\<exists>pre. cs = pre @ cs' \<and> unat start' = unat start + length pre * (spc fs * 512))
    \<and> drop (unat offset - unat start') (file_bytes fs D cs') = drop (unat offset - unat start) (file_bytes fs D cs)"
  using assms(1-7)
proof (induction cs arbitrary: c start m)
  case Nil
  then show ?case by (simp add: file_chain_def)
next
  case (Cons x rest)
  have x: "x = c" using Cons.prems(3) by (simp add: file_chain_def)
  let ?cz = "spc fs * 512"
  have cz: "?cz < 2 ^ 20" using spc_less [of fs] by simp
  have plus: "unat (start + cluster_size fs) = unat start + ?cz"
    using Cons.prems(5,7) cz by (simp add: unat_word_ariths unat_cluster_size)
  have lb: "length (cluster_bytes fs D c) = ?cz" using len by (rule length_cluster_bytes)
  show ?case
  proof (cases "start + cluster_size fs \<le> offset")
    case False
    then have "unat offset - unat start < ?cz"
      using plus Cons.prems(5) by (simp add: word_le_nat_alt)
    with False Cons.prems show ?thesis
      by (intro exI [of _ c] exI [of _ start] exI [of _ "x # rest"] exI [of _ m])
         (subst skip_clusters.simps, simp add: keeps_refl)
  next
    case True
    then have le: "unat start + ?cz \<le> unat offset" using plus by (simp add: word_le_nat_alt)
    have "rest \<noteq> []"
    proof
      assume "rest = []"
      then have "length (file_bytes fs D (x # rest)) = ?cz" using lb x by (simp add: file_bytes_def)
      with Cons.prems(6) le show False by simp
    qed
    then obtain n rest' where r: "rest = n # rest'" by (cases rest) auto
    obtain m1 where m1: "advance c m = Some (Some n, m1)" "keeps m m1"
      using adv Cons.prems(1-4) x r unfolding follows_def by blast
    have inv1: "inv m1" "disk m1 = D" using m1(2) Cons.prems(2) by (auto dest: keepsD)
    have fc: "file_chain fs D n rest" using Cons.prems(3) file_chain_tail [of fs D c n rest'] x r by simp
    have cv: "chain_valid valid fs rest" using Cons.prems(4) by simp
    have off: "unat offset - unat (start + cluster_size fs) = unat offset - unat start - ?cz"
      using plus by simp
    have "unat offset - unat (start + cluster_size fs) < length (file_bytes fs D rest)"
      using Cons.prems(6) le off lb x by (simp add: file_bytes_Cons)
    from Cons.IH [OF inv1 fc cv _ this Cons.prems(7)] plus le
    obtain c' start' cs' m' where IH: "skip_clusters advance (cluster_size fs) offset n (start + cluster_size fs) m1 = Some (True, c', start', m')"
        "keeps m1 m'" "file_chain fs D c' cs'" "chain_valid valid fs cs'"
        "unat start' \<le> unat offset" "unat offset - unat start' < ?cz"
        "\<exists>pre. rest = pre @ cs' \<and> unat start' = unat (start + cluster_size fs) + length pre * ?cz"
        "drop (unat offset - unat start') (file_bytes fs D cs') = drop (unat offset - unat (start + cluster_size fs)) (file_bytes fs D rest)"
      by auto
    from IH(7) obtain pre where "rest = pre @ cs'" "unat start' = unat start + ?cz + length pre * ?cz"
      using plus by auto
    then have pre: "\<exists>pre. x # rest = pre @ cs' \<and> unat start' = unat start + length pre * ?cz"
      by (intro exI [of _ "x # pre"]) simp
    have "drop (unat offset - unat (start + cluster_size fs)) (file_bytes fs D rest) = drop (unat offset - unat start) (file_bytes fs D (x # rest))"
      using off le lb x by (simp add: file_bytes_Cons)
    moreover have "skip_clusters advance (cluster_size fs) offset c start m = Some (True, c', start', m')"
      using True m1(1) IH(1) r by (subst skip_clusters.simps) simp
    ultimately show ?thesis using IH(3-6,8) pre keeps_trans [OF m1(2) IH(2)]
      by (intro exI [of _ c'] exI [of _ start'] exI [of _ cs'] exI [of _ m']) simp
  qed
qed

declare read_loop.simps [simp del]

lemma read_loop_spec:
  assumes "inv m" "disk m = D" "file_chain fs D c cs" "chain_valid valid fs cs" "user_buffer buf r"
    and "unat off < spc fs * 512" "unat off + r \<le> length (file_bytes fs D cs)" "0 < r"
    and len: "\<And>l. length (D l) = 512"
  shows "\<exists>m'. read_loop io fs c buf r acc off m = Some (acc + r, m')
    \<and> delivered buf (take r (drop (unat off) (file_bytes fs D cs))) m m'"
  using assms(1-8)
proof (induction cs arbitrary: c buf r acc off m)
  case Nil
  then show ?case by (simp add: file_chain_def)
next
  case (Cons x rest)
  have x: "x = c" using Cons.prems(3) by (simp add: file_chain_def)
  let ?cz = "spc fs * 512" and ?CB = "cluster_bytes fs D c"
  have lb: "length ?CB = ?cz" using len by (rule length_cluster_bytes)
  have "off \<le> cluster_size fs" using Cons.prems(6) by (simp add: word_le_nat_alt unat_cluster_size)
  then have chunk: "unat (cluster_size fs - off) = ?cz - unat off"
    by (simp add: unat_sub unat_cluster_size)
  define n where "n = min r (?cz - unat off)"
  have n0: "0 < n" "n \<le> r" using Cons.prems(6,8) by (simp_all add: n_def)
  have un: "user_buffer buf n" using Cons.prems(5) n0(2) by (rule user_buffer_le)
  have vl: "\<forall>l\<in>set (cluster_lbas fs c). valid l" using Cons.prems(4) x by simp
  obtain m1 where m1: "read_cluster io fs c buf n off m = Some (n, m1)"
      "delivered buf (take n (drop (unat off) ?CB)) m m1"
    using read_cluster_spec [OF Cons.prems(1) un vl Cons.prems(6), of n] Cons.prems(2) by (auto simp: n_def)
  have inv1: "inv m1" "disk m1 = D" using m1(2) Cons.prems(2) by (auto simp: delivered_def)
  have step: "read_loop io fs c buf r acc off m =
      (if r - n > 0
       then case next_cluster io fs c m1 of None \<Rightarrow> None
          | Some (None, m) \<Rightarrow> Some (acc + n, m)
          | Some (Some c, m) \<Rightarrow> read_loop io fs c (buf + of_nat n) (r - n) (acc + n) 0 m
       else Some (acc + n, m1))"
    using Cons.prems(8) n0(1) m1(1)
    by (subst read_loop.simps) (simp add: Let_def chunk n_def [symmetric])
  show ?case
  proof (cases "r \<le> ?cz - unat off")
    case True
    then have "n = r" by (simp add: n_def)
    with step m1(2) True lb x show ?thesis by (simp add: file_bytes_Cons)
  next
    case False
    then have n: "n = ?cz - unat off" by (simp add: n_def)
    obtain m2 where m2: "next_cluster io fs c m1 = Some (case x # rest of _ # n # _ \<Rightarrow> Some n | _ \<Rightarrow> None, m2)" "keeps m1 m2"
      using next_cluster_chain [OF inv1 Cons.prems(3,4)] by blast
    have "rest \<noteq> []" using False Cons.prems(7) lb x by (auto simp: file_bytes_def)
    then obtain c' rest' where r: "rest = c' # rest'" by (cases rest) auto
    have inv2: "inv m2" "disk m2 = D" using m2(2) inv1 by (auto dest: keepsD)
    have fc: "file_chain fs D c' rest" using Cons.prems(3) file_chain_tail [of fs D c c' rest'] x r by simp
    have u': "user_buffer (buf + of_nat n) (r - n)" using user_buffer_drop [of buf r n "r - n"] Cons.prems(5) n0(2) by simp
    have "r - n \<le> length (file_bytes fs D rest)"
      using Cons.prems(6,7) lb x n by (simp add: file_bytes_Cons)
    then have fits: "unat (0 :: u64) + (r - n) \<le> length (file_bytes fs D rest)" by simp
    have cv: "chain_valid valid fs rest" using Cons.prems(4) by simp
    have z: "unat (0 :: u64) < ?cz" using Cons.prems(6) by simp
    have "0 < r - n" using False n by simp
    from Cons.IH [OF inv2 fc cv u' z fits this, of "acc + n"]
    obtain m3 where m3: "read_loop io fs c' (buf + of_nat n) (r - n) (acc + n) 0 m2 = Some (acc + n + (r - n), m3)"
        "delivered (buf + of_nat n) (take (r - n) (file_bytes fs D rest)) m2 m3"
      by auto
    have r_n: "r - n \<le> length (file_bytes fs D rest)" using fits by simp
    let ?ys = "take (r - n) (file_bytes fs D rest)"
    have xs: "take n (drop (unat off) ?CB) = drop (unat off) ?CB" using lb n by simp
    have lens: "length (drop (unat off) ?CB) = n" "length ?ys = r - n"
      using lb n r_n by simp_all
    have "delivered buf (drop (unat off) ?CB) m m2"
      using m1(2) m2(2) un lens(1) xs by (auto intro: delivered_keeps)
    then have "delivered buf (drop (unat off) ?CB @ ?ys) m m3"
      using m3(2) lens n0(2) Cons.prems(5) by (intro delivered_append [of _ _ m m2]) simp_all
    moreover have "drop (unat off) ?CB @ ?ys = take r (drop (unat off) (file_bytes fs D (x # rest)))"
      using lens Cons.prems(6) lb x n False by (simp add: file_bytes_Cons)
    ultimately show ?thesis using step m2(1) m3(1) r False n n0 by simp
  qed
qed

lemma sys_read_file_spec:
  assumes inv: "inv m" and vol: "volume_at valid (disk m) fs"
    and d: "get_fd fd tbl = Some d" "\<not> fd_is_dir d"
    and chain: "file_chain fs (disk m) (fd_cluster d) cs" "chain_valid valid fs cs"
    and pos: "unat (fd_position d) < unat (fd_size d)" "unat (fd_size d) \<le> length (file_bytes fs (disk m) cs)"
    and buf: "buf \<noteq> 0" "buf_len \<noteq> 0" "user_buffer buf n"
    and n: "n = min (unat buf_len) (unat (fd_size d) - unat (fd_position d))"
  shows "\<exists>m'. sys_read_file io fd buf buf_len tbl m =
        Some (of_nat n, set_fd fd (d\<lparr>fd_position := fd_position d + of_nat n\<rparr>) tbl, m')
      \<and> delivered buf (take n (drop (unat (fd_position d)) (file_bytes fs (disk m) cs))) m m'"
proof -
  have n0: "0 < n" using pos(1) buf(2) by (simp add: n word_neq_0_conv unat_gt_0)
  have sz: "unat (ucast (fd_size d) :: u64) = unat (fd_size d)" by simp
  have small: "unat (fd_position d) < 2 ^ 63" using order.strict_trans [OF pos(1) unat_lt_u32] by simp
  have len: "length (disk m l) = 512" for l using inv by (rule sector_length)
  obtain m1 where m1: "fs_init io m = Some (Some fs, m1)" "keeps m m1"
    by (rule fs_init_volume [OF inv vol])
  have inv1: "inv m1" "disk m1 = disk m" using m1(2) by (auto dest: keepsD)
  have lt: "unat (fd_position d) - unat (0 :: u64) < length (file_bytes fs (disk m) cs)" using pos by simp
  have z: "unat (0 :: u64) \<le> unat (fd_position d)" by simp
  note skip = skip_clusters_spec [OF inv1 chain z lt small len next_cluster_follows]
  obtain c' start cs' m2 where sk: "skip_clusters (next_cluster io fs) (cluster_size fs) (fd_position d) (fd_cluster d) 0 m1 = Some (True, c', start, m2)"
      "keeps m1 m2" "file_chain fs (disk m) c' cs'" "chain_valid valid fs cs'"
      "unat start \<le> unat (fd_position d)" "unat (fd_position d) - unat start < spc fs * 512"
      "drop (unat (fd_position d) - unat start) (file_bytes fs (disk m) cs') =
        drop (unat (fd_position d)) (file_bytes fs (disk m) cs)"
    using skip by (simp only: unat_0 diff_zero) blast
  have off: "unat (fd_position d - start) = unat (fd_position d) - unat start"
    using sk(5) by (simp add: unat_sub word_le_nat_alt)
  have inv2: "inv m2" "disk m2 = disk m" using sk(2) inv1 by (auto dest: keepsD)
  have "length (drop (unat (fd_position d) - unat start) (file_bytes fs (disk m) cs')) = length (file_bytes fs (disk m) cs) - unat (fd_position d)"
    using sk(7) by simp
  then have fits: "unat (fd_position d - start) + n \<le> length (file_bytes fs (disk m) cs')"
    using off pos n n0 by auto
  have in_cluster: "unat (fd_position d - start) < spc fs * 512" using off sk(6) by simp
  obtain m3 where m3: "read_loop io fs c' buf n 0 (fd_position d - start) m2 = Some (n, m3)"
      "delivered buf (take n (drop (unat (fd_position d)) (file_bytes fs (disk m) cs))) m2 m3"
    using read_loop_spec [OF inv2 sk(3,4) buf(3) in_cluster fits n0 len, of 0] off sk(7) by auto
  have "sys_read_file io fd buf buf_len tbl m = Some (of_nat n, set_fd fd (d\<lparr>fd_position := fd_position d + of_nat n\<rparr>) tbl, m3)"
    using buf(1,2) d n0 m1(1) sk(1) m3(1) by (simp add: sys_read_file_def Let_def sz n [symmetric])
  with keeps_delivered [OF keeps_trans [OF m1(2) sk(2)] m3(2)] show ?thesis by blast
qed

end

section \<open>Properties\<close>

text \<open>
  C7. Reading an open file returns its contents: with \<open>n\<close> the smaller of the buffer's length and what
  is left up to the file's size, \<open>sys_read_file\<close> returns \<open>n\<close>, the buffer holds bytes \<open>position\<close> to
  \<open>position + n\<close> of the file as its cluster chain holds it on disk, the position advances by \<open>n\<close>, and
  neither the disk nor memory outside the buffer and the driver's structures changes. This needs the
  chain to be as long as the size says, and a buffer apart from the driver's memory.
\<close>

theorem sys_read_file_contents:
  assumes "ahci_contract bus g idle sectors cap dma" "idle (dev m)"
    and "volume_at (\<lambda>l. l < cap) (sectors (dev m)) fs"
    and "get_fd fd tbl = Some d" "\<not> fd_is_dir d"
    and "file_chain fs (sectors (dev m)) (fd_cluster d) cs" "chain_valid (\<lambda>l. l < cap) fs cs"
    and "unat (fd_position d) < unat (fd_size d)" "unat (fd_size d) \<le> length (file_bytes fs (sectors (dev m)) cs)"
    and "buf \<noteq> 0" "buf_len \<noteq> 0" "\<forall>i<n. \<not> ahci_scratch g dma (buf + of_nat i)"
    and n: "n = min (unat buf_len) (unat (fd_size d) - unat (fd_position d))"
  shows "\<exists>m'. sys_read_file (ahci_io bus g) fd buf buf_len tbl m =
        Some (of_nat n, set_fd fd (d\<lparr>fd_position := fd_position d + of_nat n\<rparr>) tbl, m')
      \<and> rd_bytes (ram m') buf n = take n (drop (unat (fd_position d)) (file_bytes fs (sectors (dev m)) cs))
      \<and> idle (dev m') \<and> sectors (dev m') = sectors (dev m)
      \<and> (\<forall>x. \<not> ahci_scratch g dma x \<longrightarrow> \<not> in_region buf n x \<longrightarrow> ram m' x = ram m x)"
proof -
  have inv: "ahci_contract bus g idle sectors cap dma \<and> idle (dev m)" using assms(1,2) by blast
  have "n \<le> unat buf_len" by (simp add: n)
  also have "unat buf_len \<le> 2 ^ 64" by simp
  finally have "n \<le> 2 ^ 64" .
  with assms(12) have u: "ahci.user_buffer g dma buf n" by (simp add: ahci.user_buffer_def)
  have len: "length (take n (drop (unat (fd_position d)) (file_bytes fs (sectors (dev m)) cs))) = n"
    using assms(8,9) by (simp add: n)
  obtain m' where m': "sys_read_file (ahci_io bus g) fd buf buf_len tbl m =
        Some (of_nat n, set_fd fd (d\<lparr>fd_position := fd_position d + of_nat n\<rparr>) tbl, m')"
      "ahci.delivered sectors g dma bus idle cap buf (take n (drop (unat (fd_position d)) (file_bytes fs (sectors (dev m)) cs))) m m'"
    using ahci.sys_read_file_spec [OF inv assms(3-11) u n] by blast
  then show ?thesis unfolding ahci.delivered_def len by blast
qed

lemma sample_file: "file_bytes sample_fs sample_disk [3] = sample_disk 4"
  by (simp add: file_bytes_def cluster_bytes_def sample_lbas)

lemma sample_file_chain: "file_chain sample_fs sample_disk 3 [3]"
  using sample_chain [of 3] by (simp add: file_chain_def chain_Cons_iff)

theorem sys_read_file_contents_witness:
  "\<exists>m' tbl'. sys_read_file (ahci_io sim_hw sim_globals) 3 0x100000 3
      (FD_TABLE_0[3 := Some \<lparr>fd_cluster = 3, fd_position = 1, fd_is_dir = False, fd_size = 5\<rparr>]) sample_machine
      = Some (3, tbl', m')
    \<and> rd_bytes (ram m') 0x100000 3 = [0x45, 0x4C, 0x4C]"
proof -
  let ?d = "\<lparr>fd_cluster = 3, fd_position = 1, fd_is_dir = False, fd_size = 5\<rparr>"
  have d: "get_fd 3 (FD_TABLE_0[3 := Some ?d]) = Some ?d" by (simp add: get_fd_def FD_TABLE_0_def)
  have sc: "\<forall>i<3. \<not> ahci_scratch sim_globals (\<lambda>x. False) (0x100000 + of_nat i)"
    using sample_scratch [of "0x100000" 3] by simp
  have "take 3 (drop 1 (sample_disk 4)) = [0x45, 0x4C, 0x4C]"
    unfolding sample_disk_def by (subst slice_sample_sector) (simp_all add: upt_eval)
  then have bytes: "take 3 (drop (unat (fd_position ?d)) (file_bytes sample_fs sample_disk [3])) = [0x45, 0x4C, 0x4C]"
    by (simp add: sample_file)
  have "\<not> fd_is_dir ?d" "file_chain sample_fs sample_disk (fd_cluster ?d) [3]"
    "unat (fd_position ?d) < unat (fd_size ?d)" "unat (fd_size ?d) \<le> length (file_bytes sample_fs sample_disk [3])"
    "(0x100000 :: u64) \<noteq> 0" "(3 :: u64) \<noteq> 0" "3 = min (unat (3 :: u64)) (unat (fd_size ?d) - unat (fd_position ?d))"
    by (simp_all add: sample_file sample_file_chain)
  note p = this
  from sys_read_file_contents [OF sim_ahci_contract sample_idle, unfolded sample_sectors,
      OF sample_volume d p(1,2) sample_chain_valid [OF disjI2, OF refl] p(3-6) sc p(7)] bytes
  show ?thesis by auto
qed

end
