(* ===== verification/File_Write_Correct.thy ===== *)
theory File_Write_Correct imports File_Write File_Read_Correct begin

text \<open>
  Writing a file: FAT updates change one entry, the sectors of a cluster are patched in place, and a
  write inside a file's chain replaces exactly the bytes asked for. The properties are on the AHCI
  driver.
\<close>

section \<open>FAT entries\<close>

lemma fat_slot_eq: "fat_slot c = 4 * (unat c mod 128)"
proof -
  have "unat c * 4 < 18446744073709551616" using unat_lt_u32 [of c] by linarith
  then have "unat (ucast c * 4 :: u64) = 4 * unat c" by (simp add: unat_word_ariths)
  then have "fat_slot c = (4 * unat c) mod (4 * 128)" by (simp add: fat_slot_def Let_def unat_mod)
  also have "\<dots> = 4 * (unat c mod 128)" by (simp only: mult_mod_right)
  finally show ?thesis .
qed

lemma fat_sector_eq: "fat_sector fs c = get_fat_lba fs + of_nat (unat c div 128)"
proof -
  have "unat c * 4 < 18446744073709551616" using unat_lt_u32 [of c] by linarith
  then have "unat (ucast c * 4 :: u64) = 4 * unat c" by (simp add: unat_word_ariths)
  then have "unat ((ucast c * 4 :: u64) div 512) = (4 * unat c) div (4 * 128)" by (simp add: unat_div)
  also have "\<dots> = unat c div 128" by (simp only: div_mult_mult1)
  finally have u: "unat ((ucast c * 4 :: u64) div 512) = unat c div 128" .
  have "(ucast c * 4 :: u64) div 512 = of_nat (unat c div 128)"
    unfolding u [symmetric] by (rule of_nat_unat_u64 [symmetric])
  then show ?thesis by (simp only: fat_sector_def Let_def)
qed

lemma fat_slot_le: "fat_slot c + 4 \<le> 512"
proof -
  have "unat c mod 128 < 128" by (rule mod_less_divisor) simp
  then show ?thesis unfolding fat_slot_eq by linarith
qed

lemma fat_slots_apart: "fat_slot c' \<noteq> fat_slot c \<Longrightarrow> fat_slot c' + 4 \<le> fat_slot c \<or> fat_slot c + 4 \<le> fat_slot c'"
proof -
  have "4 * a + 4 \<le> 4 * b \<or> 4 * b + 4 \<le> 4 * a" if "4 * a \<noteq> 4 * b" for a b :: nat
    using that by (cases a b rule: linorder_cases) auto
  then show "fat_slot c' \<noteq> fat_slot c \<Longrightarrow> ?thesis" unfolding fat_slot_eq .
qed

text \<open>Two clusters share neither FAT sector nor slot, unless they are one.\<close>

lemma fat_place_inj: "fat_sector fs c = fat_sector fs c' \<Longrightarrow> fat_slot c = fat_slot c' \<Longrightarrow> c = c'"
proof -
  assume h: "fat_sector fs c = fat_sector fs c'" "fat_slot c = fat_slot c'"
  have "unat k div 128 < 18446744073709551616" for k :: u32 using unat_lt_u32 [of k] by linarith
  with h(1) have "unat c div 128 = unat c' div 128" by (simp add: fat_sector_eq of_nat_u64_inj)
  moreover have "unat c mod 128 = unat c' mod 128" using h(2) by (simp add: fat_slot_eq)
  ultimately have "unat c = unat c'" by (metis div_mult_mod_eq)
  then show ?thesis by (simp add: word_unat_eq_iff)
qed

text \<open>The four bytes of a word, and storing them in a sector image.\<close>

definition le_bytes :: "u32 \<Rightarrow> u8 list" where
  "le_bytes v = [ucast v, ucast (drop_bit 8 v), ucast (drop_bit 16 v), ucast (drop_bit 24 v)]"

lemma length_le_bytes [simp]: "length (le_bytes v) = 4"
  by (simp add: le_bytes_def)

lemma wr32_bytes: "wr32 a v mem = wr_bytes a (le_bytes v) mem"
proof
  fix x
  have b: "ucast (ucast v :: u16) = (ucast v :: u8)" "ucast (drop_bit 8 (ucast v :: u16)) = (ucast (drop_bit 8 v) :: u8)"
    "ucast (ucast (drop_bit 16 v) :: u16) = (ucast (drop_bit 16 v) :: u8)"
    "ucast (drop_bit 8 (ucast (drop_bit 16 v) :: u16)) = (ucast (drop_bit 24 v) :: u8)"
    by (rule bit_word_eqI; auto simp: bit_simps)+
  show "wr32 a v mem x = wr_bytes a (le_bytes v) mem x"
  proof (cases "in_region a 4 x")
    case False
    then show ?thesis by (simp add: wr32_other wr_bytes_other)
  next
    case True
    then obtain i where i: "i < 4" "x = a + of_nat i" by (auto elim: in_regionE)
    then have "i = 0 \<or> i = 1 \<or> i = 2 \<or> i = 3" by linarith
    then show ?thesis using i
      by (elim disjE) (simp_all add: wr32_def wr16_def wr_bytes_def in_region_def le_bytes_def b add.assoc)
  qed
qed

lemma le32_le_bytes: "le32 (le_bytes v) 0 = v"
proof -
  have "le16 (le_bytes v) 0 = ucast v" "le16 (le_bytes v) 2 = ucast (drop_bit 16 v)"
    by (rule bit_word_eqI; auto simp: le16_def le_bytes_def bit_simps)+
  then show ?thesis unfolding le32_def by (simp only: add_0 split32)
qed

lemma le32_cong: "(\<And>i. i < 4 \<Longrightarrow> xs ! (a + i) = ys ! (b + i)) \<Longrightarrow> le32 xs a = le32 ys b"
proof -
  assume h: "\<And>i. i < 4 \<Longrightarrow> xs ! (a + i) = ys ! (b + i)"
  from h [of 0] h [of 1] h [of 2] h [of 3] show ?thesis by (simp add: le32_def le16_def eval_nat_numeral)
qed

lemma le32_overwrite_same: "off + 4 \<le> length xs \<Longrightarrow> le32 (overwrite xs off (le_bytes v)) off = v"
  using le32_cong [of "overwrite xs off (le_bytes v)" off "le_bytes v" 0] by (simp add: nth_overwrite le32_le_bytes)

lemma le32_overwrite_other:
  "off + 4 \<le> length xs \<Longrightarrow> off' + 4 \<le> length xs \<Longrightarrow> off' + 4 \<le> off \<or> off + 4 \<le> off' \<Longrightarrow>
    le32 (overwrite xs off (le_bytes v)) off' = le32 xs off'"
  by (rule le32_cong) (auto simp: nth_overwrite)

text \<open>The FAT with one entry set.\<close>

definition put_fat :: "simple_fs \<Rightarrow> u32 \<Rightarrow> u32 \<Rightarrow> (u64 \<Rightarrow> u8 list) \<Rightarrow> u64 \<Rightarrow> u8 list" where
  "put_fat fs c value D =
    (let s = fat_sector fs c; v = (le32 (D s) (fat_slot c) AND 0xF0000000) OR (value AND 0x0FFFFFFF)
     in D(s := overwrite (D s) (fat_slot c) (le_bytes v)))"

lemma low_28: "((x AND 0xF0000000) OR (v AND 0x0FFFFFFF)) AND 0x0FFFFFFF = (v AND 0x0FFFFFFF :: u32)"
proof -
  have "((x AND 0xF0000000) OR (v AND 0x0FFFFFFF)) AND 0x0FFFFFFF
      = (x AND (0xF0000000 AND 0x0FFFFFFF)) OR (v AND (0x0FFFFFFF AND 0x0FFFFFFF))"
    by (simp only: bit.conj_disj_distrib2 and.assoc)
  then show ?thesis by simp
qed

lemma fat_value_put_fat:
  assumes "\<And>l. length (D l) = 512"
  shows "fat_value fs (put_fat fs c value D) c' = (if c' = c then value AND 0x0FFFFFFF else fat_value fs D c')"
proof (cases "fat_sector fs c' = fat_sector fs c")
  case False
  then have "c' \<noteq> c" by auto
  with False show ?thesis by (simp add: fat_value_def put_fat_def Let_def)
next
  case True
  let ?v = "(le32 (D (fat_sector fs c)) (fat_slot c) AND 0xF0000000) OR (value AND 0x0FFFFFFF)"
  have eq: "fat_value fs (put_fat fs c value D) c' =
      le32 (overwrite (D (fat_sector fs c)) (fat_slot c) (le_bytes ?v)) (fat_slot c') AND 0x0FFFFFFF"
    by (simp add: fat_value_def put_fat_def Let_def True)
  show ?thesis
  proof (cases "c' = c")
    case same: True
    have "le32 (overwrite (D (fat_sector fs c)) (fat_slot c) (le_bytes ?v)) (fat_slot c) = ?v"
      by (rule le32_overwrite_same) (simp add: assms fat_slot_le)
    with same eq show ?thesis by (simp only: low_28 simp_thms if_True)
  next
    case False
    then have "fat_slot c' \<noteq> fat_slot c" using True fat_place_inj by blast
    then have "fat_slot c' + 4 \<le> fat_slot c \<or> fat_slot c + 4 \<le> fat_slot c'" by (rule fat_slots_apart)
    then have keep: "le32 (overwrite (D (fat_sector fs c)) (fat_slot c) (le_bytes ?v)) (fat_slot c')
        = le32 (D (fat_sector fs c)) (fat_slot c')"
      by (intro le32_overwrite_other) (simp_all add: assms fat_slot_le)
    have "fat_value fs D c' = le32 (D (fat_sector fs c)) (fat_slot c') AND 0x0FFFFFFF"
      by (simp only: fat_value_def True)
    with False show ?thesis unfolding eq keep by (simp only: if_False simp_thms)
  qed
qed

lemma length_put_fat: "(\<And>l. length (D l) = 512) \<Longrightarrow> length (put_fat fs c v D l) = 512"
  using fat_slot_le [of c] by (simp add: put_fat_def Let_def)

section \<open>The sectors of a cluster, patched\<close>

fun put_sectors :: "u64 \<Rightarrow> u8 list \<Rightarrow> nat \<Rightarrow> (u64 \<Rightarrow> u8 list) \<Rightarrow> u64 \<Rightarrow> u8 list" where
  "put_sectors lba xs 0 D = D"
| "put_sectors lba xs (Suc k) D = (put_sectors lba xs k D)(lba + of_nat k := take 512 (drop (k * 512) xs))"

lemma put_sectors_other: "(\<And>i. i < k \<Longrightarrow> l \<noteq> lba + of_nat i) \<Longrightarrow> put_sectors lba xs k D l = D l"
  by (induction k) auto

lemma put_sectors_at:
  "i < k \<Longrightarrow> k \<le> 2 ^ 64 \<Longrightarrow> put_sectors lba xs k D (lba + of_nat i) = take 512 (drop (i * 512) xs)"
proof (induction k)
  case (Suc k)
  have "lba + of_nat i = lba + of_nat k \<longleftrightarrow> i = k"
    using Suc.prems by (intro add_of_nat_u64_inj) simp_all
  with Suc show ?case by (auto simp del: add_left_cancel)
qed simp

lemma put_sectors_length:
  "(\<And>l. length (D l) = 512) \<Longrightarrow> k * 512 \<le> length xs \<Longrightarrow> length (put_sectors lba xs k D l) = 512"
  by (induction k) auto

lemma concat_slices: "k * n \<le> length xs \<Longrightarrow> concat (map (\<lambda>i. take n (drop (i * n) xs)) [0..<k]) = take (k * n) xs"
  by (induction k) (simp_all add: add.commute [of n] take_add)

lemma cluster_bytes_put_sectors:
  assumes "length xs = spc fs * 512"
  shows "cluster_bytes fs (put_sectors (get_lba_of_cluster fs c) xs (spc fs) D) c = xs"
proof -
  have le: "spc fs \<le> 18446744073709551616" using spc_less [of fs] by simp
  have "map (put_sectors (get_lba_of_cluster fs c) xs (spc fs) D) (cluster_lbas fs c)
      = map (\<lambda>i. take 512 (drop (i * 512) xs)) [0..<spc fs]"
    by (simp add: cluster_lbas_def spc_def [symmetric] put_sectors_at le)
  then show ?thesis using concat_slices [of "spc fs" 512 xs] assms by (simp add: cluster_bytes_def)
qed

text \<open>What \<open>sector_copy\<close> picks is the part of the transfer in that sector.\<close>

lemma sector_copy_range:
  "sector_copy (k * 512) off n = Some (s, l) \<Longrightarrow>
    (k * 512 \<le> p \<and> p < k * 512 + 512 \<and> off \<le> p \<and> p < off + n) \<longleftrightarrow> (s \<le> p \<and> p < s + l)"
  by (auto simp: sector_copy_def Let_def split: if_splits)

lemma sector_copy_no_range:
  "sector_copy (k * 512) off n = None \<Longrightarrow> k * 512 \<le> p \<Longrightarrow> p < k * 512 + 512 \<Longrightarrow> \<not> (off \<le> p \<and> p < off + n)"
  by (auto simp: sector_copy_def Let_def split: if_splits)

lemma patched_sector:
  assumes "off + length bs \<le> length xs" "k * 512 + 512 \<le> length xs"
  shows "(case sector_copy (k * 512) off (length bs) of
      None \<Rightarrow> take 512 (drop (k * 512) xs)
    | Some (s, l) \<Rightarrow> overwrite (take 512 (drop (k * 512) xs)) (s - k * 512) (take l (drop (s - off) bs)))
    = take 512 (drop (k * 512) (overwrite xs off bs))"
proof (cases "sector_copy (k * 512) off (length bs)")
  case None
  then show ?thesis
    using assms sector_copy_no_range [OF None] by (auto intro!: nth_equalityI simp: nth_overwrite)
next
  case (Some sl)
  obtain s l where sl: "sl = (s, l)" by fastforce
  note c = sector_copy_Some [OF Some [unfolded sl]] and r = sector_copy_range [OF Some [unfolded sl]]
  have "s \<ge> off" using c(1) by simp
  have l: "s + l \<le> off + length bs" using c(1,2) done_by_le [of off "length bs" "Suc k"] by simp
  have len: "length (take l (drop (s - off) bs)) = l" using l \<open>s \<ge> off\<close> by simp
  have "overwrite (take 512 (drop (k * 512) xs)) (s - k * 512) (take l (drop (s - off) bs)) = take 512 (drop (k * 512) (overwrite xs off bs))"
  proof (rule nth_equalityI)
    show "length (overwrite (take 512 (drop (k * 512) xs)) (s - k * 512) (take l (drop (s - off) bs)))
        = length (take 512 (drop (k * 512) (overwrite xs off bs)))"
      using assms c(3,4) len by simp
    fix i assume "i < length (overwrite (take 512 (drop (k * 512) xs)) (s - k * 512) (take l (drop (s - off) bs)))"
    then have i: "i < 512" using assms c(3,4) len by simp
    have "(s - k * 512 \<le> i \<and> i < s - k * 512 + l) \<longleftrightarrow> (off \<le> k * 512 + i \<and> k * 512 + i < off + length bs)"
      using r [of "k * 512 + i"] i c(3) by auto
    then show "overwrite (take 512 (drop (k * 512) xs)) (s - k * 512) (take l (drop (s - off) bs)) ! i
        = take 512 (drop (k * 512) (overwrite xs off bs)) ! i"
      using assms c(3,4) i len \<open>s \<ge> off\<close> l by (auto simp: nth_overwrite add.commute [of i])
  qed
  then show ?thesis by (simp add: Some sl)
qed

context block_device begin

lemma set_fat_entryE:
  assumes "inv m" "valid (fat_sector fs c)"
  obtains m' where "set_fat_entry io fs c value m = Some m'" "inv m'" "disk m' = put_fat fs c value (disk m)"
    "\<And>x. \<not> scratch x \<Longrightarrow> ram m' x = ram m x"
proof -
  let ?s = "fat_sector fs c" and ?o = "fat_slot c"
  let ?v = "(le32 (disk m ?s) ?o AND 0xF0000000) OR (value AND 0x0FFFFFFF)"
  obtain m1 where m1: "io_read io ?s m = Some m1" "keeps m m1" "buffer io m1 = disk m ?s"
    by (rule read_bufferE [OF assms])
  let ?m2 = "on_ram (wr32 (io_data io + of_nat ?o) ?v) m1"
  have inv2: "inv ?m2" "disk ?m2 = disk m" using m1(2) by (simp_all add: ram_inv_iff ram_disk keeps_def)
  obtain m3 where m3: "io_write io ?s ?m2 = Some m3" "inv m3"
      "disk m3 = (disk ?m2)(?s := rd_bytes (ram ?m2) (io_data io) 512)" "\<And>x. \<not> scratch x \<Longrightarrow> ram m3 x = ram ?m2 x"
    by (rule writeE [OF inv2(1) assms(2)]) blast
  have "rd_bytes (ram ?m2) (io_data io) 512 = overwrite (disk m ?s) ?o (le_bytes ?v)"
    using m1(3) fat_slot_le [of c] rd_bytes_wr_bytes_at [of ?o "le_bytes ?v" 512 "io_data io" "ram m1"]
    by (simp add: wr32_bytes buffer_def)
  then have "disk m3 = put_fat fs c value (disk m)"
    using m3(3) inv2(2) by (simp add: put_fat_def Let_def)
  moreover have "set_fat_entry io fs c value m = Some m3"
    using m1(1,3) m3(1) port_present [OF assms(1)] by (simp add: set_fat_entry_def Let_def)
  moreover have "ram m3 x = ram m x" if "\<not> scratch x" for x
  proof -
    have "\<not> in_region (io_data io) 512 x" using that buffer_scratch [OF assms(1)] by blast
    then have "\<not> in_region (io_data io + of_nat ?o) 4 x"
      using in_region_sub [of "io_data io" ?o 4 x 512] fat_slot_le [of c] by auto
    then have "ram ?m2 x = ram m1 x" by (simp add: wr32_other)
    then show ?thesis using m3(4) [OF that] keepsD(3) [OF m1(2) that] by simp
  qed
  ultimately show thesis using m3(2) by (intro that)
qed

text \<open>Patching the buffer with the part of the transfer that lies in sector \<open>k\<close>.\<close>

definition patch_buffer :: "u64 \<Rightarrow> nat \<Rightarrow> nat \<Rightarrow> nat \<Rightarrow> 'd machine \<Rightarrow> 'd machine" where
  "patch_buffer src off n k m = (case sector_copy (k * 512) off n of
      None \<Rightarrow> m
    | Some (s, l) \<Rightarrow> on_ram (wr_bytes (io_data io + of_nat (s - k * 512)) (rd_bytes (ram m) (src + of_nat (s - off)) l)) m)"

lemma patch_buffer_spec:
  assumes inv: "inv m" and old: "rd_bytes (ram m) (io_data io) 512 = take 512 (drop (k * 512) xs)"
    and user: "rd_bytes (ram m) src (length bs) = bs"
    and fit: "off + length bs \<le> length xs" "k * 512 + 512 \<le> length xs"
  shows "rd_bytes (ram (patch_buffer src off (length bs) k m)) (io_data io) 512 = take 512 (drop (k * 512) (overwrite xs off bs))
    \<and> inv (patch_buffer src off (length bs) k m) \<and> disk (patch_buffer src off (length bs) k m) = disk m
    \<and> (\<forall>x. \<not> scratch x \<longrightarrow> ram (patch_buffer src off (length bs) k m) x = ram m x)"
proof (cases "sector_copy (k * 512) off (length bs)")
  case None
  with patched_sector [OF fit] old inv show ?thesis by (simp add: patch_buffer_def)
next
  case (Some sl)
  obtain s l where sl: "sl = (s, l)" by fastforce
  note c = sector_copy_Some [OF Some [unfolded sl]]
  have l: "s - off + l \<le> length bs"
    using c(1,2) done_by_le [of off "length bs" "Suc k"] by simp
  have bytes: "rd_bytes (ram m) (src + of_nat (s - off)) l = take l (drop (s - off) bs)"
    using rd_bytes_slice [OF l, of "ram m" src] user by simp
  have lb: "length (take l (drop (s - off) bs)) = l" using l by simp
  have "rd_bytes (ram (patch_buffer src off (length bs) k m)) (io_data io) 512
      = overwrite (take 512 (drop (k * 512) xs)) (s - k * 512) (take l (drop (s - off) bs))"
    using rd_bytes_wr_bytes_at [of "s - k * 512" "take l (drop (s - off) bs)" 512 "io_data io" "ram m"]
      c(3,4) lb old by (simp add: patch_buffer_def Some sl bytes)
  moreover have "ram (patch_buffer src off (length bs) k m) x = ram m x" if "\<not> scratch x" for x
  proof -
    have "\<not> in_region (io_data io) 512 x" using that buffer_scratch [OF inv] by blast
    moreover have "s - k * 512 + l \<le> 512" using c(3,4) by linarith
    ultimately have "\<not> in_region (io_data io + of_nat (s - k * 512)) l x"
      using in_region_sub [of "io_data io" "s - k * 512" l x 512] by fastforce
    then show ?thesis by (simp add: patch_buffer_def Some sl wr_bytes_other)
  qed
  ultimately show ?thesis using patched_sector [OF fit] inv
    by (simp add: Some sl patch_buffer_def ram_inv_iff ram_disk)
qed

lemma write_stepE:
  assumes inv: "inv m" and v: "valid (lba + of_nat k)" and old: "disk m (lba + of_nat k) = take 512 (drop (k * 512) xs)"
    and u: "user_buffer src (length bs)" "rd_bytes (ram m) src (length bs) = bs"
    and fit: "off + length bs \<le> length xs" "k * 512 + 512 \<le> length xs"
  obtains m' where "write_step io lba src off (length bs) k m = Some m'" "inv m'"
    "disk m' = (disk m)(lba + of_nat k := take 512 (drop (k * 512) (overwrite xs off bs)))"
    "\<And>x. \<not> scratch x \<Longrightarrow> ram m' x = ram m x"
proof -
  obtain m1 where m1: "io_read io (lba + of_nat k) m = Some m1" "keeps m m1"
      "rd_bytes (ram m1) (io_data io) 512 = disk m (lba + of_nat k)"
    by (rule read_keeps [OF inv v])
  have i1: "inv m1" "disk m1 = disk m" using m1(2) by (simp_all add: keeps_def)
  have "rd_bytes (ram m1) src (length bs) = rd_bytes (ram m) src (length bs)"
    using u(1) keepsD(3) [OF m1(2)] by (intro rd_bytes_same) (simp add: user_buffer_def)
  then have user: "rd_bytes (ram m1) src (length bs) = bs" using u(2) by simp
  let ?p = "patch_buffer src off (length bs) k m1"
  note patch = patch_buffer_spec [OF i1(1) m1(3) [unfolded old] user fit]
  obtain m2 where m2: "io_write io (lba + of_nat k) ?p = Some m2" "inv m2"
      "disk m2 = (disk ?p)(lba + of_nat k := rd_bytes (ram ?p) (io_data io) 512)" "\<And>x. \<not> scratch x \<Longrightarrow> ram m2 x = ram ?p x"
    by (rule writeE [OF _ v, of ?p]) (use patch in auto)
  have "write_step io lba src off (length bs) k m = Some m2"
    using m1(1) m2(1) by (auto simp: write_step_def patch_buffer_def Let_def split: option.splits)
  then show thesis using m2 patch i1 keepsD(3) [OF m1(2)] by (intro that [of m2]) auto
qed

lemma write_cluster_loop:
  assumes inv: "inv m" and u: "user_buffer src (length bs)" "rd_bytes (ram m) src (length bs) = bs"
    and v: "\<And>i. i < spc fs \<Longrightarrow> valid (get_lba_of_cluster fs c + of_nat i)" and k: "k \<le> spc fs"
    and fit: "off + length bs \<le> spc fs * 512"
  shows "\<exists>m'. for_opt (write_step io (get_lba_of_cluster fs c) src off (length bs)) [0..<k] m = Some m' \<and> inv m'
    \<and> disk m' = put_sectors (get_lba_of_cluster fs c) (overwrite (cluster_bytes fs (disk m) c) off bs) k (disk m)
    \<and> (\<forall>x. \<not> scratch x \<longrightarrow> ram m' x = ram m x)"
  using k
proof (induction k)
  case 0
  then show ?case using inv by simp
next
  case (Suc k)
  let ?base = "get_lba_of_cluster fs c" and ?CB = "cluster_bytes fs (disk m) c"
  let ?lba = "?base + of_nat k" and ?NB = "overwrite ?CB off bs"
  have len: "length (disk m l) = 512" for l using inv by (rule sector_length)
  have lCB: "length ?CB = spc fs * 512" using len by (rule length_cluster_bytes)
  obtain m1 where m1: "for_opt (write_step io ?base src off (length bs)) [0..<k] m = Some m1" "inv m1"
      "disk m1 = put_sectors ?base ?NB k (disk m)" "\<And>x. \<not> scratch x \<Longrightarrow> ram m1 x = ram m x"
    using Suc by auto
  have "disk m1 ?lba = disk m ?lba"
    unfolding m1(3)
  proof (rule put_sectors_other)
    fix i assume i: "i < k"
    have "k < 2 ^ 64" using Suc.prems spc_less [of fs] by simp
    then show "?lba \<noteq> ?base + of_nat i" using i by (intro add_offset_neq) simp_all
  qed
  also have "disk m ?lba = take 512 (drop (k * 512) ?CB)"
    using Suc.prems len by (intro cluster_bytes_sector [symmetric]) simp_all
  finally have old: "disk m1 ?lba = take 512 (drop (k * 512) ?CB)" .
  have "rd_bytes (ram m1) src (length bs) = rd_bytes (ram m) src (length bs)"
    using u(1) m1(4) by (intro rd_bytes_same) (simp add: user_buffer_def)
  then have user: "rd_bytes (ram m1) src (length bs) = bs" using u(2) by simp
  have fits: "off + length bs \<le> length ?CB" "k * 512 + 512 \<le> length ?CB" using fit lCB Suc.prems by simp_all
  obtain m3 where "write_step io ?base src off (length bs) k m1 = Some m3" "inv m3"
      "disk m3 = (disk m1)(?lba := take 512 (drop (k * 512) ?NB))" "\<And>x. \<not> scratch x \<Longrightarrow> ram m3 x = ram m1 x"
    by (rule write_stepE [OF m1(2) v old u(1) user fits]) (use Suc.prems in auto)
  then show ?case using m1 by (simp add: for_opt_upt_Suc fun_upd_def del: upt_Suc)
qed

lemma write_cluster_spec:
  assumes inv: "inv m" and u: "user_buffer src (length bs)" "rd_bytes (ram m) src (length bs) = bs"
    and v: "\<forall>l\<in>set (cluster_lbas fs c). valid l"
    and off: "unat offset < spc fs * 512" and n: "length bs = min len (spc fs * 512 - unat offset)"
  shows "\<exists>m'. write_cluster io fs c src len offset m = Some (length bs, m') \<and> inv m'
    \<and> cluster_bytes fs (disk m') c = overwrite (cluster_bytes fs (disk m) c) (unat offset) bs
    \<and> (\<forall>l. l \<notin> set (cluster_lbas fs c) \<longrightarrow> disk m' l = disk m l)
    \<and> (\<forall>x. \<not> scratch x \<longrightarrow> ram m' x = ram m x)"
proof -
  have cs: "cluster_size fs \<noteq> 0" using off unat_cluster_size [of fs] by auto
  have off': "offset mod cluster_size fs = offset"
    using off unat_cluster_size [of fs] by (intro mod_word_less) (simp add: word_less_nat_alt)
  have v': "valid (get_lba_of_cluster fs c + of_nat i)" if "i < spc fs" for i
    using v that by (simp add: cluster_lbas_def spc_def)
  have len: "length (disk m l) = 512" for l using inv by (rule sector_length)
  have fit: "unat offset + length bs \<le> spc fs * 512" using off n by simp
  obtain m' where m': "for_opt (write_step io (get_lba_of_cluster fs c) src (unat offset) (length bs)) [0..<spc fs] m = Some m'"
      "inv m'" "disk m' = put_sectors (get_lba_of_cluster fs c) (overwrite (cluster_bytes fs (disk m) c) (unat offset) bs) (spc fs) (disk m)"
      "\<forall>x. \<not> scratch x \<longrightarrow> ram m' x = ram m x"
    using write_cluster_loop [OF inv u v' order_refl fit] by blast
  have "cluster_bytes fs (disk m') c = overwrite (cluster_bytes fs (disk m) c) (unat offset) bs"
    unfolding m'(3) using fit len by (intro cluster_bytes_put_sectors) (simp add: length_cluster_bytes)
  moreover have "disk m' l = disk m l" if "l \<notin> set (cluster_lbas fs c)" for l
    unfolding m'(3) using that by (intro put_sectors_other) (auto simp: cluster_lbas_def spc_def)
  moreover have "write_cluster io fs c src len offset m = Some (length bs, m')"
    using m'(1) n port_present [OF inv] cs off'
    by (simp add: write_cluster_def unat_cluster_size Let_def spc_def [symmetric])
  ultimately show ?thesis using m'(2,4) by blast
qed

end

section \<open>Chains on a disk whose data changes\<close>

lemma cluster_chain_cong:
  "cluster_chain fs D c cs \<Longrightarrow> \<forall>k\<in>set cs. D' (fat_sector fs k) = D (fat_sector fs k) \<Longrightarrow> cluster_chain fs D' c cs"
proof (induction rule: cluster_chain.induct)
  case (chain_end c)
  then show ?case by (intro cluster_chain.chain_end)
next
  case (chain_step c cs)
  then have "fat_value fs D' c = fat_value fs D c" by (simp add: fat_value_def)
  with chain_step show ?case by (intro cluster_chain.chain_step) simp_all
qed

lemma file_chain_cong:
  assumes "file_chain fs D c cs" "\<forall>k\<in>set cs. D' (fat_sector fs k) = D (fat_sector fs k)"
  shows "file_chain fs D' c cs"
proof -
  from assms(1) obtain rest where r: "cs = c # rest" "cluster_chain fs D (fat_value fs D c) rest"
    by (auto simp: file_chain_def)
  moreover have "fat_value fs D' c = fat_value fs D c" using assms(2) r(1) by (simp add: fat_value_def)
  ultimately show ?thesis using cluster_chain_cong [of fs D _ rest D'] assms(2) by (simp add: file_chain_def)
qed

text \<open>A chain that ends visits no cluster twice.\<close>

lemma cluster_chain_suffix:
  "cluster_chain fs D c cs \<Longrightarrow> x \<in> set cs \<Longrightarrow> \<exists>cs'. cluster_chain fs D x (x # cs') \<and> length cs' < length cs"
proof (induction rule: cluster_chain.induct)
  case (chain_end c)
  then show ?case by simp
next
  case (chain_step c cs)
  show ?case
  proof (cases "x = c")
    case True
    with chain_step show ?thesis by (auto simp: chain_Cons_iff)
  next
    case False
    with chain_step show ?thesis by fastforce
  qed
qed

lemma file_chain_tail_distinct:
  assumes "file_chain fs D c (c # rest)" shows "c \<notin> set rest"
proof
  assume "c \<in> set rest"
  moreover have r: "cluster_chain fs D (fat_value fs D c) rest" using assms by (simp add: file_chain_def)
  ultimately obtain cs' where "cluster_chain fs D c (c # cs')" "length cs' < length rest"
    using cluster_chain_suffix by blast
  then have "cluster_chain fs D (fat_value fs D c) cs'" by (simp add: chain_Cons_iff)
  with r \<open>length cs' < length rest\<close> show False using cluster_chain_unique by blast
qed

lemma cluster_chain_distinct: "cluster_chain fs D c cs \<Longrightarrow> distinct cs"
proof (induction rule: cluster_chain.induct)
  case (chain_step c cs)
  then have "file_chain fs D c (c # cs)" by (simp add: file_chain_def)
  with chain_step file_chain_tail_distinct show ?case by simp
qed simp

lemma file_chain_distinct: "file_chain fs D c cs \<Longrightarrow> distinct cs"
proof -
  assume h: "file_chain fs D c cs"
  then obtain rest where "cs = c # rest" "cluster_chain fs D (fat_value fs D c) rest" by (auto simp: file_chain_def)
  with h show ?thesis using file_chain_tail_distinct cluster_chain_distinct by auto
qed

text \<open>
  Where the clusters of a chain may lie: they are data clusters (2 or more), and their FAT sectors are
  below the data region.
\<close>

definition data_layout :: "simple_fs \<Rightarrow> u32 list \<Rightarrow> bool" where
  "data_layout fs cs \<longleftrightarrow> unat (cluster_begin_lba fs) < 2 ^ 63
    \<and> (\<forall>c\<in>set cs. 2 \<le> c \<and> fat_sector fs c < cluster_begin_lba fs)"

definition chain_lbas :: "simple_fs \<Rightarrow> u32 list \<Rightarrow> u64 set" where
  "chain_lbas fs cs = (\<Union>c\<in>set cs. set (cluster_lbas fs c))"

lemma layout_fat_apart: "data_layout fs cs \<Longrightarrow> c \<in> set cs \<Longrightarrow> k \<in> set cs \<Longrightarrow> fat_sector fs k \<notin> set (cluster_lbas fs c)"
  using cluster_lbas_ge [of fs c] unfolding data_layout_def by (metis leD)

lemma layout_lbas_apart: "data_layout fs cs \<Longrightarrow> c \<in> set cs \<Longrightarrow> k \<in> set cs \<Longrightarrow> c \<noteq> k \<Longrightarrow>
    set (cluster_lbas fs c) \<inter> set (cluster_lbas fs k) = {}"
  using cluster_lbas_disj [of fs c k] by (simp add: data_layout_def)

lemma chain_lbas_apart:
  assumes lay: "data_layout fs zs" and sub: "set xs \<subseteq> set zs" "set ys \<subseteq> set zs" and apart: "set xs \<inter> set ys = {}"
  shows "chain_lbas fs xs \<inter> chain_lbas fs ys = {}"
proof (rule equals0I)
  fix l assume "l \<in> chain_lbas fs xs \<inter> chain_lbas fs ys"
  then obtain c k where ck: "c \<in> set xs" "k \<in> set ys" "l \<in> set (cluster_lbas fs c)" "l \<in> set (cluster_lbas fs k)"
    by (auto simp: chain_lbas_def)
  moreover have "set (cluster_lbas fs c) \<inter> set (cluster_lbas fs k) = {}"
    by (rule layout_lbas_apart [OF lay]) (use ck sub apart in auto)
  ultimately show False by blast
qed

lemma cluster_bytes_cong: "(\<And>l. l \<in> set (cluster_lbas fs c) \<Longrightarrow> D' l = D l) \<Longrightarrow> cluster_bytes fs D' c = cluster_bytes fs D c"
  by (simp add: cluster_bytes_def cong: map_cong)

lemma file_bytes_cong: "(\<And>l. l \<in> chain_lbas fs cs \<Longrightarrow> D' l = D l) \<Longrightarrow> file_bytes fs D' cs = file_bytes fs D cs"
  unfolding file_bytes_def chain_lbas_def by (intro arg_cong [where f = concat] map_cong cluster_bytes_cong) auto

text \<open>Disk \<open>D'\<close> is disk \<open>E\<close> with the bytes from \<open>off\<close> on of the clusters \<open>cs\<close> replaced; it composes along a chain.\<close>

definition rewritten :: "simple_fs \<Rightarrow> u32 list \<Rightarrow> nat \<Rightarrow> u8 list \<Rightarrow> (u64 \<Rightarrow> u8 list) \<Rightarrow> (u64 \<Rightarrow> u8 list) \<Rightarrow> bool" where
  "rewritten fs cs off bs E D' \<longleftrightarrow> file_bytes fs D' cs = overwrite (file_bytes fs E cs) off bs
    \<and> (\<forall>l. l \<notin> chain_lbas fs cs \<longrightarrow> D' l = E l)"

lemma rewritten_Cons:
  assumes c: "c \<notin> set rest" and lay: "data_layout fs (c # rest)"
    and E1: "cluster_bytes fs E1 c = overwrite (cluster_bytes fs E c) off bs" "\<forall>l. l \<notin> set (cluster_lbas fs c) \<longrightarrow> E1 l = E l"
    and w: "rewritten fs rest 0 bs' E1 D'"
    and fit: "off + length bs \<le> length (cluster_bytes fs E c)" "bs' \<noteq> [] \<Longrightarrow> off + length bs = length (cluster_bytes fs E c)"
  shows "rewritten fs (c # rest) off (bs @ bs') E D'"
proof -
  have apart: "set (cluster_lbas fs c) \<inter> chain_lbas fs rest = {}"
    using layout_lbas_apart [OF lay, of c] c by (auto simp: chain_lbas_def)
  have cb: "cluster_bytes fs D' c = cluster_bytes fs E1 c"
    using w apart by (intro cluster_bytes_cong) (auto simp: rewritten_def)
  have fb: "file_bytes fs E1 rest = file_bytes fs E rest"
    using E1(2) apart by (intro file_bytes_cong) auto
  have "file_bytes fs D' (c # rest) = overwrite (cluster_bytes fs E c) off bs @ overwrite (file_bytes fs E rest) 0 bs'"
    using w E1(1) cb fb by (simp add: file_bytes_Cons rewritten_def)
  also have "\<dots> = overwrite (file_bytes fs E (c # rest)) off (bs @ bs')"
    using fit by (cases "bs' = []") (simp_all add: file_bytes_Cons overwrite_across overwrite_append1)
  finally show ?thesis using E1(2) w by (auto simp: rewritten_def chain_lbas_def)
qed

section \<open>The loop over clusters\<close>

context block_device begin

lemma next_or_alloc_follows: "follows fs D (next_or_alloc io fs)"
  using next_cluster_follows [of fs D] unfolding follows_def next_or_alloc_def write_next_cluster_def by fastforce

text \<open>\<open>bs\<close> replaced the bytes from \<open>off\<close> on of the file with clusters \<open>cs\<close>, and nothing else.\<close>

definition replaced :: "simple_fs \<Rightarrow> u32 list \<Rightarrow> nat \<Rightarrow> u8 list \<Rightarrow> 'd machine \<Rightarrow> 'd machine \<Rightarrow> bool" where
  "replaced fs cs off bs m m' \<longleftrightarrow> inv m'
    \<and> file_bytes fs (disk m') cs = overwrite (file_bytes fs (disk m) cs) off bs
    \<and> (\<forall>l. l \<notin> chain_lbas fs cs \<longrightarrow> disk m' l = disk m l)
    \<and> (\<forall>x. \<not> scratch x \<longrightarrow> ram m' x = ram m x)"

declare write_loop.simps [simp del]

lemma replaced_Cons:
  assumes c: "c \<notin> set rest" and lay: "data_layout fs (c # rest)"
    and m1: "cluster_bytes fs (disk m1) c = overwrite (cluster_bytes fs (disk m) c) off bs"
      "\<forall>l. l \<notin> set (cluster_lbas fs c) \<longrightarrow> disk m1 l = disk m l" "\<forall>x. \<not> scratch x \<longrightarrow> ram m1 x = ram m x"
    and m2: "replaced fs rest 0 bs' m1 m2"
    and fit: "off + length bs \<le> length (cluster_bytes fs (disk m) c)"
      "bs' \<noteq> [] \<Longrightarrow> off + length bs = length (cluster_bytes fs (disk m) c)"
  shows "replaced fs (c # rest) off (bs @ bs') m m2"
proof -
  have "rewritten fs rest 0 bs' (disk m1) (disk m2)" using m2 by (simp add: replaced_def rewritten_def)
  from rewritten_Cons [OF c lay m1(1,2) this fit] show ?thesis
    using m1(3) m2 by (simp add: replaced_def rewritten_def)
qed

lemma write_loop_spec:
  assumes "inv m" "disk m = D" "file_chain fs D c cs" "chain_valid valid fs cs" "data_layout fs cs"
    and "user_buffer src (length bs)" "rd_bytes (ram m) src (length bs) = bs"
    and "unat off < spc fs * 512" "unat off + length bs \<le> length (file_bytes fs D cs)" "bs \<noteq> []"
  shows "\<exists>m'. write_loop io fs c src (length bs) acc off m = Some (acc + length bs, m') \<and> replaced fs cs (unat off) bs m m'"
  using assms
proof (induction cs arbitrary: c src bs acc off m D)
  case Nil
  then show ?case by (simp add: file_chain_def)
next
  case (Cons x rest)
  have x: "x = c" using Cons.prems(3) by (simp add: file_chain_def)
  have len: "length (D l) = 512" for l using Cons.prems(1,2) sector_length by auto
  let ?cz = "spc fs * 512" and ?CB = "cluster_bytes fs D c"
  have lb: "length ?CB = ?cz" using len by (rule length_cluster_bytes)
  define n where "n = min (length bs) (?cz - unat off)"
  have n0: "0 < n" "n \<le> length bs" using Cons.prems(8,10) by (simp_all add: n_def)
  have lbs: "length (take n bs) = n" using n0(2) by simp
  have un: "user_buffer src (length (take n bs))" using user_buffer_le [OF Cons.prems(6) n0(2)] lbs by simp
  have src1: "rd_bytes (ram m) src (length (take n bs)) = take n bs"
    using rd_bytes_slice [of 0 n "length bs" "ram m" src] n0(2) Cons.prems(7) by simp
  have vl: "\<forall>l\<in>set (cluster_lbas fs c). valid l" using Cons.prems(4) x by simp
  have nl: "length (take n bs) = min (length bs) (?cz - unat off)" using lbs n_def by simp
  obtain m1 where m1: "write_cluster io fs c src (length bs) off m = Some (n, m1)" "inv m1"
      "cluster_bytes fs (disk m1) c = overwrite ?CB (unat off) (take n bs)"
      "\<forall>l. l \<notin> set (cluster_lbas fs c) \<longrightarrow> disk m1 l = disk m l" "\<forall>x. \<not> scratch x \<longrightarrow> ram m1 x = ram m x"
    using write_cluster_spec [OF Cons.prems(1) un src1 vl Cons.prems(8) nl] Cons.prems(2) lbs by auto
  have step: "write_loop io fs c src (length bs) acc off m =
      (if length bs - n > 0
       then case next_or_alloc io fs c m1 of None \<Rightarrow> None
          | Some (None, m) \<Rightarrow> Some (acc + n, m)
          | Some (Some c, m) \<Rightarrow> write_loop io fs c (src + of_nat n) (length bs - n) (acc + n) 0 m
       else Some (acc + n, m1))"
    using Cons.prems(10) n0(1) m1(1) by (subst write_loop.simps) simp
  have nc: "c \<notin> set rest" using Cons.prems(3) file_chain_tail_distinct x by blast
  have lay: "data_layout fs (c # rest)" using Cons.prems(5) x by simp
  have fitc: "unat off + length (take n bs) \<le> length (cluster_bytes fs (disk m) c)"
    using lb lbs n_def Cons.prems(2,8) by simp
  show ?case
  proof (cases "length bs - n > 0")
    case False
    then have "n = length bs" using n0(2) by simp
    moreover have "replaced fs rest 0 [] m1 m1" using m1(2) by (simp add: replaced_def)
    ultimately show ?thesis
      using step False m1 replaced_Cons [OF nc lay _ m1(4,5), of "unat off" "take n bs" "[]" m1] fitc Cons.prems(2) x
      by auto
  next
    case True
    then have n: "n = ?cz - unat off" by (simp add: n_def)
    have fat_same: "\<forall>k\<in>set (c # rest). disk m1 (fat_sector fs k) = D (fat_sector fs k)"
      using m1(4) layout_fat_apart [OF lay, of c] Cons.prems(2) by auto
    have fc1: "file_chain fs (disk m1) c (c # rest)"
      using file_chain_cong [OF _ fat_same] Cons.prems(3) x by simp
    have "rest \<noteq> []" using True n Cons.prems(9) lb x by (auto simp: file_bytes_def)
    then obtain c' rest' where r: "rest = c' # rest'" by (cases rest) auto
    obtain m2 where m2: "next_or_alloc io fs c m1 = Some (Some c', m2)" "keeps m1 m2"
      using next_or_alloc_follows [of fs "disk m1"] m1(2) fc1 Cons.prems(4) x r unfolding follows_def by blast
    have inv2: "inv m2" "disk m2 = disk m1" using m2(2) by (auto dest: keepsD)
    have fc: "file_chain fs (disk m1) c' rest" using fc1 file_chain_tail [of fs "disk m1" c c' rest'] r by simp
    have fb: "file_bytes fs (disk m1) rest = file_bytes fs D rest"
      using m1(4) layout_lbas_apart [OF lay, of c] nc Cons.prems(2)
      by (intro file_bytes_cong) (auto simp: chain_lbas_def)
    let ?bs = "drop n bs"
    have u2: "user_buffer (src + of_nat n) (length ?bs)" using user_buffer_drop [of src "length bs" n "length bs - n"] Cons.prems(6) n0(2) by simp
    have "rd_bytes (ram m2) src (length bs) = rd_bytes (ram m) src (length bs)"
      using Cons.prems(6) m1(5) keepsD(3) [OF m2(2)] by (intro rd_bytes_same) (simp add: user_buffer_def)
    then have src2: "rd_bytes (ram m2) (src + of_nat n) (length ?bs) = ?bs"
      using rd_bytes_slice [of n "length bs - n" "length bs" "ram m2" src] Cons.prems(7) n0(2) by simp
    have z: "unat (0 :: u64) < ?cz" using Cons.prems(8) by simp
    have fits: "unat (0 :: u64) + length ?bs \<le> length (file_bytes fs (disk m1) rest)"
      using Cons.prems(8,9) lb x n fb by (simp add: file_bytes_Cons)
    have ne: "?bs \<noteq> []" using True by simp
    have cv: "chain_valid valid fs rest" and lay2: "data_layout fs rest"
      using Cons.prems(4) lay by (auto simp: data_layout_def)
    obtain m3 where m3: "write_loop io fs c' (src + of_nat n) (length ?bs) (acc + n) 0 m2 = Some (acc + n + length ?bs, m3)"
        "replaced fs rest (unat (0 :: u64)) ?bs m2 m3"
      using Cons.IH [OF inv2 fc cv lay2 u2 src2 z fits ne] by blast
    have "replaced fs rest 0 ?bs m1 m3" using m3(2) m2(2) inv2 by (auto simp: replaced_def keeps_def)
    from replaced_Cons [OF nc lay _ m1(4,5) this fitc] m1(3) Cons.prems(2) lb lbs n n0 Cons.prems(8)
    have "replaced fs (c # rest) (unat off) (take n bs @ ?bs) m m3" by simp
    then show ?thesis using step True m2(1) m3(1) x n0(2) by simp
  qed
qed

section \<open>The system call\<close>

lemma replaced_suffix:
  assumes "replaced fs cs' off bs m m'" "distinct (pre @ cs')" "data_layout fs (pre @ cs')"
  shows "replaced fs (pre @ cs') (length (file_bytes fs (disk m) pre) + off) bs m m'"
proof -
  have apart: "chain_lbas fs pre \<inter> chain_lbas fs cs' = {}"
    by (rule chain_lbas_apart [OF assms(3)]) (use assms(2) in auto)
  then have "file_bytes fs (disk m') pre = file_bytes fs (disk m) pre"
    using assms(1) by (intro file_bytes_cong) (auto simp: replaced_def)
  then show ?thesis using assms(1) by (auto simp: replaced_def file_bytes_def chain_lbas_def overwrite_append2)
qed

lemma write_finish_spec:
  assumes "inv m" "valid 2048" "get_fd fd tbl = Some d"
    and "fd_position d + of_nat written \<le> ucast (fd_size d)"
  shows "\<exists>m'. write_finish io fs fd written tbl m =
      Some (set_fd fd (d\<lparr>fd_position := fd_position d + of_nat written\<rparr>) tbl, m') \<and> keeps m m'"
proof -
  obtain m' where "io_read io 2048 m = Some m'" "keeps m m'" by (rule read_bufferE [OF assms(1,2)])
  moreover have "\<not> ucast (fd_size d) < fd_position d + of_nat written" using assms(4) by (rule leD)
  ultimately show ?thesis using assms(3) port_present [OF assms(1)] by (simp add: write_finish_def Let_def)
qed

lemma replaced_keeps: "replaced fs cs off bs m m' \<Longrightarrow> keeps m' m'' \<Longrightarrow> replaced fs cs off bs m m''"
  by (simp add: replaced_def keeps_def)

lemma keeps_replaced: "keeps m m' \<Longrightarrow> replaced fs cs off bs m' m'' \<Longrightarrow> replaced fs cs off bs m m''"
  by (simp add: replaced_def keeps_def)

lemma sys_write_file_spec:
  assumes inv: "inv m" and vol: "volume_at valid (disk m) fs" and v2048: "valid 2048"
    and d: "get_fd fd tbl = Some d" "\<not> fd_is_dir d"
    and chain: "file_chain fs (disk m) (fd_cluster d) cs" "chain_valid valid fs cs" "data_layout fs cs"
    and pos: "unat (fd_position d) + unat buf_len \<le> unat (fd_size d)" "unat (fd_size d) \<le> length (file_bytes fs (disk m) cs)"
    and buf: "buf \<noteq> 0" "buf_len \<noteq> 0" "user_buffer buf (unat buf_len)"
  shows "\<exists>m'. sys_write_file io fd buf buf_len tbl m =
        Some (buf_len, False, set_fd fd (d\<lparr>fd_position := fd_position d + buf_len\<rparr>) tbl, m')
      \<and> replaced fs cs (unat (fd_position d)) (rd_bytes (ram m) buf (unat buf_len)) m m'"
proof -
  let ?bs = "rd_bytes (ram m) buf (unat buf_len)"
  have len: "length (disk m l) = 512" for l using inv by (rule sector_length)
  have n0: "0 < unat buf_len" using buf(2) by (simp add: unat_gt_0)
  then have lt0: "unat (fd_position d) < unat (fd_size d)" using pos(1) by linarith
  have small: "unat (fd_position d) < 2 ^ 63" using order.strict_trans [OF lt0 unat_lt_u32] by simp
  obtain m1 where m1: "fs_init io m = Some (Some fs, m1)" "keeps m m1"
    by (rule fs_init_volume [OF inv vol])
  have inv1: "inv m1" "disk m1 = disk m" using m1(2) by (auto dest: keepsD)
  have z: "unat (0 :: u64) \<le> unat (fd_position d)" by simp
  have lt: "unat (fd_position d) - unat (0 :: u64) < length (file_bytes fs (disk m) cs)" using lt0 pos by simp
  note skip = skip_clusters_spec [OF inv1 chain(1,2) z lt small len next_or_alloc_follows]
  obtain c' start cs' m2 where sk: "skip_clusters (next_or_alloc io fs) (cluster_size fs) (fd_position d) (fd_cluster d) 0 m1 = Some (True, c', start, m2)"
      "keeps m1 m2" "file_chain fs (disk m) c' cs'" "chain_valid valid fs cs'"
      "unat start \<le> unat (fd_position d)" "unat (fd_position d) - unat start < spc fs * 512"
    and suffix: "\<exists>pre. cs = pre @ cs' \<and> unat start = unat (0 :: u64) + length pre * (spc fs * 512)"
    using skip by blast
  from suffix obtain pre where pre: "cs = pre @ cs'" "unat start = length pre * (spc fs * 512)" by auto
  have k2: "keeps m m2" using m1(2) sk(2) by (rule keeps_trans)
  have inv2: "inv m2" "disk m2 = disk m" using k2 by (auto dest: keepsD)
  have off: "unat (fd_position d - start) = unat (fd_position d) - unat start"
    using sk(5) by (simp add: unat_sub word_le_nat_alt)
  have lpre: "length (file_bytes fs (disk m) pre) = unat start" using len pre(2) by (simp add: length_file_bytes)
  have total: "length (file_bytes fs (disk m) cs) = unat start + length (file_bytes fs (disk m) cs')"
    using pre(1) lpre by (simp add: file_bytes_def)
  have src: "rd_bytes (ram m2) buf (length ?bs) = ?bs"
    using buf(3) keepsD(3) [OF k2] by (simp add: user_buffer_def rd_bytes_same [of _ "ram m2" buf "ram m"])
  have u: "user_buffer buf (length ?bs)" using buf(3) by simp
  have inc: "unat (fd_position d - start) < spc fs * 512" using off sk(6) by simp
  have fits: "unat (fd_position d - start) + length ?bs \<le> length (file_bytes fs (disk m) cs')"
    using off pos total sk(5) by simp
  have lay: "data_layout fs cs'" using chain(3) pre(1) by (simp add: data_layout_def)
  have ne: "?bs \<noteq> []" using n0 by (metis length_rd_bytes less_nat_zero_code list.size(3))
  obtain m3 where m3: "write_loop io fs c' buf (unat buf_len) 0 (fd_position d - start) m2 = Some (unat buf_len, m3)"
      "replaced fs cs' (unat (fd_position d - start)) ?bs m2 m3"
    using write_loop_spec [OF inv2 sk(3,4) lay u src inc fits ne, of 0] by auto
  have "replaced fs cs (unat (fd_position d)) ?bs m m3"
    using replaced_suffix [OF keeps_replaced [OF k2 m3(2)], of pre] file_chain_distinct [OF chain(1)] chain(3) sk(5) pre(1) lpre off
    by simp
  moreover have "fd_position d + buf_len \<le> ucast (fd_size d)"
    using pos(1) unat_lt_u32 [of "fd_size d"] by (simp add: word_le_nat_alt unat_word_ariths)
  then obtain m4 where m4: "write_finish io fs fd (unat buf_len) tbl m3 =
      Some (set_fd fd (d\<lparr>fd_position := fd_position d + buf_len\<rparr>) tbl, m4)" "keeps m3 m4"
    using write_finish_spec [of m3 fd tbl d "unat buf_len" fs] m3(2) v2048 d(1) by (auto simp: replaced_def)
  moreover have "sys_write_file io fd buf buf_len tbl m =
      Some (buf_len, False, set_fd fd (d\<lparr>fd_position := fd_position d + buf_len\<rparr>) tbl, m4)"
    using buf(1,2) d m1(1) sk(1) m3(1) m4(1) by (simp add: sys_write_file_def)
  ultimately show ?thesis using replaced_keeps by blast
qed

end

section \<open>Allocation\<close>

text \<open>The first free cluster of a FAT with \<open>n\<close> sectors.\<close>

definition first_free :: "simple_fs \<Rightarrow> (u64 \<Rightarrow> u8 list) \<Rightarrow> nat \<Rightarrow> nat option" where
  "first_free fs D n = List.find (\<lambda>c. 2 \<le> c \<and> fat_value fs D (of_nat c) = 0) [0..<n * 128]"

lemma find_cong': "(\<And>x. x \<in> set xs \<Longrightarrow> P x = Q x) \<Longrightarrow> List.find P xs = List.find Q xs"
  by (induction xs) auto

lemma fat_entry_value:
  assumes "s * 128 + i < 2 ^ 32" "i < 128"
  shows "fat_value fs D (of_nat (s * 128 + i)) = le32 (D (get_fat_lba fs + of_nat s)) (4 * i) AND 0x0FFFFFFF"
proof -
  have u: "unat (of_nat (s * 128 + i) :: u32) = s * 128 + i"
    using assms(1) by (simp add: unat_of_nat take_bit_nat_eq_self del: of_nat_add of_nat_mult)
  show ?thesis using assms(2) unfolding fat_value_def fat_sector_eq fat_slot_eq u by simp
qed

lemma free_in_sector_find:
  assumes "s * 128 + 128 \<le> 2 ^ 32" "\<forall>i\<in>set is. i < 128"
  shows "free_in_sector (D (get_fat_lba fs + of_nat s)) s is =
    map_option of_nat (List.find (\<lambda>c. 2 \<le> c \<and> fat_value fs D (of_nat c) = 0) (map (\<lambda>i. s * 128 + i) is))"
  using assms(2)
proof (induction "is")
  case Nil
  then show ?case by simp
next
  case (Cons i "is")
  have lt: "s * 128 + i < 2 ^ 32" using assms(1) Cons.prems by simp
  have "unat (of_nat (s * 128 + i) :: u32) = s * 128 + i"
    using lt by (simp add: unat_of_nat take_bit_nat_eq_self del: of_nat_add of_nat_mult)
  then have two: "(2 :: u32) \<le> of_nat (s * 128 + i) \<longleftrightarrow> 2 \<le> s * 128 + i"
    by (simp add: word_le_nat_alt del: of_nat_add of_nat_mult)
  show ?case
    using Cons two fat_entry_value [OF lt, of fs D] by (simp add: Let_def del: of_nat_add of_nat_mult)
qed

lemma upt_blocks: "[0..<Suc n * 128] = [0..<n * 128] @ map (\<lambda>i. n * 128 + i) [0..<128]"
proof -
  have "[0..<Suc n * 128] = [0..<n * 128] @ [n * 128..<n * 128 + 128]"
    using upt_add_eq_append [of 0 "n * 128" 128] by (simp add: add.commute)
  moreover have "map (\<lambda>i. n * 128 + i) [0..<128] = [n * 128..<n * 128 + 128]"
    using map_add_upt [of "n * 128" 128] by (simp add: add.commute)
  ultimately show ?thesis by simp
qed

context block_device begin

lemma free_scan_spec:
  assumes "inv m" "\<forall>s\<in>set ss. valid (get_fat_lba fs + of_nat s) \<and> s * 128 + 128 \<le> 2 ^ 32"
  shows "\<exists>m'. free_scan io (get_fat_lba fs) ss m = Some (map_option of_nat
      (List.find (\<lambda>c. 2 \<le> c \<and> fat_value fs (disk m) (of_nat c) = 0) (concat (map (\<lambda>s. map (\<lambda>i. s * 128 + i) [0..<128]) ss))), m')
    \<and> keeps m m'"
  using assms
proof (induction ss arbitrary: m)
  case Nil
  then show ?case by (simp add: keeps_refl)
next
  case (Cons s ss)
  then have v: "valid (get_fat_lba fs + of_nat s)" "s * 128 + 128 \<le> 2 ^ 32" by simp_all
  obtain m1 where m1: "io_read io (get_fat_lba fs + of_nat s) m = Some m1" "keeps m m1"
      "buffer io m1 = disk m (get_fat_lba fs + of_nat s)"
    by (rule read_bufferE [OF Cons.prems(1) v(1)])
  have inv1: "inv m1" "disk m1 = disk m" using m1(2) by (auto dest: keepsD)
  obtain m2 where m2: "free_scan io (get_fat_lba fs) ss m1 = Some (map_option of_nat
      (List.find (\<lambda>c. 2 \<le> c \<and> fat_value fs (disk m) (of_nat c) = 0) (concat (map (\<lambda>s. map (\<lambda>i. s * 128 + i) [0..<128]) ss))), m2)"
      "keeps m1 m2"
    using Cons.IH [OF inv1(1)] Cons.prems(2) inv1(2) by auto
  have "free_in_sector (disk m (get_fat_lba fs + of_nat s)) s [0..<128] =
      map_option of_nat (List.find (\<lambda>c. 2 \<le> c \<and> fat_value fs (disk m) (of_nat c) = 0) (map (\<lambda>i. s * 128 + i) [0..<128]))"
    by (rule free_in_sector_find [OF v(2)]) simp
  then show ?case
    using m1 m2 keeps_trans [OF m1(2) m2(2)] by (auto simp: find_append split: option.splits)
qed

lemma alloc_cluster_spec:
  assumes "inv m" "\<forall>s<unat (fat_sz32 fs). valid (get_fat_lba fs + of_nat s)" "unat (fat_sz32 fs) * 128 \<le> 2 ^ 32"
  shows "\<exists>m'. alloc_cluster io fs m = Some (map_option of_nat (first_free fs (disk m) (unat (fat_sz32 fs))), m') \<and> keeps m m'"
proof -
  have blocks: "concat (map (\<lambda>s. map (\<lambda>i. s * 128 + i) [0..<128]) [0..<n]) = [0..<n * 128]" for n
    by (induction n) (simp_all add: upt_blocks del: mult_Suc)
  have "\<forall>s\<in>set [0..<unat (fat_sz32 fs)]. valid (get_fat_lba fs + of_nat s) \<and> s * 128 + 128 \<le> 2 ^ 32"
    using assms(2,3) by auto
  from free_scan_spec [OF assms(1) this] show ?thesis
    using port_present [OF assms(1)] unfolding blocks first_free_def alloc_cluster_def by simp
qed

lemma next_or_alloc_end:
  assumes inv: "inv m" and v: "valid (fat_sector fs c)" "\<forall>s<unat (fat_sz32 fs). valid (get_fat_lba fs + of_nat s)"
    and small: "unat (fat_sz32 fs) * 128 \<le> 2 ^ 32" and fin: "\<not> live_cluster (fat_value fs (disk m) c)"
    and free: "first_free fs (disk m) (unat (fat_sz32 fs)) = Some n"
  shows "\<exists>m'. next_or_alloc io fs c m = Some (Some (of_nat n), m') \<and> inv m'
    \<and> disk m' = put_fat fs (of_nat n) 0x0FFFFFFF (put_fat fs c (of_nat n) (disk m))
    \<and> (\<forall>x. \<not> scratch x \<longrightarrow> ram m' x = ram m x)"
proof -
  have "n \<in> set [0..<unat (fat_sz32 fs) * 128]"
    using free unfolding first_free_def find_Some_iff by (metis nth_mem)
  then have nlt: "n < unat (fat_sz32 fs) * 128" by simp
  then have un: "unat (of_nat n :: u32) = n"
    using small by (simp add: unat_of_nat take_bit_nat_eq_self)
  have "n div 128 < unat (fat_sz32 fs)" using nlt by (simp add: less_mult_imp_div_less)
  then have vn: "valid (fat_sector fs (of_nat n))" using v(2) by (simp add: fat_sector_eq un)
  obtain m1 where m1: "next_cluster io fs c m = Some (None, m1)" "keeps m m1"
    using next_clusterE [OF inv v(1)] fin by auto
  have i1: "inv m1" "disk m1 = disk m" using m1(2) by (auto dest: keepsD)
  obtain m2 where m2: "alloc_cluster io fs m1 = Some (Some (of_nat n), m2)" "keeps m1 m2"
    using alloc_cluster_spec [OF i1(1) v(2) small] i1(2) free by auto
  have i2: "inv m2" "disk m2 = disk m" using m2(2) i1(2) by (auto dest: keepsD)
  obtain m3 where m3: "set_fat_entry io fs c (of_nat n) m2 = Some m3" "inv m3" "disk m3 = put_fat fs c (of_nat n) (disk m2)"
      "\<And>x. \<not> scratch x \<Longrightarrow> ram m3 x = ram m2 x"
    by (rule set_fat_entryE [OF i2(1) v(1)]) blast
  obtain m4 where m4: "set_fat_entry io fs (of_nat n) 0x0FFFFFFF m3 = Some m4" "inv m4"
      "disk m4 = put_fat fs (of_nat n) 0x0FFFFFFF (disk m3)" "\<And>x. \<not> scratch x \<Longrightarrow> ram m4 x = ram m3 x"
    by (rule set_fat_entryE [OF m3(2) vn]) blast
  show ?thesis
    using m1 m2 m3 m4 i2(2) keepsD(3) [OF keeps_trans [OF m1(2) m2(2)]]
    by (simp add: next_or_alloc_def write_next_cluster_def)
qed

end

end
