(* ===== verification/File_System.thy ===== *)
theory File_System imports File_Write_Correct begin

text \<open>
  The properties of writing files, and of reading back what was written, on the AHCI driver.
\<close>

text \<open>
  C6. Writing inside an open file replaces exactly the bytes from the position on: \<open>sys_write_file\<close>
  returns the length, the file's chain then holds the caller's bytes there and what it held
  elsewhere, no sector outside the file's clusters changes, the position advances, and no memory
  outside the driver's changes. It returns with interrupts disabled (the flag in the result).
\<close>

theorem sys_write_file_overwrites:
  assumes "ahci_contract bus g idle sectors cap dma" "idle (dev m)"
    and "volume_at (\<lambda>l. l < cap) (sectors (dev m)) fs" "2048 < cap"
    and "get_fd fd tbl = Some d" "\<not> fd_is_dir d"
    and "file_chain fs (sectors (dev m)) (fd_cluster d) cs" "chain_valid (\<lambda>l. l < cap) fs cs" "data_layout fs cs"
    and "unat (fd_position d) + unat buf_len \<le> unat (fd_size d)"
    and "unat (fd_size d) \<le> length (file_bytes fs (sectors (dev m)) cs)"
    and "buf \<noteq> 0" "buf_len \<noteq> 0" "\<forall>i<unat buf_len. \<not> ahci_scratch g dma (buf + of_nat i)"
  shows "\<exists>m'. sys_write_file (ahci_io bus g) fd buf buf_len tbl m =
        Some (buf_len, False, set_fd fd (d\<lparr>fd_position := fd_position d + buf_len\<rparr>) tbl, m')
      \<and> idle (dev m')
      \<and> file_bytes fs (sectors (dev m')) cs =
          overwrite (file_bytes fs (sectors (dev m)) cs) (unat (fd_position d)) (rd_bytes (ram m) buf (unat buf_len))
      \<and> (\<forall>l. l \<notin> chain_lbas fs cs \<longrightarrow> sectors (dev m') l = sectors (dev m) l)
      \<and> (\<forall>x. \<not> ahci_scratch g dma x \<longrightarrow> ram m' x = ram m x)"
proof -
  have inv: "ahci_contract bus g idle sectors cap dma \<and> idle (dev m)" using assms(1,2) by blast
  have u: "ahci.user_buffer g dma buf (unat buf_len)" using assms(14) by (simp add: ahci.user_buffer_def)
  from ahci.sys_write_file_spec [OF inv assms(3-13) u] show ?thesis unfolding ahci.replaced_def by blast
qed

lemma sample_layout: "data_layout sample_fs [3]"
  by (simp add: data_layout_def sample_fs_def fat_sector_def get_fat_lba_def Let_def)

definition sample_open :: file_descriptor where
  "sample_open = \<lparr>fd_cluster = 3, fd_position = 1, fd_is_dir = False, fd_size = 5\<rparr>"

definition sample_table :: fd_table where
  "sample_table = FD_TABLE_0[3 := Some sample_open]"

lemma sample_table_3: "get_fd 3 sample_table = Some sample_open"
  by (simp add: get_fd_def sample_table_def FD_TABLE_0_def)

lemma sample_open_facts:
  "\<not> fd_is_dir sample_open" "file_chain sample_fs sample_disk (fd_cluster sample_open) [3]"
  "unat (fd_position sample_open) + unat (3 :: u64) \<le> unat (fd_size sample_open)"
  "unat (fd_size sample_open) \<le> length (file_bytes sample_fs sample_disk [3])"
  by (simp_all add: sample_open_def sample_file sample_file_chain)

lemma sample_user: "\<forall>i<unat (3 :: u64). \<not> ahci_scratch sim_globals (\<lambda>x. False) (0x100000 + of_nat i)"
  using sample_scratch [of "0x100000" 3] by simp

theorem sys_write_file_overwrites_witness:
  "\<exists>m' tbl'. sys_write_file (ahci_io sim_hw sim_globals) 3 0x100000 3 sample_table sample_machine = Some (3, False, tbl', m')
    \<and> sim_sectors (dev m') 4 = overwrite (sample_disk 4) 1 [0, 0, 0]"
proof -
  have b: "rd_bytes (ram sample_machine) 0x100000 (unat (3 :: u64)) = [0, 0, 0]"
    by (simp add: rd_bytes_def sample_machine_def upt_eval)
  have cap: "(2048 :: u64) < 2 ^ 48" and nz: "(0x100000 :: u64) \<noteq> 0" "(3 :: u64) \<noteq> 0" by simp_all
  from sys_write_file_overwrites [OF sim_ahci_contract sample_idle, unfolded sample_sectors,
      OF sample_volume cap sample_table_3 sample_open_facts(1,2) sample_chain_valid [OF disjI2, OF refl] sample_layout
        sample_open_facts(3,4) nz sample_user] b
  obtain m' where "sys_write_file (ahci_io sim_hw sim_globals) 3 0x100000 3 sample_table sample_machine =
      Some (3, False, set_fd 3 (sample_open\<lparr>fd_position := fd_position sample_open + 3\<rparr>) sample_table, m')"
    "file_bytes sample_fs (sim_sectors (dev m')) [3] = overwrite (sample_disk 4) (unat (fd_position sample_open)) [0, 0, 0]"
    by (auto simp: sample_file)
  moreover have "file_bytes sample_fs (sim_sectors (dev m')) [3] = sim_sectors (dev m') 4" for m' :: "sim machine"
    by (simp add: file_bytes_def cluster_bytes_def sample_lbas)
  ultimately show ?thesis by (auto simp: sample_open_def)
qed

text \<open>
  C5. Round trip: after writing \<open>buf_len\<close> bytes inside an open file and seeking back to where they were
  written, reading \<open>buf_len\<close> bytes into another buffer delivers the bytes that were written. The
  volume's own sectors are below its data region.
\<close>

theorem write_seek_read:
  assumes c: "ahci_contract bus g idle sectors cap dma" "idle (dev m)"
    and vol: "volume_at (\<lambda>l. l < cap) (sectors (dev m)) fs" "2048 < cap" "part_lba fs < cluster_begin_lba fs"
    and d: "get_fd fd tbl = Some d" "\<not> fd_is_dir d" "length tbl = 256"
    and chain: "file_chain fs (sectors (dev m)) (fd_cluster d) cs" "chain_valid (\<lambda>l. l < cap) fs cs" "data_layout fs cs"
    and pos: "unat (fd_position d) + unat buf_len \<le> unat (fd_size d)"
      "unat (fd_size d) \<le> length (file_bytes fs (sectors (dev m)) cs)"
    and buf: "buf \<noteq> 0" "buf_len \<noteq> 0" "\<forall>i<unat buf_len. \<not> ahci_scratch g dma (buf + of_nat i)"
    and buf2: "buf2 \<noteq> 0" "\<forall>i<unat buf_len. \<not> ahci_scratch g dma (buf2 + of_nat i)"
  shows "\<exists>m1 tbl1 m2 tbl2. sys_write_file (ahci_io bus g) fd buf buf_len tbl m = Some (buf_len, False, tbl1, m1)
    \<and> sys_read_file (ahci_io bus g) fd buf2 buf_len (snd (sys_seek fd (fd_position d) tbl1)) m1 = Some (buf_len, tbl2, m2)
    \<and> rd_bytes (ram m2) buf2 (unat buf_len) = rd_bytes (ram m) buf (unat buf_len)"
proof -
  let ?bs = "rd_bytes (ram m) buf (unat buf_len)" and ?off = "unat (fd_position d)"
  have inv: "ahci_contract bus g idle sectors cap dma \<and> idle (dev m)" using c by blast
  have u: "ahci.user_buffer g dma buf (unat buf_len)" using buf(3) by (simp add: ahci.user_buffer_def)
  obtain m1 where m1: "sys_write_file (ahci_io bus g) fd buf buf_len tbl m =
        Some (buf_len, False, set_fd fd (d\<lparr>fd_position := fd_position d + buf_len\<rparr>) tbl, m1)"
      "idle (dev m1)" "file_bytes fs (sectors (dev m1)) cs = overwrite (file_bytes fs (sectors (dev m)) cs) ?off ?bs"
      "\<forall>l. l \<notin> chain_lbas fs cs \<longrightarrow> sectors (dev m1) l = sectors (dev m) l"
    using ahci.sys_write_file_spec [OF inv vol(1,2) d(1,2) chain pos buf(1,2) u] unfolding ahci.replaced_def by blast
  let ?tbl1 = "set_fd fd (d\<lparr>fd_position := fd_position d + buf_len\<rparr>) tbl"
  let ?tbl2 = "snd (sys_seek fd (fd_position d) ?tbl1)"
  have d1: "get_fd fd ?tbl1 = Some (d\<lparr>fd_position := fd_position d + buf_len\<rparr>)" "fd_ok ?tbl1"
    using fds.store_ok [of tbl fd] d by (auto simp: fd_ok_def)
  have d2: "get_fd fd ?tbl2 = Some d"
    using fds.store_ok [OF d1(2), of fd "d\<lparr>fd_position := fd_position d\<rparr>"] d1(1)
    by (simp add: sys_seek_def seek_def)
  have low: "l \<notin> chain_lbas fs cs" if "l < cluster_begin_lba fs" for l
    using that chain(3) cluster_lbas_ge [of fs] by (fastforce simp: chain_lbas_def data_layout_def not_le [symmetric])
  have part: "part_lba fs = mbr_part_lba (sectors (dev m) 0)"
    using vol(1) by (auto simp: volume_at_def parse_bpb_def Let_def split: if_splits)
  have "0 < cluster_begin_lba fs" using vol(3) by (metis word_gt_0 word_not_simps(1))
  then have "sectors (dev m1) 0 = sectors (dev m) 0" "sectors (dev m1) (part_lba fs) = sectors (dev m) (part_lba fs)"
    using m1(4) low vol(3) by blast+
  then have vol1: "volume_at (\<lambda>l. l < cap) (sectors (dev m1)) fs" using vol(1) part by (simp add: volume_at_def)
  have chain1: "file_chain fs (sectors (dev m1)) (fd_cluster d) cs"
    using m1(4) low chain(3) by (intro file_chain_cong [OF chain(1)]) (auto simp: data_layout_def)
  have inv1: "ahci_contract bus g idle sectors cap dma \<and> idle (dev m1)" using c(1) m1(2) by blast
  have fits: "?off + length ?bs \<le> length (file_bytes fs (sectors (dev m)) cs)" using pos by simp
  have size1: "unat (fd_size d) \<le> length (file_bytes fs (sectors (dev m1)) cs)" using m1(3) fits pos(2) by simp
  have lt: "?off < unat (fd_size d)" using pos(1) buf(2) by (metis add_leD1 le_neq_implies_less less_add_same_cancel1 not_less unat_gt_0)
  have n: "unat buf_len = min (unat buf_len) (unat (fd_size d) - ?off)" using pos(1) by simp
  have u2: "ahci.user_buffer g dma buf2 (unat buf_len)" using buf2(2) by (simp add: ahci.user_buffer_def)
  obtain m2 where m2: "sys_read_file (ahci_io bus g) fd buf2 buf_len ?tbl2 m1 =
        Some (of_nat (unat buf_len), set_fd fd (d\<lparr>fd_position := fd_position d + of_nat (unat buf_len)\<rparr>) ?tbl2, m2)"
      "ahci.delivered sectors g dma bus idle cap buf2 (take (unat buf_len) (drop ?off (file_bytes fs (sectors (dev m1)) cs))) m1 m2"
    using ahci.sys_read_file_spec [OF inv1 vol1 d2 d(2) chain1 chain(2) lt size1 buf2(1) buf(2) u2 n] by blast
  have "take (unat buf_len) (drop ?off (file_bytes fs (sectors (dev m1)) cs)) = ?bs"
    using take_drop_overwrite [OF fits] m1(3) by simp
  with m2 m1(1) show ?thesis by (auto simp: ahci.delivered_def)
qed

theorem write_seek_read_witness:
  "\<exists>m1 tbl1 m2 tbl2. sys_write_file (ahci_io sim_hw sim_globals) 3 0x100000 3 sample_table sample_machine = Some (3, False, tbl1, m1)
    \<and> sys_read_file (ahci_io sim_hw sim_globals) 3 0x200000 3 (snd (sys_seek 3 1 tbl1)) m1 = Some (3, tbl2, m2)
    \<and> rd_bytes (ram m2) 0x200000 3 = [0, 0, 0]"
proof -
  have b: "rd_bytes (ram sample_machine) 0x100000 (unat (3 :: u64)) = [0, 0, 0]"
    by (simp add: rd_bytes_def sample_machine_def upt_eval)
  have len: "length sample_table = 256" by (simp add: sample_table_def FD_TABLE_0_def)
  have cap: "(2048 :: u64) < 2 ^ 48" and nz: "(0x100000 :: u64) \<noteq> 0" "(3 :: u64) \<noteq> 0" "(0x200000 :: u64) \<noteq> 0"
    and part: "part_lba sample_fs < cluster_begin_lba sample_fs" by (simp_all add: sample_fs_def)
  have sc: "\<forall>i<unat (3 :: u64). \<not> ahci_scratch sim_globals (\<lambda>x. False) (0x200000 + of_nat i)"
    using sample_scratch [of "0x200000" 3] by simp
  have "fd_position sample_open = 1" "unat (3 :: u64) = 3" by (simp_all add: sample_open_def)
  with write_seek_read [OF sim_ahci_contract sample_idle, unfolded sample_sectors,
      OF sample_volume cap part sample_table_3 sample_open_facts(1) len sample_open_facts(2)
        sample_chain_valid [OF disjI2, OF refl] sample_layout sample_open_facts(3,4) nz(1,2) sample_user nz(3) sc] b
  show ?thesis by (simp only:)
qed

text \<open>
  Growing a file: at the end of a chain (an end mark in the FAT, not 0), the step to the next
  cluster takes the lowest free cluster from 2 on, links it, and ends the chain there. No other FAT
  entry changes its value, and no sector but the two FAT sectors (of the first copy) changes.
\<close>

theorem next_or_alloc_extends:
  assumes "ahci_contract bus g idle sectors cap dma" "idle (dev m)"
    and "fat_sector fs c < cap" "\<forall>s<unat (fat_sz32 fs). get_fat_lba fs + of_nat s < cap"
    and small: "unat (fat_sz32 fs) * 128 \<le> 0x0FFFFFF8"
    and fin: "\<not> live_cluster (fat_value fs (sectors (dev m)) c)" "fat_value fs (sectors (dev m)) c \<noteq> 0"
    and free: "first_free fs (sectors (dev m)) (unat (fat_sz32 fs)) = Some n"
  shows "\<exists>m'. next_or_alloc (ahci_io bus g) fs c m = Some (Some (of_nat n), m') \<and> idle (dev m')
    \<and> file_chain fs (sectors (dev m')) c [c, of_nat n]
    \<and> (\<forall>k. k \<noteq> c \<longrightarrow> k \<noteq> of_nat n \<longrightarrow> fat_value fs (sectors (dev m')) k = fat_value fs (sectors (dev m)) k)
    \<and> (\<forall>l. l \<noteq> fat_sector fs c \<longrightarrow> l \<noteq> fat_sector fs (of_nat n) \<longrightarrow> sectors (dev m') l = sectors (dev m) l)"
proof -
  let ?D = "sectors (dev m)" and ?n = "of_nat n :: u32"
  have inv: "ahci_contract bus g idle sectors cap dma \<and> idle (dev m)" using assms(1,2) by blast
  have small': "unat (fat_sz32 fs) * 128 \<le> 2 ^ 32" using small by simp
  obtain m' where m': "next_or_alloc (ahci_io bus g) fs c m = Some (Some ?n, m')" "idle (dev m')"
      "sectors (dev m') = put_fat fs ?n 0x0FFFFFFF (put_fat fs c ?n ?D)"
    using ahci.next_or_alloc_end [OF inv assms(3,4) small' fin(1) free] by blast
  have n: "2 \<le> n" "fat_value fs ?D ?n = 0" "n < 0x0FFFFFF8"
    using free small unfolding first_free_def by (auto simp: find_Some_iff)
  have un: "unat ?n = n" using n(3) by (simp add: unat_of_nat take_bit_nat_eq_self)
  have ne: "?n \<noteq> c" using n(2) fin(2) by auto
  have len: "length (?D l) = 512" for l using ahci.sector_length [OF inv] .
  have len1: "length (put_fat fs c ?n ?D l) = 512" for l using len by (rule length_put_fat)
  note fv = fat_value_put_fat [OF len1] fat_value_put_fat [OF len]
  have live: "live_cluster ?n" using n(1,3) un by (auto simp: live_cluster_def word_less_nat_alt)
  have "?n AND 0x0FFFFFFF = ?n"
  proof -
    have "?n < 2 ^ 28" using n(3) un by (simp add: word_less_nat_alt)
    then have "take_bit 28 ?n = ?n" unfolding take_bit_eq_mod by (rule mod_word_less)
    then show ?thesis by (simp add: take_bit_eq_mask mask_eq_exp_minus_1)
  qed
  then have "file_chain fs (sectors (dev m')) c [c, ?n]"
    using live ne by (simp add: file_chain_def chain_Cons_iff chain_Nil_iff m'(3) fv) (simp add: live_cluster_def)
  moreover have "fat_value fs (sectors (dev m')) k = fat_value fs ?D k" if "k \<noteq> c" "k \<noteq> ?n" for k
    using that by (simp add: m'(3) fv)
  moreover have "sectors (dev m') l = ?D l" if "l \<noteq> fat_sector fs c" "l \<noteq> fat_sector fs ?n" for l
    using that by (simp add: m'(3) put_fat_def Let_def)
  ultimately show ?thesis using m' by blast
qed

lemma sample_first_free: "first_free sample_fs sample_disk 1 = Some 4"
proof -
  have v: "fat_value sample_fs sample_disk (of_nat 4) = 0" "fat_value sample_fs sample_disk (of_nat 2) \<noteq> 0"
    "fat_value sample_fs sample_disk (of_nat 3) \<noteq> 0"
    by (simp_all add: fat_value_def fat_sector_def fat_slot_def get_fat_lba_def sample_fs_def Let_def sample_disk_def le32_def le16_def)
  have "[0..<128] = [0, 1, 2, 3, 4] @ [5..<128]" by (simp add: upt_eval)
  then show ?thesis using v by (simp add: first_free_def)
qed

theorem next_or_alloc_extends_witness:
  "\<exists>m'. next_or_alloc (ahci_io sim_hw sim_globals) sample_fs 3 sample_machine = Some (Some 4, m')
    \<and> file_chain sample_fs (sim_sectors (dev m')) 3 [3, 4]"
proof -
  have f: "fat_sector sample_fs 3 < (2 ^ 48 :: u64)" "\<forall>s<unat (fat_sz32 sample_fs). get_fat_lba sample_fs + of_nat s < (2 ^ 48 :: u64)"
    "unat (fat_sz32 sample_fs) * 128 \<le> 0x0FFFFFF8" "unat (fat_sz32 sample_fs) = 1"
    by (simp_all add: sample_fs_def fat_sector_def get_fat_lba_def Let_def)
  have e: "\<not> live_cluster (fat_value sample_fs sample_disk 3)" "fat_value sample_fs sample_disk 3 \<noteq> 0"
    by (simp_all add: sample_fat live_cluster_def)
  have ff: "first_free sample_fs sample_disk (unat (fat_sz32 sample_fs)) = Some 4"
    using sample_first_free f(4) by simp
  from next_or_alloc_extends [OF sim_ahci_contract sample_idle, unfolded sample_sectors, OF f(1-3) e ff]
  show ?thesis by auto
qed

end
