(* ===== verification/Net_Ip.thy ===== *)
theory Net_Ip imports Prelude begin

text \<open>
  Internet checksums and the IPv4 header, \<open>kernel/src/net/ip.rs\<close>. The header is \<open>repr(C, packed)\<close>: its
  bytes in memory, little-endian as the processor stores them, are the bytes on the wire. The
  specification of a checksum is the receiver's test of RFC 1071: the ones' complement sum of the
  big-endian words is all ones. On naturals: the sum is not 0 and divisible by 65535.
\<close>

section \<open>The carry loop\<close>

text \<open>\<open>while sum >> 16 != 0 { sum = (sum & 0xFFFF) + (sum >> 16) }\<close>\<close>

lemma unat_drop_16: "unat (drop_bit 16 (acc :: u32)) = unat acc div 65536"
  unfolding unat_drop_bit_eq by (simp add: drop_bit_eq_div)

lemma nat_fold_0: "(n :: nat) mod 65536 + n div 65536 = 0 \<longleftrightarrow> n = 0"
  by (metis add_is_0 div_mult_mod_eq mult_0 mod_0 div_0)

lemma fold_step_nat: "unat (((acc :: u32) AND 0xFFFF) + drop_bit 16 acc) = unat acc mod 65536 + unat acc div 65536"
proof -
  have "(0xFFFF :: u32) = mask 16" by (simp add: mask_eq_exp_minus_1)
  then have m: "acc AND 0xFFFF = take_bit 16 acc" by (simp only: take_bit_eq_mask)
  have a: "unat (acc AND 0xFFFF) = unat acc mod 65536"
    unfolding m unsigned_take_bit_eq by (simp add: take_bit_eq_mod)
  have b: "unat (drop_bit 16 acc) = unat acc div 65536" by (rule unat_drop_16)
  have "unat acc mod 65536 < 65536" "unat acc div 65536 < 65536"
    using unat_lt_u32 [of acc] by (simp_all add: div_less_iff_less_mult)
  then have "unat acc mod 65536 + unat acc div 65536 < 2 ^ 32" by simp
  then show ?thesis by (simp add: unat_word_ariths a b)
qed

lemma fold_high_iff: "drop_bit 16 (acc :: u32) \<noteq> 0 \<longleftrightarrow> 65536 \<le> unat acc"
proof -
  have "unat (drop_bit 16 acc) = unat acc div 65536" by (rule unat_drop_16)
  moreover have "drop_bit 16 acc \<noteq> 0 \<longleftrightarrow> unat (drop_bit 16 acc) \<noteq> 0" by (simp add: unat_eq_0)
  moreover have "unat acc div 65536 \<noteq> 0 \<longleftrightarrow> 65536 \<le> unat acc" by (simp add: div_eq_0_iff not_less)
  ultimately show ?thesis by simp
qed

function fold_carry :: "u32 \<Rightarrow> u32" where
  "fold_carry acc = (if drop_bit 16 acc \<noteq> 0 then fold_carry ((acc AND 0xFFFF) + drop_bit 16 acc) else acc)"
  by pat_completeness auto
termination
proof (relation "measure unat")
  fix acc :: u32
  assume "drop_bit 16 acc \<noteq> 0"
  then have s: "65536 \<le> unat acc" by (simp add: fold_high_iff)
  have "unat acc = unat acc div 65536 * 65536 + unat acc mod 65536" by simp
  moreover have "1 \<le> unat acc div 65536" using s by (simp add: div_greater_zero_iff Suc_le_eq)
  ultimately have "unat acc mod 65536 + unat acc div 65536 < unat acc" by linarith
  then show "((acc AND 0xFFFF) + drop_bit 16 acc, acc) \<in> measure unat" by (simp only: in_measure fold_step_nat)
qed simp

declare fold_carry.simps [simp del]

text \<open>Folding the carries keeps the value modulo 65535, and keeps 0 apart from 65535.\<close>

lemma fold_carry_spec:
  "unat (fold_carry acc) < 65536 \<and> unat (fold_carry acc) mod 65535 = unat acc mod 65535
   \<and> (unat (fold_carry acc) = 0 \<longleftrightarrow> unat acc = 0)"
proof (induction acc rule: fold_carry.induct)
  case (1 acc)
  show ?case
  proof (cases "drop_bit 16 acc \<noteq> 0")
    case False
    then show ?thesis using fold_high_iff [of acc] by (simp add: fold_carry.simps [of acc])
  next
    case True
    let ?s = "(acc AND 0xFFFF) + drop_bit 16 acc"
    have n: "unat ?s = unat acc mod 65536 + unat acc div 65536" by (rule fold_step_nat)
    have eq: "unat acc = unat acc div 65536 * 65536 + unat acc mod 65536" by simp
    have "unat acc mod 65535 = (unat acc div 65536 * (65535 + 1) + unat acc mod 65536) mod 65535" using eq by simp
    also have "\<dots> = (unat acc mod 65536 + unat acc div 65536 + unat acc div 65536 * 65535) mod 65535"
      by (simp add: algebra_simps)
    also have "\<dots> = unat ?s mod 65535" unfolding n by (rule mod_mult_self1)
    finally have "unat ?s mod 65535 = unat acc mod 65535" by simp
    moreover have "unat ?s = 0 \<longleftrightarrow> unat acc = 0" unfolding n by (rule nat_fold_0)
    ultimately show ?thesis using 1 [OF True] True by (simp add: fold_carry.simps [of acc] del: unat_eq_0)
  qed
qed

text \<open>The complement of the folded sum makes up the difference to a multiple of 65535.\<close>

lemma complement_closes:
  "(unat acc + unat (NOT (ucast (fold_carry acc) :: u16))) mod 65535 = 0
   \<and> unat acc + unat (NOT (ucast (fold_carry acc) :: u16)) \<noteq> 0"
proof -
  define f where "f = unat (fold_carry acc)"
  have f: "f < 65536" "f mod 65535 = unat acc mod 65535" "f = 0 \<longleftrightarrow> unat acc = 0"
    using fold_carry_spec [of acc] by (simp_all add: f_def)
  have u: "unat (ucast (fold_carry acc) :: u16) = f" using f(1) by (simp add: f_def unsigned_ucast_eq take_bit_nat_eq_self)
  have "NOT (ucast (fold_carry acc) :: u16) = - 1 - ucast (fold_carry acc)" by (simp only: not_eq_complement minus_diff_commute)
  also have "unat \<dots> = unat (- 1 :: u16) - unat (ucast (fold_carry acc) :: u16)" by (rule unat_sub) simp
  finally have c: "unat (NOT (ucast (fold_carry acc) :: u16)) = 65535 - f"
    using u by (simp add: unsigned_minus_1_eq_mask mask_eq_exp_minus_1)
  have "(unat acc + (65535 - f)) mod 65535 = (f + (65535 - f)) mod 65535"
    using f(2) by (metis mod_add_left_eq)
  also have "\<dots> = 0" using f(1) by simp
  finally show ?thesis using f c by auto
qed

section \<open>Sums of words\<close>

fun be_sum :: "u8 list \<Rightarrow> nat" where
  "be_sum [] = 0"
| "be_sum [a] = 256 * unat a"
| "be_sum (a # b # xs) = 256 * unat a + unat b + be_sum xs"

fun le_sum :: "u8 list \<Rightarrow> nat" where
  "le_sum [] = 0"
| "le_sum [a] = unat a"
| "le_sum (a # b # xs) = unat a + 256 * unat b + le_sum xs"

definition checks :: "nat \<Rightarrow> bool" where
  "checks s \<longleftrightarrow> s \<noteq> 0 \<and> s mod 65535 = 0"

lemma be_sum_append: "even (length xs) \<Longrightarrow> be_sum (xs @ ys) = be_sum xs + be_sum ys"
  by (induction xs rule: be_sum.induct) auto

lemma le_sum_append: "even (length xs) \<Longrightarrow> le_sum (xs @ ys) = le_sum xs + le_sum ys"
  by (induction xs rule: le_sum.induct) auto

lemma unat_u8_less: "unat (a :: u8) < 256"
  using unsigned_less [of a] by simp

lemma unat_u8_le: "unat (a :: u8) \<le> 255"
  using unat_u8_less [of a] by simp

lemma be_sum_le: "be_sum xs \<le> 65535 * ((length xs + 1) div 2)"
proof (induction xs rule: be_sum.induct)
  case (2 a)
  then show ?case using unat_u8_le [of a] by simp
next
  case (3 a b xs)
  then show ?case using unat_u8_le [of a] unat_u8_le [of b] by simp
qed simp

lemma le_sum_le: "le_sum xs \<le> 65535 * ((length xs + 1) div 2)"
proof (induction xs rule: le_sum.induct)
  case (2 a)
  then show ?case using unat_u8_le [of a] by simp
next
  case (3 a b xs)
  then show ?case using unat_u8_le [of a] unat_u8_le [of b] by simp
qed simp

text \<open>Swapping the bytes of every word multiplies the sum by 256, modulo 65535.\<close>

lemma be_le_sum: "even (length xs) \<Longrightarrow> be_sum xs mod 65535 = 256 * le_sum xs mod 65535"
proof (induction xs rule: be_sum.induct)
  case (3 a b xs)
  then have IH: "be_sum xs mod 65535 = 256 * le_sum xs mod 65535" by simp
  have "256 * le_sum (a # b # xs) = (256 * unat a + unat b + 256 * le_sum xs) + unat b * 65535" by simp
  then have "256 * le_sum (a # b # xs) mod 65535 = (256 * unat a + unat b + 256 * le_sum xs) mod 65535"
    by (metis mod_mult_self1)
  also have "\<dots> = (256 * unat a + unat b + be_sum xs) mod 65535" using IH by (metis mod_add_right_eq)
  finally show ?case by simp
qed simp_all

lemma be_sum_0: "be_sum xs = 0 \<longleftrightarrow> (\<forall>x\<in>set xs. x = 0)"
  by (induction xs rule: be_sum.induct) (auto simp: unat_eq_0)

section \<open>The header\<close>

record ipv4_header =
  version_ihl :: u8
  dscp_ecn :: u8
  total_len :: u16
  ip_id :: u16
  flags_offset :: u16
  ttl :: u8
  protocol :: u8
  checksum :: u16
  src_ip :: "u8 list"
  dst_ip :: "u8 list"

text \<open>\<open>u16::to_be\<close> swaps the bytes on x86-64.\<close>

definition to_be :: "u16 \<Rightarrow> u16" where
  "to_be x = push_bit 8 x OR drop_bit 8 x"

definition le16 :: "u16 \<Rightarrow> u8 list" where
  "le16 x = [ucast x, ucast (drop_bit 8 x)]"

definition header_bytes :: "ipv4_header \<Rightarrow> u8 list" where
  "header_bytes h = [version_ihl h, dscp_ecn h] @ le16 (total_len h) @ le16 (ip_id h) @ le16 (flags_offset h)
     @ [ttl h, protocol h] @ le16 (checksum h) @ src_ip h @ dst_ip h"

text \<open>\<open>ptr.add(i).read_unaligned()\<close>: the \<open>i\<close>-th little-endian word of the header.\<close>

definition le_word :: "u8 list \<Rightarrow> nat \<Rightarrow> u16" where
  "le_word bs i = ucast (bs ! (2 * i)) OR push_bit 8 (ucast (bs ! (2 * i + 1)))"

definition calc_checksum :: "ipv4_header \<Rightarrow> u16" where
  "calc_checksum h =
     (let acc = fold (\<lambda>i s. s + ucast (le_word (header_bytes h) i)) [0..<10] (0 :: u32)
      in NOT (ucast (fold_carry acc)))"

definition ipv4_new :: "u8 list \<Rightarrow> u8 list \<Rightarrow> u16 \<Rightarrow> u8 \<Rightarrow> ipv4_header" where
  "ipv4_new src dst payload_len proto =
     (let hdr = \<lparr>version_ihl = 0x45, dscp_ecn = 0, total_len = to_be (20 + payload_len), ip_id = 0, flags_offset = 0,
                ttl = 64, protocol = proto, checksum = 0, src_ip = src, dst_ip = dst\<rparr>
      in hdr\<lparr>checksum := calc_checksum hdr\<rparr>)"

lemma le16_sum: "le_sum (le16 x) = unat x"
proof -
  have "unat x = take_bit 8 (unat x) + 256 * drop_bit 8 (unat x)"
    by (simp add: take_bit_eq_mod drop_bit_eq_div)
  moreover have "unat (ucast x :: u8) = take_bit 8 (unat x)" by (simp add: unsigned_ucast_eq)
  moreover have "drop_bit 8 (unat x) < 256"
    using unsigned_less [of x] by (simp add: drop_bit_eq_div div_less_iff_less_mult)
  then have "unat (ucast (drop_bit 8 x) :: u8) = drop_bit 8 (unat x)"
    by (simp add: unsigned_ucast_eq unat_drop_bit_eq take_bit_nat_eq_self)
  ultimately show ?thesis by (simp add: le16_def)
qed

lemma join_bytes: "unat (ucast (a :: u8) OR push_bit 8 (ucast (b :: u8)) :: u16) = unat a + 256 * unat b"
proof -
  have "(ucast a :: u16) OR push_bit 8 (ucast b) = ucast a + push_bit 8 (ucast b)"
    by (rule disjunctive_add_eq_or [symmetric], rule bit_word_eqI) (auto simp: bit_simps dest: bit_imp_le_length)
  also have "unat \<dots> = unat a + 256 * unat b"
    using unat_u8_le [of a] unat_u8_le [of b]
    by (simp add: unat_word_ariths unsigned_ucast_eq take_bit_nat_eq_self push_bit_eq_mult)
  finally show ?thesis .
qed


text \<open>The header's words, as the code sums them.\<close>

lemma unat_le_word: "unat (le_word bs i) = unat (bs ! (2 * i)) + 256 * unat (bs ! (2 * i + 1))"
  unfolding le_word_def by (rule join_bytes)

lemma unat_ucast16_u32: "unat (ucast (x :: u16) :: u32) = unat x"
proof -
  have "unat x < 65536" using unsigned_less [of x] by simp
  then show ?thesis by (simp add: unsigned_ucast_eq take_bit_nat_eq_self)
qed

lemma sum_le_words:
  assumes "2 * n \<le> length bs" "n \<le> 1000"
  shows "unat (fold (\<lambda>i s. s + ucast (le_word bs i)) [0..<n] (0 :: u32)) = le_sum (take (2 * n) bs)"
  using assms
proof (induction n)
  case (Suc n)
  let ?s = "fold (\<lambda>i s. s + ucast (le_word bs i)) [0..<n] (0 :: u32)"
  have IH: "unat ?s = le_sum (take (2 * n) bs)" using Suc by simp
  have "take (2 * Suc n) bs = take (2 * n) bs @ [bs ! (2 * n), bs ! (2 * n + 1)]"
    using Suc.prems by (simp add: take_Suc_conv_app_nth)
  then have nxt: "le_sum (take (2 * Suc n) bs) = le_sum (take (2 * n) bs) + unat (le_word bs n)"
    using Suc.prems by (simp add: le_sum_append unat_le_word)
  have "unat (ucast (le_word bs n) :: u32) \<le> 65535"
    using unat_u8_le [of "bs ! (2 * n)"] unat_u8_le [of "bs ! (2 * n + 1)"] by (simp add: unat_ucast16_u32 unat_le_word)
  moreover have "le_sum (take (2 * n) bs) \<le> 65535 * 1000"
    using le_sum_le [of "take (2 * n) bs"] Suc.prems by simp
  ultimately have "unat ?s + unat (ucast (le_word bs n) :: u32) < 2 ^ 32" using IH by simp
  then show ?case using IH nxt by (simp add: unat_word_ariths unat_ucast16_u32)
qed simp

lemma length_le16 [simp]: "length (le16 x) = 2"
  by (simp add: le16_def)

lemma length_header [simp]: "length (src_ip h) = 4 \<Longrightarrow> length (dst_ip h) = 4 \<Longrightarrow> length (header_bytes h) = 20"
  by (simp add: header_bytes_def)

section \<open>Property\<close>

lemma ipv4_new_checks:
  assumes "length src = 4" "length dst = 4"
  shows "checks (be_sum (header_bytes (ipv4_new src dst n p)))"
proof -
  define h where "h = \<lparr>version_ihl = 0x45, dscp_ecn = 0, total_len = to_be (20 + n), ip_id = 0, flags_offset = 0,
                ttl = 64, protocol = p, checksum = 0, src_ip = src, dst_ip = dst\<rparr>"
  define c where "c = calc_checksum h"
  have new: "ipv4_new src dst n p = h\<lparr>checksum := c\<rparr>" by (simp add: ipv4_new_def h_def c_def)
  define pre where "pre = [version_ihl h, dscp_ecn h] @ le16 (total_len h) @ le16 (ip_id h) @ le16 (flags_offset h) @ [ttl h, protocol h]"
  have split: "header_bytes (h\<lparr>checksum := x\<rparr>) = pre @ le16 x @ src @ dst" for x
    by (simp add: header_bytes_def pre_def h_def)
  have ev: "even (length pre)" by (simp add: pre_def)
  have len: "length (header_bytes h) = 20" using assms by (simp add: h_def header_bytes_def)
  define acc where "acc = fold (\<lambda>i s. s + ucast (le_word (header_bytes h) i)) [0..<10] (0 :: u32)"
  have acc: "unat acc = le_sum (header_bytes h)"
    using sum_le_words [of 10 "header_bytes h"] len by (simp add: acc_def)
  have c: "c = NOT (ucast (fold_carry acc))" by (simp add: c_def calc_checksum_def acc_def Let_def)
  have "header_bytes h = pre @ le16 0 @ src @ dst" using split [of 0] by (simp add: h_def)
  then have l0: "le_sum (header_bytes h) = le_sum pre + le_sum (src @ dst)"
    using ev by (simp add: le_sum_append le16_sum)
  have l1: "le_sum (header_bytes (h\<lparr>checksum := c\<rparr>)) = le_sum pre + unat c + le_sum (src @ dst)"
    using ev unfolding split by (simp add: le_sum_append le16_sum)
  have m: "le_sum (header_bytes (h\<lparr>checksum := c\<rparr>)) mod 65535 = 0"
    using complement_closes [of acc] unfolding acc l0 l1 c [symmetric] by (simp add: ac_simps)
  have "even (length (header_bytes (h\<lparr>checksum := c\<rparr>)))" using assms by (simp add: h_def)
  then have "be_sum (header_bytes (h\<lparr>checksum := c\<rparr>)) mod 65535 = 0"
    using be_le_sum m by (metis mod_mult_right_eq mult_0_right mod_0)
  moreover have "be_sum (header_bytes (h\<lparr>checksum := c\<rparr>)) \<noteq> 0"
    by (auto simp: be_sum_0 header_bytes_def h_def)
  ultimately show ?thesis by (simp add: checks_def new)
qed

text \<open>
  C30. An IPv4 header built by \<open>Ipv4Header::new\<close> is accepted by a receiver: its 20 bytes pass the
  checksum test, start with version 4 and header length 5, and carry the total length (modulo \<open>2 ^ 16\<close>) in network order,
  the protocol and the two addresses where RFC 791 has them.
\<close>

theorem ipv4_header_accepted:
  assumes "length src = 4" "length dst = 4"
  shows "let bs = header_bytes (ipv4_new src dst n p) in
    length bs = 20 \<and> be_sum bs mod 65535 = 0 \<and> be_sum bs \<noteq> 0
    \<and> bs ! 0 = 0x45 \<and> 256 * unat (bs ! 2) + unat (bs ! 3) = (20 + unat n) mod 2 ^ 16
    \<and> bs ! 8 = 64 \<and> bs ! 9 = p \<and> take 4 (drop 12 bs) = src \<and> drop 16 bs = dst"
proof -
  have sw: "256 * unat (ucast (to_be x) :: u8) + unat (ucast (drop_bit 8 (to_be x)) :: u8) = unat x" for x
  proof -
    have "ucast (to_be x) = (ucast (drop_bit 8 x) :: u8)" "ucast (drop_bit 8 (to_be x)) = (ucast x :: u8)"
      by (rule bit_word_eqI; auto simp: to_be_def bit_simps dest: bit_imp_le_length)+
    with le16_sum [of x] show ?thesis by (simp add: le16_def)
  qed
  have "unat (20 + n) = (20 + unat n) mod 2 ^ 16" by (simp add: unat_word_ariths)
  with ipv4_new_checks [OF assms, of n p] assms sw [of "20 + n"] show ?thesis
    by (simp add: checks_def ipv4_new_def header_bytes_def le16_def Let_def)
qed

theorem ipv4_header_accepted_witness:
  "be_sum (header_bytes (ipv4_new [10, 0, 2, 15] [10, 0, 2, 2] 8 17)) mod 65535 = 0"
  using ipv4_header_accepted [of "[10, 0, 2, 15]" "[10, 0, 2, 2]" 8 17] by (simp add: Let_def)

end
