(* ===== verification/Net_Icmp.thy ===== *)
theory Net_Icmp imports Net_Ip begin

text \<open>
  The echo reply, \<open>kernel/src/net/icmp.rs\<close>. The request is the whole Ethernet frame. The reply's ICMP
  part is built in an array of 64 bytes; slicing the array past its end panics (\<open>None\<close>).
\<close>

text \<open>The loop over the words, an odd last byte padded with 0.\<close>

fun sum_words :: "u8 list \<Rightarrow> u32 \<Rightarrow> u32" where
  "sum_words [] acc = acc"
| "sum_words [a] acc = acc + ucast (push_bit 8 (ucast a) :: u16)"
| "sum_words (a # b # xs) acc = sum_words xs (acc + ucast (push_bit 8 (ucast a) OR ucast b :: u16))"

definition calc_icmp_checksum :: "u8 list \<Rightarrow> u16" where
  "calc_icmp_checksum data = NOT (ucast (fold_carry (sum_words data 0)))"

definition slice :: "u8 list \<Rightarrow> nat \<Rightarrow> nat \<Rightarrow> u8 list" where
  "slice xs i n = take n (drop i xs)"

definition build_echo_reply :: "u8 list \<Rightarrow> u8 list \<Rightarrow> u8 list \<Rightarrow> u8 list option" where
  "build_echo_reply request our_mac dst_mac =
     (let ip_off = 14; icmp_off = ip_off + 20 in
      if length request < icmp_off + 8 then Some []
      else
        let src = slice request (ip_off + 12) 4;
            dst = slice request (ip_off + 16) 4;
            icmp_data = drop icmp_off request;
            icmp_len = length icmp_data;
            ip = ipv4_new dst src (of_nat icmp_len) 1;
            icmp = replicate 64 0;
            icmp = icmp[0 := 0, 1 := 0];
            copy_len = min icmp_len 62;
            icmp = overwrite icmp 4 (slice icmp_data 4 (copy_len - 4))
        in if icmp_len > 64 then None
           else
             let checksum = calc_icmp_checksum (take icmp_len icmp);
                 icmp = icmp[2 := ucast (drop_bit 8 checksum), 3 := ucast (checksum AND 0xFF)]
             in Some (dst_mac @ our_mac @ [0x08, 0x00] @ header_bytes ip @ take icmp_len icmp))"

section \<open>The checksum\<close>

lemma join_be: "unat (push_bit 8 (ucast (a :: u8)) OR ucast (b :: u8) :: u16) = 256 * unat a + unat b"
  using join_bytes [of b a] by (simp add: or.commute)

lemma pad_be: "unat (push_bit 8 (ucast (a :: u8)) :: u16) = 256 * unat a"
  using join_be [of a 0] by simp

lemma sum_words_nat:
  "unat acc + be_sum xs < 2 ^ 32 \<Longrightarrow> unat (sum_words xs acc) = unat acc + be_sum xs"
proof (induction xs acc rule: sum_words.induct)
  case (1 acc)
  then show ?case by simp
next
  case (2 a acc)
  then show ?case by (simp add: unat_word_ariths unat_ucast16_u32 pad_be)
next
  case (3 a b xs acc)
  let ?acc = "acc + ucast (push_bit 8 (ucast a) OR ucast b :: u16)"
  have "unat ?acc = unat acc + 256 * unat a + unat b"
    using 3(2) by (simp add: unat_word_ariths unat_ucast16_u32 join_be)
  with 3 show ?case by simp
qed

text \<open>A sum with the complement of its folded carries passes the receiver's test.\<close>

lemma checksum_checks:
  assumes "unat acc = s" "c = NOT (ucast (fold_carry acc) :: u16)"
  shows "checks (s + unat c)"
  using complement_closes [of acc] by (simp add: checks_def assms)

lemma be_bytes_sum: "be_sum [ucast (drop_bit 8 c), ucast c] = unat (c :: u16)"
  using le16_sum [of c] by (simp add: le16_def)

lemma low_byte: "ucast ((c :: u16) AND 0xFF) = (ucast c :: u8)"
proof -
  have "(0xFF :: u16) = mask 8" by (simp add: mask_eq_exp_minus_1)
  then have "c AND 0xFF = take_bit 8 c" by (simp only: take_bit_eq_mask)
  then show ?thesis by (simp only:) (rule bit_word_eqI, auto simp: bit_simps)
qed

text \<open>Storing a checksum in a zero field at an even position adds it to the sum.\<close>

lemma be_sum_store:
  assumes "even (length xs)"
  shows "be_sum (xs @ ucast (drop_bit 8 c) # ucast (c :: u16) # ys) = be_sum (xs @ 0 # 0 # ys) + unat c"
  using assms be_bytes_sum [of c] by (simp add: be_sum_append)

section \<open>Property\<close>

lemma echo_reply_cases:
  assumes "42 \<le> length req" "length req \<le> 98"
  shows "\<exists>c. build_echo_reply req our dst = Some (dst @ our @ [0x08, 0x00]
      @ header_bytes (ipv4_new (slice req 30 4) (slice req 26 4) (of_nat (length req - 34)) 1)
      @ [0, 0, ucast (drop_bit 8 c), ucast c] @ take (length req - 38) (slice req 38 (min (length req - 34) 62 - 4) @ [0, 0]))
    \<and> c = calc_icmp_checksum ([0, 0, 0, 0] @ take (length req - 38) (slice req 38 (min (length req - 34) 62 - 4) @ [0, 0]))"
proof -
  define n where "n = length req - 34"
  have n: "8 \<le> n" "n \<le> 64" "length req - 38 = n - 4" "length req = n + 34" using assms by (auto simp: n_def)
  define data where "data = slice req 38 (min n 62 - 4)"
  have ld: "length data = min n 62 - 4" using n by (simp add: data_def slice_def)
  have d2: "slice (drop 34 req) 4 (min n 62 - 4) = data" by (simp add: data_def slice_def)
  have z: "replicate 64 (0 :: u8) = [0, 0, 0, 0] @ replicate (60 :: nat) 0"
    by (simp add: replicate_append_same [symmetric] eval_nat_numeral)
  have ow: "overwrite (replicate 64 0) 4 data = [0, 0, 0, 0] @ data @ replicate (60 - length data) (0 :: u8)"
    unfolding z overwrite_def by (simp add: add.commute [of 4] flip: drop_drop)
  have tk: "take (n - 4) (data @ replicate (60 - length data) (0 :: u8)) = take (n - 4) (data @ [0, 0])"
  proof (rule nth_equalityI)
    show "length (take (n - 4) (data @ replicate (60 - length data) (0 :: u8))) = length (take (n - 4) (data @ [0 :: u8, 0]))"
      using n ld by simp
  next
    fix i assume "i < length (take (n - 4) (data @ replicate (60 - length data) (0 :: u8)))"
    then have i: "i < n - 4" by simp
    have two: "[0 :: u8, 0] ! k = 0" if "k < 2" for k using that by (cases k) auto
    show "take (n - 4) (data @ replicate (60 - length data) (0 :: u8)) ! i = take (n - 4) (data @ [0, 0]) ! i"
      using i n ld by (auto simp: nth_append two)
  qed
  have head: "take n ([w, x, y, z] @ data @ replicate (60 - length data) 0) = [w, x, y, z] @ take (n - 4) (data @ [0, 0])"
    for w x y z unfolding take_append [of n "[w, x, y, z]"] tk [symmetric] using n(1) by (simp add: numeral_eq_Suc)
  define c where "c = calc_icmp_checksum ([0, 0, 0, 0] @ take (n - 4) (data @ [0, 0]))"
  have rr: "(replicate 64 (0 :: u8))[0 := 0, 1 := 0] = replicate 64 0"
    by (simp add: list_eq_iff_nth_eq nth_list_update)
  have "build_echo_reply req our dst = Some (dst @ our @ [0x08, 0x00]
      @ header_bytes (ipv4_new (slice req 30 4) (slice req 26 4) (of_nat n) 1)
      @ take n ((overwrite (replicate 64 0) 4 data)
          [2 := ucast (drop_bit 8 (calc_icmp_checksum (take n (overwrite (replicate 64 0) 4 data)))),
           3 := ucast (calc_icmp_checksum (take n (overwrite (replicate 64 0) 4 data)))]))"
    using assms n(2) rr unfolding build_echo_reply_def Let_def
    by (simp add: n_def [symmetric] d2 low_byte del: replicate.simps)
  also have "\<dots> = Some (dst @ our @ [0x08, 0x00]
      @ header_bytes (ipv4_new (slice req 30 4) (slice req 26 4) (of_nat n) 1)
      @ take n (([0, 0, 0, 0] @ data @ replicate (60 - length data) 0)[2 := ucast (drop_bit 8 c), 3 := ucast c]))"
    unfolding ow head c_def ..
  also have "take n (([0, 0, 0, 0] @ data @ replicate (60 - length data) 0)[2 := ucast (drop_bit 8 c), 3 := ucast c])
      = [0, 0, ucast (drop_bit 8 c), ucast c] @ take (n - 4) (data @ [0, 0])"
    using head [of 0 0 "ucast (drop_bit 8 c)" "ucast c"] by simp
  finally show ?thesis unfolding n(3) n_def [symmetric] data_def [symmetric] by (auto simp: c_def)
qed

lemma echo_checks:
  assumes len: "length body < 1000" and c: "c = calc_icmp_checksum ([0, 0, 0, 0] @ body)"
  shows "checks (be_sum ([0, 0, ucast (drop_bit 8 c), ucast c] @ body))"
proof -
  have bound: "be_sum ([0, 0, 0, 0] @ body) < 2 ^ 32"
    using be_sum_le [of "[0, 0, 0, 0] @ body"] len by simp
  then have "unat (sum_words ([0, 0, 0, 0] @ body) 0) = be_sum ([0, 0, 0, 0] @ body)"
    using sum_words_nat [of 0 "[0, 0, 0, 0] @ body"] by simp
  moreover have "be_sum ([0, 0, ucast (drop_bit 8 c), ucast c] @ body) = be_sum ([0, 0, 0, 0] @ body) + unat c"
    using be_sum_store [of "[0, 0]" c body] by simp
  ultimately show ?thesis using checksum_checks c unfolding calc_icmp_checksum_def by metis
qed

text \<open>
  C29. \<open>build_echo_reply\<close> on every request. A frame shorter than 42 bytes gives no reply; one longer than 98
  bytes (an ICMP message of more than 64) makes the kernel panic. Every other frame gives a reply of the
  same length, sent back to the asker with the two IP addresses exchanged, whose IP header and ICMP
  message both pass the receiver's checksum test. Its type and code are 0, and it carries the identifier, the
  sequence number and the data of the request, except that the 63rd and 64th byte of the message are 0.
\<close>

theorem echo_reply_outcomes:
  assumes "length our = 6" "length dst = 6"
  shows "if length req < 42 then build_echo_reply req our dst = Some []
    else if 98 < length req then build_echo_reply req our dst = None
    else \<exists>reply. build_echo_reply req our dst = Some reply \<and> length reply = length req
      \<and> take 14 reply = dst @ our @ [0x08, 0x00]
      \<and> take 4 (drop 26 reply) = take 4 (drop 30 req) \<and> take 4 (drop 30 reply) = take 4 (drop 26 req)
      \<and> checks (be_sum (take 20 (drop 14 reply))) \<and> checks (be_sum (drop 34 reply))
      \<and> reply ! 34 = 0 \<and> reply ! 35 = 0
      \<and> (\<forall>i. 38 \<le> i \<and> i < length req \<longrightarrow> reply ! i = (if i < 96 then req ! i else 0))"
proof -
  consider "length req < 42" | "98 < length req" | "42 \<le> length req" "length req \<le> 98" by linarith
  then show ?thesis
  proof cases
    case 1
    then show ?thesis by (simp add: build_echo_reply_def)
  next
    case 2
    then show ?thesis by (simp add: build_echo_reply_def Let_def)
  next
    case 3
    define body where "body = take (length req - 38) (slice req 38 (min (length req - 34) 62 - 4) @ [0, 0])"
    from echo_reply_cases [OF 3, of our dst] obtain c where
      run: "build_echo_reply req our dst = Some (dst @ our @ [0x08, 0x00]
        @ header_bytes (ipv4_new (slice req 30 4) (slice req 26 4) (of_nat (length req - 34)) 1)
        @ [0, 0, ucast (drop_bit 8 c), ucast c] @ body)" and c: "c = calc_icmp_checksum ([0, 0, 0, 0] @ body)"
      unfolding body_def by blast
    define ip where "ip = header_bytes (ipv4_new (slice req 30 4) (slice req 26 4) (of_nat (length req - 34)) 1)"
    have ls: "length (slice req 30 4) = 4" "length (slice req 26 4) = 4" using 3 by (simp_all add: slice_def)
    from ipv4_header_accepted [OF ls, of "of_nat (length req - 34)" 1] ipv4_new_checks [OF ls, of "of_nat (length req - 34)" 1]
    have ip: "length ip = 20" "checks (be_sum ip)" "take 4 (drop 12 ip) = slice req 30 4" "drop 16 ip = slice req 26 4"
      by (simp_all add: ip_def Let_def)
    have lb: "length body = length req - 38" using 3 by (auto simp: body_def slice_def)
    have bd: "body ! k = (if k + 38 < 96 then req ! (k + 38) else 0)" if "k < length req - 38" for k
    proof -
      have two: "[0 :: u8, 0] ! k = 0" if "k < 2" for k using that by (cases k) auto
      show ?thesis using that 3 by (auto simp: body_def slice_def nth_append two add.commute)
    qed
    let ?r = "dst @ our @ [0x08, 0x00] @ ip @ [0, 0, ucast (drop_bit 8 c), ucast c] @ body"
    have "checks (be_sum (drop 34 ?r))" using echo_checks [OF _ c] lb 3 assms ip(1) by simp
    moreover have "?r ! i = (if i < 96 then req ! i else 0)" if "38 \<le> i" "i < length req" for i
    proof -
      let ?p = "dst @ our @ [0x08, 0x00] @ ip @ [0, 0, ucast (drop_bit 8 c), ucast c]"
      have "length ?p = 38" using assms ip(1) by simp
      then have "(?p @ body) ! i = body ! (i - 38)" using that(1) by (simp only: nth_append) simp
      moreover have "?p @ body = ?r" by simp
      ultimately have "?r ! i = body ! (i - 38)" by metis
      with bd [of "i - 38"] that 3 show ?thesis by simp
    qed
    moreover have "take 4 (drop 26 ?r) = take 4 (drop 30 req)" "take 4 (drop 30 ?r) = take 4 (drop 26 req)"
      using assms ip 3 by (simp_all add: slice_def)
    moreover have "build_echo_reply req our dst = Some ?r" using run unfolding ip_def .
    moreover have "length ?r = length req" using assms ip(1) lb 3 by simp
    moreover have "take 14 ?r = dst @ our @ [0x08, 0x00]" "take 20 (drop 14 ?r) = ip" "?r ! 34 = 0" "?r ! 35 = 0"
      using assms ip(1) by (simp_all add: nth_append)
    ultimately have "\<exists>reply. build_echo_reply req our dst = Some reply \<and> length reply = length req
      \<and> take 14 reply = dst @ our @ [0x08, 0x00]
      \<and> take 4 (drop 26 reply) = take 4 (drop 30 req) \<and> take 4 (drop 30 reply) = take 4 (drop 26 req)
      \<and> checks (be_sum (take 20 (drop 14 reply))) \<and> checks (be_sum (drop 34 reply))
      \<and> reply ! 34 = 0 \<and> reply ! 35 = 0
      \<and> (\<forall>i. 38 \<le> i \<and> i < length req \<longrightarrow> reply ! i = (if i < 96 then req ! i else 0))"
      using ip(2) by (intro exI [of _ ?r] conjI) (simp_all only:, blast)
    with 3 show ?thesis by auto
  qed
qed

theorem echo_reply_outcomes_witness:
  "\<exists>reply. build_echo_reply (replicate 98 7) (replicate 6 1) (replicate 6 2) = Some reply \<and> reply ! 95 = 7 \<and> reply ! 96 = 0"
proof -
  define r :: "u8 list" where "r = replicate 98 7"
  have r: "length r = 98" "r ! 95 = 7" by (simp_all add: r_def del: replicate.simps)
  have l: "length (replicate 6 x) = 6" for x :: u8 by simp
  from echo_reply_outcomes [OF l l, of r 1 2] r(1) obtain reply where
    "build_echo_reply r (replicate 6 1) (replicate 6 2) = Some reply"
    "\<And>i. 38 \<le> i \<Longrightarrow> i < 98 \<Longrightarrow> reply ! i = (if i < 96 then r ! i else 0)" by auto
  from this(1) this(2) [of 95] this(2) [of 96] r show ?thesis by (simp add: r_def [symmetric] del: replicate.simps)
qed

end
