(* ===== verification/Net_Udp.thy ===== *)
theory Net_Udp imports Net_Icmp begin

text \<open>
  UDP packets, \<open>kernel/src/net/udp.rs\<close>. The header's fields are swapped by \<open>to_be\<close> and written with
  \<open>to_be_bytes\<close>, which undoes the swap of a little-endian processor: the model keeps both steps.
\<close>

record udp_header =
  src_port :: u16
  dst_port :: u16
  udp_length :: u16
  udp_checksum :: u16

definition udp_new :: "u16 \<Rightarrow> u16 \<Rightarrow> nat \<Rightarrow> udp_header" where
  "udp_new sport dport data_len =
     \<lparr>src_port = to_be sport, dst_port = to_be dport, udp_length = to_be (8 + of_nat data_len), udp_checksum = 0\<rparr>"

text \<open>\<open>u16::to_be_bytes\<close>: the high byte first.\<close>

definition be16 :: "u16 \<Rightarrow> u8 list" where
  "be16 x = [ucast (drop_bit 8 x), ucast x]"

definition calc_udp_checksum :: "u8 list \<Rightarrow> u8 list \<Rightarrow> u8 \<Rightarrow> u8 list \<Rightarrow> u16" where
  "calc_udp_checksum src dst proto udp_data =
     (let udp_len = of_nat (length udp_data) :: u16;
          acc = 0 :: u32;
          acc = acc + ucast (push_bit 8 (ucast (src ! 0)) OR ucast (src ! 1) :: u16);
          acc = acc + ucast (push_bit 8 (ucast (src ! 2)) OR ucast (src ! 3) :: u16);
          acc = acc + ucast (push_bit 8 (ucast (dst ! 0)) OR ucast (dst ! 1) :: u16);
          acc = acc + ucast (push_bit 8 (ucast (dst ! 2)) OR ucast (dst ! 3) :: u16);
          acc = acc + ucast proto;
          acc = acc + ucast udp_len;
          acc = sum_words udp_data acc;
          acc = fold_carry acc
      in if acc = 0xFFFF then 0xFFFF else NOT (ucast acc))"

definition build_udp_packet :: "u8 list \<Rightarrow> u8 list \<Rightarrow> u8 list \<Rightarrow> u8 list \<Rightarrow> u16 \<Rightarrow> u16 \<Rightarrow> u8 list \<Rightarrow> u8 list" where
  "build_udp_packet src_mac dst_mac src dst sport dport data =
     (let udp = udp_new sport dport (length data);
          udp_buf = be16 (src_port udp) @ be16 (dst_port udp) @ be16 (udp_length udp) @ [0, 0] @ data;
          checksum = calc_udp_checksum src dst 17 udp_buf;
          udp_buf = udp_buf[6 := ucast (drop_bit 8 checksum), 7 := ucast (checksum AND 0xFF)];
          ip = ipv4_new src dst (of_nat (length udp_buf)) 17
      in dst_mac @ src_mac @ [0x08, 0x00] @ header_bytes ip @ udp_buf)"

section \<open>The pseudo header\<close>

definition pseudo_sum :: "u8 list \<Rightarrow> u8 list \<Rightarrow> nat \<Rightarrow> nat" where
  "pseudo_sum src dst len = be_sum src + be_sum dst + 17 + len"

lemma four: "length xs = 4 \<Longrightarrow> xs = [xs ! 0, xs ! 1, xs ! 2, xs ! 3]"
  by (rule nth_equalityI) (auto simp: less_Suc_eq numeral_eq_Suc)

lemma be_sum_four:
  assumes "length xs = 4"
  shows "be_sum xs = unat (push_bit 8 (ucast (xs ! 0)) OR ucast (xs ! 1) :: u16)
     + unat (push_bit 8 (ucast (xs ! 2)) OR ucast (xs ! 3) :: u16)"
proof -
  have "be_sum [xs ! 0, xs ! 1, xs ! 2, xs ! 3] = 256 * unat (xs ! 0) + unat (xs ! 1) + (256 * unat (xs ! 2) + unat (xs ! 3))"
    by simp
  with four [OF assms] show ?thesis by (simp only: join_be)
qed

lemma unat_add_bound: "unat (x :: u32) + unat y < 2 ^ 32 \<Longrightarrow> unat (x + y) = unat x + unat y"
  by (simp add: unat_word_ariths)

text \<open>The value that is complemented, and the checksum that closes it.\<close>

lemma calc_udp_checksum_eq:
  assumes "length src = 4" "length dst = 4" "length data < 2 ^ 16"
  obtains acc where "unat acc = pseudo_sum src dst (length data) + be_sum data"
    "calc_udp_checksum src dst 17 data = (if fold_carry acc = 0xFFFF then 0xFFFF else NOT (ucast (fold_carry acc)))"
proof -
  define w where "w xs i = (push_bit 8 (ucast (xs ! i)) OR ucast (xs ! (i + 1)) :: u16)" for xs :: "u8 list" and i
  have w: "unat (ucast (w xs i) :: u32) \<le> 65535" for xs i
    using unat_u8_le [of "xs ! i"] unat_u8_le [of "xs ! (i + 1)"] by (simp add: unat_ucast16_u32 w_def join_be)
  define a4 where "a4 = ucast (w src 0) + ucast (w src 2) + ucast (w dst 0) + (ucast (w dst 2) :: u32)"
  have "unat a4 = unat (ucast (w src 0) :: u32) + unat (ucast (w src 2) :: u32) + unat (ucast (w dst 0) :: u32) + unat (ucast (w dst 2) :: u32)"
    using w [of src 0] w [of src 2] w [of dst 0] w [of dst 2] by (simp add: a4_def unat_add_bound)
  then have a4: "unat a4 = be_sum src + be_sum dst"
    using be_sum_four [OF assms(1)] be_sum_four [OF assms(2)] by (simp add: unat_ucast16_u32 w_def)
  have "be_sum src \<le> 131070" "be_sum dst \<le> 131070" using be_sum_le [of src] be_sum_le [of dst] assms by simp_all
  moreover have l: "unat (ucast (of_nat (length data) :: u16) :: u32) = length data"
    using assms(3) by (simp add: unat_ucast16_u32 unat_of_nat take_bit_nat_eq_self)
  ultimately have a6: "unat (a4 + 17 + ucast (of_nat (length data) :: u16)) = pseudo_sum src dst (length data)"
    using a4 assms(3) by (simp add: unat_add_bound pseudo_sum_def)
  have "pseudo_sum src dst (length data) + be_sum data < 2 ^ 32"
    using be_sum_le [of data] assms(3) \<open>be_sum src \<le> 131070\<close> \<open>be_sum dst \<le> 131070\<close> by (simp add: pseudo_sum_def)
  then have "unat (sum_words data (a4 + 17 + ucast (of_nat (length data) :: u16))) = pseudo_sum src dst (length data) + be_sum data"
    using sum_words_nat [of "a4 + 17 + ucast (of_nat (length data) :: u16)" data] a6 by simp
  moreover have "(ucast (17 :: u8) :: u32) = 17" by simp
  ultimately show thesis
    by (intro that [of "sum_words data (a4 + 17 + ucast (of_nat (length data) :: u16))"])
      (simp_all add: calc_udp_checksum_def Let_def a4_def w_def)
qed

lemma all_ones_closes: "fold_carry acc = 0xFFFF \<Longrightarrow> unat acc = s \<Longrightarrow> checks (s + 65535)"
  using fold_carry_spec [of acc] by (simp add: checks_def)

section \<open>Property\<close>

lemma udp_buf_eq:
  assumes "length data \<le> 65507"
  shows "\<exists>c. build_udp_packet src_mac dst_mac src dst sport dport data = dst_mac @ src_mac @ [0x08, 0x00]
     @ header_bytes (ipv4_new src dst (of_nat (8 + length data)) 17)
     @ [ucast sport, ucast (drop_bit 8 sport), ucast dport, ucast (drop_bit 8 dport),
        ucast (of_nat (8 + length data) :: u16), ucast (drop_bit 8 (of_nat (8 + length data) :: u16)),
        ucast (drop_bit 8 c), ucast c] @ data
   \<and> c = calc_udp_checksum src dst 17 ([ucast sport, ucast (drop_bit 8 sport), ucast dport, ucast (drop_bit 8 dport),
        ucast (of_nat (8 + length data) :: u16), ucast (drop_bit 8 (of_nat (8 + length data) :: u16)), 0, 0] @ data)"
proof -
  have sw: "be16 (to_be x) = [ucast x, ucast (drop_bit 8 x)]" for x
  proof -
    have "ucast (to_be x) = (ucast (drop_bit 8 x) :: u8)" "ucast (drop_bit 8 (to_be x)) = (ucast x :: u8)"
      by (rule bit_word_eqI; auto simp: to_be_def bit_simps dest: bit_imp_le_length)+
    then show ?thesis by (simp add: be16_def)
  qed
  show ?thesis
    by (simp add: build_udp_packet_def udp_new_def sw low_byte Let_def numeral_eq_Suc)
qed

text \<open>
  C37. A UDP packet built by \<open>build_udp_packet\<close> (payload up to the 65507 bytes IPv4 allows) is consistent but
  has its header fields in the wrong byte order. It is the Ethernet header, an IP header that passes the
  receiver's test, and a UDP part whose checksum, with the pseudo header, passes too and whose payload is the data; the
  two ports and the length stand in it with the low byte first, where RFC 768 has the high byte first.
\<close>

theorem udp_packet_fields:
  assumes "length src_mac = 6" "length dst_mac = 6" "length src = 4" "length dst = 4" "length data \<le> 65507"
  shows "let pkt = build_udp_packet src_mac dst_mac src dst sport dport data; udp = drop 34 pkt in
    length pkt = 42 + length data \<and> take 14 pkt = dst_mac @ src_mac @ [0x08, 0x00]
    \<and> checks (be_sum (take 20 (drop 14 pkt))) \<and> checks (pseudo_sum src dst (length udp) + be_sum udp) \<and> drop 8 udp = data
    \<and> unat (udp ! 0) + 256 * unat (udp ! 1) = unat sport \<and> unat (udp ! 2) + 256 * unat (udp ! 3) = unat dport
    \<and> unat (udp ! 4) + 256 * unat (udp ! 5) = 8 + length data"
proof -
  let ?n = "of_nat (8 + length data) :: u16"
  define hd where "hd = [ucast sport, ucast (drop_bit 8 sport), ucast dport, ucast (drop_bit 8 dport), ucast ?n, ucast (drop_bit 8 ?n) :: u8]"
  define ip where "ip = header_bytes (ipv4_new src dst ?n 17)"
  from udp_buf_eq [OF assms(5), of src_mac dst_mac src dst sport dport] obtain c where
    pkt: "build_udp_packet src_mac dst_mac src dst sport dport data = dst_mac @ src_mac @ [0x08, 0x00] @ ip
        @ (hd @ ucast (drop_bit 8 c) # ucast c # data)"
    and c: "c = calc_udp_checksum src dst 17 (hd @ 0 # 0 # data)"
    unfolding ip_def hd_def by auto
  have ip: "length ip = 20" "checks (be_sum ip)"
    using assms(3,4) unfolding ip_def by (simp add: ipv4_new_def Let_def) (rule ipv4_new_checks [OF assms(3,4)])
  have ev: "even (length hd)" and lh: "length hd = 6" by (simp_all add: hd_def)
  have len: "length (hd @ 0 # 0 # data) < 2 ^ 16" using assms(5) lh by simp
  obtain acc where acc: "unat acc = pseudo_sum src dst (length (hd @ 0 # 0 # data)) + be_sum (hd @ 0 # 0 # data)"
    and ck: "c = (if fold_carry acc = 0xFFFF then 0xFFFF else NOT (ucast (fold_carry acc)))"
    using calc_udp_checksum_eq [OF assms(3,4) len] c by metis
  have "be_sum (hd @ ucast (drop_bit 8 c) # ucast c # data) = be_sum (hd @ 0 # 0 # data) + unat c"
    by (rule be_sum_store [OF ev])
  moreover have "checks (unat acc + unat c)"
  proof (cases "fold_carry acc = 0xFFFF")
    case True
    then have "unat c = 65535" by (simp add: ck)
    then show ?thesis using all_ones_closes [OF True refl] by simp
  next
    case False
    then show ?thesis using checksum_checks [OF refl, of c acc] by (simp add: ck)
  qed
  ultimately have ok: "checks (pseudo_sum src dst (length (hd @ ucast (drop_bit 8 c) # ucast c # data))
      + be_sum (hd @ ucast (drop_bit 8 c) # ucast c # data))"
    using acc by (simp add: add.assoc)
  have n: "unat ?n = 8 + length data" using assms(5) by (simp add: unat_of_nat take_bit_nat_eq_self del: of_nat_add)
  have bys: "unat (ucast x :: u8) + 256 * unat (ucast (drop_bit 8 x) :: u8) = unat x" for x :: u16
    using le16_sum [of x] by (simp add: le16_def)
  have udp: "drop 34 (build_udp_packet src_mac dst_mac src dst sport dport data) = hd @ ucast (drop_bit 8 c) # ucast c # data"
    using assms(1,2) ip(1) by (simp add: pkt)
  have "take 14 (build_udp_packet src_mac dst_mac src dst sport dport data) = dst_mac @ src_mac @ [0x08, 0x00]"
    "take 20 (drop 14 (build_udp_packet src_mac dst_mac src dst sport dport data)) = ip"
    "length (build_udp_packet src_mac dst_mac src dst sport dport data) = 42 + length data"
    using assms(1,2) ip(1) lh by (simp_all add: pkt)
  with ok ip(2) lh bys [of sport] bys [of dport] bys [of ?n] n show ?thesis
    unfolding Let_def udp by (simp add: hd_def del: of_nat_add)
qed

theorem udp_packet_fields_witness:
  "drop 42 (build_udp_packet (replicate 6 1) (replicate 6 2) [10, 0, 2, 15] [10, 0, 2, 2] 53 1234 [1, 2, 3]) = [1, 2, 3]"
proof -
  have "drop 8 (drop 34 (build_udp_packet (replicate 6 1) (replicate 6 2) [10, 0, 2, 15] [10, 0, 2, 2] 53 1234 [1, 2, 3])) = [1, 2, 3]"
    using udp_packet_fields [of "replicate 6 1" "replicate 6 2" "[10, 0, 2, 15]" "[10, 0, 2, 2]" "[1, 2, 3]" 53 1234]
    by (simp add: Let_def)
  then show ?thesis by simp
qed

end
