(* ===== verification/Key_Buffer.thy ===== *)
theory Key_Buffer imports Prelude begin

text \<open>
  The keyboard's scan code buffer, \<open>kernel/src/interrupts.rs\<close>: a ring of 16 slots that the keyboard
  interrupt fills and \<open>get_key_from_buffer\<close> empties. A bounded queue is an interface
  (\<open>bounded_queue\<close>) with the laws a client relies on; the ring implements it. The handler may interrupt
  the reader between any two of its statements: the last section runs the reader statement by
  statement against interrupts at any point.
\<close>

section \<open>Bounded queues\<close>

datatype 'a queue_op = Put 'a | Get

locale bounded_queue =
  fixes put :: "'a \<Rightarrow> 's \<Rightarrow> 's"
    and take_one :: "'s \<Rightarrow> 'a option \<times> 's"
    and contents :: "'s \<Rightarrow> 'a list"
    and inv :: "'s \<Rightarrow> bool"
    and cap :: nat
  assumes put_inv: "inv s \<Longrightarrow> inv (put x s)"
    and put_contents: "inv s \<Longrightarrow> contents (put x s) =
          (if length (contents s) < cap then contents s @ [x] else contents s)"
    and take_inv: "inv s \<Longrightarrow> inv (snd (take_one s))"
    and take_fst: "inv s \<Longrightarrow> fst (take_one s) = (case contents s of [] \<Rightarrow> None | x # _ \<Rightarrow> Some x)"
    and take_contents: "inv s \<Longrightarrow> contents (snd (take_one s)) = tl (contents s)"
begin

fun run :: "'a queue_op list \<Rightarrow> 's \<Rightarrow> 'a list \<times> 's" where
  "run [] s = ([], s)"
| "run (Put x # ops) s = run ops (put x s)"
| "run (Get # ops) s = (case take_one s of
       (None, s') \<Rightarrow> run ops s'
     | (Some x, s') \<Rightarrow> (case run ops s' of (out, t) \<Rightarrow> (x # out, t)))"

text \<open>The values a run accepts: those offered while the queue is not full.\<close>

fun accepted :: "'a queue_op list \<Rightarrow> 's \<Rightarrow> 'a list" where
  "accepted [] s = []"
| "accepted (Put x # ops) s =
     (if length (contents s) < cap then x # accepted ops (put x s) else accepted ops (put x s))"
| "accepted (Get # ops) s = accepted ops (snd (take_one s))"

lemma take_cases:
  assumes "inv s"
  obtains "contents s = []" "take_one s = (None, snd (take_one s))" "contents (snd (take_one s)) = []"
  | x xs where "contents s = x # xs" "take_one s = (Some x, snd (take_one s))" "contents (snd (take_one s)) = xs"
  using take_fst [OF assms] take_contents [OF assms]
  by (cases "contents s"; cases "take_one s") auto

lemma run_inv: "inv s \<Longrightarrow> inv (snd (run ops s))"
proof (induction ops s rule: run.induct)
  case (3 ops s)
  from 3 take_inv [of s] show ?case by (auto split: prod.splits option.splits)
qed (auto simp: put_inv)

text \<open>First in, first out: what was there, then what was accepted, is what came out, then what remains.\<close>

theorem fifo: "inv s \<Longrightarrow> contents s @ accepted ops s = fst (run ops s) @ contents (snd (run ops s))"
proof (induction ops s rule: run.induct)
  case (1 s)
  then show ?case by simp
next
  case (2 x ops s)
  then show ?case by (simp add: put_inv put_contents split: if_splits)
next
  case (3 ops s)
  from 3(3) show ?case
  proof (cases rule: take_cases)
    case 1
    obtain s' where s': "take_one s = (None, s')" using 1(2) by simp
    with 1 3(1) [OF s' [symmetric] refl] take_inv [OF 3(3)] show ?thesis by simp
  next
    case (2 x xs)
    obtain s' where s': "take_one s = (Some x, s')" using 2(2) by simp
    with 2 3(2) [OF s' [symmetric] refl] take_inv [OF 3(3)] show ?thesis by (auto split: prod.splits)
  qed
qed

end

section \<open>The ring\<close>

record key_ring =
  KEY_BUFFER :: "u8 list"
  KEY_BUF_HEAD :: nat
  KEY_BUF_TAIL :: nat

definition initial_ring :: key_ring where
  "initial_ring = \<lparr>KEY_BUFFER = replicate 16 0, KEY_BUF_HEAD = 0, KEY_BUF_TAIL = 0\<rparr>"

text \<open>The buffer part of \<open>keyboard_handler\<close>: a code that finds the ring full is dropped.\<close>

definition push_key :: "u8 \<Rightarrow> key_ring \<Rightarrow> key_ring" where
  "push_key sc r =
     (let nxt = (KEY_BUF_HEAD r + 1) mod 16 in
      if nxt \<noteq> KEY_BUF_TAIL r
      then r\<lparr>KEY_BUFFER := (KEY_BUFFER r)[KEY_BUF_HEAD r := sc], KEY_BUF_HEAD := nxt\<rparr>
      else r)"

definition get_key_from_buffer :: "key_ring \<Rightarrow> u8 option \<times> key_ring" where
  "get_key_from_buffer r =
     (if KEY_BUF_HEAD r \<noteq> KEY_BUF_TAIL r
      then let sc = KEY_BUFFER r ! KEY_BUF_TAIL r
           in (Some sc, r\<lparr>KEY_BUF_TAIL := (KEY_BUF_TAIL r + 1) mod 16\<rparr>)
      else (None, r))"

definition ring_ok :: "key_ring \<Rightarrow> bool" where
  "ring_ok r \<longleftrightarrow> length (KEY_BUFFER r) = 16 \<and> KEY_BUF_HEAD r < 16 \<and> KEY_BUF_TAIL r < 16"

definition ring_count :: "key_ring \<Rightarrow> nat" where
  "ring_count r = (KEY_BUF_HEAD r + 16 - KEY_BUF_TAIL r) mod 16"

definition ring_keys :: "key_ring \<Rightarrow> u8 list" where
  "ring_keys r = map (\<lambda>i. KEY_BUFFER r ! ((KEY_BUF_TAIL r + i) mod 16)) [0..<ring_count r]"

lemma length_ring_keys [simp]: "length (ring_keys r) = ring_count r"
  by (simp add: ring_keys_def)

lemma ring_count_less: "ring_count r < 16"
  by (simp add: ring_count_def)

lemma mod_16: "(n :: nat) < 32 \<Longrightarrow> n mod 16 = (if n < 16 then n else n - 16)"
  by (simp add: mod_if)

lemma ring_count_eq: "ring_ok r \<Longrightarrow> ring_count r =
    (if KEY_BUF_TAIL r \<le> KEY_BUF_HEAD r then KEY_BUF_HEAD r - KEY_BUF_TAIL r else KEY_BUF_HEAD r + 16 - KEY_BUF_TAIL r)"
  by (auto simp: ring_count_def ring_ok_def mod_16)

lemma ring_slot: "ring_ok r \<Longrightarrow> i < ring_count r \<Longrightarrow> (KEY_BUF_TAIL r + i) mod 16 \<noteq> KEY_BUF_HEAD r"
  by (subst mod_16) (auto simp: ring_count_eq ring_ok_def split: if_splits)

lemma ring_count_0: "ring_ok r \<Longrightarrow> ring_count r = 0 \<longleftrightarrow> KEY_BUF_HEAD r = KEY_BUF_TAIL r"
  by (auto simp: ring_count_eq ring_ok_def)

lemma ring_full: "ring_ok r \<Longrightarrow> (KEY_BUF_HEAD r + 1) mod 16 = KEY_BUF_TAIL r \<longleftrightarrow> ring_count r = 15"
  by (subst mod_16) (auto simp: ring_count_eq ring_ok_def)

lemma ring_tail_count: "ring_ok r \<Longrightarrow> (KEY_BUF_TAIL r + ring_count r) mod 16 = KEY_BUF_HEAD r"
  by (subst mod_16) (auto simp: ring_count_eq ring_ok_def)

lemma push_key_inv: "ring_ok r \<Longrightarrow> ring_ok (push_key sc r)"
  by (simp add: push_key_def ring_ok_def Let_def)

lemma push_key_keys:
  assumes ok: "ring_ok r"
  shows "ring_keys (push_key sc r) = (if ring_count r < 15 then ring_keys r @ [sc] else ring_keys r)"
proof (cases "ring_count r < 15")
  case False
  with ring_count_less [of r] have "ring_count r = 15" by simp
  with ring_full [OF ok] False show ?thesis by (simp add: push_key_def)
next
  case True
  then have free: "(KEY_BUF_HEAD r + 1) mod 16 \<noteq> KEY_BUF_TAIL r" using ring_full [OF ok] by simp
  have cnt: "ring_count (push_key sc r) = Suc (ring_count r)"
    using free ok ring_count_eq [OF ok] ring_count_eq [OF push_key_inv [OF ok], of sc] mod_16 [of "KEY_BUF_HEAD r + 1"]
    by (simp add: push_key_def ring_ok_def Let_def split: if_splits)
  have slot: "(KEY_BUF_TAIL r + i) mod 16 \<noteq> KEY_BUF_HEAD r" if "i < ring_count r" for i
    using ok that by (rule ring_slot)
  have "KEY_BUFFER (push_key sc r) = (KEY_BUFFER r)[KEY_BUF_HEAD r := sc]" "KEY_BUF_TAIL (push_key sc r) = KEY_BUF_TAIL r"
    using free by (simp_all add: push_key_def Let_def)
  with ok slot show ?thesis
    using True unfolding ring_keys_def cnt by (simp add: ring_tail_count nth_list_update slot [symmetric] ring_ok_def)
qed

lemma get_key_inv: "ring_ok r \<Longrightarrow> ring_ok (snd (get_key_from_buffer r))"
  by (simp add: get_key_from_buffer_def ring_ok_def Let_def)

lemma ring_keys_Cons:
  assumes ok: "ring_ok r" and ne: "KEY_BUF_HEAD r \<noteq> KEY_BUF_TAIL r"
  shows "ring_keys r = KEY_BUFFER r ! KEY_BUF_TAIL r # ring_keys (r\<lparr>KEY_BUF_TAIL := (KEY_BUF_TAIL r + 1) mod 16\<rparr>)"
proof -
  let ?r = "r\<lparr>KEY_BUF_TAIL := (KEY_BUF_TAIL r + 1) mod 16\<rparr>"
  have "ring_ok ?r" using ok by (simp add: ring_ok_def)
  then have cnt: "ring_count r = Suc (ring_count ?r)"
    using ok ne ring_count_eq [OF ok] ring_count_eq [of ?r] mod_16 [of "KEY_BUF_TAIL r + 1"]
    by (simp add: ring_ok_def split: if_splits)
  have t: "KEY_BUF_TAIL r mod 16 = KEY_BUF_TAIL r" using ok by (simp add: ring_ok_def)
  have "ring_keys r = map (\<lambda>i. KEY_BUFFER r ! ((KEY_BUF_TAIL r + i) mod 16)) (0 # map Suc [0..<ring_count ?r])"
    unfolding ring_keys_def cnt by (simp only: upt_conv_Cons [OF zero_less_Suc] map_Suc_upt)
  also have "\<dots> = KEY_BUFFER r ! KEY_BUF_TAIL r # ring_keys ?r"
    by (simp add: ring_keys_def t mod_simps)
  finally show ?thesis .
qed

interpretation keys: bounded_queue push_key get_key_from_buffer ring_keys ring_ok 15
proof unfold_locales
  fix r :: key_ring and sc
  assume ok: "ring_ok r"
  show "ring_ok (push_key sc r)" using ok by (rule push_key_inv)
  show "ring_keys (push_key sc r) = (if length (ring_keys r) < 15 then ring_keys r @ [sc] else ring_keys r)"
    using push_key_keys [OF ok] by simp
  show "ring_ok (snd (get_key_from_buffer r))" using ok by (rule get_key_inv)
  show "fst (get_key_from_buffer r) = (case ring_keys r of [] \<Rightarrow> None | x # _ \<Rightarrow> Some x)"
    using ring_count_0 [OF ok] ring_keys_Cons [OF ok]
    by (cases "KEY_BUF_HEAD r = KEY_BUF_TAIL r") (auto simp: get_key_from_buffer_def ring_keys_def)
  show "ring_keys (snd (get_key_from_buffer r)) = tl (ring_keys r)"
    using ring_count_0 [OF ok] ring_keys_Cons [OF ok]
    by (cases "KEY_BUF_HEAD r = KEY_BUF_TAIL r") (auto simp: get_key_from_buffer_def ring_keys_def)
qed

section \<open>Interrupts in the middle of a read\<close>

text \<open>
  The reader's program counter: outside, after its test \<open>HEAD != TAIL\<close> succeeded, after it read the slot.
  A state is the ring, the program counter, the codes the ring accepted and the codes the reader
  returned, both in order.
\<close>

datatype reader = Outside | Tested | Loaded u8

type_synonym ring_state = "key_ring \<times> reader \<times> u8 list \<times> u8 list"

inductive ring_step :: "ring_state \<Rightarrow> ring_state \<Rightarrow> bool" where
  interrupt: "ring_step (r, pc, acc, out)
     (push_key sc r, pc, (if push_key sc r = r then acc else acc @ [sc]), out)"
| test_ok: "KEY_BUF_HEAD r \<noteq> KEY_BUF_TAIL r \<Longrightarrow> ring_step (r, Outside, acc, out) (r, Tested, acc, out)"
| test_empty: "KEY_BUF_HEAD r = KEY_BUF_TAIL r \<Longrightarrow> ring_step (r, Outside, acc, out) (r, Outside, acc, out)"
| load: "ring_step (r, Tested, acc, out) (r, Loaded (KEY_BUFFER r ! KEY_BUF_TAIL r), acc, out)"
| advance: "ring_step (r, Loaded sc, acc, out)
     (r\<lparr>KEY_BUF_TAIL := (KEY_BUF_TAIL r + 1) mod 16\<rparr>, Outside, acc, out @ [sc])"

inductive ring_reachable :: "ring_state \<Rightarrow> bool" where
  init: "ring_reachable (initial_ring, Outside, [], [])"
| step: "ring_reachable s \<Longrightarrow> ring_step s s' \<Longrightarrow> ring_reachable s'"

definition ring_inv :: "ring_state \<Rightarrow> bool" where
  "ring_inv s \<longleftrightarrow> (case s of (r, pc, acc, out) \<Rightarrow> ring_ok r \<and> acc = out @ ring_keys r
     \<and> (case pc of Outside \<Rightarrow> True | Tested \<Rightarrow> ring_keys r \<noteq> [] | Loaded sc \<Rightarrow> \<exists>xs. ring_keys r = sc # xs))"

lemma push_key_same: "ring_ok r \<Longrightarrow> push_key sc r = r \<longleftrightarrow> ring_count r = 15"
proof -
  assume ok: "ring_ok r"
  have "ring_keys (push_key sc r) \<noteq> ring_keys r" if "ring_count r < 15"
    using push_key_keys [OF ok, of sc] that by simp
  moreover have "push_key sc r = r" if "ring_count r = 15"
    using ring_full [OF ok] that by (simp add: push_key_def)
  moreover have "ring_count r < 15 \<or> ring_count r = 15" using ring_count_less [of r] by linarith
  ultimately show ?thesis by (metis less_irrefl)
qed

lemma ring_step_inv: "ring_step s s' \<Longrightarrow> ring_inv s \<Longrightarrow> ring_inv s'"
proof (induction rule: ring_step.induct)
  case (interrupt r pc acc out sc)
  then have ok: "ring_ok r" by (simp add: ring_inv_def)
  show ?case
  proof (cases "ring_count r = 15")
    case True
    with interrupt push_key_same [OF ok] show ?thesis by simp
  next
    case False
    with ring_count_less [of r] push_key_keys [OF ok] push_key_same [OF ok] interrupt push_key_inv [OF ok]
    show ?thesis by (auto simp: ring_inv_def split: reader.splits)
  qed
next
  case (test_ok r acc out)
  then show ?case using ring_keys_Cons by (auto simp: ring_inv_def)
next
  case (load r acc out)
  then have "KEY_BUF_HEAD r \<noteq> KEY_BUF_TAIL r" using ring_count_0 [of r] by (auto simp: ring_inv_def ring_keys_def)
  with load ring_keys_Cons [of r] show ?case by (auto simp: ring_inv_def)
next
  case (advance r sc acc out)
  then have ok: "ring_ok r" and ne: "KEY_BUF_HEAD r \<noteq> KEY_BUF_TAIL r"
    using ring_count_0 [of r] by (auto simp: ring_inv_def ring_keys_def)
  have "ring_ok (r\<lparr>KEY_BUF_TAIL := (KEY_BUF_TAIL r + 1) mod 16\<rparr>)" using ok by (simp add: ring_ok_def)
  with advance ring_keys_Cons [OF ok ne] show ?case by (auto simp: ring_inv_def)
qed simp

lemma ring_reachable_inv: "ring_reachable s \<Longrightarrow> ring_inv s"
proof (induction rule: ring_reachable.induct)
  case init
  show ?case by (simp add: ring_inv_def ring_ok_def initial_ring_def ring_keys_def ring_count_def)
qed (blast intro: ring_step_inv)

section \<open>Properties\<close>

text \<open>
  C21. No scan code is lost, repeated or reordered once the ring accepted it. With the keyboard
  interrupt arriving between any two statements of the reader, in every reachable state the codes the
  reader returned so far, followed by those the ring holds, are exactly the accepted codes in order;
  the ring never holds more than 15.
\<close>

theorem key_ring_fifo:
  assumes "ring_reachable (r, pc, acc, out)"
  shows "acc = out @ ring_keys r \<and> length (ring_keys r) \<le> 15 \<and> ring_ok r"
  using ring_reachable_inv [OF assms] ring_count_less [of r] by (auto simp: ring_inv_def)

text \<open>The handler runs between the reader's load and its advance.\<close>

theorem key_ring_fifo_witness:
  "[0x1E, 0x30] = [0x1E] @ ring_keys (snd (get_key_from_buffer (push_key 0x30 (push_key 0x1E initial_ring))))"
proof -
  let ?r1 = "push_key 0x1E initial_ring" and ?r2 = "push_key 0x30 (push_key 0x1E initial_ring)"
  note ev = push_key_def initial_ring_def Let_def
  have s1: "ring_step (initial_ring, Outside, [], []) (?r1, Outside, [0x1E], [])"
    using ring_step.interrupt [of initial_ring Outside "[]" "[]" "0x1E"] by (simp add: ev)
  have s2: "ring_step (?r1, Outside, [0x1E], []) (?r1, Tested, [0x1E], [])"
    by (rule ring_step.test_ok) (simp add: ev)
  have s3: "ring_step (?r1, Tested, [0x1E], []) (?r1, Loaded 0x1E, [0x1E], [])"
    using ring_step.load [of ?r1 "[0x1E]" "[]"] by (simp add: ev)
  have s4: "ring_step (?r1, Loaded 0x1E, [0x1E], []) (?r2, Loaded 0x1E, [0x1E, 0x30], [])"
    using ring_step.interrupt [of ?r1 "Loaded 0x1E" "[0x1E]" "[]" "0x30"] by (simp add: ev)
  have s5: "ring_step (?r2, Loaded 0x1E, [0x1E, 0x30], [])
      (snd (get_key_from_buffer ?r2), Outside, [0x1E, 0x30], [0x1E])"
    using ring_step.advance [of ?r2 "0x1E" "[0x1E, 0x30]" "[]"] by (simp add: ev get_key_from_buffer_def)
  have "ring_reachable (snd (get_key_from_buffer ?r2), Outside, [0x1E, 0x30], [0x1E])"
    by (rule ring_reachable.intros s1 s2 s3 s4 s5)+
  from conjunct1 [OF key_ring_fifo [OF this]] show ?thesis .
qed

end
