(* ===== verification/Tsc_Timer.thy ===== *)
theory Tsc_Timer imports Machine begin

text \<open>
  The time stamp counter and its calibration against the interval timer, \<open>kernel/src/boot/timer.rs\<close>.
  The counter is read from the bus; what the kernel relies on is stated as \<open>tsc_runs\<close>: there is
  a clock that every read returns and advances, and that never jumps by more than \<open>R\<close> ticks at
  once. Loops that wait for the hardware are \<open>partial_function (option)\<close>, \<open>None\<close> when they wait for ever.
\<close>

record tsc_timer =
  frequency :: u64

text \<open>\<open>rdtsc\<close> leaves the two halves in \<open>edx\<close> and \<open>eax\<close>.\<close>

definition read_tsc :: "'d bus \<Rightarrow> 'd machine \<Rightarrow> u64 \<times> 'd machine" where
  "read_tsc bus m =
     (case rdtsc bus (dev m) of (t, d) \<Rightarrow>
        let low = ucast t :: u32; high = ucast (drop_bit 32 t) :: u32
        in (push_bit 32 (ucast high) OR ucast low, m\<lparr>dev := d\<rparr>))"

definition now :: "'d bus \<Rightarrow> tsc_timer \<Rightarrow> 'd machine \<Rightarrow> u64 \<times> 'd machine" where
  "now bus self m = read_tsc bus m"

lemma read_tsc_eq: "read_tsc bus m = (case rdtsc bus (dev m) of (t, d) \<Rightarrow> (t, m\<lparr>dev := d\<rparr>))"
  by (auto simp: read_tsc_def split64 or.commute Let_def split: prod.split)

section \<open>Calibration\<close>

text \<open>The current count of the interval timer's channel 2, after the command byte of the source.\<close>

definition pit_count :: "'d bus \<Rightarrow> 'd machine \<Rightarrow> u16 \<times> 'd machine" where
  "pit_count bus m =
     (case in8 bus 0x42 m of (low, m) \<Rightarrow>
      case in8 bus 0x42 m of (high, m) \<Rightarrow> (push_bit 8 (ucast high) OR ucast low, m))"

definition pit_ticks :: u16 where
  "pit_ticks = (let target_ms = 100; pit_freq = 1193182 in ucast (pit_freq * target_ms div 1000 :: u64))"

definition target_count :: "u16 \<Rightarrow> u16" where
  "target_count pit_start = (if pit_start < pit_ticks then 0 else pit_start - pit_ticks)"

partial_function (option) pit_wait :: "'d bus \<Rightarrow> u16 \<Rightarrow> 'd machine \<Rightarrow> 'd machine option" where
  "pit_wait bus target m =
     (case pit_count bus (out8 bus 0x43 0xB0 m) of (current, m) \<Rightarrow>
        if current \<le> target then Some m else pit_wait bus target (spin bus 1 m))"

definition measure_frequency :: "'d bus \<Rightarrow> 'd machine \<Rightarrow> (u64 \<times> 'd machine) option" where
  "measure_frequency bus m =
     (let target_ms = 100; m = out8 bus 0x43 0xB0 (out8 bus 0x43 0xB0 m) in
      case pit_count bus m of (pit_start, m) \<Rightarrow>
      case read_tsc bus m of (tsc_start, m) \<Rightarrow>
      case pit_wait bus (target_count pit_start) m of
        None \<Rightarrow> None
      | Some m \<Rightarrow>
          (case read_tsc bus m of (tsc_end, m) \<Rightarrow>
             let tsc_diff = tsc_end - tsc_start in Some (tsc_diff * 1000 div target_ms, m)))"

definition new_timer :: "'d bus \<Rightarrow> 'd machine \<Rightarrow> (tsc_timer \<times> 'd machine) option" where
  "new_timer bus m = map_option (\<lambda>(f, m). (\<lparr>frequency = f\<rparr>, m)) (measure_frequency bus m)"

text \<open>
  The 100 ms of the source are 119318 ticks of the interval timer; cut to a \<open>u16\<close> they are 53782, which
  is 45 ms. When the wait ends the last reading was at or below the target.
\<close>

lemma pit_ticks_truncated: "pit_ticks = 53782" "1193182 * 100 div 1000 = (119318 :: u64)"
  by (simp_all add: pit_ticks_def)

lemma pit_wait_stops:
  assumes "pit_wait bus target m = Some m'"
  shows "\<exists>m1 c. pit_count bus m1 = (c, m') \<and> c \<le> target"
proof (rule pit_wait.raw_induct [OF _ assms])
  fix pw :: "'a bus \<Rightarrow> u16 \<Rightarrow> 'a machine \<Rightarrow> 'a machine option" and bus target m m'
  assume IH: "\<And>bus target m m'. pw bus target m = Some m' \<Longrightarrow> \<exists>m1 c. pit_count bus m1 = (c, m') \<and> c \<le> target"
    and run: "(case pit_count bus (out8 bus 0x43 0xB0 m) of (current, m) \<Rightarrow>
        if current \<le> target then Some m else pw bus target (spin bus 1 m)) = Some m'"
  obtain c m1 where c: "pit_count bus (out8 bus 0x43 0xB0 m) = (c, m1)" by (cases "pit_count bus (out8 bus 0x43 0xB0 m)")
  with run IH show "\<exists>m1 c. pit_count bus m1 = (c, m') \<and> c \<le> target" by (cases "c \<le> target") auto
qed

section \<open>Waiting\<close>

partial_function (option) wait_ticks :: "'d bus \<Rightarrow> tsc_timer \<Rightarrow> u64 \<Rightarrow> u64 \<Rightarrow> 'd machine \<Rightarrow> 'd machine option" where
  "wait_ticks bus self start ticks m =
     (case now bus self m of (t, m) \<Rightarrow>
        if t - start < ticks then wait_ticks bus self start ticks (spin bus 1 m) else Some m)"

definition timer_wait_ms :: "'d bus \<Rightarrow> tsc_timer \<Rightarrow> u64 \<Rightarrow> 'd machine \<Rightarrow> 'd machine option" where
  "timer_wait_ms bus self ms m =
     (let ticks = (frequency self * ms) div 1000 in
      case now bus self m of (start, m) \<Rightarrow> wait_ticks bus self start ticks m)"

text \<open>\<open>GLOBAL_TIMER.as_ref().unwrap()\<close> panics before \<open>init_timer\<close>.\<close>

definition timer_sleep_ms :: "'d bus \<Rightarrow> tsc_timer option \<Rightarrow> u64 \<Rightarrow> 'd machine \<Rightarrow> 'd machine option" where
  "timer_sleep_ms bus global_timer ms m =
     (case global_timer of None \<Rightarrow> None | Some t \<Rightarrow> timer_wait_ms bus t ms m)"

definition tsc_runs :: "'d bus \<Rightarrow> ('d machine \<Rightarrow> nat) \<Rightarrow> nat \<Rightarrow> bool" where
  "tsc_runs bus clk R \<longleftrightarrow> (\<forall>m.
     (case read_tsc bus m of (t, m') \<Rightarrow> t = of_nat (clk m) \<and> clk m < clk m' \<and> clk m' \<le> clk m + R)
     \<and> clk m \<le> clk (spin bus 1 m) \<and> clk (spin bus 1 m) \<le> clk m + R)"

lemma tsc_runs_read:
  assumes "tsc_runs bus clk R"
  obtains m' where "read_tsc bus m = (of_nat (clk m), m')" "clk m < clk m'" "clk m' \<le> clk m + R"
  using assms by (cases "read_tsc bus m") (auto simp: tsc_runs_def split: prod.splits)

lemma tsc_runs_spin:
  "tsc_runs bus clk R \<Longrightarrow> clk m \<le> clk (spin bus 1 m)" "tsc_runs bus clk R \<Longrightarrow> clk (spin bus 1 m) \<le> clk m + R"
  by (auto simp: tsc_runs_def)

text \<open>The elapsed count survives a wrap of the counter, because the code subtracts before it compares.\<close>

lemma elapsed_word: "c0 \<le> c \<Longrightarrow> c - c0 < 2 ^ 64 \<Longrightarrow> unat (of_nat c - of_nat c0 :: u64) = c - c0"
  by (metis of_nat_diff unat_of_nat_u64)

lemma wait_ticks_returns:
  assumes runs: "tsc_runs bus clk R" and small: "unat ticks + 2 * R < 2 ^ 64"
    and "c0 \<le> clk m" "clk m \<le> c0 + unat ticks + 2 * R"
  shows "\<exists>m'. wait_ticks bus self (of_nat c0) ticks m = Some m' \<and> c0 + unat ticks < clk m'
    \<and> clk m' \<le> c0 + unat ticks + 3 * R"
  using assms(3,4)
proof (induction "c0 + unat ticks + 1 - clk m" arbitrary: m rule: less_induct)
  case less
  obtain m1 where m1: "read_tsc bus m = (of_nat (clk m), m1)" "clk m < clk m1" "clk m1 \<le> clk m + R"
    using tsc_runs_read [OF runs] by blast
  have "unat (of_nat (clk m) - of_nat c0 :: u64) = clk m - c0"
    using less.prems small by (intro elapsed_word) auto
  then have cmp: "of_nat (clk m) - of_nat c0 < ticks \<longleftrightarrow> clk m - c0 < unat ticks"
    by (simp add: word_less_nat_alt)
  show ?case
  proof (cases "clk m - c0 < unat ticks")
    case False
    then show ?thesis using m1 cmp less.prems by (subst wait_ticks.simps) (auto simp: now_def)
  next
    case True
    let ?m = "spin bus 1 m1"
    have "clk m1 \<le> clk ?m" "clk ?m \<le> clk m1 + R" using tsc_runs_spin [OF runs] by auto
    with less.hyps [of ?m] m1 less.prems True
    have "\<exists>m'. wait_ticks bus self (of_nat c0) ticks ?m = Some m' \<and> c0 + unat ticks < clk m'
      \<and> clk m' \<le> c0 + unat ticks + 3 * R" by simp
    with True cmp m1 show ?thesis by (subst wait_ticks.simps) (simp add: now_def)
  qed
qed

section \<open>Properties\<close>

text \<open>
  The blocking sleep returns, not early and at most four clock steps late, wrap-around of the
  counter included: the clock has advanced by more than \<open>frequency * ms / 1000\<close> ticks, the product
  taken on 64 bits.
\<close>

theorem timer_wait_ms_elapses:
  assumes "tsc_runs bus clk R" "unat (frequency self * ms div 1000) + 2 * R < 2 ^ 64"
  shows "\<exists>m'. timer_wait_ms bus self ms m = Some m'
    \<and> clk m + unat (frequency self * ms div 1000) < clk m'
    \<and> clk m' \<le> clk m + unat (frequency self * ms div 1000) + 4 * R"
proof -
  obtain m1 where m1: "read_tsc bus m = (of_nat (clk m), m1)" "clk m < clk m1" "clk m1 \<le> clk m + R"
    using tsc_runs_read [OF assms(1)] by blast
  have "\<exists>m'. wait_ticks bus self (of_nat (clk m)) (frequency self * ms div 1000) m1 = Some m'
      \<and> clk m + unat (frequency self * ms div 1000) < clk m'
      \<and> clk m' \<le> clk m + unat (frequency self * ms div 1000) + 3 * R"
    using m1 by (intro wait_ticks_returns [OF assms]) auto
  with m1 show ?thesis by (fastforce simp: timer_wait_ms_def now_def)
qed

text \<open>A counter that ticks 7 times per read, one read away from its wrap-around.\<close>

definition tick_bus :: "nat bus" where
  "tick_bus = \<lparr>mmio_rd = (\<lambda>_ _. 0), mmio_wr = (\<lambda>_ _ d. d), spin = (\<lambda>_ m. m),
     pio_in8 = (\<lambda>_ d. (0, d)), pio_out8 = (\<lambda>_ _ d. d), pio_in32 = (\<lambda>_ d. (0, d)), pio_out32 = (\<lambda>_ _ d. d),
     rdtsc = (\<lambda>c. (of_nat c, c + 7)), rdmsr = (\<lambda>_ _. 0)\<rparr>"

lemma tick_bus_runs: "tsc_runs tick_bus dev 7"
  by (simp add: tsc_runs_def read_tsc_eq tick_bus_def)

theorem timer_wait_ms_elapses_witness:
  "\<exists>m'. timer_wait_ms tick_bus \<lparr>frequency = 1000\<rparr> 50 \<lparr>ram = (\<lambda>_. 0), dev = 2 ^ 64 - 5\<rparr> = Some m'
     \<and> 2 ^ 64 + 45 < dev m'"
proof -
  have e: "unat ((1000 :: u64) * 50 div 1000) = 50" by simp
  have "\<exists>m'. timer_wait_ms tick_bus \<lparr>frequency = 1000\<rparr> 50 \<lparr>ram = (\<lambda>_. 0), dev = 2 ^ 64 - 5\<rparr> = Some m'
    \<and> dev \<lparr>ram = (\<lambda>_. 0) :: memory, dev = 2 ^ 64 - 5 :: nat\<rparr> + unat (frequency \<lparr>frequency = 1000\<rparr> * 50 div 1000) < dev m'
    \<and> dev m' \<le> dev \<lparr>ram = (\<lambda>_. 0) :: memory, dev = 2 ^ 64 - 5 :: nat\<rparr> + unat (frequency \<lparr>frequency = 1000\<rparr> * 50 div 1000) + 4 * 7"
    by (rule timer_wait_ms_elapses [OF tick_bus_runs]) (simp add: e)
  then show ?thesis by (auto simp: e)
qed

end
