(* ===== verification/Containers.thy ===== *)
theory Containers imports Prelude begin

text \<open>
  The container table, \<open>kernel/src/boot/container.rs\<close>: identifiers are handed out in order, a
  container has a memory region and is running until it is stopped. The statics \<open>CONTAINERS\<close> and
  \<open>NEXT_CONTAINER_ID\<close> are one record. The identifier is a \<open>u32\<close> that wraps, and the length of a region in
  bytes and its end are \<open>u64\<close> values that wrap.
\<close>

datatype container_state = Running | Stopped

record container =
  id :: u32
  cstate :: container_state
  memory_region :: "u64 \<times> u64"
  name :: string

record container_table =
  CONTAINERS :: "container list option"
  NEXT_CONTAINER_ID :: u32

definition initial_containers :: container_table where
  "initial_containers = \<lparr>CONTAINERS = None, NEXT_CONTAINER_ID = 1\<rparr>"

definition init_containers :: "container_table \<Rightarrow> container_table" where
  "init_containers ct = \<lparr>CONTAINERS = Some [], NEXT_CONTAINER_ID = 1\<rparr>"

definition create_container :: "u64 \<Rightarrow> u64 \<Rightarrow> string \<Rightarrow> container_table \<Rightarrow> u32 \<times> container_table" where
  "create_container mem_start mem_pages nm ct =
     (let i = NEXT_CONTAINER_ID ct;
          ct = ct\<lparr>NEXT_CONTAINER_ID := NEXT_CONTAINER_ID ct + 1\<rparr>;
          c = \<lparr>id = i, cstate = Running, memory_region = (mem_start, mem_pages * 4096), name = nm\<rparr>
      in (i, case CONTAINERS ct of Some cs \<Rightarrow> ct\<lparr>CONTAINERS := Some (cs @ [c])\<rparr> | None \<Rightarrow> ct))"

text \<open>\<open>iter_mut().find(..)\<close>: the first match is changed.\<close>

fun stop_first :: "u32 \<Rightarrow> container list \<Rightarrow> container list" where
  "stop_first i [] = []"
| "stop_first i (c # cs) = (if id c = i then c\<lparr>cstate := Stopped\<rparr> # cs else c # stop_first i cs)"

definition stop_container :: "u32 \<Rightarrow> container_table \<Rightarrow> container_table" where
  "stop_container i ct =
     (case CONTAINERS ct of Some cs \<Rightarrow> ct\<lparr>CONTAINERS := Some (stop_first i cs)\<rparr> | None \<Rightarrow> ct)"

definition get_container_state :: "u32 \<Rightarrow> container_table \<Rightarrow> container_state option" where
  "get_container_state i ct =
     (case CONTAINERS ct of None \<Rightarrow> None | Some cs \<Rightarrow> map_option cstate (find (\<lambda>c. id c = i) cs))"

definition get_container_mem :: "u32 \<Rightarrow> container_table \<Rightarrow> u64 option" where
  "get_container_mem i ct =
     (case CONTAINERS ct of None \<Rightarrow> None
      | Some cs \<Rightarrow> map_option (\<lambda>c. fst (memory_region c)) (find (\<lambda>c. id c = i) cs))"

definition region_has :: "container \<Rightarrow> u64 \<Rightarrow> bool" where
  "region_has c addr =
     (let start = fst (memory_region c); fin = start + snd (memory_region c)
      in addr \<ge> start \<and> addr < fin)"

fun any_region :: "u64 \<Rightarrow> container list \<Rightarrow> bool" where
  "any_region addr [] = False"
| "any_region addr (c # cs) = (if region_has c addr then True else any_region addr cs)"

definition is_in_container_memory :: "u64 \<Rightarrow> container_table \<Rightarrow> bool" where
  "is_in_container_memory addr ct =
     (case CONTAINERS ct of Some cs \<Rightarrow> any_region addr cs | None \<Rightarrow> False)"

fun first_region :: "u64 \<Rightarrow> container list \<Rightarrow> u32 option" where
  "first_region addr [] = None"
| "first_region addr (c # cs) = (if region_has c addr then Some (id c) else first_region addr cs)"

definition find_container_by_addr :: "u64 \<Rightarrow> container_table \<Rightarrow> u32 option" where
  "find_container_by_addr addr ct =
     (case CONTAINERS ct of Some cs \<Rightarrow> first_region addr cs | None \<Rightarrow> None)"

section \<open>The table's invariant\<close>

text \<open>The identifiers in use are 1, 2, ... in order of creation.\<close>

definition table_ok :: "container_table \<Rightarrow> bool" where
  "table_ok ct \<longleftrightarrow> (case CONTAINERS ct of None \<Rightarrow> False
     | Some cs \<Rightarrow> map id cs = map of_nat [1..<Suc (length cs)] \<and> NEXT_CONTAINER_ID ct = of_nat (Suc (length cs))
        \<and> Suc (length cs) < 2 ^ 32)"

definition container_count :: "container_table \<Rightarrow> nat" where
  "container_count ct = (case CONTAINERS ct of None \<Rightarrow> 0 | Some cs \<Rightarrow> length cs)"

lemma stop_first_ids [simp]: "map id (stop_first i cs) = map id cs"
  by (induction cs) auto

lemma length_stop_first [simp]: "length (stop_first i cs) = length cs"
  by (induction cs) auto

lemma any_region_first: "any_region addr cs \<longleftrightarrow> first_region addr cs \<noteq> None"
  by (induction cs) auto

lemma find_stop_first:
  "find (\<lambda>c. id c = j) (stop_first i cs) =
     (if j = i then map_option (\<lambda>c. c\<lparr>cstate := Stopped\<rparr>) (find (\<lambda>c. id c = j) cs) else find (\<lambda>c. id c = j) cs)"
  by (induction cs) auto

lemma init_table_ok: "table_ok (init_containers ct)"
  by (simp add: table_ok_def init_containers_def)

lemma stop_table_ok: "table_ok ct \<Longrightarrow> table_ok (stop_container i ct)"
  by (auto simp: table_ok_def stop_container_def split: option.splits)

lemma create_table_ok:
  "table_ok ct \<Longrightarrow> container_count ct + 2 < 2 ^ 32 \<Longrightarrow> table_ok (snd (create_container s n nm ct))"
  by (auto simp: table_ok_def create_container_def container_count_def Let_def split: option.splits)

lemma table_ok_fresh:
  assumes "table_ok ct" "CONTAINERS ct = Some cs"
  shows "find (\<lambda>c. id c = NEXT_CONTAINER_ID ct) cs = None"
proof -
  from assms have ids: "map id cs = map of_nat [1..<Suc (length cs)]" and nxt: "NEXT_CONTAINER_ID ct = of_nat (Suc (length cs))"
    and len: "Suc (length cs) < 2 ^ 32" by (auto simp: table_ok_def)
  have "of_nat (Suc (length cs)) \<notin> (of_nat :: nat \<Rightarrow> u32) ` set [1..<Suc (length cs)]"
  proof
    assume "of_nat (Suc (length cs)) \<in> (of_nat :: nat \<Rightarrow> u32) ` set [1..<Suc (length cs)]"
    then obtain k where k1: "k \<in> set [1..<Suc (length cs)]" and k: "(of_nat (Suc (length cs)) :: u32) = of_nat k"
      by (rule imageE)
    from k1 have "k < Suc (length cs)" by (simp only: set_upt atLeastLessThan_iff)
    then have "(of_nat k :: u32) < of_nat (Suc (length cs))" using len by (rule of_nat_u32_less)
    with k show False by simp
  qed
  then have "NEXT_CONTAINER_ID ct \<notin> id ` set cs"
    using ids nxt by (metis image_set list.set_map)
  then have "id c \<noteq> NEXT_CONTAINER_ID ct" if "c \<in> set cs" for c using that by (metis imageI)
  then show ?thesis by (simp add: find_None_iff)
qed

section \<open>Properties\<close>

text \<open>
  C36. What the container operations do to the table, from any table built by \<open>init\<close>,
  \<open>create_container\<close> and \<open>stop_container\<close> with fewer than \<open>2 ^ 32 - 2\<close> creations. The identifier a
  creation returns was unknown before and is running afterwards with the memory given; every other
  container keeps its state; stopping changes the state of that container alone and of none that does not
  exist; the table keeps its invariant.
\<close>

theorem container_lifecycle:
  assumes "table_ok ct" "container_count ct + 2 < 2 ^ 32" "create_container s n nm ct = (i, ct')"
  shows "table_ok ct' \<and> get_container_state i ct = None
    \<and> get_container_state i ct' = Some Running \<and> get_container_mem i ct' = Some s
    \<and> (\<forall>j. j \<noteq> i \<longrightarrow> get_container_state j ct' = get_container_state j ct)
    \<and> table_ok (stop_container i ct')
    \<and> (\<forall>j. get_container_state j (stop_container i ct') =
         (if j = i then Some Stopped else get_container_state j ct))"
proof -
  from assms(1) obtain cs where cs: "CONTAINERS ct = Some cs" by (auto simp: table_ok_def split: option.splits)
  from assms(3) have i: "i = NEXT_CONTAINER_ID ct"
    and ct': "CONTAINERS ct' = Some (cs @ [\<lparr>id = i, cstate = Running, memory_region = (s, n * 4096), name = nm\<rparr>])"
    by (auto simp: create_container_def Let_def cs)
  have ok: "table_ok ct'" using create_table_ok [OF assms(1,2)] assms(3) by (metis snd_conv)
  have fresh: "find (\<lambda>c. id c = i) cs = None" using table_ok_fresh [OF assms(1) cs] i by simp
  have same: "get_container_state j ct' = (if j = i then Some Running else get_container_state j ct)" for j
    using fresh by (auto simp: get_container_state_def cs ct' find_append split: option.splits)
  have "get_container_state j (stop_container i ct') = (if j = i then Some Stopped else get_container_state j ct)" for j
    using same [of j] fresh by (auto simp: get_container_state_def stop_container_def ct' cs find_stop_first find_append
        option.map_comp split: option.splits)
  with ok same stop_table_ok [OF ok] fresh show ?thesis
    by (auto simp: get_container_state_def get_container_mem_def cs ct' find_append)
qed

theorem container_lifecycle_witness:
  "get_container_state 2 (stop_container 2 (snd (create_container 0x5000 64 ''b''
     (snd (create_container 0x4000 1 ''a'' (init_containers initial_containers)))))) = Some Stopped"
proof -
  let ?ct = "snd (create_container 0x4000 1 ''a'' (init_containers initial_containers))"
  have ok: "table_ok ?ct" by (rule create_table_ok [OF init_table_ok]) (simp add: container_count_def init_containers_def)
  have i: "create_container 0x5000 64 ''b'' ?ct = (2, snd (create_container 0x5000 64 ''b'' ?ct))"
    by (simp add: create_container_def init_containers_def Let_def)
  from container_lifecycle [OF ok _ i] show ?thesis
    by (simp add: container_count_def create_container_def init_containers_def Let_def)
qed

text \<open>
  The two address lookups agree: an address is in container memory exactly when some
  container is found for it, and then the container found is the first one, in order of creation,
  whose region holds the address.
\<close>

theorem container_lookup_agree:
  "is_in_container_memory addr ct = (find_container_by_addr addr ct \<noteq> None)
   \<and> find_container_by_addr addr ct =
       (case CONTAINERS ct of None \<Rightarrow> None
        | Some cs \<Rightarrow> map_option id (List.find (\<lambda>c. fst (memory_region c) \<le> addr
             \<and> addr < fst (memory_region c) + snd (memory_region c)) cs))"
proof -
  have "first_region addr cs = map_option id (find (\<lambda>c. region_has c addr) cs)" for cs
    by (induction cs) auto
  then show ?thesis
    by (auto simp: is_in_container_memory_def find_container_by_addr_def any_region_first region_has_def Let_def
        split: option.splits)
qed

end
