(* ===== verification/Kernel_World.thy ===== *)
theory Kernel_World imports Key_Buffer Tsc_Timer Containers begin

text \<open>
  The statics the asynchronous part of the kernel shares (\<open>executor.rs\<close>, \<open>apic.rs\<close>, \<open>interrupts.rs\<close>,
  \<open>main.rs\<close>, \<open>boot/timer.rs\<close>, \<open>boot/container.rs\<close>) as one record, the interrupt controllers' setup
  (\<open>kernel/src/apic.rs\<close>), and the keyboard interrupt handler. All wakers are equal (the executor's vtable
  with a null pointer), so \<open>KEYBOARD_WAKER\<close> is whether there is one; the only callback ever
  registered for the end of an interrupt is \<open>apic_eoi\<close>.
\<close>

record 'd kworld =
  WOKEN :: bool
  KEYS :: key_ring
  IS_SHIFT :: bool
  KEYBOARD_WAKER :: bool
  EOI_CALLBACK :: bool
  APIC_BASE :: u64
  GLOBAL_TIMER :: "tsc_timer option"
  CTABLE :: container_table
  hw :: "'d machine"

definition wake :: "'d kworld \<Rightarrow> 'd kworld" where
  "wake w = w\<lparr>WOKEN := True\<rparr>"

definition on_hw :: "('d machine \<Rightarrow> 'd machine) \<Rightarrow> 'd kworld \<Rightarrow> 'd kworld" where
  "on_hw f w = w\<lparr>hw := f (hw w)\<rparr>"

definition init_timer :: "'d bus \<Rightarrow> 'd kworld \<Rightarrow> 'd kworld option" where
  "init_timer bus w =
     (case new_timer bus (hw w) of None \<Rightarrow> None
      | Some (t, m) \<Rightarrow> Some (w\<lparr>GLOBAL_TIMER := Some t, hw := m\<rparr>))"

section \<open>Interrupt controllers\<close>

definition apic_eoi :: "'d bus \<Rightarrow> 'd kworld \<Rightarrow> 'd kworld" where
  "apic_eoi bus w = on_hw (reg_wr bus (APIC_BASE w + 0xB0) 0) w"

definition set_eoi_callback :: "'d kworld \<Rightarrow> 'd kworld" where
  "set_eoi_callback w = w\<lparr>EOI_CALLBACK := True\<rparr>"

definition apic_init :: "'d bus \<Rightarrow> 'd kworld \<Rightarrow> 'd kworld" where
  "apic_init bus w =
     (let msr = rdmsr bus 0x1B (dev (hw w));
          low = ucast msr :: u32; high = ucast (drop_bit 32 msr) :: u32;
          w = w\<lparr>APIC_BASE := (push_bit 32 (ucast high) OR ucast low) AND 0xFFFFF000\<rparr>;
          sivr = APIC_BASE w + 0xF0;
          val = reg_rd bus sivr (hw w);
          w = on_hw (reg_wr bus sivr (val OR 0x1FF)) w;
          w = set_eoi_callback w;
          lvt_timer = APIC_BASE w + 0x320
      in on_hw (reg_wr bus lvt_timer 0x10000) w)"

definition get_base :: "'d kworld \<Rightarrow> u64" where
  "get_base w = APIC_BASE w"

definition write_io_apic :: "'d bus \<Rightarrow> u64 \<Rightarrow> u8 \<Rightarrow> u32 \<Rightarrow> 'd kworld \<Rightarrow> 'd kworld" where
  "write_io_apic bus base reg v w =
     on_hw (reg_wr bus (base + 0x10) v) (on_hw (reg_wr bus base (ucast reg)) w)"

definition init_io_apic :: "'d bus \<Rightarrow> 'd kworld \<Rightarrow> 'd kworld" where
  "init_io_apic bus w =
     (let io_apic_base = 0xFEC00000;
          w = write_io_apic bus io_apic_base 0x12 (0x21 OR push_bit 16 1) w
      in write_io_apic bus io_apic_base 0x13 0 w)"

definition register_keyboard_waker :: "'d kworld \<Rightarrow> 'd kworld" where
  "register_keyboard_waker w = w\<lparr>KEYBOARD_WAKER := True\<rparr>"

definition wake_keyboard :: "'d kworld \<Rightarrow> 'd kworld" where
  "wake_keyboard w = (if KEYBOARD_WAKER w then wake w else w)"

section \<open>The keyboard\<close>

text \<open>A read of an input port, on the whole state.\<close>

definition port_in :: "'d bus \<Rightarrow> u16 \<Rightarrow> 'd kworld \<Rightarrow> u8 \<times> 'd kworld" where
  "port_in bus p w = (case in8 bus p (hw w) of (v, m) \<Rightarrow> (v, w\<lparr>hw := m\<rparr>))"

definition keyboard_handler :: "'d bus \<Rightarrow> 'd kworld \<Rightarrow> 'd kworld" where
  "keyboard_handler bus w =
     (case port_in bus 0x60 w of (sc, w) \<Rightarrow>
        let w = w\<lparr>KEYS := push_key sc (KEYS w)\<rparr>;
            w = wake_keyboard w;
            w = wake w
        in if EOI_CALLBACK w then apic_eoi bus w else w)"

definition pop_key :: "'d kworld \<Rightarrow> u8 option \<times> 'd kworld" where
  "pop_key w = (case get_key_from_buffer (KEYS w) of (sc, r) \<Rightarrow> (sc, w\<lparr>KEYS := r\<rparr>))"

text \<open>The keyboard controller read without an interrupt: status in port 0x64, scan code in port 0x60.\<close>

definition poll_keyboard :: "'d bus \<Rightarrow> 'd kworld \<Rightarrow> u8 option \<times> 'd kworld" where
  "poll_keyboard bus w =
     (case port_in bus 0x64 w of (status, w) \<Rightarrow>
        if status AND 0x01 \<noteq> 0 then (case port_in bus 0x60 w of (sc, w) \<Rightarrow> (Some sc, w)) else (None, w))"

lemma wake_simps [simp]: "WOKEN (wake w)" "KEYS (wake w) = KEYS w" "GLOBAL_TIMER (wake w) = GLOBAL_TIMER w"
    "CTABLE (wake w) = CTABLE w" "hw (wake w) = hw w" "IS_SHIFT (wake w) = IS_SHIFT w"
  by (simp_all add: wake_def)

lemma port_in_simps [simp]: "KEYS (snd (port_in bus p w)) = KEYS w"
    "GLOBAL_TIMER (snd (port_in bus p w)) = GLOBAL_TIMER w" "CTABLE (snd (port_in bus p w)) = CTABLE w"
  by (simp_all add: port_in_def split: prod.split)

lemma keyboard_handler_simps [simp]: "GLOBAL_TIMER (keyboard_handler bus w) = GLOBAL_TIMER w"
    "CTABLE (keyboard_handler bus w) = CTABLE w" "IS_SHIFT (keyboard_handler bus w) = IS_SHIFT w"
    "WOKEN (keyboard_handler bus w)"
  by (simp_all add: keyboard_handler_def port_in_def wake_keyboard_def apic_eoi_def on_hw_def wake_def Let_def
      split: prod.split)

lemma keyboard_handler_keys:
  "KEYS (keyboard_handler bus w) = push_key (fst (port_in bus 0x60 w)) (KEYS w)"
  by (simp add: keyboard_handler_def port_in_def wake_keyboard_def apic_eoi_def on_hw_def wake_def Let_def
      split: prod.split)

end
