(* ===== verification/Framebuffer.thy ===== *)
theory Framebuffer imports Machine begin

text \<open>
  The console of the standard boot, \<open>kernel/src/boot/mod.rs\<close>: a back buffer of pixels that is copied to
  the frame buffer by \<open>flip\<close>, pixels, rectangles and text. Coordinates are \<open>u32\<close> and their sums wrap. The font,
  a binary asset, is an argument: any list of bytes. The statics are one record; the size of the back
  buffer (\<open>1920 * 1080\<close>) is that of the list it starts with. \<open>None\<close> is a panic.
\<close>

record screen =
  FB_PTR :: u64
  FB_STRIDE :: u32
  FB_WIDTH :: u32
  FB_HEIGHT :: u32
  BACK_BUFFER :: "u32 list"
  DEBUG_Y :: u32
  DEBUG_X :: u32
  DEBUG_LINE_COUNT :: u32

definition initial_screen :: screen where
  "initial_screen = \<lparr>FB_PTR = 0, FB_STRIDE = 0, FB_WIDTH = 0, FB_HEIGHT = 0, BACK_BUFFER = replicate (1920 * 1080) 0,
     DEBUG_Y = 20, DEBUG_X = 400, DEBUG_LINE_COUNT = 0\<rparr>"

definition MAX_DEBUG_LINES :: u32 where "MAX_DEBUG_LINES = 15"

definition set_framebuffer :: "u64 \<Rightarrow> u32 \<Rightarrow> u32 \<Rightarrow> u32 \<Rightarrow> screen \<Rightarrow> screen" where
  "set_framebuffer ptr stride width height s =
     s\<lparr>FB_PTR := ptr, FB_STRIDE := stride, FB_WIDTH := width, FB_HEIGHT := height\<rparr>"

section \<open>Pixels and rectangles\<close>

definition put_pixel :: "u32 \<Rightarrow> u32 \<Rightarrow> u32 \<Rightarrow> screen \<Rightarrow> screen" where
  "put_pixel x y color s =
     (if x < FB_WIDTH s \<and> y < FB_HEIGHT s then
        let idx = unat (y * FB_STRIDE s + x)
        in if idx < length (BACK_BUFFER s) then s\<lparr>BACK_BUFFER := (BACK_BUFFER s)[idx := color]\<rparr> else s
      else s)"

definition backbuffer_write :: "u32 \<Rightarrow> u32 \<Rightarrow> u32 \<Rightarrow> screen \<Rightarrow> screen" where
  "backbuffer_write x y color s = put_pixel x y color s"

definition fill_screen :: "u32 \<Rightarrow> screen \<Rightarrow> screen" where
  "fill_screen color s =
     (let sz = unat (FB_STRIDE s * FB_HEIGHT s)
      in fold (\<lambda>i s. s\<lparr>BACK_BUFFER := (BACK_BUFFER s)[i := color]\<rparr>) [0..<min sz (length (BACK_BUFFER s))] s)"

definition flip :: "screen \<Rightarrow> memory \<Rightarrow> memory" where
  "flip s mem =
     (if FB_PTR s \<noteq> 0 then
        let sz = unat (FB_STRIDE s * FB_HEIGHT s)
        in fold (\<lambda>i. wr32 (FB_PTR s + of_nat (4 * i)) (BACK_BUFFER s ! i)) [0..<min sz (length (BACK_BUFFER s))] mem
      else mem)"

definition fill_rect :: "u32 \<Rightarrow> u32 \<Rightarrow> u32 \<Rightarrow> u32 \<Rightarrow> u32 \<Rightarrow> screen \<Rightarrow> screen" where
  "fill_rect x y w h color s =
     fold (\<lambda>dy. fold (\<lambda>dx. put_pixel (x + of_nat dx) (y + of_nat dy) color) [0..<unat w]) [0..<unat h] s"

section \<open>Text\<close>

definition le32_at :: "u8 list \<Rightarrow> nat \<Rightarrow> u32 option" where
  "le32_at font i =
     (if i + 3 < length font
      then Some (ucast (font ! i) OR push_bit 8 (ucast (font ! (i + 1))) OR push_bit 16 (ucast (font ! (i + 2)))
                 OR push_bit 24 (ucast (font ! (i + 3))))
      else None)"

text \<open>Header size, glyph size and glyph height; a font with the second magic but no whole header panics.\<close>

definition get_font_info :: "u8 list \<Rightarrow> (nat \<times> nat \<times> nat) option option" where
  "get_font_info font =
     (if length font < 4 then Some None
      else if take 4 font = [0x72, 0xb5, 0x4a, 0x86] then
        do { h_size \<leftarrow> le32_at font 12; g_size \<leftarrow> le32_at font 24; h \<leftarrow> le32_at font 20;
             Some (Some (unat h_size, unat g_size, unat h)) }
      else if take 2 font = [0x36, 0x04] then let h = unat (font ! 3) in Some (Some (4, h, h))
      else Some None)"

text \<open>The rows of a character's glyph; nothing is drawn for a glyph past the end of the font.\<close>

definition glyph :: "u8 list \<Rightarrow> u8 \<Rightarrow> u8 list option option" where
  "glyph font c =
     (case get_font_info font of
        None \<Rightarrow> None
      | Some None \<Rightarrow> Some None
      | Some (Some (header_size, glyph_size, height)) \<Rightarrow>
          let offset = header_size + unat c * glyph_size
          in if offset + height > length font then Some None else Some (Some (take height (drop offset font))))"

definition row_bit :: "u8 \<Rightarrow> nat \<Rightarrow> bool" where
  "row_bit row dx \<longleftrightarrow> push_bit dx row AND 0x80 \<noteq> 0"

definition draw_char :: "u8 list \<Rightarrow> u32 \<Rightarrow> u32 \<Rightarrow> u8 \<Rightarrow> u32 \<Rightarrow> screen \<Rightarrow> screen option" where
  "draw_char font x y c color s =
     (case glyph font c of
        None \<Rightarrow> None
      | Some None \<Rightarrow> Some s
      | Some (Some rows) \<Rightarrow>
          Some (fold (\<lambda>dy. fold (\<lambda>dx s. if row_bit (rows ! dy) dx then put_pixel (x + of_nat dx) (y + of_nat dy) color s else s)
            [0..<8]) [0..<length rows] s))"

fun draw_string :: "u8 list \<Rightarrow> u32 \<Rightarrow> u32 \<Rightarrow> u8 list \<Rightarrow> u32 \<Rightarrow> screen \<Rightarrow> screen option" where
  "draw_string font cx y [] color s = Some s"
| "draw_string font cx y (c # cs) color s =
     (if c = 10 then draw_string font cx y cs color s
      else case draw_char font cx y c color s of None \<Rightarrow> None | Some s \<Rightarrow> draw_string font (cx + 8) y cs color s)"

text \<open>\<open>debug_print\<close>: one line, in a window of 15 lines that is cleared when it is full.\<close>

definition debug_print :: "u8 list \<Rightarrow> u8 list \<Rightarrow> screen \<Rightarrow> memory \<Rightarrow> (screen \<times> memory) option" where
  "debug_print font msg s mem =
     (let s = (if DEBUG_LINE_COUNT s \<ge> MAX_DEBUG_LINES
               then (fill_rect 0 550 (FB_WIDTH s) 200 0x00336699 s)\<lparr>DEBUG_Y := 560, DEBUG_LINE_COUNT := 0\<rparr>
               else s)
      in map_option (\<lambda>s. let s = s\<lparr>DEBUG_Y := DEBUG_Y s + 12, DEBUG_LINE_COUNT := DEBUG_LINE_COUNT s + 1\<rparr> in (s, flip s mem))
           (draw_string font (DEBUG_X s) (DEBUG_Y s) msg 0x00FFFF00 s))"

definition debug_clear :: "screen \<Rightarrow> screen" where
  "debug_clear s = s\<lparr>DEBUG_Y := 600, DEBUG_X := 10\<rparr>"

section \<open>What drawing changes\<close>

text \<open>
  A screen whose visible area lies in the back buffer: the stride covers the width, and the last visible
  pixel's index neither wraps nor runs past the end.
\<close>

definition screen_ok :: "screen \<Rightarrow> bool" where
  "screen_ok s \<longleftrightarrow> unat (FB_WIDTH s) \<le> unat (FB_STRIDE s)
     \<and> unat (FB_HEIGHT s) * unat (FB_STRIDE s) \<le> length (BACK_BUFFER s)
     \<and> unat (FB_HEIGHT s) * unat (FB_STRIDE s) < 2 ^ 32"

definition visible :: "screen \<Rightarrow> nat \<Rightarrow> nat \<Rightarrow> bool" where
  "visible s px py \<longleftrightarrow> px < unat (FB_WIDTH s) \<and> py < unat (FB_HEIGHT s)"

definition pixel :: "screen \<Rightarrow> nat \<Rightarrow> nat \<Rightarrow> u32" where
  "pixel s px py = BACK_BUFFER s ! (py * unat (FB_STRIDE s) + px)"

text \<open>Two screens that differ in pixel colours only.\<close>

definition same_shape :: "screen \<Rightarrow> screen \<Rightarrow> bool" where
  "same_shape s t \<longleftrightarrow> t = s\<lparr>BACK_BUFFER := BACK_BUFFER t\<rparr> \<and> length (BACK_BUFFER t) = length (BACK_BUFFER s)"

lemma same_shape_refl [simp]: "same_shape s s"
  by (simp add: same_shape_def)

lemma same_shape_fields:
  assumes "same_shape s t"
  shows "FB_WIDTH t = FB_WIDTH s" "FB_HEIGHT t = FB_HEIGHT s" "FB_STRIDE t = FB_STRIDE s" "FB_PTR t = FB_PTR s"
    "DEBUG_X t = DEBUG_X s" "DEBUG_Y t = DEBUG_Y s" "DEBUG_LINE_COUNT t = DEBUG_LINE_COUNT s"
    "length (BACK_BUFFER t) = length (BACK_BUFFER s)"
  using assms by (cases s; cases t; simp add: same_shape_def)+

lemma same_shape_trans: "same_shape s t \<Longrightarrow> same_shape t u \<Longrightarrow> same_shape s u"
  by (cases s; cases t; cases u) (simp add: same_shape_def)

lemma put_pixel_shape: "same_shape s (put_pixel x y color s)"
  by (simp add: put_pixel_def same_shape_def Let_def)

lemma fold_shape: "(\<And>i s. same_shape s (f i s)) \<Longrightarrow> same_shape s (fold f xs s)"
  by (induction xs arbitrary: s) (auto intro: same_shape_trans)

lemma visible_index:
  assumes "screen_ok s" "visible s px py"
  shows "py * unat (FB_STRIDE s) + px < unat (FB_HEIGHT s) * unat (FB_STRIDE s)"
proof -
  have "(py + 1) * unat (FB_STRIDE s) \<le> unat (FB_HEIGHT s) * unat (FB_STRIDE s)"
    using assms(2) by (intro mult_le_mono1) (simp add: visible_def)
  then show ?thesis using assms by (simp add: visible_def screen_ok_def)
qed

lemma unat_index:
  assumes "screen_ok s" "x < FB_WIDTH s" "y < FB_HEIGHT s"
  shows "unat (y * FB_STRIDE s + x) = unat y * unat (FB_STRIDE s) + unat x"
proof -
  have "visible s (unat x) (unat y)" using assms by (simp add: visible_def word_less_nat_alt)
  from visible_index [OF assms(1) this] assms(1) have "unat y * unat (FB_STRIDE s) + unat x < 2 ^ 32"
    by (simp add: screen_ok_def)
  then show ?thesis by (simp add: unat_word_ariths)
qed

text \<open>One pixel: the one named, if it is on the screen.\<close>

lemma pixel_put_pixel:
  assumes ok: "screen_ok s" and vis: "visible s px py"
  shows "pixel (put_pixel x y color s) px py = (if unat x = px \<and> unat y = py then color else pixel s px py)"
proof (cases "x < FB_WIDTH s \<and> y < FB_HEIGHT s")
  case False
  then have "\<not> (unat x = px \<and> unat y = py)" using vis by (auto simp: visible_def word_less_nat_alt)
  then show ?thesis using False by (auto simp: put_pixel_def pixel_def)
next
  case True
  let ?S = "unat (FB_STRIDE s)"
  have v: "visible s (unat x) (unat y)" using True by (simp add: visible_def word_less_nat_alt)
  have i: "unat (y * FB_STRIDE s + x) = unat y * ?S + unat x" using unat_index [OF ok] True by simp
  have b: "unat y * ?S + unat x < length (BACK_BUFFER s)" using visible_index [OF ok v] ok by (simp add: screen_ok_def)
  have w: "unat x < ?S" "px < ?S" using v vis ok by (auto simp: visible_def screen_ok_def)
  have "unat y * ?S + unat x = py * ?S + px \<longleftrightarrow> unat y = py \<and> unat x = px"
  proof
    assume e: "unat y * ?S + unat x = py * ?S + px"
    have "(unat x + unat y * ?S) div ?S = unat y" "(px + py * ?S) div ?S = py"
      "(unat x + unat y * ?S) mod ?S = unat x" "(px + py * ?S) mod ?S = px" using w by simp_all
    with e show "unat y = py \<and> unat x = px" by (simp add: add.commute)
  qed simp
  with True b show ?thesis
    by (auto simp: put_pixel_def pixel_def Let_def i nth_list_update)
qed

text \<open>Pixels of a drawing that is a sequence of pixel writes: the last write to it, if any.\<close>

definition hits :: "(u32 \<times> u32) list \<Rightarrow> nat \<Rightarrow> nat \<Rightarrow> bool" where
  "hits ps px py \<longleftrightarrow> (\<exists>(x, y)\<in>set ps. unat x = px \<and> unat y = py)"

definition plot :: "(u32 \<times> u32) list \<Rightarrow> u32 \<Rightarrow> screen \<Rightarrow> screen" where
  "plot ps color s = fold (\<lambda>(x, y). put_pixel x y color) ps s"

lemma plot_shape: "same_shape s (plot ps color s)"
  unfolding plot_def by (rule fold_shape) (auto simp: put_pixel_shape)

lemma screen_ok_shape: "same_shape s t \<Longrightarrow> screen_ok t = screen_ok s" "same_shape s t \<Longrightarrow> visible t = visible s"
  by (simp_all add: screen_ok_def visible_def fun_eq_iff same_shape_fields [of s t])

lemma pixel_plot:
  "screen_ok s \<Longrightarrow> visible s px py \<Longrightarrow> pixel (plot ps color s) px py = (if hits ps px py then color else pixel s px py)"
proof (induction ps arbitrary: s)
  case Nil
  then show ?case by (simp add: plot_def hits_def)
next
  case (Cons p ps)
  obtain x y where p: "p = (x, y)" by (cases p)
  let ?s = "put_pixel x y color s"
  have "pixel (plot ps color ?s) px py = (if hits ps px py then color else pixel ?s px py)"
    using Cons screen_ok_shape [OF put_pixel_shape [of s x y color]] by simp
  then show ?case using pixel_put_pixel [OF Cons.prems] by (auto simp: p plot_def hits_def)
qed

lemma plot_append: "plot qs color (plot ps color s) = plot (ps @ qs) color s"
  by (simp add: plot_def)

text \<open>A rectangle and a character are such sequences.\<close>

definition rect_points :: "u32 \<Rightarrow> u32 \<Rightarrow> nat \<Rightarrow> nat \<Rightarrow> (u32 \<times> u32) list" where
  "rect_points x y w h = concat (map (\<lambda>dy. map (\<lambda>dx. (x + of_nat dx, y + of_nat dy)) [0..<w]) [0..<h])"

lemma plot_concat: "plot (concat pss) color s = fold (\<lambda>ps. plot ps color) pss s"
  by (induction pss arbitrary: s) (simp_all add: plot_append [symmetric], simp add: plot_def)

lemma plot_map: "plot (map f is) color s = fold (\<lambda>i. put_pixel (fst (f i)) (snd (f i)) color) is s"
  by (induction "is" arbitrary: s) (simp_all add: plot_def split_beta)

lemma fill_rect_plot: "fill_rect x y w h color s = plot (rect_points x y (unat w) (unat h)) color s"
proof -
  have "fold (\<lambda>dy. fold (\<lambda>dx. put_pixel (x + of_nat dx) (y + of_nat dy) color) [0..<unat w]) js t
      = plot (concat (map (\<lambda>dy. map (\<lambda>dx. (x + of_nat dx, y + of_nat dy)) [0..<unat w]) js)) color t" for js t
    by (induction js arbitrary: t) (simp_all add: plot_append [symmetric] plot_map, simp add: plot_def)
  then show ?thesis by (simp add: fill_rect_def rect_points_def)
qed

definition glyph_points :: "u32 \<Rightarrow> u32 \<Rightarrow> u8 list \<Rightarrow> (u32 \<times> u32) list" where
  "glyph_points x y rows = concat (map (\<lambda>dy. map (\<lambda>dx. (x + of_nat dx, y + of_nat dy)) (filter (row_bit (rows ! dy)) [0..<8])) [0..<length rows])"

lemma draw_char_plot:
  "glyph font c = Some (Some rows) \<Longrightarrow> draw_char font x y c color s = Some (plot (glyph_points x y rows) color s)"
proof -
  have row: "fold (\<lambda>dx s. if row_bit r dx then put_pixel (f dx) v color s else s) is t
      = plot (map (\<lambda>dx. (f dx, v)) (filter (row_bit r) is)) color t" for r f v "is" t
    by (induction "is" arbitrary: t) (simp_all add: plot_def)
  have "fold (\<lambda>dy. fold (\<lambda>dx s. if row_bit (rows ! dy) dx then put_pixel (x + of_nat dx) (y + of_nat dy) color s else s) [0..<8]) js t
      = plot (concat (map (\<lambda>dy. map (\<lambda>dx. (x + of_nat dx, y + of_nat dy)) (filter (row_bit (rows ! dy)) [0..<8])) js)) color t" for js t
    by (induction js arbitrary: t) (simp_all add: row plot_append [symmetric], simp add: plot_def)
  then show "glyph font c = Some (Some rows) \<Longrightarrow> draw_char font x y c color s = Some (plot (glyph_points x y rows) color s)"
    by (simp add: draw_char_def glyph_points_def)
qed

text \<open>Text changes pixels only, and panics never with the kernel's kind of font.\<close>

lemma draw_char_total: "take 2 font = [0x36, 0x04] \<Longrightarrow> \<exists>t. draw_char font x y c color s = Some t \<and> same_shape s t"
proof -
  assume f: "take 2 font = [0x36, 0x04]"
  have "take 4 font \<noteq> [0x72, 0xb5, 0x4a, 0x86]"
  proof
    assume "take 4 font = [0x72, 0xb5, 0x4a, 0x86]"
    then have "take 2 (take 4 font) = [0x72, 0xb5]" by simp
    with f show False by simp
  qed
  then have "get_font_info font \<noteq> None" by (simp add: get_font_info_def f Let_def)
  then show ?thesis
    using draw_char_plot [of font c] plot_shape
    by (auto simp: glyph_def draw_char_def Let_def split: option.splits if_splits prod.splits intro!: fold_shape put_pixel_shape)
qed

lemma draw_string_total:
  "take 2 font = [0x36, 0x04] \<Longrightarrow> \<exists>t. draw_string font x y cs color s = Some t \<and> same_shape s t"
proof (induction cs arbitrary: x s)
  case (Cons c cs)
  obtain t where t: "draw_char font x y c color s = Some t" "same_shape s t"
    using draw_char_total [OF Cons.prems] by blast
  with Cons.IH [OF Cons.prems, of "x + 8" t] Cons.IH [OF Cons.prems, of x s] show ?case
    by (auto intro: same_shape_trans)
qed simp

section \<open>The frame buffer\<close>

lemma flip_fold:
  assumes "n \<le> 2 ^ 32"
  shows "i < n \<Longrightarrow> rd32 (fold (\<lambda>i. wr32 (a + of_nat (4 * i)) (f i)) [0..<n] mem) (a + of_nat (4 * i)) = f i"
  using assms
proof (induction n)
  case (Suc n)
  show ?case
  proof (cases "i = n")
    case True
    then show ?thesis by (simp del: of_nat_mult)
  next
    case False
    let ?m = "fold (\<lambda>i. wr32 (a + of_nat (4 * i)) (f i)) [0..<n] mem"
    have "\<not> in_region (a + of_nat (4 * n)) 4 (a + of_nat (4 * i) + of_nat k)" if "k < 4" for k
    proof -
      have "in_region (a + of_nat (4 * n)) 4 (a + of_nat (4 * i + k)) \<longleftrightarrow> 4 * n \<le> 4 * i + k \<and> 4 * i + k < 4 * n + 4"
        by (rule in_region_shift) (use Suc.prems that in auto)
      also have "\<not> \<dots>" using False that by linarith
      finally show ?thesis by (simp add: add.assoc)
    qed
    then have "rd32 (wr32 (a + of_nat (4 * n)) (f n) ?m) (a + of_nat (4 * i)) = rd32 ?m (a + of_nat (4 * i))"
      by (intro rd32_cong wr32_other) blast
    with Suc False show ?thesis by (simp del: of_nat_mult)
  qed
qed simp

lemma flip_pixel:
  assumes ok: "screen_ok s" and vis: "visible s px py" and fb: "FB_PTR s \<noteq> 0"
  shows "rd32 (flip s mem) (FB_PTR s + of_nat (4 * (py * unat (FB_STRIDE s) + px))) = pixel s px py"
proof -
  let ?i = "py * unat (FB_STRIDE s) + px"
  have sz: "unat (FB_STRIDE s * FB_HEIGHT s) = unat (FB_HEIGHT s) * unat (FB_STRIDE s)"
    using ok by (simp add: screen_ok_def unat_word_ariths mult.commute)
  have le: "min (unat (FB_STRIDE s * FB_HEIGHT s)) (length (BACK_BUFFER s)) = unat (FB_HEIGHT s) * unat (FB_STRIDE s)"
    using ok by (simp add: screen_ok_def sz)
  have "unat (FB_HEIGHT s) * unat (FB_STRIDE s) \<le> 2 ^ 32" using ok by (simp add: screen_ok_def)
  from flip_fold [OF this visible_index [OF ok vis], of "FB_PTR s" "\<lambda>i. BACK_BUFFER s ! i" mem]
  show ?thesis unfolding flip_def Let_def le using fb by (simp add: pixel_def del: of_nat_mult of_nat_add)
qed

section \<open>What a log line changes\<close>

text \<open>The bytes of memory that \<open>flip\<close> copies the back buffer to.\<close>

definition frame_memory :: "screen \<Rightarrow> u64 \<Rightarrow> bool" where
  "frame_memory s x \<longleftrightarrow> FB_PTR s \<noteq> 0
     \<and> (\<exists>i<min (unat (FB_STRIDE s * FB_HEIGHT s)) (length (BACK_BUFFER s)). in_region (FB_PTR s + of_nat (4 * i)) 4 x)"

lemma fold_wr32_other:
  "(\<And>i. i < n \<Longrightarrow> \<not> in_region (f i) 4 x) \<Longrightarrow> fold (\<lambda>i. wr32 (f i) (g i)) [0..<n] mem x = mem x"
  by (induction n) (simp_all add: wr32_other)

lemma flip_other: "\<not> frame_memory s x \<Longrightarrow> flip s mem x = mem x"
  unfolding flip_def frame_memory_def Let_def by (auto intro!: fold_wr32_other simp del: of_nat_mult)

lemma fill_rect_shape: "same_shape s (fill_rect x y w h color s)"
  unfolding fill_rect_plot by (rule plot_shape)

lemma debug_print_total:
  assumes "take 2 font = [0x36, 0x04]"
  shows "\<exists>t mem'. debug_print font msg s mem = Some (t, mem') \<and> (\<forall>x. \<not> frame_memory s x \<longrightarrow> mem' x = mem x)"
proof -
  define u where "u = (if DEBUG_LINE_COUNT s \<ge> MAX_DEBUG_LINES
    then (fill_rect 0 550 (FB_WIDTH s) 200 0x00336699 s)\<lparr>DEBUG_Y := 560, DEBUG_LINE_COUNT := 0\<rparr> else s)"
  obtain t where t: "draw_string font (DEBUG_X u) (DEBUG_Y u) msg 0x00FFFF00 u = Some t" "same_shape u t"
    using draw_string_total [OF assms] by blast
  define v where "v = t\<lparr>DEBUG_Y := DEBUG_Y t + 12, DEBUG_LINE_COUNT := DEBUG_LINE_COUNT t + 1\<rparr>"
  have "debug_print font msg s mem = Some (v, flip v mem)"
    by (simp add: debug_print_def Let_def u_def [symmetric] t v_def)
  moreover have "frame_memory v = frame_memory s"
    using same_shape_fields [OF t(2)] same_shape_fields [OF fill_rect_shape [of s 0 550 "FB_WIDTH s" 200 "0x00336699"]]
    by (simp add: frame_memory_def fun_eq_iff v_def u_def)
  ultimately show ?thesis using flip_other by metis
qed

section \<open>Property\<close>

lemma hits_rect:
  assumes "unat x + w \<le> 2 ^ 32" "unat y + h \<le> 2 ^ 32"
  shows "hits (rect_points x y w h) px py \<longleftrightarrow> unat x \<le> px \<and> px < unat x + w \<and> unat y \<le> py \<and> py < unat y + h"
proof -
  have add: "unat (v + of_nat d) = unat v + d" if "unat v + m \<le> 2 ^ 32" "d < m" for v :: u32 and d m
    using that by (simp add: unat_word_ariths unat_of_nat take_bit_nat_eq_self)
  show ?thesis
  proof
    assume "hits (rect_points x y w h) px py"
    then obtain dx dy where d: "dx < w" "dy < h" "unat (x + of_nat dx) = px" "unat (y + of_nat dy) = py"
      by (auto simp: hits_def rect_points_def)
    then show "unat x \<le> px \<and> px < unat x + w \<and> unat y \<le> py \<and> py < unat y + h"
      using add [OF assms(1) d(1)] add [OF assms(2) d(2)] by simp
  next
    assume i: "unat x \<le> px \<and> px < unat x + w \<and> unat y \<le> py \<and> py < unat y + h"
    define dx where "dx = px - unat x"
    define dy where "dy = py - unat y"
    have d: "dx < w" "dy < h" using i by (auto simp: dx_def dy_def)
    then have "(x + of_nat dx, y + of_nat dy) \<in> set (rect_points x y w h)"
      by (simp add: rect_points_def) (rule bexI [of _ dy], rule image_eqI [of _ _ dx], auto)
    moreover have "unat (x + of_nat dx) = px" "unat (y + of_nat dy) = py"
      using add [OF assms(1) d(1)] add [OF assms(2) d(2)] i by (simp_all add: dx_def dy_def)
    ultimately show "hits (rect_points x y w h) px py" unfolding hits_def by blast
  qed
qed

text \<open>
  C38. A rectangle drawn and flipped is on the screen, clipped to it: on a screen whose visible area fits the back buffer, a
  rectangle whose corners do not wrap around \<open>2 ^ 32\<close> makes exactly the visible pixels inside it the
  colour, in the frame buffer the hardware shows, and every other visible pixel is what the back buffer held.
\<close>

theorem fill_rect_on_screen:
  assumes "screen_ok s" "FB_PTR s \<noteq> 0" "visible s px py"
    and "unat x + unat w \<le> 2 ^ 32" "unat y + unat h \<le> 2 ^ 32"
  shows "rd32 (flip (fill_rect x y w h color s) mem) (FB_PTR s + of_nat (4 * (py * unat (FB_STRIDE s) + px))) =
    (if unat x \<le> px \<and> px < unat x + unat w \<and> unat y \<le> py \<and> py < unat y + unat h then color
     else BACK_BUFFER s ! (py * unat (FB_STRIDE s) + px))"
proof -
  let ?t = "fill_rect x y w h color s"
  have sh: "same_shape s ?t" unfolding fill_rect_plot by (rule plot_shape)
  note f = same_shape_fields [OF sh] screen_ok_shape [OF sh]
  have "rd32 (flip ?t mem) (FB_PTR s + of_nat (4 * (py * unat (FB_STRIDE s) + px))) = pixel ?t px py"
    using flip_pixel [of ?t px py mem] assms(1-3) f by simp
  also have "\<dots> = (if hits (rect_points x y (unat w) (unat h)) px py then color else pixel s px py)"
    unfolding fill_rect_plot using assms(1,3) by (rule pixel_plot)
  finally show ?thesis using hits_rect [OF assms(4,5)] by (simp add: pixel_def)
qed

theorem fill_rect_on_screen_witness:
  "rd32 (flip (fill_rect 1 0 5 1 7 (set_framebuffer 0x80000000 4 3 2 (initial_screen\<lparr>BACK_BUFFER := replicate 8 9\<rparr>))) (\<lambda>_. 0))
     (0x80000000 + of_nat (4 * (0 * 4 + 2))) = 7"
proof -
  let ?s = "set_framebuffer 0x80000000 4 3 2 (initial_screen\<lparr>BACK_BUFFER := replicate 8 9\<rparr>)"
  have ok: "screen_ok ?s" by (simp add: screen_ok_def set_framebuffer_def)
  have vis: "visible ?s 2 0" by (simp add: visible_def set_framebuffer_def)
  have fb: "FB_PTR ?s \<noteq> 0" "FB_PTR ?s = 0x80000000" "FB_STRIDE ?s = 4" by (simp_all add: set_framebuffer_def)
  have u: "unat (5 :: u32) = 5" "unat (1 :: u32) = 1" "unat (0 :: u32) = 0" "unat (4 :: u32) = 4" by simp_all
  from fill_rect_on_screen [OF ok fb(1) vis, of 1 5 0 1 7 "\<lambda>_. 0"] show ?thesis
    unfolding fb(2,3) u by simp
qed

end
