(* ===== verification/Rust_Text.thy ===== *)
theory Rust_Text imports Prelude begin

text \<open>
  The parts of Rust's \<open>core\<close> and \<open>alloc\<close> the kernel's messages use: string literals as their UTF-8 bytes, the numbers
  that \<open>format!\<close> prints with \<open>{}\<close>, \<open>{:X}\<close> and \<open>{:02X}\<close>, and \<open>core::str::from_utf8\<close> with the text of its error.
\<close>

definition str :: "string \<Rightarrow> u8 list" where
  "str s = map of_char s"

section \<open>Numbers\<close>

definition digit_char :: "nat \<Rightarrow> u8" where
  "digit_char d = (if d < 10 then 48 + of_nat d else 55 + of_nat d)"

fun digits :: "nat \<Rightarrow> nat \<Rightarrow> nat list" where
  "digits b n = (if b < 2 \<or> n < b then [n] else digits b (n div b) @ [n mod b])"

declare digits.simps [simp del]

definition fmt_dec :: "u64 \<Rightarrow> u8 list" where
  "fmt_dec n = map digit_char (digits 10 (unat n))"

definition fmt_hex :: "u64 \<Rightarrow> u8 list" where
  "fmt_hex n = map digit_char (digits 16 (unat n))"

definition fmt_hex02 :: "u8 \<Rightarrow> u8 list" where
  "fmt_hex02 b = (let ds = fmt_hex (ucast b) in if length ds < 2 then 48 # ds else ds)"

text \<open>A signed number: a minus sign and the magnitude.\<close>

definition fmt_int :: "u64 \<Rightarrow> u8 list" where
  "fmt_int n = (if sint n < 0 then 45 # fmt_dec (- n) else fmt_dec n)"

definition digit_value :: "u8 \<Rightarrow> nat" where
  "digit_value c = (if c < 58 then unat c - 48 else unat c - 55)"

definition parse_digits :: "nat \<Rightarrow> u8 list \<Rightarrow> nat" where
  "parse_digits b cs = foldl (\<lambda>n c. n * b + digit_value c) 0 cs"

lemma digits_less: "2 \<le> b \<Longrightarrow> d \<in> set (digits b n) \<Longrightarrow> d < b"
proof (induction b n rule: digits.induct)
  case (1 b n)
  show ?case
  proof (cases "n < b")
    case True
    then show ?thesis using 1 by (subst (asm) digits.simps) simp
  next
    case False
    then have e: "digits b n = digits b (n div b) @ [n mod b]" using 1(2) by (subst digits.simps) simp
    from 1(3) consider "d \<in> set (digits b (n div b))" | "d = n mod b" by (auto simp: e)
    then show ?thesis
    proof cases
      case 1
      then show ?thesis using False \<open>2 \<le> b\<close> "1.IH" by simp
    qed (use 1(2) in simp)
  qed
qed

lemma digit_value_char: "d < 16 \<Longrightarrow> digit_value (digit_char d) = d"
proof -
  have "list_all (\<lambda>d. digit_value (digit_char d) = d) [0..<16]" by code_simp
  then show "d < 16 \<Longrightarrow> digit_value (digit_char d) = d" by (simp add: list_all_iff)
qed

text \<open>A printed number reads back as the number.\<close>

lemma parse_print_digits:
  assumes "2 \<le> b" "b \<le> 16"
  shows "parse_digits b (map digit_char (digits b n)) = n"
  using assms
proof (induction b n rule: digits.induct)
  case (1 b n)
  show ?case
  proof (cases "n < b")
    case True
    then show ?thesis using 1 by (subst digits.simps) (simp add: parse_digits_def digit_value_char)
  next
    case False
    then have e: "digits b n = digits b (n div b) @ [n mod b]" using 1(2) by (subst digits.simps) simp
    have "parse_digits b (map digit_char (digits b (n div b))) = n div b" using 1 False by simp
    moreover have "n mod b < 16" using 1(2,3) by (metis less_le_trans mod_less_divisor zero_less_numeral less_le_trans)
    ultimately show ?thesis by (simp add: e parse_digits_def digit_value_char)
  qed
qed

lemma parse_fmt_dec: "parse_digits 10 (fmt_dec n) = unat n"
  by (simp add: fmt_dec_def parse_print_digits)

lemma parse_fmt_hex: "parse_digits 16 (fmt_hex n) = unat n"
  by (simp add: fmt_hex_def parse_print_digits)

section \<open>UTF-8\<close>

text \<open>
  \<open>from_utf8\<close> accepts the well-formed sequences only (no overlong forms, no surrogates, nothing above
  U+10FFFF). Its error says how long the valid prefix is and how many bytes after it are wrong
  (\<open>error_len\<close>), or that the text ends in the middle of a sequence (\<open>None\<close>).
\<close>

record utf8_error =
  valid_up_to :: nat
  error_len :: "nat option"

definition continuation :: "u8 \<Rightarrow> bool" where
  "continuation b \<longleftrightarrow> b AND 0xC0 = 0x80"

text \<open>The bytes allowed after a first byte of a sequence of three or four.\<close>

definition second_ok :: "u8 \<Rightarrow> u8 \<Rightarrow> bool" where
  "second_ok b c \<longleftrightarrow>
     (if b = 0xE0 then 0xA0 \<le> c \<and> c \<le> 0xBF
      else if b = 0xED then 0x80 \<le> c \<and> c \<le> 0x9F
      else if b = 0xF0 then 0x90 \<le> c \<and> c \<le> 0xBF
      else if b = 0xF4 then 0x80 \<le> c \<and> c \<le> 0x8F
      else 0x80 \<le> c \<and> c \<le> 0xBF)"

text \<open>Bytes after the second of a sequence: \<open>k\<close> of them have been accepted.\<close>

fun more_bytes :: "nat \<Rightarrow> nat \<Rightarrow> u8 list \<Rightarrow> nat option option" where
  "more_bytes 0 k cs = None"
| "more_bytes (Suc n) k [] = Some None"
| "more_bytes (Suc n) k (c # cs) = (if continuation c then more_bytes n (k + 1) cs else Some (Some k))"

definition sequence_width :: "u8 \<Rightarrow> nat" where
  "sequence_width b =
     (if b < 0x80 then 1 else if 0xC2 \<le> b \<and> b \<le> 0xDF then 2
      else if 0xE0 \<le> b \<and> b \<le> 0xEF then 3 else if 0xF0 \<le> b \<and> b \<le> 0xF4 then 4 else 0)"

definition sequence_error :: "u8 list \<Rightarrow> nat option option" where
  "sequence_error bs =
     (case bs of [] \<Rightarrow> None
      | b # cs \<Rightarrow>
          let w = sequence_width b in
          if w = 0 then Some (Some 1)
          else if w < 3 then more_bytes (w - 1) 1 cs
          else case cs of [] \<Rightarrow> Some None
             | c # ds \<Rightarrow> if second_ok b c then more_bytes (w - 2) 2 ds else Some (Some 1))"

function utf8_check :: "nat \<Rightarrow> u8 list \<Rightarrow> utf8_error option" where
  "utf8_check i bs =
     (if bs = [] then None
      else case sequence_error bs of
          Some e \<Rightarrow> Some \<lparr>valid_up_to = i, error_len = e\<rparr>
        | None \<Rightarrow> let w = sequence_width (hd bs) in if w = 0 then None else utf8_check (i + w) (drop w bs))"
  by pat_completeness auto

termination
  by (relation "measure (\<lambda>(i, bs). length bs)") auto

declare utf8_check.simps [simp del]

definition from_utf8 :: "u8 list \<Rightarrow> utf8_error option" where
  "from_utf8 bs = utf8_check 0 bs"

definition fmt_utf8_error :: "utf8_error \<Rightarrow> u8 list" where
  "fmt_utf8_error e =
     (case error_len e of
        Some n \<Rightarrow> str ''invalid utf-8 sequence of '' @ fmt_dec (of_nat n) @ str '' bytes from index '' @ fmt_dec (of_nat (valid_up_to e))
      | None \<Rightarrow> str ''incomplete utf-8 byte sequence from index '' @ fmt_dec (of_nat (valid_up_to e)))"

lemma from_utf8_ascii: "\<forall>b\<in>set bs. b < 0x80 \<Longrightarrow> from_utf8 bs = None"
proof -
  have "\<forall>b\<in>set bs. b < 0x80 \<Longrightarrow> utf8_check i bs = None" for i
  proof (induction bs arbitrary: i)
    case Nil
    then show ?case by (simp add: utf8_check.simps)
  next
    case (Cons b bs)
    then have "sequence_width b = 1" by (simp add: sequence_width_def)
    then show ?case using Cons by (subst utf8_check.simps) (simp add: sequence_error_def)
  qed
  then show "\<forall>b\<in>set bs. b < 0x80 \<Longrightarrow> from_utf8 bs = None" by (simp add: from_utf8_def)
qed

end
