(* ===== verification/Page_Allocator.thy ===== *)
theory Page_Allocator imports Prelude begin

text \<open>
  What the kernel's clients (paging, the network driver, the ELF loader, the boot code) rely on
  when they ask for physical pages, as a locale: the allocator hands out a run of free pages,
  takes exactly that run from the free set, writes nothing but its own bytes, and those
  bytes lie in no page it hands out. The consequences for a client that writes to the pages it
  got and allocates again are proved once, here.
\<close>

definition in_page :: "nat \<Rightarrow> u64 \<Rightarrow> bool" where
  "in_page k x \<longleftrightarrow> unat x div 4096 = k"

definition in_run :: "nat \<Rightarrow> nat \<Rightarrow> nat \<Rightarrow> bool" where
  "in_run p n k \<longleftrightarrow> p \<le> k \<and> k < p + n"

lemma in_run_1 [simp]: "in_run p (Suc 0) k \<longleftrightarrow> k = p"
  by (auto simp: in_run_def)

definition page_addr :: "nat \<Rightarrow> u64" where
  "page_addr p = of_nat p * 4096"

lemma unat_page_addr: "p < 2 ^ 52 \<Longrightarrow> unat (page_addr p) = p * 4096"
  by (simp add: page_addr_def unat_word_ariths take_bit_nat_eq_self unat_of_nat)

lemma page_addr_inj: "p < 2 ^ 52 \<Longrightarrow> q < 2 ^ 52 \<Longrightarrow> page_addr p = page_addr q \<longleftrightarrow> p = q"
  by (metis mult_cancel2 unat_page_addr zero_neq_numeral)

text \<open>An offset below \<open>n\<close> pages from the start of a run stays in the run.\<close>

lemma page_offset:
  assumes "p + n \<le> 2 ^ 52" and "i < n * 4096"
  shows "in_run p n (unat (page_addr p + of_nat i) div 4096)"
proof -
  have p: "p < 2 ^ 52" using assms by (cases n) auto
  have u: "unat (page_addr p + of_nat i) = p * 4096 + i"
  proof -
    have "p * 4096 + i < 2 ^ 64" using assms by simp
    then show ?thesis using unat_page_addr [OF p]
      by (simp add: unat_word_ariths unat_of_nat take_bit_nat_eq_self)
  qed
  have "p \<le> (p * 4096 + i) div 4096" by simp
  moreover have "(p * 4096 + i) div 4096 < p + n" using assms(2) by (simp add: div_less_iff_less_mult)
  ultimately show ?thesis by (simp add: in_run_def u)
qed

locale page_allocator =
  fixes alloc :: "nat \<Rightarrow> memory \<Rightarrow> u64 option \<times> memory"
    and free :: "memory \<Rightarrow> nat \<Rightarrow> bool"
    and own :: "u64 \<Rightarrow> bool"
    and inv :: "memory \<Rightarrow> bool"
  assumes alloc_Some: "inv mem \<Longrightarrow> alloc n mem = (Some a, mem') \<Longrightarrow>
      inv mem' \<and> (\<exists>p. a = page_addr p \<and> 0 < n \<and> p + n \<le> 2 ^ 52 \<and> (\<forall>k. in_run p n k \<longrightarrow> free mem k)
        \<and> (\<forall>k. free mem' k \<longleftrightarrow> free mem k \<and> \<not> in_run p n k))"
    and alloc_None: "alloc n mem = (None, mem') \<Longrightarrow> mem' = mem"
    and alloc_complete: "inv mem \<Longrightarrow> 0 < n \<Longrightarrow> (\<And>k. in_run p n k \<Longrightarrow> free mem k) \<Longrightarrow>
      fst (alloc n mem) \<noteq> None"
    and alloc_frame: "inv mem \<Longrightarrow> \<not> own x \<Longrightarrow> snd (alloc n mem) x = mem x"
    and free_cong: "inv mem \<Longrightarrow> (\<And>x. own x \<Longrightarrow> mem' x = mem x) \<Longrightarrow>
      inv mem' \<and> free mem' k = free mem k"
    and page_not_own: "inv mem \<Longrightarrow> free mem k \<Longrightarrow> in_page k x \<Longrightarrow> \<not> own x"
begin

lemma alloc_page_cases:
  assumes "inv mem" "alloc n mem = (Some a, mem')"
  obtains p where "inv mem'" "a = page_addr p" "0 < n" "p + n \<le> 2 ^ 52"
    "\<And>k. in_run p n k \<Longrightarrow> free mem k" "\<And>k. free mem' k \<longleftrightarrow> free mem k \<and> \<not> in_run p n k"
  using alloc_Some [OF assms] by blast

lemma alloc_inv: "inv mem \<Longrightarrow> inv (snd (alloc n mem))"
  by (cases "alloc n mem"; cases "fst (alloc n mem)") (auto dest: alloc_Some alloc_None)

lemma alloc_free_antimono: "inv mem \<Longrightarrow> free (snd (alloc n mem)) k \<Longrightarrow> free mem k"
  by (cases "alloc n mem"; cases "fst (alloc n mem)") (auto dest: alloc_Some alloc_None)

text \<open>What a client may write: the pages of a run it got.\<close>

lemma run_not_private:
  assumes "inv mem" "\<And>k. in_run p n k \<Longrightarrow> free mem k" "in_run p n (unat x div 4096)"
  shows "\<not> own x"
  using assms page_not_own [of mem "unat x div 4096" x] by (simp add: in_page_def)

lemma client_write:
  assumes "inv mem" and "\<And>x. own x \<Longrightarrow> mem' x = mem x"
  shows "inv mem'" and "free mem' k = free mem k"
  using free_cong [OF assms] by auto

text \<open>
  A second allocation never returns a page of a run that is no longer free, and never changes
  a byte of such a run.
\<close>

lemma alloc_avoids:
  assumes "inv mem" "\<And>k. in_run p n k \<Longrightarrow> \<not> free mem k" "alloc n' mem = (Some (page_addr q), mem')"
    and "q < 2 ^ 52" and "in_run q n' k"
  shows "\<not> in_run p n k"
proof -
  from assms(1,3) obtain q' where q': "page_addr q = page_addr q'" "0 < n'" "q' + n' \<le> 2 ^ 52"
    and fr: "\<And>k. in_run q' n' k \<Longrightarrow> free mem k"
    by (rule alloc_page_cases) blast
  then have "q' = q" using page_addr_inj [of q q'] assms(4) by auto
  with fr assms(2,5) show ?thesis by blast
qed

end

end
