(* ===== verification/Ram_Manager.thy ===== *)
theory Ram_Manager imports Page_Allocator begin

text \<open>
  The physical page allocator, \<open>kernel/src/ram.rs\<close>: a bitmap in physical memory, one bit per
  4 KiB sector, set when the sector is in use. The bitmap is not a separate object: it is the
  bytes of memory from \<open>bitmap\<close> on, read and written as the code does. Sector indices are
  \<open>usize\<close> values that never wrap in this file, so they are naturals. The line that
  \<open>allocate_sectors\<close> logs on the screen is left out here; \<open>Memory_Calls\<close> has the allocation with it.
\<close>

definition PAGE_SIZE :: u64 where "PAGE_SIZE = 4096"

record ram_manager =
  bitmap :: u64
  total_sectors :: nat

definition ram_new :: "u64 \<Rightarrow> u64 \<Rightarrow> memory \<Rightarrow> ram_manager \<times> memory" where
  "ram_new bitmap_addr total_ram mem =
     (let total = unat (total_ram div PAGE_SIZE);
          bitmap_byte_size = (total + 7) div 8;
          mem' = fold (\<lambda>i m. m(bitmap_addr + of_nat i := 0xFF)) [0..<bitmap_byte_size] mem
      in (\<lparr>bitmap = bitmap_addr, total_sectors = total\<rparr>, mem'))"

definition mark_used :: "ram_manager \<Rightarrow> nat \<Rightarrow> memory \<Rightarrow> memory" where
  "mark_used mgr sector_idx mem =
     (if sector_idx \<ge> total_sectors mgr then mem
      else let byte_idx = sector_idx div 8; bit_idx = sector_idx mod 8;
               p = bitmap mgr + of_nat byte_idx; val = mem p
           in mem(p := val OR push_bit bit_idx 1))"

definition mark_free :: "ram_manager \<Rightarrow> nat \<Rightarrow> memory \<Rightarrow> memory" where
  "mark_free mgr sector_idx mem =
     (if sector_idx \<ge> total_sectors mgr then mem
      else let byte_idx = sector_idx div 8; bit_idx = sector_idx mod 8;
               p = bitmap mgr + of_nat byte_idx; val = mem p
           in mem(p := val AND NOT (push_bit bit_idx 1)))"

definition is_used :: "ram_manager \<Rightarrow> nat \<Rightarrow> memory \<Rightarrow> bool" where
  "is_used mgr sector_idx mem =
     (if sector_idx \<ge> total_sectors mgr then True
      else let byte_idx = sector_idx div 8; bit_idx = sector_idx mod 8
           in mem (bitmap mgr + of_nat byte_idx) AND push_bit bit_idx 1 \<noteq> 0)"

text \<open>
  \<open>allocate_sectors\<close>: the scan keeps the length and the start of the current run of free
  sectors and stops at the first run of length \<open>n\<close>; then it marks the run.
\<close>

fun alloc_scan :: "ram_manager \<Rightarrow> nat \<Rightarrow> memory \<Rightarrow> nat list \<Rightarrow> nat \<Rightarrow> nat \<Rightarrow> nat option" where
  "alloc_scan mgr n mem [] consecutive start_idx = None"
| "alloc_scan mgr n mem (i # is) consecutive start_idx =
     (if \<not> is_used mgr i mem then
        let start_idx = (if consecutive = 0 then i else start_idx); consecutive = consecutive + 1
        in if consecutive = n then Some start_idx
           else alloc_scan mgr n mem is consecutive start_idx
      else alloc_scan mgr n mem is 0 start_idx)"

definition mark_range :: "ram_manager \<Rightarrow> nat \<Rightarrow> nat \<Rightarrow> memory \<Rightarrow> memory" where
  "mark_range mgr start n mem = fold (\<lambda>j. mark_used mgr (start + j)) [0..<n] mem"

definition allocate_sectors :: "ram_manager \<Rightarrow> nat \<Rightarrow> memory \<Rightarrow> u64 option \<times> memory" where
  "allocate_sectors mgr n mem =
     (case alloc_scan mgr n mem [0..<total_sectors mgr] 0 0 of
        Some start_idx \<Rightarrow> (Some (of_nat start_idx * PAGE_SIZE), mark_range mgr start_idx n mem)
      | None \<Rightarrow> (None, mem))"

text \<open>
  \<open>allocate_aligned\<close>: \<open>addr % alignment\<close> panics when the alignment is 0, but only once a free
  sector is met, because the test comes after \<open>!self.is_used(i)\<close>. The result is \<open>None\<close> for the
  panic and \<open>Some\<close> of the answer otherwise.
\<close>

fun fits :: "ram_manager \<Rightarrow> nat \<Rightarrow> memory \<Rightarrow> nat list \<Rightarrow> bool" where
  "fits mgr i mem [] = True"
| "fits mgr i mem (j # js) = (if is_used mgr (i + j) mem then False else fits mgr i mem js)"

fun aligned_scan :: "ram_manager \<Rightarrow> nat \<Rightarrow> u64 \<Rightarrow> memory \<Rightarrow> nat list \<Rightarrow> nat option option" where
  "aligned_scan mgr n alignment mem [] = Some None"
| "aligned_scan mgr n alignment mem (i # is) =
     (let addr = of_nat i * PAGE_SIZE in
      if is_used mgr i mem then aligned_scan mgr n alignment mem is
      else if alignment = 0 then None
      else if addr mod alignment = 0 \<and> fits mgr i mem [0..<n] then Some (Some i)
      else aligned_scan mgr n alignment mem is)"

definition allocate_aligned :: "ram_manager \<Rightarrow> nat \<Rightarrow> u64 \<Rightarrow> memory \<Rightarrow> (u64 option \<times> memory) option" where
  "allocate_aligned mgr n alignment mem =
     (case aligned_scan mgr n alignment mem [0..<total_sectors mgr] of
        None \<Rightarrow> None
      | Some None \<Rightarrow> Some (None, mem)
      | Some (Some i) \<Rightarrow> Some (Some (of_nat i * PAGE_SIZE), mark_range mgr i n mem))"

text \<open>\<open>allocate_sectors_direct\<close>: \<open>RAM_MGR.as_ref().unwrap()\<close> panics before \<open>kmain\<close> set it.\<close>

definition allocate_sectors_direct :: "ram_manager option \<Rightarrow> nat \<Rightarrow> memory \<Rightarrow> (u64 \<times> memory) option" where
  "allocate_sectors_direct ram_mgr n mem =
     (case ram_mgr of None \<Rightarrow> None
      | Some mgr \<Rightarrow>
          (case allocate_sectors mgr n mem of
             (Some addr, mem') \<Rightarrow> Some (addr, mem')
           | (None, mem') \<Rightarrow> Some (0xFFFFFFFFFFFFFFFF, mem')))"

section \<open>Bits of the bitmap\<close>

text \<open>The manager's counts come from \<open>total_ram / 4096\<close>, hence stay below \<open>2 ^ 52\<close>.\<close>

definition ram_ok :: "ram_manager \<Rightarrow> bool" where
  "ram_ok mgr \<longleftrightarrow> total_sectors mgr \<le> 2 ^ 52"

lemma ram_okD: "ram_ok mgr \<Longrightarrow> k < total_sectors mgr \<Longrightarrow> k < 2 ^ 52"
  by (simp add: ram_ok_def)

lemma ram_ok_byte: "ram_ok mgr \<Longrightarrow> k < total_sectors mgr \<Longrightarrow> k div 8 < 18446744073709551616"
  by (drule (1) ram_okD) simp

lemma is_used_bit:
  "is_used mgr k mem \<longleftrightarrow>
     total_sectors mgr \<le> k \<or> bit (mem (bitmap mgr + of_nat (k div 8))) (k mod 8)"
  by (simp add: is_used_def Let_def and_exp_iff)

lemma is_used_outside [simp]: "total_sectors mgr \<le> k \<Longrightarrow> is_used mgr k mem"
  by (simp add: is_used_bit)

lemma same_sector_iff: "(k::nat) div 8 = j div 8 \<and> k mod 8 = j mod 8 \<longleftrightarrow> k = j"
  by (metis div_mult_mod_eq)

lemma is_used_mark_used [simp]:
  assumes "ram_ok mgr" "k < total_sectors mgr"
  shows "is_used mgr j (mark_used mgr k mem) \<longleftrightarrow> j = k \<or> is_used mgr j mem"
proof (cases "j < total_sectors mgr")
  case True
  have "bitmap mgr + of_nat (j div 8) = bitmap mgr + of_nat (k div 8) \<longleftrightarrow> j div 8 = k div 8"
    using assms True by (intro add_of_nat_u64_inj) (simp_all add: ram_ok_byte)
  with assms True same_sector_iff [of j k] show ?thesis
    by (auto simp: is_used_bit mark_used_def Let_def bit_or_exp)
qed simp

lemma is_used_mark_free [simp]:
  assumes "ram_ok mgr" "k < total_sectors mgr"
  shows "is_used mgr j (mark_free mgr k mem) \<longleftrightarrow> j \<noteq> k \<and> is_used mgr j mem"
proof (cases "j < total_sectors mgr")
  case True
  have "bitmap mgr + of_nat (j div 8) = bitmap mgr + of_nat (k div 8) \<longleftrightarrow> j div 8 = k div 8"
    using assms True by (intro add_of_nat_u64_inj) (simp_all add: ram_ok_byte)
  with assms True same_sector_iff [of j k] show ?thesis
    by (auto simp: is_used_bit mark_free_def Let_def bit_and_not_exp)
next
  case False
  with assms show ?thesis by auto
qed

lemma mark_used_outside [simp]: "total_sectors mgr \<le> k \<Longrightarrow> mark_used mgr k mem = mem"
  by (simp add: mark_used_def)

lemma mark_free_outside [simp]: "total_sectors mgr \<le> k \<Longrightarrow> mark_free mgr k mem = mem"
  by (simp add: mark_free_def)

lemma is_used_mark_range:
  assumes "ram_ok mgr" "s + n \<le> total_sectors mgr"
  shows "is_used mgr j (mark_range mgr s n mem) \<longleftrightarrow> (s \<le> j \<and> j < s + n) \<or> is_used mgr j mem"
  using assms by (induction n) (auto simp: mark_range_def)

section \<open>The bitmap's bytes\<close>

definition bitmap_bytes :: "ram_manager \<Rightarrow> nat" where
  "bitmap_bytes mgr = (total_sectors mgr + 7) div 8"

definition in_bitmap :: "ram_manager \<Rightarrow> u64 \<Rightarrow> bool" where
  "in_bitmap mgr x \<longleftrightarrow> in_region (bitmap mgr) (bitmap_bytes mgr) x"

lemma bitmap_byte_in: "ram_ok mgr \<Longrightarrow> k < total_sectors mgr \<Longrightarrow> in_bitmap mgr (bitmap mgr + of_nat (k div 8))"
  using ram_ok_byte [of mgr k] by (simp add: in_bitmap_def bitmap_bytes_def)

lemma is_used_cong:
  "ram_ok mgr \<Longrightarrow> (\<And>x. in_bitmap mgr x \<Longrightarrow> mem' x = mem x) \<Longrightarrow> is_used mgr k mem' = is_used mgr k mem"
  by (cases "k < total_sectors mgr") (auto simp add: is_used_bit bitmap_byte_in)

lemma mark_used_frame: "ram_ok mgr \<Longrightarrow> \<not> in_bitmap mgr x \<Longrightarrow> mark_used mgr k mem x = mem x"
  using bitmap_byte_in [of mgr k] by (auto simp: mark_used_def Let_def)

lemma mark_free_frame: "ram_ok mgr \<Longrightarrow> \<not> in_bitmap mgr x \<Longrightarrow> mark_free mgr k mem x = mem x"
  using bitmap_byte_in [of mgr k] by (auto simp: mark_free_def Let_def)

lemma mark_range_frame: "ram_ok mgr \<Longrightarrow> \<not> in_bitmap mgr x \<Longrightarrow> mark_range mgr s n mem x = mem x"
  by (induction n) (simp_all add: mark_range_def mark_used_frame)

section \<open>What the allocation scans find\<close>

text \<open>The reference: the least start of a run of \<open>n\<close> free sectors.\<close>

definition free_run :: "ram_manager \<Rightarrow> memory \<Rightarrow> nat \<Rightarrow> nat \<Rightarrow> bool" where
  "free_run mgr mem n s \<longleftrightarrow> (\<forall>k\<in>{s..< s + n}. \<not> is_used mgr k mem)"

definition first_run :: "ram_manager \<Rightarrow> memory \<Rightarrow> nat \<Rightarrow> nat option" where
  "first_run mgr mem n = find (free_run mgr mem n) [0..<total_sectors mgr]"

lemma free_run_bound: "0 < n \<Longrightarrow> free_run mgr mem n s \<Longrightarrow> s + n \<le> total_sectors mgr"
proof (rule ccontr)
  assume n: "0 < n" and fr: "free_run mgr mem n s" and "\<not> s + n \<le> total_sectors mgr"
  then have "is_used mgr (s + n - 1) mem" by simp
  moreover have "s + n - 1 \<in> {s..< s + n}" using n by auto
  ultimately show False using fr by (auto simp: free_run_def)
qed

lemma find_upt_Some:
  "find P [0..<t] = Some s \<longleftrightarrow> s < t \<and> P s \<and> (\<forall>s'< s. \<not> P s')"
  by (auto simp: find_Some_iff)

lemma find_upt_None: "find P [0..<t] = None \<longleftrightarrow> (\<forall>s<t. \<not> P s)"
  by (auto simp: find_None_iff)

text \<open>
  The invariant of the scan at index \<open>i\<close> with a current run of length \<open>c\<close>: the last \<open>c\<close>
  sectors are free, the run is shorter than \<open>n\<close>, and no run of length \<open>n\<close> starts before it.
\<close>

lemma alloc_scan_invariant:
  assumes "0 < n" "i + length is = total_sectors mgr" "is = [i..<total_sectors mgr]"
    and "c \<le> i" "c < n" "0 < c \<longrightarrow> start = i - c"
    and "\<forall>k\<in>{i - c..<i}. \<not> is_used mgr k mem" "\<forall>s<i - c. \<not> free_run mgr mem n s"
  shows "alloc_scan mgr n mem is c start = first_run mgr mem n"
  using assms(2-)
proof (induction "is" arbitrary: i c start)
  case Nil
  have "\<not> free_run mgr mem n s" if "s < total_sectors mgr" for s
  proof
    assume fr: "free_run mgr mem n s"
    then have "s + n \<le> i" using free_run_bound [OF assms(1) fr] Nil by simp
    with Nil fr show False by (auto simp: not_le)
  qed
  then have "first_run mgr mem n = None"
    unfolding first_run_def find_upt_None by simp
  then show ?case by simp
next
  case (Cons x xs)
  have x: "x = i" and xs: "xs = [Suc i..<total_sectors mgr]" and i: "i < total_sectors mgr"
    using Cons.prems(2) [symmetric] by (auto simp: upt_eq_Cons_conv)
  show ?case
  proof (cases "is_used mgr i mem")
    case True
    have "\<not> free_run mgr mem n s" if "s < Suc i" for s
    proof (cases "s < i - c")
      case True
      with Cons.prems show ?thesis by blast
    next
      case False
      with that Cons.prems have "i \<in> {s..< s + n}" by auto
      with True show ?thesis by (auto simp: free_run_def)
    qed
    then have "alloc_scan mgr n mem xs 0 start = first_run mgr mem n"
      using Cons.prems i xs assms(1) by (intro Cons.IH [of "Suc i"]) auto
    with True x show ?thesis by simp
  next
    case False
    define start' where "start' = (if c = 0 then i else start)"
    have start': "start' = i - c" using Cons.prems by (auto simp: start'_def)
    show ?thesis
    proof (cases "c + 1 = n")
      case True
      have "{start'..<start' + n} = insert i {i - c..<i}"
        using True start' Cons.prems by auto
      then have "free_run mgr mem n start'"
        using False Cons.prems by (simp add: free_run_def)
      moreover have "start' < total_sectors mgr" using start' i by simp
      ultimately have "first_run mgr mem n = Some start'"
        using Cons.prems start' unfolding first_run_def find_upt_Some by blast
      with False True x show ?thesis by (simp add: start'_def)
    next
      case notn: False
      have "alloc_scan mgr n mem xs (c + 1) start' = first_run mgr mem n"
      proof (rule Cons.IH [of "Suc i"])
        show "\<forall>k\<in>{Suc i - (c + 1)..<Suc i}. \<not> is_used mgr k mem"
          using False Cons.prems by (auto simp: less_Suc_eq)
      qed (use Cons.prems i xs notn start' in auto)
      with False notn x show ?thesis by (simp add: start'_def)
    qed
  qed
qed

lemma alloc_scan_first_run: "0 < n \<Longrightarrow> alloc_scan mgr n mem [0..<total_sectors mgr] 0 0 = first_run mgr mem n"
  by (rule alloc_scan_invariant [where i = 0]) auto

lemma alloc_scan_0: "alloc_scan mgr 0 mem is c start = None"
  by (induction "is" arbitrary: c start) (simp_all add: Let_def)

text \<open>The whole allocation against the reference; \<open>n = 0\<close> finds nothing, as in the code.\<close>

lemma allocate_sectors_eq:
  "allocate_sectors mgr n mem =
     (if n = 0 then (None, mem)
      else case first_run mgr mem n of
        Some s \<Rightarrow> (Some (page_addr s), mark_range mgr s n mem) | None \<Rightarrow> (None, mem))"
  by (simp add: allocate_sectors_def alloc_scan_0 alloc_scan_first_run page_addr_def PAGE_SIZE_def
      split: option.split)

lemma first_run_Some:
  assumes "0 < n" "first_run mgr mem n = Some s"
  shows "s + n \<le> total_sectors mgr" "free_run mgr mem n s" "\<And>s'. s' < s \<Longrightarrow> \<not> free_run mgr mem n s'"
  using assms free_run_bound unfolding first_run_def find_upt_Some by auto

lemma first_run_None:
  assumes "0 < n" "first_run mgr mem n = None"
  shows "\<not> free_run mgr mem n s"
  using assms free_run_bound [OF assms(1), of mgr mem s]
  unfolding first_run_def find_upt_None by force

lemma free_run_iff: "free_run mgr mem n s \<longleftrightarrow> (\<forall>k. in_run s n k \<longrightarrow> \<not> is_used mgr k mem)"
  by (auto simp: free_run_def in_run_def)

section \<open>The manager provides the page allocator\<close>

text \<open>
  Well-formed: counts in range, and no page that holds a byte of the bitmap is free. The boot
  code establishes this by freeing only addresses from \<open>0x4000000\<close> on
  (\<open>Boot_Memory\<close>); allocation and writes outside the bitmap keep it.
\<close>

definition ram_wf :: "ram_manager \<Rightarrow> memory \<Rightarrow> bool" where
  "ram_wf mgr mem \<longleftrightarrow> ram_ok mgr \<and> (\<forall>x. in_bitmap mgr x \<longrightarrow> is_used mgr (unat x div 4096) mem)"

lemma ram_wf_ok: "ram_wf mgr mem \<Longrightarrow> ram_ok mgr"
  by (simp add: ram_wf_def)

lemma is_used_mark_range_run:
  "ram_ok mgr \<Longrightarrow> p + n \<le> total_sectors mgr \<Longrightarrow>
   is_used mgr k (mark_range mgr p n mem) \<longleftrightarrow> in_run p n k \<or> is_used mgr k mem"
  by (simp add: is_used_mark_range in_run_def)

lemma allocate_Some_cases:
  assumes "allocate_sectors mgr n mem = (Some a, mem')"
  obtains p where "0 < n" "first_run mgr mem n = Some p" "a = page_addr p"
    "mem' = mark_range mgr p n mem" "p + n \<le> total_sectors mgr" "free_run mgr mem n p"
  using assms first_run_Some [of n mgr mem]
  by (auto simp: allocate_sectors_eq split: if_splits option.splits)

lemma allocate_None_iff:
  "fst (allocate_sectors mgr n mem) = None \<longleftrightarrow> n = 0 \<or> (\<forall>s. \<not> free_run mgr mem n s)"
  using first_run_None [of n mgr mem] first_run_Some(2) [of n mgr mem]
  by (auto simp: allocate_sectors_eq split: option.splits)

lemma allocate_None_mem: "allocate_sectors mgr n mem = (None, mem') \<Longrightarrow> mem' = mem"
  by (auto simp: allocate_sectors_eq split: if_splits option.splits)

lemma allocate_frame: "ram_ok mgr \<Longrightarrow> \<not> in_bitmap mgr x \<Longrightarrow> snd (allocate_sectors mgr n mem) x = mem x"
  by (auto simp: allocate_sectors_eq mark_range_frame split: option.splits)

interpretation ram: page_allocator
  "allocate_sectors mgr" "\<lambda>mem k. \<not> is_used mgr k mem" "in_bitmap mgr" "ram_wf mgr" for mgr
proof unfold_locales
  fix mem mem' :: memory and n a
  assume wf: "ram_wf mgr mem" and al: "allocate_sectors mgr n mem = (Some a, mem')"
  note ok = ram_wf_ok [OF wf]
  from al obtain p where p: "0 < n" "a = page_addr p" "mem' = mark_range mgr p n mem"
      "p + n \<le> total_sectors mgr" "free_run mgr mem n p"
    by (rule allocate_Some_cases)
  have "ram_wf mgr mem'"
    using wf p ok by (auto simp: ram_wf_def is_used_mark_range_run)
  moreover have "p + n \<le> 2 ^ 52" using p(4) ok by (simp add: ram_ok_def)
  ultimately show "ram_wf mgr mem' \<and> (\<exists>p. a = page_addr p \<and> 0 < n \<and> p + n \<le> 2 ^ 52
      \<and> (\<forall>k. in_run p n k \<longrightarrow> \<not> is_used mgr k mem)
      \<and> (\<forall>k. (\<not> is_used mgr k mem') = (\<not> is_used mgr k mem \<and> \<not> in_run p n k)))"
    using p ok by (auto simp: is_used_mark_range_run free_run_iff)
next
  fix mem mem' :: memory and n
  assume "allocate_sectors mgr n mem = (None, mem')"
  then show "mem' = mem" by (rule allocate_None_mem)
next
  fix mem :: memory and n p
  assume n: "0 < n" and "\<And>k. in_run p n k \<Longrightarrow> \<not> is_used mgr k mem"
  then have "free_run mgr mem n p" by (simp add: free_run_iff)
  then show "fst (allocate_sectors mgr n mem) \<noteq> None"
    using n unfolding allocate_None_iff by blast
next
  fix mem :: memory and x n
  assume "ram_wf mgr mem" "\<not> in_bitmap mgr x"
  then show "snd (allocate_sectors mgr n mem) x = mem x"
    by (simp add: ram_wf_ok allocate_frame)
next
  fix mem mem' :: memory and k
  assume wf: "ram_wf mgr mem" and eq: "\<And>x. in_bitmap mgr x \<Longrightarrow> mem' x = mem x"
  have same: "is_used mgr j mem' = is_used mgr j mem" for j
    by (rule is_used_cong [OF ram_wf_ok [OF wf]]) (rule eq)
  from wf have "ram_wf mgr mem'" by (simp add: ram_wf_def same)
  then show "ram_wf mgr mem' \<and> (\<not> is_used mgr k mem') = (\<not> is_used mgr k mem)"
    by (simp add: same)
next
  fix mem :: memory and k x
  assume "ram_wf mgr mem" "\<not> is_used mgr k mem" "in_page k x"
  then show "\<not> in_bitmap mgr x" by (auto simp: ram_wf_def in_page_def)
qed

section \<open>The aligned scan\<close>

lemma fits_iff: "fits mgr i mem js \<longleftrightarrow> (\<forall>j\<in>set js. \<not> is_used mgr (i + j) mem)"
  by (induction js) auto

lemma fits_free_run: "fits mgr i mem [0..<n] \<longleftrightarrow> free_run mgr mem n i"
proof -
  have "{i..<i + n} = (+) i ` {0..<n}" by (simp add: add.commute)
  then show ?thesis by (simp add: fits_iff free_run_def del: image_add_atLeastLessThan)
qed

lemma aligned_scan_eq:
  assumes "alignment \<noteq> 0"
  shows "aligned_scan mgr n alignment mem is =
    Some (find (\<lambda>i. \<not> is_used mgr i mem \<and> page_addr i mod alignment = 0 \<and> free_run mgr mem n i) is)"
  using assms by (induction "is") (simp_all add: fits_free_run page_addr_def PAGE_SIZE_def Let_def)

lemma aligned_scan_0:
  "aligned_scan mgr n 0 mem is = (if \<forall>i\<in>set is. is_used mgr i mem then Some None else None)"
  by (induction "is") (simp_all add: Let_def)

section \<open>Release: the \<open>SYS_MUNMAP\<close> loop\<close>

text \<open>
  Syscall 33 (\<open>kernel/src/interrupts.rs\<close>) frees \<open>pages\<close> sectors from \<open>addr / 4096\<close> on; the sum
  \<open>start_sector + i\<close> wraps at \<open>2 ^ 64\<close>. The dispatcher (\<open>Syscalls\<close>) calls it.
\<close>

definition munmap_loop :: "ram_manager \<Rightarrow> u64 \<Rightarrow> nat \<Rightarrow> memory \<Rightarrow> memory" where
  "munmap_loop mgr addr pages mem =
     (let start_sector = unat (addr div 4096)
      in fold (\<lambda>i. mark_free mgr ((start_sector + i) mod 2 ^ 64)) [0..<pages] mem)"

lemma page_addr_div: "p < 2 ^ 52 \<Longrightarrow> unat (page_addr p div 4096) = p"
  by (simp add: unat_div unat_page_addr)

lemma is_used_mark_free_iff:
  "ram_ok mgr \<Longrightarrow> is_used mgr j (mark_free mgr k mem) \<longleftrightarrow>
     (if k < total_sectors mgr then j \<noteq> k \<and> is_used mgr j mem else is_used mgr j mem)"
  by (simp add: not_less)

lemma is_used_munmap:
  assumes "ram_ok mgr" "p + n \<le> total_sectors mgr" "0 < n"
  shows "is_used mgr j (munmap_loop mgr (page_addr p) n mem) \<longleftrightarrow> \<not> in_run p n j \<and> is_used mgr j mem"
proof -
  have p: "p < 2 ^ 52" and sum: "\<And>i. i < n \<Longrightarrow> (p + i) mod 2 ^ 64 = p + i"
    using assms by (auto simp: ram_ok_def)
  have "is_used mgr j (fold (\<lambda>i. mark_free mgr ((p + i) mod 2 ^ 64)) [0..<m] mem) \<longleftrightarrow>
      \<not> in_run p m j \<and> is_used mgr j mem" if "m \<le> n" for m
    using that
  proof (induction m)
    case 0
    then show ?case by (simp add: in_run_def)
  next
    case (Suc m)
    with sum [of m] assms show ?case
      by (auto simp: is_used_mark_free_iff in_run_def less_Suc_eq)
  qed
  from this [of n] show ?thesis by (simp add: munmap_loop_def Let_def page_addr_div [OF p])
qed

lemma munmap_frame: "ram_ok mgr \<Longrightarrow> \<not> in_bitmap mgr x \<Longrightarrow> munmap_loop mgr addr n mem x = mem x"
  unfolding munmap_loop_def Let_def by (induction n) (simp_all add: mark_free_frame)

text \<open>Releasing a block that was free before its allocation gives the very same memory back.\<close>

definition bit_pos :: "ram_manager \<Rightarrow> nat \<Rightarrow> u64 \<Rightarrow> nat \<Rightarrow> bool" where
  "bit_pos mgr k x b \<longleftrightarrow> k < total_sectors mgr \<and> x = bitmap mgr + of_nat (k div 8) \<and> b = k mod 8"

lemma bit_mark_used: "bit (mark_used mgr k mem x) b \<longleftrightarrow> bit (mem x) b \<or> bit_pos mgr k x b"
  by (auto simp: mark_used_def Let_def bit_or_exp bit_pos_def)

lemma bit_mark_free: "bit (mark_free mgr k mem x) b \<longleftrightarrow> bit (mem x) b \<and> \<not> bit_pos mgr k x b"
  by (auto simp: mark_free_def Let_def bit_and_not_exp bit_pos_def)

lemma in_run_Suc: "in_run p (Suc n) k \<longleftrightarrow> in_run p n k \<or> k = p + n"
  by (auto simp: in_run_def)

lemma in_run_0 [simp]: "\<not> in_run p 0 k"
  by (simp add: in_run_def)

lemma bit_mark_range:
  "bit (mark_range mgr p n mem x) b \<longleftrightarrow> bit (mem x) b \<or> (\<exists>k. in_run p n k \<and> bit_pos mgr k x b)"
  by (induction n) (auto simp: mark_range_def bit_mark_used in_run_Suc)

lemma bit_munmap:
  assumes "p + n \<le> 2 ^ 52" "0 < n"
  shows "bit (munmap_loop mgr (page_addr p) n mem x) b \<longleftrightarrow>
    bit (mem x) b \<and> \<not> (\<exists>k. in_run p n k \<and> bit_pos mgr k x b)"
proof -
  have p: "p < 2 ^ 52" and sum: "\<And>i. i < n \<Longrightarrow> (p + i) mod 18446744073709551616 = p + i"
    using assms by auto
  have "bit (fold (\<lambda>i. mark_free mgr ((p + i) mod 2 ^ 64)) [0..<m] mem x) b \<longleftrightarrow>
      bit (mem x) b \<and> \<not> (\<exists>k. in_run p m k \<and> bit_pos mgr k x b)" if "m \<le> n" for m
    using that
    by (induction m) (auto simp: bit_mark_free in_run_Suc sum)
  from this [of n] show ?thesis by (simp add: munmap_loop_def Let_def page_addr_div [OF p])
qed

lemma free_bit: "free_run mgr mem n p \<Longrightarrow> in_run p n k \<Longrightarrow> bit_pos mgr k x b \<Longrightarrow> \<not> bit (mem x) b"
  by (auto simp: free_run_iff is_used_bit bit_pos_def)

lemma munmap_mark_range:
  assumes "free_run mgr mem n p" "p + n \<le> 2 ^ 52" "0 < n"
  shows "munmap_loop mgr (page_addr p) n (mark_range mgr p n mem) = mem"
proof
  fix x
  show "munmap_loop mgr (page_addr p) n (mark_range mgr p n mem) x = mem x"
    by (rule bit_word_eqI) (use assms in \<open>auto simp: bit_munmap bit_mark_range dest: free_bit\<close>)
qed

section \<open>Clients over time\<close>

text \<open>
  A run of the memory system calls by clients that release only what they were given: the state
  is the list of the blocks handed out and not yet released (first sector and length) and the
  memory. A client may store to any byte of its own blocks at any time.
\<close>

type_synonym ram_state = "(nat \<times> nat) list \<times> memory"

inductive ram_step :: "ram_manager \<Rightarrow> ram_state \<Rightarrow> ram_state \<Rightarrow> bool" for mgr where
  mget: "allocate_sectors mgr n mem = (Some a, mem') \<Longrightarrow>
     ram_step mgr (live, mem) ((unat (a div 4096), n) # live, mem')"
| mget_fails: "allocate_sectors mgr n mem = (None, mem') \<Longrightarrow> ram_step mgr (live, mem) (live, mem')"
| munmap: "(p, n) \<in> set live \<Longrightarrow>
     ram_step mgr (live, mem) (remove1 (p, n) live, munmap_loop mgr (page_addr p) n mem)"
| store: "(p, n) \<in> set live \<Longrightarrow> in_run p n (unat x div 4096) \<Longrightarrow>
     ram_step mgr (live, mem) (live, mem(x := v))"

inductive ram_reachable :: "ram_manager \<Rightarrow> memory \<Rightarrow> ram_state \<Rightarrow> bool" for mgr mem0 where
  start: "ram_reachable mgr mem0 ([], mem0)"
| step: "ram_reachable mgr mem0 st \<Longrightarrow> ram_step mgr st st' \<Longrightarrow> ram_reachable mgr mem0 st'"

inductive_cases ram_stepE: "ram_step mgr (live, mem) (live', mem')"

definition holders :: "(nat \<times> nat) list \<Rightarrow> nat \<Rightarrow> nat" where
  "holders live k = length (filter (\<lambda>(p, n). in_run p n k) live)"

definition block_ok :: "ram_manager \<Rightarrow> memory \<Rightarrow> nat \<times> nat \<Rightarrow> bool" where
  "block_ok mgr mem b \<longleftrightarrow> (case b of (p, n) \<Rightarrow> 0 < n \<and> p + n \<le> total_sectors mgr \<and>
     (\<forall>k. in_run p n k \<longrightarrow> is_used mgr k mem \<and> (\<forall>x. in_page k x \<longrightarrow> \<not> in_bitmap mgr x)))"

definition ram_inv :: "ram_manager \<Rightarrow> ram_state \<Rightarrow> bool" where
  "ram_inv mgr st \<longleftrightarrow> (case st of (live, mem) \<Rightarrow>
     ram_wf mgr mem \<and> (\<forall>b\<in>set live. block_ok mgr mem b) \<and> (\<forall>k. holders live k \<le> 1))"

lemma holders_Cons [simp]:
  "holders ((p, n) # live) k = (if in_run p n k then 1 else 0) + holders live k"
  by (simp add: holders_def)

lemma holders_0: "(\<And>p n. (p, n) \<in> set live \<Longrightarrow> \<not> in_run p n k) \<Longrightarrow> holders live k = 0"
  by (induction live) (auto simp: holders_def)

lemma holders_pos: "(p, n) \<in> set live \<Longrightarrow> in_run p n k \<Longrightarrow> 0 < holders live k"
  by (induction live) (auto simp: holders_def)

lemma holders_remove1:
  "(p, n) \<in> set live \<Longrightarrow>
   holders live k = (if in_run p n k then 1 else 0) + holders (remove1 (p, n) live) k"
  by (induction live) (auto simp: holders_def)

lemma block_okD:
  assumes "block_ok mgr mem (p, n)" "in_run p n k"
  shows "is_used mgr k mem" "\<And>x. in_page k x \<Longrightarrow> \<not> in_bitmap mgr x"
  using assms by (auto simp: block_ok_def)

lemma block_ok_mono:
  "block_ok mgr mem (p, n) \<Longrightarrow> (\<And>k. in_run p n k \<Longrightarrow> is_used mgr k mem \<Longrightarrow> is_used mgr k mem') \<Longrightarrow>
   block_ok mgr mem' (p, n)"
  by (auto simp: block_ok_def)

lemma ram_step_inv:
  assumes "ram_step mgr st st'" "ram_inv mgr st"
  shows "ram_inv mgr st'"
  using assms
proof (induction rule: ram_step.induct)
  case (mget n mem a mem' live)
  then have wf: "ram_wf mgr mem" and inv: "\<forall>b\<in>set live. block_ok mgr mem b" "\<forall>k. holders live k \<le> 1"
    by (auto simp: ram_inv_def)
  from ram.alloc_page_cases [OF wf mget.hyps] obtain p where p: "ram_wf mgr mem'" "a = page_addr p"
      "0 < n" "p + n \<le> 2 ^ 52" and fr: "\<And>k. in_run p n k \<Longrightarrow> \<not> is_used mgr k mem"
      and us: "\<And>k. \<not> is_used mgr k mem' \<longleftrightarrow> \<not> is_used mgr k mem \<and> \<not> in_run p n k"
    by blast
  then have a: "unat (a div 4096) = p" by (simp add: page_addr_div)
  have tot: "p + n \<le> total_sectors mgr"
    using fr p(3) free_run_bound [of n mgr mem p] by (simp add: free_run_iff)
  have "block_ok mgr mem' (p, n)"
    using fr us p(3) tot ram.page_not_own [OF wf] by (auto simp: block_ok_def)
  moreover have "block_ok mgr mem' b" if "b \<in> set live" for b
  proof -
    obtain q i where "b = (q, i)" by (cases b)
    with that inv us show ?thesis by (blast intro: block_ok_mono)
  qed
  moreover have "holders live k = 0" if "in_run p n k" for k
    using inv fr [OF that] by (intro holders_0) (auto dest: block_okD)
  ultimately show ?case using p(1) inv a by (auto simp: ram_inv_def)
next
  case (mget_fails n mem mem' live)
  then show ?case by (auto dest: allocate_None_mem)
next
  case (munmap p n live mem)
  let ?mem = "munmap_loop mgr (page_addr p) n mem"
  from munmap have wf: "ram_wf mgr mem" and ok: "\<forall>b\<in>set live. block_ok mgr mem b"
    and one: "\<And>k. holders live k \<le> 1" and b: "block_ok mgr mem (p, n)"
    by (auto simp: ram_inv_def)
  have us: "is_used mgr k ?mem \<longleftrightarrow> \<not> in_run p n k \<and> is_used mgr k mem" for k
    using b ram_wf_ok [OF wf] by (intro is_used_munmap) (auto simp: block_ok_def)
  have "ram_wf mgr ?mem"
    using wf block_okD(2) [OF b] by (auto simp: ram_wf_def us in_page_def)
  moreover have "block_ok mgr ?mem c" if c: "c \<in> set (remove1 (p, n) live)" for c
  proof (cases c)
    case (Pair q i)
    have "\<not> in_run p n k" if "in_run q i k" for k
      using holders_remove1 [OF munmap.hyps, of k] one [of k] holders_pos [of q i _ k] c that Pair
      by fastforce
    with ok c Pair us notin_set_remove1 show ?thesis by (metis block_ok_mono)
  qed
  moreover have "holders (remove1 (p, n) live) k \<le> 1" for k
    using holders_remove1 [OF munmap.hyps, of k] one [of k] by simp
  ultimately show ?case by (simp add: ram_inv_def)
next
  case (store p n live x mem v)
  then have wf: "ram_wf mgr mem" and b: "block_ok mgr mem (p, n)" by (auto simp: ram_inv_def)
  have x: "\<not> in_bitmap mgr x" using block_okD(2) [OF b store.hyps(2)] by (simp add: in_page_def)
  have same: "is_used mgr k (mem(x := v)) = is_used mgr k mem" for k
    by (rule is_used_cong [OF ram_wf_ok [OF wf]]) (use x in auto)
  then show ?case using store by (auto simp: ram_inv_def ram_wf_def block_ok_def)
qed

lemma ram_reachable_inv: "ram_wf mgr mem0 \<Longrightarrow> ram_reachable mgr mem0 st \<Longrightarrow> ram_inv mgr st"
proof (rotate_tac, induction rule: ram_reachable.induct)
  case start
  then show ?case by (simp add: ram_inv_def holders_def)
next
  case (step st st')
  then show ?case by (blast intro: ram_step_inv)
qed

section \<open>Properties\<close>

text \<open>A 16-sector memory whose bitmap is at \<open>0x1000\<close>, for the witnesses.\<close>

lemma example_allocation:
  "allocate_sectors \<lparr>bitmap = 0x1000, total_sectors = 16\<rparr> 2 ((\<lambda>_. 0)(0x1000 := 0x0B)) =
     (Some 0x4000, (\<lambda>_. 0)(0x1000 := 0x3B))"
  by (simp add: allocate_sectors_def is_used_def mark_range_def mark_used_def PAGE_SIZE_def
      upt_eval Let_def)

text \<open>
  C22. \<open>allocate_sectors(n)\<close> is first fit. When it returns an address, that is the start of the
  lowest run of \<open>n\<close> free sectors that exists, exactly this run becomes used, and no byte outside
  the bitmap changes. When it returns \<open>None\<close> nothing changes, and either \<open>n\<close> is 0 or there is no
  run of \<open>n\<close> free sectors at all.
\<close>

theorem allocate_sectors_first_fit:
  assumes "ram_ok mgr"
  shows "case allocate_sectors mgr n mem of
      (Some a, mem') \<Rightarrow> \<exists>s. a = of_nat s * 4096 \<and> 0 < n \<and> s + n \<le> total_sectors mgr
          \<and> (\<forall>k. s \<le> k \<and> k < s + n \<longrightarrow> \<not> is_used mgr k mem)
          \<and> (\<forall>t. t < s \<longrightarrow> (\<exists>k. t \<le> k \<and> k < t + n \<and> is_used mgr k mem))
          \<and> (\<forall>k. is_used mgr k mem' \<longleftrightarrow> s \<le> k \<and> k < s + n \<or> is_used mgr k mem)
          \<and> (\<forall>x. \<not> in_bitmap mgr x \<longrightarrow> mem' x = mem x)
    | (None, mem') \<Rightarrow> mem' = mem
          \<and> (n = 0 \<or> (\<forall>s. \<exists>k. s \<le> k \<and> k < s + n \<and> is_used mgr k mem))"
proof (cases "allocate_sectors mgr n mem")
  case (Pair r mem')
  show ?thesis
  proof (cases r)
    case None
    with Pair allocate_None_mem [of mgr n mem mem'] allocate_None_iff [of mgr n mem]
    show ?thesis by (simp add: free_run_iff in_run_def)
  next
    case (Some a)
    with Pair obtain p where p: "0 < n" "first_run mgr mem n = Some p" "a = page_addr p"
        "mem' = mark_range mgr p n mem" "p + n \<le> total_sectors mgr" "free_run mgr mem n p"
      by (auto elim: allocate_Some_cases)
    have "\<exists>k. t \<le> k \<and> k < t + n \<and> is_used mgr k mem" if "t < p" for t
      using first_run_Some(3) [OF p(1,2) that] by (auto simp: free_run_iff in_run_def)
    with p assms show ?thesis
      unfolding Pair Some prod.case option.case
      by (intro exI [of _ p])
        (simp add: page_addr_def free_run_iff in_run_def is_used_mark_range mark_range_frame)
  qed
qed

theorem allocate_sectors_first_fit_witness:
  "allocate_sectors \<lparr>bitmap = 0x1000, total_sectors = 16\<rparr> 2 ((\<lambda>_. 0)(0x1000 := 0x0B)) =
     (Some 0x4000, (\<lambda>_. 0)(0x1000 := 0x3B)) \<and>
   (\<exists>s. (0x4000 :: u64) = of_nat s * 4096 \<and>
     (\<forall>t. t < s \<longrightarrow> (\<exists>k. t \<le> k \<and> k < t + 2 \<and>
        is_used \<lparr>bitmap = 0x1000, total_sectors = 16\<rparr> k ((\<lambda>_. 0)(0x1000 := 0x0B)))))"
proof -
  let ?mgr = "\<lparr>bitmap = 0x1000, total_sectors = 16\<rparr>" and ?mem = "(\<lambda>_. 0)(0x1000 := 0x0B) :: memory"
  have run: "allocate_sectors ?mgr 2 ?mem = (Some 0x4000, (\<lambda>_. 0)(0x1000 := 0x3B))"
    by (rule example_allocation)
  have "ram_ok ?mgr" by (simp add: ram_ok_def)
  from allocate_sectors_first_fit [OF this, where n = 2 and mem = ?mem] run show ?thesis
    by (auto simp del: fun_upd_apply)
qed

text \<open>
  \<open>allocate_aligned(n, alignment)\<close> panics exactly when the alignment is 0 and some sector is
  free; otherwise it returns the lowest aligned start of a run of \<open>n\<close> free sectors and marks
  the run, or \<open>None\<close> with the bitmap unchanged when there is none. A request for 0 pages succeeds
  at the first aligned free sector and marks nothing.
\<close>

theorem allocate_aligned_spec:
  "allocate_aligned mgr n alignment mem =
     (if alignment = 0 \<and> (\<exists>i<total_sectors mgr. \<not> is_used mgr i mem) then None
      else if alignment = 0 then Some (None, mem)
      else case find (\<lambda>i. \<not> is_used mgr i mem \<and> page_addr i mod alignment = 0
                       \<and> free_run mgr mem n i) [0..<total_sectors mgr] of
          None \<Rightarrow> Some (None, mem)
        | Some i \<Rightarrow> Some (Some (page_addr i), mark_range mgr i n mem))"
  by (cases "alignment = 0")
    (auto simp: allocate_aligned_def aligned_scan_eq aligned_scan_0 page_addr_def PAGE_SIZE_def
      split: option.split)

text \<open>
  Allocation and \<open>SYS_MUNMAP\<close> are inverse: releasing a block of \<open>n\<close> pages right after it was
  allocated restores the memory, bitmap included, to what it was before.
\<close>

theorem munmap_allocate_roundtrip:
  assumes "ram_ok mgr" "allocate_sectors mgr n mem = (Some a, mem')"
  shows "munmap_loop mgr a n mem' = mem"
proof -
  from assms(2) obtain p where p: "0 < n" "a = page_addr p" "mem' = mark_range mgr p n mem"
      "p + n \<le> total_sectors mgr" "free_run mgr mem n p"
    by (rule allocate_Some_cases)
  with assms(1) show ?thesis by (simp add: munmap_mark_range ram_ok_def)
qed

theorem munmap_allocate_roundtrip_witness:
  "munmap_loop \<lparr>bitmap = 0x1000, total_sectors = 16\<rparr> 0x4000 2 ((\<lambda>_. 0)(0x1000 := 0x3B)) =
     (\<lambda>_. 0)(0x1000 := 0x0B)"
proof -
  let ?mgr = "\<lparr>bitmap = 0x1000, total_sectors = 16\<rparr>" and ?mem = "(\<lambda>_. 0)(0x1000 := 0x0B) :: memory"
  have run: "allocate_sectors ?mgr 2 ?mem = (Some 0x4000, (\<lambda>_. 0)(0x1000 := 0x3B))"
    by (rule example_allocation)
  show ?thesis by (rule munmap_allocate_roundtrip [OF _ run]) (simp add: ram_ok_def)
qed

text \<open>
  C9. Isolation of the page clients: in every state that allocations, releases of one's own
  blocks and stores into one's own blocks can reach, no page belongs to two blocks, every page
  handed out is marked used, and no client's page holds a byte of the bitmap.
\<close>

theorem live_blocks_disjoint:
  assumes "ram_wf mgr mem0" "ram_reachable mgr mem0 (live, mem)"
  shows "(\<forall>k. holders live k \<le> 1) \<and>
    (\<forall>p n k. (p, n) \<in> set live \<longrightarrow> in_run p n k \<longrightarrow>
       is_used mgr k mem \<and> (\<forall>x. in_page k x \<longrightarrow> \<not> in_bitmap mgr x))"
  using ram_reachable_inv [OF assms] by (auto simp: ram_inv_def block_ok_def)

theorem live_blocks_disjoint_witness:
  "holders [(4, 2)] 5 \<le> 1 \<and> is_used \<lparr>bitmap = 0x1000, total_sectors = 16\<rparr> 5 ((\<lambda>_. 0)(0x1000 := 0x3B))"
proof -
  let ?mgr = "\<lparr>bitmap = 0x1000, total_sectors = 16\<rparr>" and ?mem = "(\<lambda>_. 0)(0x1000 := 0x0B) :: memory"
  have "unat x div 4096 = 1" if "in_bitmap ?mgr x" for x
    using that by (auto simp: in_bitmap_def bitmap_bytes_def in_region_iff_bounds div_nat_eqI)
  then have wf: "ram_wf ?mgr ?mem" by (auto simp: ram_wf_def ram_ok_def is_used_def)
  have run: "allocate_sectors ?mgr 2 ?mem = (Some 0x4000, (\<lambda>_. 0)(0x1000 := 0x3B))"
    by (rule example_allocation)
  have "ram_step ?mgr ([], ?mem) ([(4, 2)], (\<lambda>_. 0)(0x1000 := 0x3B))"
    using ram_step.mget [OF run, of "[]"] by simp
  then have r: "ram_reachable ?mgr ?mem ([(4, 2)], (\<lambda>_. 0)(0x1000 := 0x3B))"
    by (rule ram_reachable.step [OF ram_reachable.start])
  note conj = live_blocks_disjoint [OF wf r]
  have "in_run 4 2 5" by (simp add: in_run_def)
  with conjunct2 [OF conj] conjunct1 [OF conj, rule_format, of 5] show ?thesis by simp
qed

end
