(* ===== verification/Syscalls.thy ===== *)
theory Syscalls imports Kernel_World Framebuffer Rust_Text File_Write Ram_Manager begin

text \<open>
  The system calls of the kernel: the dispatcher behind \<open>int 0x80\<close> (\<open>kernel/src/interrupts.rs\<close>) and the kernel's
  own wrappers (\<open>kernel/src/boot/mod.rs\<close>). A call passes its number in \<open>rax\<close> and its arguments in \<open>rdi\<close>, \<open>rsi\<close>,
  \<open>rdx\<close> and \<open>rcx\<close>; some arms leave their result in the static \<open>SYSCALL_RET\<close>, some in \<open>rax\<close>. What the interrupted
  code finds in its registers after \<open>iretq\<close> is the business of the \<open>x86-interrupt\<close> calling convention, a
  parameter (\<open>iret\<close>: the registers at the call and at the end of the handler's body give those after it).

  The state of the kernel is one record: the asynchronous part (\<open>Kernel_World\<close>, with the machine), the descriptor
  table, the screen, the page allocator and \<open>SYSCALL_RET\<close>. The disk, the devices, the font and the address of the
  static path buffer are parameters. \<open>None\<close> is a panic or a call that never returns.
\<close>

record regs =
  rax :: u64
  rdi :: u64
  rsi :: u64
  rdx :: u64
  rcx :: u64

record 'd os =
  world :: "'d kworld"
  FDS :: fd_table
  SCREEN :: screen
  RAM_MGR :: "ram_manager option"
  SYSCALL_RET :: u64

record 'd platform =
  p_disk :: "'d disk_io"
  p_bus :: "'d bus"
  p_font :: "u8 list"
  p_path_buf :: u64
  iret :: "regs \<Rightarrow> regs \<Rightarrow> regs"

abbreviation os_machine :: "'d os \<Rightarrow> 'd machine" where
  "os_machine s \<equiv> hw (world s)"

abbreviation os_mem :: "'d os \<Rightarrow> memory" where
  "os_mem s \<equiv> ram (hw (world s))"

definition set_machine :: "'d machine \<Rightarrow> 'd os \<Rightarrow> 'd os" where
  "set_machine m s = s\<lparr>world := (world s)\<lparr>hw := m\<rparr>\<rparr>"

definition on_mem :: "(memory \<Rightarrow> memory) \<Rightarrow> 'd os \<Rightarrow> 'd os" where
  "on_mem f s = set_machine (on_ram f (os_machine s)) s"

definition ret :: "u64 \<Rightarrow> 'd os \<Rightarrow> 'd os" where
  "ret v s = s\<lparr>SYSCALL_RET := v\<rparr>"

lemma set_machine_simps [simp]: "hw (world (set_machine m s)) = m" "FDS (set_machine m s) = FDS s"
    "SCREEN (set_machine m s) = SCREEN s" "RAM_MGR (set_machine m s) = RAM_MGR s"
    "SYSCALL_RET (set_machine m s) = SYSCALL_RET s"
  by (simp_all add: set_machine_def)

lemma on_mem_simps [simp]: "os_mem (on_mem f s) = f (os_mem s)" "FDS (on_mem f s) = FDS s"
    "SCREEN (on_mem f s) = SCREEN s" "RAM_MGR (on_mem f s) = RAM_MGR s" "SYSCALL_RET (on_mem f s) = SYSCALL_RET s"
    "os_machine (on_mem f s) = on_ram f (os_machine s)"
  by (simp_all add: on_mem_def)

lemma ret_simps [simp]: "world (ret v s) = world s" "FDS (ret v s) = FDS s" "SCREEN (ret v s) = SCREEN s"
    "RAM_MGR (ret v s) = RAM_MGR s" "SYSCALL_RET (ret v s) = v"
  by (simp_all add: ret_def)

lemma set_machine_same [simp]: "set_machine (hw (world s)) s = s"
  by (simp add: set_machine_def)

section \<open>The screen\<close>

definition draw_text :: "'d platform \<Rightarrow> u32 \<Rightarrow> u32 \<Rightarrow> u8 list \<Rightarrow> u32 \<Rightarrow> 'd os \<Rightarrow> 'd os option" where
  "draw_text pf x y msg color s = map_option (\<lambda>sc. s\<lparr>SCREEN := sc\<rparr>) (draw_string (p_font pf) x y msg color (SCREEN s))"

definition flip_screen :: "'d os \<Rightarrow> 'd os" where
  "flip_screen s = on_mem (flip (SCREEN s)) s"

definition log_line :: "'d platform \<Rightarrow> u8 list \<Rightarrow> 'd os \<Rightarrow> 'd os option" where
  "log_line pf msg s =
     map_option (\<lambda>(sc, mem). on_mem (\<lambda>_. mem) (s\<lparr>SCREEN := sc\<rparr>)) (debug_print (p_font pf) msg (SCREEN s) (os_mem s))"

section \<open>The arms of the dispatcher\<close>

type_synonym 'd arm = "regs \<Rightarrow> 'd os \<Rightarrow> (regs \<times> 'd os) option"

definition sc_write :: "'d platform \<Rightarrow> 'd arm" where
  "sc_write pf r s =
     (let msg = rd_bytes (os_mem s) (rdi r) (unat (rsi r))
      in map_option (\<lambda>s. (r\<lparr>rax := 0\<rparr>, flip_screen s)) (draw_text pf 10 400 msg 0x00FFFFFF s))"

text \<open>Call 1 polls the controller until a key is pressed (a make code other than 0); it may wait for ever.\<close>

partial_function (option) wait_make_code :: "'d bus \<Rightarrow> 'd kworld \<Rightarrow> (u8 \<times> 'd kworld) option" where
  "wait_make_code bus w =
     (case poll_keyboard bus w of
        (Some sc, w) \<Rightarrow> if sc < 0x80 \<and> sc \<noteq> 0 then Some (sc, w) else wait_make_code bus w
      | (None, w) \<Rightarrow> wait_make_code bus w)"

definition sc_read_key :: "'d platform \<Rightarrow> 'd arm" where
  "sc_read_key pf r s =
     (let buf_ptr = rdi r; buf_len = rsi r
      in case wait_make_code (p_bus pf) (world s) of None \<Rightarrow> None
         | Some (sc, w) \<Rightarrow>
             let s = s\<lparr>world := w\<rparr>
             in if buf_len > 0 \<and> buf_ptr \<noteq> 0 then Some (r\<lparr>rax := 1\<rparr>, on_mem (st8 buf_ptr sc) s)
                else Some (r\<lparr>rax := -1\<rparr>, s))"

definition sc_exit :: "'d platform \<Rightarrow> 'd arm" where
  "sc_exit pf r s =
     map_option (\<lambda>s. (r, ret 0 (flip_screen s))) (draw_text pf 10 600 (str ''Program exited.'') 0x00FF0000 s)"

text \<open>The path of call 3: at most 128 bytes, up to the first 0.\<close>

definition path_arg :: "memory \<Rightarrow> u64 \<Rightarrow> u8 list" where
  "path_arg mem p = takeWhile (\<lambda>b. b \<noteq> 0) (rd_bytes mem p 128)"

text \<open>A file operation on the whole state.\<close>

definition on_files :: "(fd_table \<Rightarrow> 'd machine \<Rightarrow> ('a \<times> fd_table \<times> 'd machine) option) \<Rightarrow> 'd os \<Rightarrow> ('a \<times> 'd os) option" where
  "on_files f s = map_option (\<lambda>(v, tbl, m). (v, set_machine m (s\<lparr>FDS := tbl\<rparr>))) (f (FDS s) (os_machine s))"

definition sc_open :: "'d platform \<Rightarrow> 'd arm" where
  "sc_open pf r s =
     map_option (\<lambda>(fd, s). (r, ret (scast fd) s)) (on_files (syscall_open (p_disk pf) (path_arg (os_mem s) (rdi r))) s)"

definition sc_close :: "'d arm" where
  "sc_close r s =
     (case close_fd (ucast (rdi r)) (FDS s) of (ok, tbl) \<Rightarrow> Some (r, ret (if ok then 0 else -1) (s\<lparr>FDS := tbl\<rparr>)))"

definition sc_lseek :: "'d arm" where
  "sc_lseek r s =
     (case sys_lseek (ucast (rdi r)) (rsi r) (ucast (rdx r)) (FDS s) of (v, tbl) \<Rightarrow> Some (r, ret v (s\<lparr>FDS := tbl\<rparr>)))"

definition sc_fstat :: "'d arm" where
  "sc_fstat r s =
     (let buf = rsi r
      in if buf \<noteq> 0 then
           (case sys_fstat (ucast (rdi r)) buf (FDS s) (os_mem s) of
              (ok, mem) \<Rightarrow> Some (r, ret (if ok then 0 else -1) (on_mem (\<lambda>_. mem) s)))
         else Some (r, ret (-1) s))"

definition sc_yield :: "'d arm" where
  "sc_yield r s = Some (r, ret 0 (s\<lparr>world := wake (world s)\<rparr>))"

definition sc_read_file :: "'d platform \<Rightarrow> 'd arm" where
  "sc_read_file pf r s =
     (let buf = rsi r; len = rdx r
      in if buf \<noteq> 0 \<and> len > 0
         then map_option (\<lambda>(v, s). (r, ret v s)) (on_files (sys_read_file (p_disk pf) (ucast (rdi r)) buf len) s)
         else Some (r, ret (-1) s))"

text \<open>
  \<open>sys_write_file\<close> also says whether it re-enabled interrupts; the flag is restored by \<open>iretq\<close> and drops out.
\<close>

definition write_file_op :: "'d disk_io \<Rightarrow> u32 \<Rightarrow> u64 \<Rightarrow> u64 \<Rightarrow> fd_table \<Rightarrow> 'd machine \<Rightarrow> (u64 \<times> fd_table \<times> 'd machine) option" where
  "write_file_op io fd buf len tbl m = map_option (\<lambda>(v, _, tbl, m). (v, tbl, m)) (sys_write_file io fd buf len tbl m)"

definition sc_write_file :: "'d platform \<Rightarrow> 'd arm" where
  "sc_write_file pf r s =
     map_option (\<lambda>(v, s). (r, ret v s)) (on_files (write_file_op (p_disk pf) (ucast (rdi r)) (rsi r) (rdx r)) s)"

definition sc_seek :: "'d arm" where
  "sc_seek r s = (case sys_seek (ucast (rdi r)) (rsi r) (FDS s) of (v, tbl) \<Rightarrow> Some (r, ret v (s\<lparr>FDS := tbl\<rparr>)))"

definition sc_mget :: "'d arm" where
  "sc_mget r s =
     (case allocate_sectors_direct (RAM_MGR s) (unat (rdi r)) (os_mem s) of None \<Rightarrow> None
      | Some (addr, mem) \<Rightarrow> Some (r, ret 0 (on_mem (\<lambda>_. wr64 (rdx r) addr mem) s)))"

text \<open>Call 15; the message is read from memory again each time it is used, after the lines logged so far.\<close>

definition hex_dump :: "u8 list \<Rightarrow> u8 list" where
  "hex_dump msg = concat (map (\<lambda>b. fmt_hex02 b @ [32]) (take 16 msg))"

definition sc_write_at :: "'d platform \<Rightarrow> 'd arm" where
  "sc_write_at pf r s =
     (let x = rdi r; y = rsi r; p = rdx r; len = rcx r;
          msg = (\<lambda>s. rd_bytes (os_mem s) p (unat len)) in
      case log_line pf (str ''[SYS_WRITE_AT] x='' @ fmt_dec x @ str '', y='' @ fmt_dec y @ str '', ptr=0x'' @ fmt_hex p
            @ str '', len='' @ fmt_dec len) s of None \<Rightarrow> None
      | Some s \<Rightarrow>
          if p = 0 \<or> len = 0 then
            map_option (\<lambda>s. (r\<lparr>rax := -1\<rparr>, s)) (log_line pf (str ''[SYS_WRITE_AT] invalid ptr or len'') s)
          else case log_line pf (str ''[SYS_WRITE_AT] data: '' @ hex_dump (msg s)) s of None \<Rightarrow> None
          | Some s \<Rightarrow>
              (case from_utf8 (msg s) of
                 Some e \<Rightarrow> map_option (\<lambda>s. (r\<lparr>rax := -1\<rparr>, s))
                   (log_line pf (str ''[SYS_WRITE_AT] invalid utf8: '' @ fmt_utf8_error e) s)
               | None \<Rightarrow>
                   (case log_line pf (str ''[SYS_WRITE_AT] as utf8: '' @ msg s) s of None \<Rightarrow> None
                    | Some s \<Rightarrow> map_option (\<lambda>s. (r\<lparr>rax := 0\<rparr>, flip_screen s))
                        (draw_text pf (ucast x) (ucast y) (msg s) 0x00FFFFFF s))))"

definition sc_munmap :: "'d arm" where
  "sc_munmap r s =
     (let addr = rdi r; pages = unat (rsi r) in
      case RAM_MGR s of
        None \<Rightarrow> if pages = 0 then Some (r, ret 0 s) else None
      | Some mgr \<Rightarrow> Some (r, ret 0 (on_mem (munmap_loop mgr addr pages) s)))"

text \<open>
  The dispatcher. The arm of call 14 makes call 13 itself, with \<open>int 0x80\<close> again (\<open>boot::sys_mget\<close>), hence the
  recursion.
\<close>

function syscall_int80_handler :: "'d platform \<Rightarrow> regs \<Rightarrow> 'd os \<Rightarrow> (regs \<times> 'd os) option" where
  "syscall_int80_handler pf r s =
     (let syscall_num = rax r in
      if syscall_num = 0 then sc_write pf r s
      else if syscall_num = 1 then sc_read_key pf r s
      else if syscall_num = 2 then sc_exit pf r s
      else if syscall_num = 3 then sc_open pf r s
      else if syscall_num = 4 then sc_close r s
      else if syscall_num = 5 then sc_lseek r s
      else if syscall_num = 6 then sc_fstat r s
      else if syscall_num = 8 then sc_yield r s
      else if syscall_num = 9 then sc_read_file pf r s
      else if syscall_num = 10 then sc_write_file pf r s
      else if syscall_num = 11 then sc_seek r s
      else if syscall_num = 13 then sc_mget r s
      else if syscall_num = 14 then
        map_option (\<lambda>(_, s). (r, ret 0 s)) (syscall_int80_handler pf (r\<lparr>rax := 13\<rparr>) s)
      else if syscall_num = 15 then sc_write_at pf r s
      else if syscall_num = 33 then sc_munmap r s
      else Some (r\<lparr>rax := -1\<rparr>, s))"
  by pat_completeness auto

termination
  by (relation "measure (\<lambda>(pf, r, s). if rax r = 14 then 1 else 0)") auto

declare syscall_int80_handler.simps [simp del]

text \<open>The instruction \<open>int 0x80\<close>: the registers after it and the state.\<close>

definition int80 :: "'d platform \<Rightarrow> regs \<Rightarrow> 'd os \<Rightarrow> (regs \<times> 'd os) option" where
  "int80 pf r s = map_option (\<lambda>(r', s'). (iret pf r r', s')) (syscall_int80_handler pf r s)"

text \<open>A call and the static its result is in; a call and the register \<open>rax\<close> after it.\<close>

definition call_ret :: "'d platform \<Rightarrow> regs \<Rightarrow> 'd os \<Rightarrow> (u64 \<times> 'd os) option" where
  "call_ret pf r s = map_option (\<lambda>(_, s). (SYSCALL_RET s, s)) (int80 pf r s)"

definition call_rax :: "'d platform \<Rightarrow> regs \<Rightarrow> 'd os \<Rightarrow> (u64 \<times> 'd os) option" where
  "call_rax pf r s = map_option (\<lambda>(r, s). (rax r, s)) (int80 pf r s)"

definition call_unit :: "'d platform \<Rightarrow> regs \<Rightarrow> 'd os \<Rightarrow> 'd os option" where
  "call_unit pf r s = map_option snd (int80 pf r s)"

section \<open>A machine for the witnesses\<close>

text \<open>
  No disk, no screen, idle devices, and registers that survive an interrupt, as the \<open>x86-interrupt\<close> convention
  documents.
\<close>

definition idle_bus :: "unit bus" where
  "idle_bus = \<lparr>mmio_rd = (\<lambda>_ _. 0), mmio_wr = (\<lambda>_ _ d. d), spin = (\<lambda>_ m. m),
     pio_in8 = (\<lambda>_ d. (0, d)), pio_out8 = (\<lambda>_ _ d. d), pio_in32 = (\<lambda>_ d. (0, d)), pio_out32 = (\<lambda>_ _ d. d),
     rdtsc = (\<lambda>c. (0, c)), rdmsr = (\<lambda>_ _. 0)\<rparr>"

definition no_disk :: "'d disk_io" where
  "no_disk = \<lparr>io_port = -1, io_data = 0, io_read = (\<lambda>_ m. Some m), io_write = (\<lambda>_ m. Some m), io_spin = (\<lambda>_ m. m)\<rparr>"

definition idle_platform :: "unit platform" where
  "idle_platform = \<lparr>p_disk = no_disk, p_bus = idle_bus, p_font = [], p_path_buf = 0x8000, iret = (\<lambda>r r'. r)\<rparr>"

definition zero_regs :: regs where
  "zero_regs = \<lparr>rax = 0, rdi = 0, rsi = 0, rdx = 0, rcx = 0\<rparr>"

definition idle_os :: "memory \<Rightarrow> ram_manager option \<Rightarrow> unit os" where
  "idle_os mem mgr =
     \<lparr>world = \<lparr>WOKEN = False, KEYS = initial_ring, IS_SHIFT = False, KEYBOARD_WAKER = False, EOI_CALLBACK = False,
        APIC_BASE = 0, GLOBAL_TIMER = None, CTABLE = initial_containers, hw = \<lparr>ram = mem, dev = ()\<rparr>\<rparr>,
      FDS = FD_TABLE_0,
      SCREEN = \<lparr>FB_PTR = 0, FB_STRIDE = 0, FB_WIDTH = 0, FB_HEIGHT = 0, BACK_BUFFER = [], DEBUG_Y = 20, DEBUG_X = 400, DEBUG_LINE_COUNT = 0\<rparr>,
      RAM_MGR = mgr, SYSCALL_RET = 0\<rparr>"

lemma idle_os_simps [simp]: "os_mem (idle_os mem mgr) = mem" "RAM_MGR (idle_os mem mgr) = mgr" "FDS (idle_os mem mgr) = FD_TABLE_0"
  by (simp_all add: idle_os_def)

end
