(* ===== verification/Kernel_Calls.thy ===== *)
theory Kernel_Calls imports Syscalls begin

text \<open>
  The kernel's own wrappers of its system calls, \<open>kernel/src/boot/mod.rs\<close>, and what they come to: each gives exactly
  what the operation behind it gives. \<open>r\<close> holds the registers before the call; the wrappers set the ones they use.
  A slice is its address and its length. Results of type \<open>i32\<close> and \<open>i64\<close> are words, read as two's complement.
\<close>

section \<open>The wrappers\<close>

definition k_sys_write :: "'d platform \<Rightarrow> regs \<Rightarrow> u64 \<Rightarrow> u64 \<Rightarrow> 'd os \<Rightarrow> 'd os option" where
  "k_sys_write pf r msg len s = map_option flip_screen (call_unit pf (r\<lparr>rax := 0, rdi := msg, rsi := len\<rparr>) s)"

definition k_sys_read :: "'d platform \<Rightarrow> regs \<Rightarrow> u64 \<Rightarrow> u64 \<Rightarrow> 'd os \<Rightarrow> (u64 \<times> 'd os) option" where
  "k_sys_read pf r buf len s = call_rax pf (r\<lparr>rdi := buf, rsi := len, rax := 1\<rparr>) s"

text \<open>\<open>sys_exit\<close> makes the call and then loops for ever.\<close>

partial_function (option) spin_forever :: "'d os \<Rightarrow> 'd os option" where
  "spin_forever s = spin_forever s"

definition k_sys_exit :: "'d platform \<Rightarrow> regs \<Rightarrow> u32 \<Rightarrow> 'd os \<Rightarrow> 'd os option" where
  "k_sys_exit pf r code s = Option.bind (call_unit pf (r\<lparr>rax := 2, rdi := scast code\<rparr>) s) spin_forever"

text \<open>\<open>sys_open\<close> copies at most 127 bytes of the path to \<open>PATH_BUF\<close> and ends them with a 0.\<close>

definition k_sys_open :: "'d platform \<Rightarrow> regs \<Rightarrow> u8 list \<Rightarrow> 'd os \<Rightarrow> (u32 \<times> 'd os) option" where
  "k_sys_open pf r path s =
     (let len = min (length path) 127;
          s = on_mem (wr_bytes (p_path_buf pf) (take len path)) s;
          s = on_mem (st8 (p_path_buf pf + of_nat len) 0) s
      in map_option (\<lambda>(v, s). (ucast v, s)) (call_ret pf (r\<lparr>rdi := p_path_buf pf, rax := 3\<rparr>) s))"

definition k_sys_read_file :: "'d platform \<Rightarrow> regs \<Rightarrow> u32 \<Rightarrow> u64 \<Rightarrow> u64 \<Rightarrow> 'd os \<Rightarrow> (u64 \<times> 'd os) option" where
  "k_sys_read_file pf r fd buf len s = call_ret pf (r\<lparr>rdi := ucast fd, rsi := buf, rdx := len, rax := 9\<rparr>) s"

definition k_sys_close :: "'d platform \<Rightarrow> regs \<Rightarrow> u32 \<Rightarrow> 'd os \<Rightarrow> (u32 \<times> 'd os) option" where
  "k_sys_close pf r fd s = map_option (\<lambda>(v, s). (ucast v, s)) (call_ret pf (r\<lparr>rdi := ucast fd, rax := 4\<rparr>) s)"

definition k_SYS_LSEEK :: "'d platform \<Rightarrow> regs \<Rightarrow> u32 \<Rightarrow> u64 \<Rightarrow> u32 \<Rightarrow> 'd os \<Rightarrow> (u64 \<times> 'd os) option" where
  "k_SYS_LSEEK pf r fd offset whence s =
     call_ret pf (r\<lparr>rdi := ucast fd, rsi := offset, rdx := ucast whence, rax := 5\<rparr>) s"

definition k_SYS_FSTAT :: "'d platform \<Rightarrow> regs \<Rightarrow> u32 \<Rightarrow> u64 \<Rightarrow> 'd os \<Rightarrow> (u32 \<times> 'd os) option" where
  "k_SYS_FSTAT pf r fd stat_ptr s =
     map_option (\<lambda>(v, s). (ucast v, s)) (call_ret pf (r\<lparr>rdi := ucast fd, rsi := stat_ptr, rax := 6\<rparr>) s)"

definition k_SYS_WRITE_FILE :: "'d platform \<Rightarrow> regs \<Rightarrow> u32 \<Rightarrow> u64 \<Rightarrow> u64 \<Rightarrow> 'd os \<Rightarrow> (u64 \<times> 'd os) option" where
  "k_SYS_WRITE_FILE pf r fd buf len s =
     (if buf = 0 \<or> len = 0 then Some (-1, s)
      else call_ret pf (r\<lparr>rdi := ucast fd, rsi := buf, rdx := len, rax := 10\<rparr>) s)"

definition k_sys_seek :: "'d platform \<Rightarrow> regs \<Rightarrow> u32 \<Rightarrow> u64 \<Rightarrow> 'd os \<Rightarrow> (u64 \<times> 'd os) option" where
  "k_sys_seek pf r fd pos s = call_ret pf (r\<lparr>rdi := ucast fd, rsi := pos, rax := 11\<rparr>) s"

definition k_sys_mget :: "'d platform \<Rightarrow> regs \<Rightarrow> u64 \<Rightarrow> u64 \<Rightarrow> u64 \<Rightarrow> 'd os \<Rightarrow> 'd os option" where
  "k_sys_mget pf r pages alignment result_ptr s =
     call_unit pf (r\<lparr>rdi := pages, rsi := alignment, rdx := result_ptr, rax := 13\<rparr>) s"

definition k_sys_mmap :: "'d platform \<Rightarrow> regs \<Rightarrow> u64 \<Rightarrow> u64 \<Rightarrow> u64 \<Rightarrow> 'd os \<Rightarrow> 'd os option" where
  "k_sys_mmap pf r pages alignment result_ptr s =
     call_unit pf (r\<lparr>rdi := pages, rsi := alignment, rdx := result_ptr, rax := 14\<rparr>) s"

definition k_sys_yield :: "'d platform \<Rightarrow> regs \<Rightarrow> 'd os \<Rightarrow> 'd os option" where
  "k_sys_yield pf r s = call_unit pf (r\<lparr>rax := 8\<rparr>) s"

definition k_sys_munmap :: "'d platform \<Rightarrow> regs \<Rightarrow> u64 \<Rightarrow> u64 \<Rightarrow> 'd os \<Rightarrow> (u64 \<times> 'd os) option" where
  "k_sys_munmap pf r addr pages s = call_ret pf (r\<lparr>rdi := addr, rsi := pages, rax := 33\<rparr>) s"

section \<open>The dispatcher, call by call\<close>

lemma handler_cases:
  "rax r = 0 \<Longrightarrow> syscall_int80_handler pf r s = sc_write pf r s"
  "rax r = 1 \<Longrightarrow> syscall_int80_handler pf r s = sc_read_key pf r s"
  "rax r = 2 \<Longrightarrow> syscall_int80_handler pf r s = sc_exit pf r s"
  "rax r = 3 \<Longrightarrow> syscall_int80_handler pf r s = sc_open pf r s"
  "rax r = 4 \<Longrightarrow> syscall_int80_handler pf r s = sc_close r s"
  "rax r = 5 \<Longrightarrow> syscall_int80_handler pf r s = sc_lseek r s"
  "rax r = 6 \<Longrightarrow> syscall_int80_handler pf r s = sc_fstat r s"
  "rax r = 8 \<Longrightarrow> syscall_int80_handler pf r s = sc_yield r s"
  "rax r = 9 \<Longrightarrow> syscall_int80_handler pf r s = sc_read_file pf r s"
  "rax r = 10 \<Longrightarrow> syscall_int80_handler pf r s = sc_write_file pf r s"
  "rax r = 11 \<Longrightarrow> syscall_int80_handler pf r s = sc_seek r s"
  "rax r = 13 \<Longrightarrow> syscall_int80_handler pf r s = sc_mget r s"
  "rax r = 14 \<Longrightarrow> syscall_int80_handler pf r s
     = map_option (\<lambda>(_, s). (r, ret 0 s)) (sc_mget (r\<lparr>rax := 13\<rparr>) s)"
  "rax r = 15 \<Longrightarrow> syscall_int80_handler pf r s = sc_write_at pf r s"
  "rax r = 33 \<Longrightarrow> syscall_int80_handler pf r s = sc_munmap r s"
  by (simp_all add: syscall_int80_handler.simps Let_def)

lemmas call_defs = call_ret_def call_unit_def call_rax_def int80_def

lemma call_ret_eq: "call_ret pf r s = map_option (\<lambda>(_, s). (SYSCALL_RET s, s)) (syscall_int80_handler pf r s)"
  by (simp add: call_defs option.map_comp o_def split_def)

lemma call_unit_eq: "call_unit pf r s = map_option snd (syscall_int80_handler pf r s)"
  by (simp add: call_defs option.map_comp o_def split_def)

text \<open>The path arrives as it was passed, up to a 0 in it, when it has at most 127 bytes.\<close>

lemma takeWhile_append_stop: "\<not> P z \<Longrightarrow> takeWhile P (xs @ z # ys) = takeWhile P xs"
  by (induction xs) auto

lemma path_arg_buffer:
  assumes "length bs \<le> 127"
  shows "path_arg (st8 (p + of_nat (length bs)) 0 (wr_bytes p bs mem)) p = takeWhile (\<lambda>b. b \<noteq> 0) bs"
proof -
  let ?m = "st8 (p + of_nat (length bs)) 0 (wr_bytes p bs mem)"
  have at: "?m (p + of_nat i) = bs ! i" if "i < length bs" for i
  proof -
    have "p + of_nat i \<noteq> p + (of_nat (length bs) :: u64)"
      using that assms add_of_nat_u64_inj [of i "length bs" p] by simp
    then show ?thesis using that assms by (simp add: st8_def wr_bytes_offset)
  qed
  have "rd_bytes ?m p 128 = map (\<lambda>i. ?m (p + of_nat i)) ([0..<length bs] @ length bs # [Suc (length bs)..<128])"
  proof -
    have "[0..<128] = [0..<length bs] @ [length bs..<128]"
      using assms upt_add_eq_append [of 0 "length bs" "128 - length bs"] by simp
    moreover have "[length bs..<128] = length bs # [Suc (length bs)..<128]"
      using assms by (intro upt_conv_Cons) simp
    ultimately show ?thesis by (simp only: rd_bytes_def)
  qed
  also have "\<dots> = bs @ 0 # map (\<lambda>i. ?m (p + of_nat i)) [Suc (length bs)..<128]"
  proof -
    have "map (\<lambda>i. ?m (p + of_nat i)) [0..<length bs] = bs"
      by (rule nth_equalityI) (auto simp: at simp del: st8_def)
    moreover have "?m (p + of_nat (length bs)) = 0" unfolding st8_def by (rule fun_upd_same)
    ultimately show ?thesis by (simp only: map_append list.map)
  qed
  finally show ?thesis by (simp add: path_arg_def takeWhile_append_stop)
qed

section \<open>The file calls do what the file operations do\<close>

lemma ucast_u32_u64 [simp]: "(ucast (ucast (x :: u32) :: u64) :: u32) = x"
  by (rule bit_word_eqI) (auto simp: bit_simps)

lemma ucast_scast_u32 [simp]: "(ucast (scast (x :: u32) :: u64) :: u32) = x"
  by (rule bit_word_eqI) (auto simp: bit_simps)

lemma ucast_ret_code [simp]: "(ucast (if c then 0 else -1 :: u64) :: u32) = (if c then 0 else -1)"
    "(ucast (-1 :: u64) :: u32) = -1"
  by (auto intro: bit_word_eqI simp: bit_simps)

text \<open>Results up to the static the wrappers take them from.\<close>

definition up_to_ret :: "('a \<times> 'd os) option \<Rightarrow> ('a \<times> 'd os) option" where
  "up_to_ret x = map_option (\<lambda>(v, s). (v, ret 0 s)) x"

lemma up_to_ret_simps [simp]: "up_to_ret None = None" "up_to_ret (Some (v, s)) = Some (v, ret 0 s)"
  by (simp_all add: up_to_ret_def)

lemma ret_ret [simp]: "ret v (ret w s) = ret v s"
  by (simp add: ret_def)

text \<open>The state with the path in the kernel's path buffer.\<close>

definition with_path :: "'d platform \<Rightarrow> u8 list \<Rightarrow> 'd os \<Rightarrow> 'd os" where
  "with_path pf path s = on_mem (\<lambda>mem. st8 (p_path_buf pf + of_nat (length (take 127 path))) 0
     (wr_bytes (p_path_buf pf) (take 127 path) mem)) s"

lemma on_mem_on_mem: "on_mem f (on_mem g s) = on_mem (f \<circ> g) s"
  by (simp add: on_mem_def set_machine_def)

lemma k_sys_open_eq:
  "up_to_ret (k_sys_open pf r path s)
    = up_to_ret (on_files (syscall_open (p_disk pf) (takeWhile (\<lambda>b. b \<noteq> 0) (take 127 path))) (with_path pf path s))"
proof -
  have len: "min (length path) 127 = length (take 127 path)" by simp
  have state: "on_mem (st8 (p_path_buf pf + of_nat (length (take 127 path))) 0) (on_mem (wr_bytes (p_path_buf pf) (take (length (take 127 path)) path)) s)
      = with_path pf path s"
  proof -
    have "take (min (length path) 127) path = take 127 path" by (simp add: min_def)
    then show ?thesis by (simp add: on_mem_on_mem with_path_def o_def)
  qed
  have arg: "path_arg (os_mem (with_path pf path s)) (p_path_buf pf) = takeWhile (\<lambda>b. b \<noteq> 0) (take 127 path)"
    by (simp only: with_path_def on_mem_simps on_ram_simps, rule path_arg_buffer) simp
  show ?thesis
    by (simp only: k_sys_open_def Let_def len state)
      (auto simp: call_ret_eq handler_cases sc_open_def arg up_to_ret_def option.map_comp o_def split_def)
qed

lemma k_sys_read_file_eq:
  "up_to_ret (k_sys_read_file pf r fd buf len s) = up_to_ret (on_files (sys_read_file (p_disk pf) fd buf len) s)"
  by (cases "buf = 0 \<or> len = 0")
    (auto simp: k_sys_read_file_def call_ret_eq handler_cases sc_read_file_def on_files_def sys_read_file_def
      set_machine_def ret_def up_to_ret_def Let_def word_neq_0_conv option.map_comp o_def split_def)

lemma k_SYS_WRITE_FILE_eq:
  "up_to_ret (k_SYS_WRITE_FILE pf r fd buf len s) = up_to_ret (on_files (write_file_op (p_disk pf) fd buf len) s)"
  by (cases "buf = 0 \<or> len = 0")
    (auto simp: k_SYS_WRITE_FILE_def call_ret_eq handler_cases sc_write_file_def on_files_def write_file_op_def
      sys_write_file_def set_machine_def ret_def up_to_ret_def Let_def option.map_comp o_def split_def)

definition stat_op :: "u32 \<Rightarrow> u64 \<Rightarrow> fd_table \<Rightarrow> 'd machine \<Rightarrow> (u32 \<times> fd_table \<times> 'd machine) option" where
  "stat_op fd stat_ptr tbl m =
     (if stat_ptr = 0 then Some (-1, tbl, m)
      else case sys_fstat fd stat_ptr tbl (ram m) of (ok, mem) \<Rightarrow> Some (if ok then 0 else -1, tbl, on_ram (\<lambda>_. mem) m))"

text \<open>C8. Every file call of the kernel does what the file operation behind it does on the descriptor table and the machine,
  and returns its result: opening a path (its first 127 bytes, up to a 0, by way of the path buffer), reading,
  writing, seeking, closing and the status call. The trip through \<open>int 0x80\<close>, the dispatcher and \<open>SYSCALL_RET\<close>
  loses and changes nothing, whatever the registers hold.\<close>

theorem file_calls_refine:
  "up_to_ret (k_sys_open pf r path s)
     = up_to_ret (on_files (syscall_open (p_disk pf) (takeWhile (\<lambda>b. b \<noteq> 0) (take 127 path))) (with_path pf path s)) \<and>
   up_to_ret (k_sys_read_file pf r fd buf len s) = up_to_ret (on_files (sys_read_file (p_disk pf) fd buf len) s) \<and>
   up_to_ret (k_SYS_WRITE_FILE pf r fd buf len s) = up_to_ret (on_files (write_file_op (p_disk pf) fd buf len) s) \<and>
   up_to_ret (k_sys_seek pf r fd pos s)
     = up_to_ret (on_files (\<lambda>tbl m. case sys_seek fd pos tbl of (v, tbl) \<Rightarrow> Some (v, tbl, m)) s) \<and>
   up_to_ret (k_SYS_LSEEK pf r fd off whence s)
     = up_to_ret (on_files (\<lambda>tbl m. case sys_lseek fd off whence tbl of (v, tbl) \<Rightarrow> Some (v, tbl, m)) s) \<and>
   up_to_ret (k_sys_close pf r fd s)
     = up_to_ret (on_files (\<lambda>tbl m. case close_fd fd tbl of (ok, tbl) \<Rightarrow> Some (if ok then 0 else -1, tbl, m)) s) \<and>
   up_to_ret (k_SYS_FSTAT pf r fd st s) = up_to_ret (on_files (stat_op fd st) s)"
  by (intro conjI k_sys_open_eq k_sys_read_file_eq k_SYS_WRITE_FILE_eq)
    (simp_all add: k_sys_seek_def k_SYS_LSEEK_def k_sys_close_def k_SYS_FSTAT_def call_ret_eq handler_cases sc_seek_def
      sc_lseek_def sc_close_def sc_fstat_def on_files_def stat_op_def set_machine_def ret_def up_to_ret_def on_mem_def
      Let_def split_def)

end
