(* ===== verification/Memory_Calls.thy ===== *)
theory Memory_Calls imports Kernel_Calls begin

text \<open>
  The memory calls of the kernel (13, 14 and 33) on top of the page allocator: what \<open>sys_mmap\<close> delivers, and that
  \<open>sys_munmap\<close> undoes it; first without, then with the line that the allocator draws on the screen.
\<close>

text \<open>\<open>let mut x: u64 = 0; sys_mmap(n, 0, &mut x)\<close>, in the drivers and in the loader.\<close>

definition mmap_local :: "'d platform \<Rightarrow> regs \<Rightarrow> u64 \<Rightarrow> u64 \<Rightarrow> 'd os \<Rightarrow> (u64 \<times> 'd os) option" where
  "mmap_local pf rg slot n s =
     map_option (\<lambda>s. (rd64 (os_mem s) slot, s)) (k_sys_mmap pf rg n 0 slot (on_mem (wr64 slot 0) s))"

section \<open>A store outside the bitmap\<close>

lemma mark_free_upd: "\<not> in_bitmap mgr x \<Longrightarrow> ram_ok mgr \<Longrightarrow> mark_free mgr k (mem(x := v)) = (mark_free mgr k mem)(x := v)"
  using bitmap_byte_in [of mgr k] by (auto simp: mark_free_def Let_def fun_eq_iff)

lemma munmap_upd: "\<not> in_bitmap mgr x \<Longrightarrow> ram_ok mgr \<Longrightarrow> munmap_loop mgr a n (mem(x := v)) = (munmap_loop mgr a n mem)(x := v)"
  unfolding munmap_loop_def Let_def by (induction n) (simp_all add: mark_free_upd)

definition off_bitmap :: "ram_manager \<Rightarrow> u64 \<Rightarrow> bool" where
  "off_bitmap mgr slot \<longleftrightarrow> (\<forall>x. in_region slot 8 x \<longrightarrow> \<not> in_bitmap mgr x)"

lemma munmap_wr64:
  assumes "ram_ok mgr" "off_bitmap mgr slot"
  shows "munmap_loop mgr a n (wr64 slot v mem) = wr64 slot v (munmap_loop mgr a n mem)"
proof -
  have "\<not> in_bitmap mgr (slot + of_nat i)" if "i < 8" for i
    using assms(2) that by (simp add: off_bitmap_def)
  from this [of 0] this [of 1] this [of 2] this [of 3] this [of 4] this [of 5] this [of 6] this [of 7]
  show ?thesis using assms(1) by (simp add: wr64_def wr32_def wr16_def munmap_upd add.assoc)
qed

section \<open>The calls\<close>

lemma sc_mget_eq:
  "RAM_MGR s = Some mgr \<Longrightarrow> sc_mget r s =
     (case allocate_sectors mgr (unat (rdi r)) (os_mem s) of
        (a, mem) \<Rightarrow> Some (r, ret 0 (on_mem (\<lambda>_. wr64 (rdx r) (case a of Some a \<Rightarrow> a | None \<Rightarrow> 0xFFFFFFFFFFFFFFFF) mem) s)))"
  by (cases "allocate_sectors mgr (unat (rdi r)) (os_mem s)")
    (auto simp: sc_mget_def allocate_sectors_direct_def split: option.split)

lemma k_sys_mmap_eq:
  "RAM_MGR s = Some mgr \<Longrightarrow> k_sys_mmap pf r n al slot s =
     (case allocate_sectors mgr (unat n) (os_mem s) of
        (a, mem) \<Rightarrow> Some (ret 0 (on_mem (\<lambda>_. wr64 slot (case a of Some a \<Rightarrow> a | None \<Rightarrow> 0xFFFFFFFFFFFFFFFF) mem) s)))"
  by (simp add: k_sys_mmap_def call_unit_eq handler_cases sc_mget_eq split: prod.split)

lemma k_sys_mget_eq: "k_sys_mget pf r n al slot s = k_sys_mmap pf r' n al' slot s"
  by (cases "RAM_MGR s")
    (auto simp: k_sys_mmap_def k_sys_mget_def call_unit_eq handler_cases sc_mget_def allocate_sectors_direct_def
      split: prod.split option.split)

lemma k_sys_munmap_eq:
  "RAM_MGR s = Some mgr \<Longrightarrow> k_sys_munmap pf r a n s = Some (0, ret 0 (on_mem (munmap_loop mgr a (unat n)) s))"
  by (simp add: k_sys_munmap_def call_ret_eq handler_cases sc_munmap_def)

lemma on_mem_const: "f (os_mem s) = g (os_mem s) \<Longrightarrow> on_mem f s = on_mem g s"
  by (simp add: on_mem_def on_ram_def)

lemma on_mem_ret: "on_mem f (ret v s) = ret v (on_mem f s)"
  by (simp add: on_mem_def ret_def set_machine_def)

text \<open>The calls without the line that \<open>allocate_sectors\<close> logs.\<close>

lemma mmap_munmap_silent:
  assumes "RAM_MGR s = Some mgr" "ram_ok mgr" "off_bitmap mgr slot"
  shows "\<exists>s1. k_sys_mmap pf r n al slot s = Some s1 \<and>
    (case fst (allocate_sectors mgr (unat n) (os_mem s)) of
       Some a \<Rightarrow> rd64 (os_mem s1) slot = a
         \<and> k_sys_munmap pf r' a n s1 = Some (0, ret 0 (on_mem (wr64 slot a) s))
     | None \<Rightarrow> s1 = ret 0 (on_mem (wr64 slot 0xFFFFFFFFFFFFFFFF) s))"
proof (cases "fst (allocate_sectors mgr (unat n) (os_mem s))")
  case None
  then have "allocate_sectors mgr (unat n) (os_mem s) = (None, os_mem s)"
    using allocate_None_mem [of mgr "unat n" "os_mem s"] by (metis prod.collapse)
  then show ?thesis
    using k_sys_mmap_eq [OF assms(1)] by (auto cong: on_mem_const)
next
  case (Some a)
  then obtain m where al: "allocate_sectors mgr (unat n) (os_mem s) = (Some a, m)" by (metis prod.collapse)
  then obtain p where p: "0 < unat n" "a = page_addr p" "m = mark_range mgr p (unat n) (os_mem s)"
      "p + unat n \<le> total_sectors mgr" "free_run mgr (os_mem s) (unat n) p" by (rule allocate_Some_cases)
  define s1 where "s1 = ret 0 (on_mem (\<lambda>_. wr64 slot a m) s)"
  have run: "k_sys_mmap pf r n al slot s = Some s1"
    using k_sys_mmap_eq [OF assms(1)] by (simp add: al s1_def)
  have "munmap_loop mgr a (unat n) (wr64 slot a m) = wr64 slot a (os_mem s)"
    using munmap_wr64 [OF assms(2,3)] munmap_mark_range [OF p(5) _ p(1)] p(2-4) assms(2) by (simp add: ram_ok_def)
  then have "k_sys_munmap pf r' a n s1 = Some (0, ret 0 (on_mem (wr64 slot a) s))"
    using assms(1) by (simp add: k_sys_munmap_eq s1_def on_mem_ret on_mem_on_mem o_def cong: on_mem_const)
  moreover have "rd64 (os_mem s1) slot = a" by (simp add: s1_def)
  ultimately show ?thesis using run Some by auto
qed

section \<open>The log line\<close>

text \<open>
  The first statement of \<open>allocate_sectors\<close> is \<open>debug_print\<close>: a line on the screen and a copy of the back buffer to the
  frame buffer. The definitions above leave it out. Here are the allocation with it, the arm of call 13 with it and
  \<open>sys_mmap\<close> with it; they come to the log line followed by the call as modelled before.
\<close>

definition allocate_log :: "'d platform \<Rightarrow> 'd os \<Rightarrow> 'd os option" where
  "allocate_log pf s = log_line pf (str ''ram: allocate_sectors called'') s"

definition allocate_direct_log :: "'d platform \<Rightarrow> nat \<Rightarrow> 'd os \<Rightarrow> (u64 \<times> 'd os) option" where
  "allocate_direct_log pf n s =
     (case RAM_MGR s of None \<Rightarrow> None
      | Some mgr \<Rightarrow>
          (case allocate_log pf s of None \<Rightarrow> None
           | Some s \<Rightarrow>
               (case allocate_sectors mgr n (os_mem s) of
                  (Some addr, mem) \<Rightarrow> Some (addr, on_mem (\<lambda>_. mem) s)
                | (None, mem) \<Rightarrow> Some (0xFFFFFFFFFFFFFFFF, on_mem (\<lambda>_. mem) s))))"

definition sc_mget_log :: "'d platform \<Rightarrow> 'd arm" where
  "sc_mget_log pf r s =
     map_option (\<lambda>(addr, s). (r, ret 0 (on_mem (wr64 (rdx r) addr) s))) (allocate_direct_log pf (unat (rdi r)) s)"

text \<open>Call 14, whose arm makes call 13.\<close>

definition k_sys_mmap_log :: "'d platform \<Rightarrow> regs \<Rightarrow> u64 \<Rightarrow> u64 \<Rightarrow> u64 \<Rightarrow> 'd os \<Rightarrow> 'd os option" where
  "k_sys_mmap_log pf r pages alignment result_ptr s =
     map_option (\<lambda>(_, s). ret 0 s) (sc_mget_log pf (r\<lparr>rdi := pages, rsi := alignment, rdx := result_ptr, rax := 13\<rparr>) s)"

lemma allocate_log_RAM_MGR: "allocate_log pf s = Some t \<Longrightarrow> RAM_MGR t = RAM_MGR s"
  by (auto simp: allocate_log_def log_line_def)

lemma sc_mget_log_eq: "sc_mget_log pf r s = Option.bind (allocate_log pf s) (sc_mget r)"
proof (cases "RAM_MGR s")
  case None
  then show ?thesis
    by (cases "allocate_log pf s")
      (simp_all add: sc_mget_log_def allocate_direct_log_def sc_mget_def allocate_sectors_direct_def allocate_log_RAM_MGR)
next
  case (Some mgr)
  show ?thesis
  proof (cases "allocate_log pf s")
    case None
    then show ?thesis by (simp add: sc_mget_log_def allocate_direct_log_def Some)
  next
    case (Some t)
    then have t: "RAM_MGR t = Some mgr" using allocate_log_RAM_MGR [OF Some] \<open>RAM_MGR s = Some mgr\<close> by simp
    show ?thesis
      by (cases "allocate_sectors mgr (unat (rdi r)) (os_mem t)")
        (auto simp: sc_mget_log_def allocate_direct_log_def Some \<open>RAM_MGR s = Some mgr\<close> t sc_mget_def
          allocate_sectors_direct_def on_mem_on_mem o_def split: option.split)
  qed
qed

lemma k_sys_mmap_log_eq: "k_sys_mmap_log pf r n al slot s = Option.bind (allocate_log pf s) (k_sys_mmap pf r n al slot)"
  by (cases "allocate_log pf s")
    (simp_all add: k_sys_mmap_log_def sc_mget_log_eq k_sys_mmap_def call_unit_eq handler_cases option.map_comp o_def split_def)

lemma allocate_log_total:
  assumes "take 2 (p_font pf) = [0x36, 0x04]"
  shows "\<exists>sl. allocate_log pf s = Some sl \<and> sl = on_mem (\<lambda>_. os_mem sl) (s\<lparr>SCREEN := SCREEN sl\<rparr>)
    \<and> (\<forall>x. \<not> frame_memory (SCREEN s) x \<longrightarrow> os_mem sl x = os_mem s x)"
proof -
  obtain sc mem where d: "debug_print (p_font pf) (str ''ram: allocate_sectors called'') (SCREEN s) (os_mem s) = Some (sc, mem)"
      "\<forall>x. \<not> frame_memory (SCREEN s) x \<longrightarrow> mem x = os_mem s x"
    using debug_print_total [OF assms] by blast
  then show ?thesis by (simp add: allocate_log_def log_line_def)
qed

lemma allocate_address_cong:
  assumes "ram_ok mgr" "\<And>x. in_bitmap mgr x \<Longrightarrow> mem' x = mem x"
  shows "fst (allocate_sectors mgr n mem') = fst (allocate_sectors mgr n mem)"
proof -
  have "alloc_scan mgr n mem' is c st = alloc_scan mgr n mem is c st" for "is" c st
    using is_used_cong [OF assms] by (induction "is" arbitrary: c st) (simp_all add: Let_def)
  then show ?thesis by (simp add: allocate_sectors_def split: option.split)
qed

text \<open>C15. \<open>sys_mmap\<close> and \<open>sys_munmap\<close> with the log line of the allocator, on a kernel whose page allocator exists, whose
  font is of the kernel's kind, and whose frame buffer is not on the allocator's bitmap. \<open>sys_mmap\<close> is the log line, which
  changes the screen and the frame buffer's memory and nothing else, followed by the call, which returns and puts
  into the caller's variable what the allocator's first-fit search gives, the start of a run of free pages, or
  0xFFFFFFFFFFFFFFFF when there is none, and then changes nothing else; the alignment plays no part. Unmapping
  the run returns 0 and takes the machine back to what it was right after the log line, but for the caller's
  variable and \<open>SYSCALL_RET\<close>.\<close>

theorem mmap_munmap_calls:
  assumes "RAM_MGR s = Some mgr" "ram_ok mgr" "off_bitmap mgr slot"
    and "take 2 (p_font pf) = [0x36, 0x04]" and "\<forall>x. frame_memory (SCREEN s) x \<longrightarrow> \<not> in_bitmap mgr x"
  shows "\<exists>sl s1. allocate_log pf s = Some sl \<and> k_sys_mmap_log pf r n al slot s = Some s1
    \<and> k_sys_mmap pf r n al slot sl = Some s1
    \<and> sl = on_mem (\<lambda>_. os_mem sl) (s\<lparr>SCREEN := SCREEN sl\<rparr>)
    \<and> (\<forall>x. \<not> frame_memory (SCREEN s) x \<longrightarrow> os_mem sl x = os_mem s x)
    \<and> (case fst (allocate_sectors mgr (unat n) (os_mem s)) of
         Some a \<Rightarrow> rd64 (os_mem s1) slot = a
           \<and> k_sys_munmap pf r' a n s1 = Some (0, ret 0 (on_mem (wr64 slot a) sl))
       | None \<Rightarrow> s1 = ret 0 (on_mem (wr64 slot 0xFFFFFFFFFFFFFFFF) sl))"
proof -
  obtain sl where sl: "allocate_log pf s = Some sl" "sl = on_mem (\<lambda>_. os_mem sl) (s\<lparr>SCREEN := SCREEN sl\<rparr>)"
      "\<forall>x. \<not> frame_memory (SCREEN s) x \<longrightarrow> os_mem sl x = os_mem s x"
    using allocate_log_total [OF assms(4)] by blast
  have mgr: "RAM_MGR sl = Some mgr" using allocate_log_RAM_MGR [OF sl(1)] assms(1) by simp
  have "fst (allocate_sectors mgr (unat n) (os_mem sl)) = fst (allocate_sectors mgr (unat n) (os_mem s))"
    by (rule allocate_address_cong [OF assms(2)]) (use sl(3) assms(5) in blast)
  with mmap_munmap_silent [OF mgr assms(2,3), where pf = pf and r = r and n = n and al = al and r' = r'] sl show ?thesis
    by (auto simp: k_sys_mmap_log_eq)
qed

text \<open>A screen of one pixel at 0x80000000 and a font of 256 glyphs of one row.\<close>

definition pixel_platform :: "unit platform" where
  "pixel_platform = idle_platform\<lparr>p_font := [0x36, 0x04, 0, 1] @ replicate 256 0xFF\<rparr>"

definition pixel_os :: "memory \<Rightarrow> ram_manager option \<Rightarrow> unit os" where
  "pixel_os mem mgr = (idle_os mem mgr)\<lparr>SCREEN := \<lparr>FB_PTR = 0x80000000, FB_STRIDE = 1, FB_WIDTH = 1, FB_HEIGHT = 1,
     BACK_BUFFER = [0], DEBUG_Y = 20, DEBUG_X = 400, DEBUG_LINE_COUNT = 0\<rparr>\<rparr>"

theorem mmap_munmap_calls_witness:
  "\<exists>s1. k_sys_mmap_log pixel_platform zero_regs 2 0x10000 0x9000
      (pixel_os ((\<lambda>_. 0)(0x1000 := 0x0B)) (Some \<lparr>bitmap = 0x1000, total_sectors = 16\<rparr>)) = Some s1
    \<and> rd64 (os_mem s1) 0x9000 = 0x4000
    \<and> map_option fst (k_sys_munmap pixel_platform zero_regs 0x4000 2 s1) = Some 0"
proof -
  let ?mgr = "\<lparr>bitmap = 0x1000, total_sectors = 16\<rparr>" and ?s = "pixel_os ((\<lambda>_. 0)(0x1000 := 0x0B)) (Some \<lparr>bitmap = 0x1000, total_sectors = 16\<rparr>)"
  have off: "off_bitmap ?mgr 0x9000"
    by (auto simp: off_bitmap_def in_bitmap_def bitmap_bytes_def in_region_iff_bounds)
  have font: "take 2 (p_font pixel_platform) = [0x36, 0x04]" by (simp add: pixel_platform_def)
  have fb: "\<forall>x. frame_memory (SCREEN ?s) x \<longrightarrow> \<not> in_bitmap ?mgr x"
    by (auto simp: pixel_os_def frame_memory_def in_bitmap_def bitmap_bytes_def in_region_iff_bounds)
  have s: "RAM_MGR ?s = Some ?mgr" "os_mem ?s = (\<lambda>_. 0)(0x1000 := 0x0B)" by (simp_all add: pixel_os_def)
  have ok: "ram_ok ?mgr" by (simp add: ram_ok_def)
  from mmap_munmap_calls [OF s(1) ok off font fb, of zero_regs 2 "0x10000" zero_regs] example_allocation
  show ?thesis unfolding s(2) by auto
qed

end
