(* ===== verification/User_Calls.thy ===== *)
theory User_Calls imports Memory_Calls begin

text \<open>
  The application's side of the system calls, \<open>app/src/fscc.rs\<close>. Unlike the kernel's wrappers these take their
  results from \<open>rax\<close>. A \<open>&mut u64\<close> on the stack is its address (\<open>slot\<close>); immediate call numbers are taken to fill
  the whole of \<open>rax\<close>.
\<close>

section \<open>The wrappers\<close>

definition u_draw_text :: "'d platform \<Rightarrow> regs \<Rightarrow> u32 \<Rightarrow> u32 \<Rightarrow> u64 \<Rightarrow> u64 \<Rightarrow> 'd os \<Rightarrow> 'd os option" where
  "u_draw_text pf r x y p len s = call_unit pf (r\<lparr>rax := 15, rdi := ucast x, rsi := ucast y, rdx := p, rcx := len\<rparr>) s"

definition u_read_key :: "'d bus \<Rightarrow> 'd kworld \<Rightarrow> u8 option \<times> 'd kworld" where
  "u_read_key bus w =
     (case port_in bus 0x64 w of (status, w) \<Rightarrow>
        if status AND 0x01 \<noteq> 0 then (case port_in bus 0x60 w of (sc, w) \<Rightarrow> (Some sc, w)) else (None, w))"

partial_function (option) u_wait_key :: "'d bus \<Rightarrow> 'd kworld \<Rightarrow> (u8 \<times> 'd kworld) option" where
  "u_wait_key bus w =
     (case u_read_key bus w of (Some key, w) \<Rightarrow> Some (key, w) | (None, w) \<Rightarrow> u_wait_key bus w)"

definition u_exit :: "'d platform \<Rightarrow> regs \<Rightarrow> u32 \<Rightarrow> 'd os \<Rightarrow> 'd os option" where
  "u_exit pf r code s = Option.bind (call_unit pf (r\<lparr>rax := 2, rdi := scast code\<rparr>) s) spin_forever"

definition u_open :: "'d platform \<Rightarrow> regs \<Rightarrow> u64 \<Rightarrow> 'd os \<Rightarrow> (u32 \<times> 'd os) option" where
  "u_open pf r path s = map_option (\<lambda>(v, s). (ucast v, s)) (call_rax pf (r\<lparr>rax := 3, rdi := path\<rparr>) s)"

definition u_close :: "'d platform \<Rightarrow> regs \<Rightarrow> u32 \<Rightarrow> 'd os \<Rightarrow> (u32 \<times> 'd os) option" where
  "u_close pf r fd s = map_option (\<lambda>(v, s). (ucast v, s)) (call_rax pf (r\<lparr>rax := 4, rdi := scast fd\<rparr>) s)"

definition u_lseek :: "'d platform \<Rightarrow> regs \<Rightarrow> u32 \<Rightarrow> u64 \<Rightarrow> u32 \<Rightarrow> 'd os \<Rightarrow> (u64 \<times> 'd os) option" where
  "u_lseek pf r fd offset whence s =
     call_rax pf (r\<lparr>rax := 5, rdi := scast fd, rsi := offset, rdx := ucast whence\<rparr>) s"

text \<open>The status record, at its address; its layout is the one the kernel writes.\<close>

record file_stat =
  st_file_size :: u32
  st_cluster :: u32
  st_position :: u64
  st_is_dir :: bool

definition rd_file_stat :: "memory \<Rightarrow> u64 \<Rightarrow> file_stat" where
  "rd_file_stat mem p = \<lparr>st_file_size = rd32 mem p, st_cluster = rd32 mem (p + 4), st_position = rd64 mem (p + 8),
     st_is_dir = (mem (p + 16) \<noteq> 0)\<rparr>"

definition u_fstat :: "'d platform \<Rightarrow> regs \<Rightarrow> u32 \<Rightarrow> u64 \<Rightarrow> 'd os \<Rightarrow> (u32 \<times> 'd os) option" where
  "u_fstat pf r fd stat s =
     map_option (\<lambda>(v, s). (ucast v, s)) (call_rax pf (r\<lparr>rax := 6, rdi := scast fd, rsi := stat\<rparr>) s)"

definition u_exec :: "'d platform \<Rightarrow> regs \<Rightarrow> u64 \<Rightarrow> 'd os \<Rightarrow> 'd os option" where
  "u_exec pf r path s = Option.bind (call_unit pf (r\<lparr>rax := 7, rdi := path\<rparr>) s) spin_forever"

definition u_yield_now :: "'d platform \<Rightarrow> regs \<Rightarrow> 'd os \<Rightarrow> 'd os option" where
  "u_yield_now pf r s = call_unit pf (r\<lparr>rax := 8\<rparr>) s"

definition u_read_file :: "'d platform \<Rightarrow> regs \<Rightarrow> u32 \<Rightarrow> u64 \<Rightarrow> u64 \<Rightarrow> 'd os \<Rightarrow> (u64 \<times> 'd os) option" where
  "u_read_file pf r fd buf len s = call_rax pf (r\<lparr>rax := 9, rdi := scast fd, rsi := buf, rdx := len\<rparr>) s"

definition u_write_file :: "'d platform \<Rightarrow> regs \<Rightarrow> u32 \<Rightarrow> u64 \<Rightarrow> u64 \<Rightarrow> 'd os \<Rightarrow> (u64 \<times> 'd os) option" where
  "u_write_file pf r fd buf len s = call_rax pf (r\<lparr>rax := 10, rdi := scast fd, rsi := buf, rdx := len\<rparr>) s"

definition u_seek :: "'d platform \<Rightarrow> regs \<Rightarrow> u32 \<Rightarrow> u64 \<Rightarrow> 'd os \<Rightarrow> (u64 \<times> 'd os) option" where
  "u_seek pf r fd pos s = call_rax pf (r\<lparr>rax := 11, rdi := scast fd, rsi := pos\<rparr>) s"

definition u_mget :: "'d platform \<Rightarrow> regs \<Rightarrow> u64 \<Rightarrow> u64 \<Rightarrow> 'd os \<Rightarrow> (u64 \<times> 'd os) option" where
  "u_mget pf r slot pages s =
     map_option (\<lambda>s. (rd64 (os_mem s) slot, s))
       (call_unit pf (r\<lparr>rax := 13, rdi := pages, rsi := 0, rdx := slot\<rparr>) (on_mem (wr64 slot 0) s))"

definition u_mmap :: "'d platform \<Rightarrow> regs \<Rightarrow> u64 \<Rightarrow> u64 \<Rightarrow> u64 \<Rightarrow> 'd os \<Rightarrow> (u64 \<times> 'd os) option" where
  "u_mmap pf r slot pages al s =
     map_option (\<lambda>s. (rd64 (os_mem s) slot, s))
       (call_unit pf (r\<lparr>rax := 14, rdi := pages, rsi := al, rdx := slot\<rparr>) (on_mem (wr64 slot 0) s))"

text \<open>The application itself, \<open>app/src/main.rs\<close>: \<open>text\<close> is where the linker put the 19 bytes of its string.\<close>

definition APP_TEXT :: "u8 list" where
  "APP_TEXT = str ''Hello at (100,200)!''"

definition app_start :: "'d platform \<Rightarrow> regs \<Rightarrow> u64 \<Rightarrow> 'd os \<Rightarrow> 'd os option" where
  "app_start pf r text s = u_draw_text pf r 100 200 text (of_nat (length APP_TEXT)) s"

section \<open>What the application gets\<close>

lemma u_read_key_poll: "u_read_key = poll_keyboard"
  by (simp add: fun_eq_iff u_read_key_def poll_keyboard_def)

text \<open>A loop that never ends has no result.\<close>

lemma spin_forever_None: "spin_forever s = None"
proof -
  have "spin_forever s = Some t \<Longrightarrow> False" for t
    by (rule spin_forever.raw_induct [where P = "\<lambda>s t. False"])
  then show ?thesis by (cases "spin_forever s") auto
qed

lemma ucast_scast_fd [simp]: "(ucast (scast (x :: u32) :: u64) :: u32) = x"
  by (rule ucast_scast_u32)

text \<open>The \<open>x86-interrupt\<close> convention: the interrupted code finds its registers as it left them.\<close>

definition preserves_registers :: "'d platform \<Rightarrow> bool" where
  "preserves_registers pf \<longleftrightarrow> iret pf = (\<lambda>r r'. r)"

lemma call_rax_preserved:
  "preserves_registers pf \<Longrightarrow> call_rax pf r s = map_option (\<lambda>(_, s). (rax r, s)) (call_ret pf r s)"
  by (simp add: call_defs preserves_registers_def option.map_comp o_def split_def)

text \<open>C28. With the registers preserved, as the calling convention documents, each file call of the application has the effect
  of the kernel's own call but never delivers its result: it returns the number of the call (3 for \<open>open\<close>, 9 for
  \<open>read_file\<close>, ...) whatever happened, because the result is in \<open>SYSCALL_RET\<close> and the application reads \<open>rax\<close>. The
  two memory calls do deliver theirs, through memory: each is the kernel's own call on a variable that starts at 0,
  whatever the alignment, and returns the allocator's address, or 0xFFFFFFFFFFFFFFFF when there is no run of free
  pages (the line it logs left aside). \<open>exit\<close> and \<open>exec\<close> never return.\<close>

theorem user_call_results:
  assumes "preserves_registers pf"
  shows "u_open pf r p s = map_option (\<lambda>(fd, s). (3, ret (scast fd) s)) (on_files (syscall_open (p_disk pf) (path_arg (os_mem s) p)) s) \<and>
    u_close pf r fd s = map_option (\<lambda>(_, s). (4, s)) (k_sys_close pf r fd s) \<and>
    u_lseek pf r fd off wh s = map_option (\<lambda>(_, s). (5, s)) (k_SYS_LSEEK pf r fd off wh s) \<and>
    u_fstat pf r fd st s = map_option (\<lambda>(_, s). (6, s)) (k_SYS_FSTAT pf r fd st s) \<and>
    u_read_file pf r fd buf len s = map_option (\<lambda>(_, s). (9, s)) (k_sys_read_file pf r fd buf len s) \<and>
    u_write_file pf r fd buf len s = map_option (\<lambda>(v, s). (10, ret v s)) (on_files (write_file_op (p_disk pf) fd buf len) s) \<and>
    u_seek pf r fd pos s = map_option (\<lambda>(_, s). (11, s)) (k_sys_seek pf r fd pos s) \<and>
    u_mget pf r slot n s
      = map_option (\<lambda>s. (rd64 (os_mem s) slot, s)) (k_sys_mget pf r n 0 slot (on_mem (wr64 slot 0) s)) \<and>
    u_mmap pf r slot n al s
      = map_option (\<lambda>s. (rd64 (os_mem s) slot, s)) (k_sys_mmap pf r n al slot (on_mem (wr64 slot 0) s)) \<and>
    map_option fst (u_mget pf r slot n s)
      = map_option fst (allocate_sectors_direct (RAM_MGR s) (unat n) (wr64 slot 0 (os_mem s))) \<and>
    map_option fst (u_mmap pf r slot n al s)
      = map_option fst (allocate_sectors_direct (RAM_MGR s) (unat n) (wr64 slot 0 (os_mem s))) \<and>
    u_exit pf r code s = None \<and> u_exec pf r p s = None"
proof -
  note eqs = call_rax_preserved [OF assms] call_ret_eq call_unit_eq handler_cases option.map_comp o_def split_def
  show ?thesis
    by (intro conjI)
      (simp_all add: eqs u_open_def sc_open_def u_close_def k_sys_close_def sc_close_def u_lseek_def k_SYS_LSEEK_def sc_lseek_def
        u_fstat_def k_SYS_FSTAT_def sc_fstat_def u_read_file_def k_sys_read_file_def sc_read_file_def u_write_file_def
        sc_write_file_def u_seek_def k_sys_seek_def sc_seek_def u_mget_def k_sys_mget_def u_mmap_def k_sys_mmap_def sc_mget_def
        u_exit_def u_exec_def spin_forever_None Option.bind_eq_None_conv Let_def split: option.split)
qed

theorem user_call_results_witness:
  "u_close idle_platform zero_regs 2 (idle_os (\<lambda>_. 0) None) = Some (4, ret (-1) (idle_os (\<lambda>_. 0) None))"
proof -
  have "u_close idle_platform zero_regs 2 (idle_os (\<lambda>_. 0) None)
      = map_option (\<lambda>(_, s). (4, s)) (k_sys_close idle_platform zero_regs 2 (idle_os (\<lambda>_. 0) None))"
    using user_call_results [of idle_platform] by (simp add: preserves_registers_def idle_platform_def)
  also have "\<dots> = Some (4, ret (-1) (idle_os (\<lambda>_. 0) None))"
    by (simp add: k_sys_close_def call_ret_eq handler_cases sc_close_def close_fd_def idle_os_def)
  finally show ?thesis .
qed

end
