(* ===== verification/E1000.thy ===== *)
theory E1000 imports Memory_Calls begin

text \<open>
  The Intel 8254x network driver, \<open>kernel/src/net/e1000.rs\<close>: two rings of 16-byte descriptors in memory
  obtained with \<open>sys_mmap\<close>, shared with the card, and its registers. The card is the bus; it gets on only while the CPU
  spins. \<open>rg\<close> are the registers at the system calls and \<open>slot\<close> the address of the local variable \<open>sys_mmap\<close> fills.
  A received packet is a slice of memory: its address and length.
\<close>

record e1000 =
  mmio_base :: u64
  mac :: "u8 list"
  rx_descs :: u64
  rx_buffers :: u64
  tx_descs :: u64
  tx_buffers :: u64

definition RX_DESC_COUNT :: nat where "RX_DESC_COUNT = 32"
definition TX_DESC_COUNT :: nat where "TX_DESC_COUNT = 8"
definition BUFFER_SIZE :: nat where "BUFFER_SIZE = 2048"

text \<open>The fields of descriptor \<open>i\<close> of a ring, in both layouts.\<close>

definition desc_at :: "u64 \<Rightarrow> nat \<Rightarrow> u64" where
  "desc_at ring i = ring + of_nat (16 * i)"

definition RxDesc_buffer_addr :: "u64 \<Rightarrow> u64" where "RxDesc_buffer_addr d = d"
definition RxDesc_length :: "u64 \<Rightarrow> u64" where "RxDesc_length d = d + 8"
definition RxDesc_status :: "u64 \<Rightarrow> u64" where "RxDesc_status d = d + 12"

definition TxDesc_buffer_addr :: "u64 \<Rightarrow> u64" where "TxDesc_buffer_addr d = d"
definition TxDesc_length :: "u64 \<Rightarrow> u64" where "TxDesc_length d = d + 8"
definition TxDesc_cmd :: "u64 \<Rightarrow> u64" where "TxDesc_cmd d = d + 11"
definition TxDesc_status :: "u64 \<Rightarrow> u64" where "TxDesc_status d = d + 12"

definition buffer_at :: "u64 \<Rightarrow> nat \<Rightarrow> u64" where
  "buffer_at bufs i = bufs + of_nat (i * 2048)"

section \<open>Registers\<close>

definition read_reg :: "'d platform \<Rightarrow> e1000 \<Rightarrow> u64 \<Rightarrow> 'd os \<Rightarrow> u32" where
  "read_reg pf nic offset s = reg_rd (p_bus pf) (mmio_base nic + offset) (os_machine s)"

definition write_reg :: "'d platform \<Rightarrow> e1000 \<Rightarrow> u64 \<Rightarrow> u32 \<Rightarrow> 'd os \<Rightarrow> 'd os" where
  "write_reg pf nic offset v s = set_machine (reg_wr (p_bus pf) (mmio_base nic + offset) v (os_machine s)) s"

text \<open>\<open>while c(register) { spin_loop() }\<close>; it never ends if the card never answers.\<close>

partial_function (option) wait_while :: "'d platform \<Rightarrow> e1000 \<Rightarrow> u64 \<Rightarrow> (u32 \<Rightarrow> bool) \<Rightarrow> 'd os \<Rightarrow> 'd os option" where
  "wait_while pf nic offset c s =
     (if c (read_reg pf nic offset s)
      then wait_while pf nic offset c (set_machine (spin (p_bus pf) 1 (os_machine s)) s) else Some s)"

section \<open>Setting up\<close>

definition init :: "'d platform \<Rightarrow> e1000 \<Rightarrow> 'd os \<Rightarrow> 'd os option" where
  "init pf nic s =
     (let ctrl = read_reg pf nic 0x0000 s;
          s = write_reg pf nic 0x0000 (ctrl OR push_bit 26 1) s
      in case wait_while pf nic 0x0000 (\<lambda>v. v AND push_bit 26 1 \<noteq> 0) s of None \<Rightarrow> None
         | Some s \<Rightarrow> wait_while pf nic 0x0008 (\<lambda>v. v AND push_bit 1 1 = 0) s)"

definition init_desc :: "u64 \<Rightarrow> u64 \<Rightarrow> u8 \<Rightarrow> nat \<Rightarrow> memory \<Rightarrow> memory" where
  "init_desc ring bufs st i mem =
     st8 (RxDesc_status (desc_at ring i)) st (wr64 (RxDesc_buffer_addr (desc_at ring i)) (buffer_at bufs i) mem)"

definition init_ring :: "u64 \<Rightarrow> u64 \<Rightarrow> u8 \<Rightarrow> nat \<Rightarrow> memory \<Rightarrow> memory" where
  "init_ring ring bufs st n mem = fold (init_desc ring bufs st) [0..<n] mem"

definition setup_rx :: "'d platform \<Rightarrow> regs \<Rightarrow> u64 \<Rightarrow> e1000 \<Rightarrow> 'd os \<Rightarrow> (e1000 \<times> 'd os) option" where
  "setup_rx pf rg slot nic s =
     (case mmap_local pf rg slot 1 s of None \<Rightarrow> None
      | Some (rx_desc_addr, s) \<Rightarrow>
          let nic = nic\<lparr>rx_descs := rx_desc_addr\<rparr>;
              s = on_mem (fill_bytes (rx_descs nic) (RX_DESC_COUNT * 16) 0) s
          in case mmap_local pf rg slot 16 s of None \<Rightarrow> None
             | Some (rx_buf_addr, s) \<Rightarrow>
                 let nic = nic\<lparr>rx_buffers := rx_buf_addr\<rparr>;
                     s = on_mem (init_ring (rx_descs nic) rx_buf_addr 0 RX_DESC_COUNT) s;
                     s = write_reg pf nic 0x2800 (ucast (rx_descs nic)) s;
                     s = write_reg pf nic 0x2804 (ucast (drop_bit 32 (rx_descs nic))) s;
                     s = write_reg pf nic 0x2808 (of_nat (RX_DESC_COUNT * 16)) s;
                     s = write_reg pf nic 0x2810 0 s;
                     s = write_reg pf nic 0x2818 (of_nat RX_DESC_COUNT - 1) s
                 in Some (nic, s))"

definition setup_tx :: "'d platform \<Rightarrow> regs \<Rightarrow> u64 \<Rightarrow> e1000 \<Rightarrow> 'd os \<Rightarrow> (e1000 \<times> 'd os) option" where
  "setup_tx pf rg slot nic s =
     (case mmap_local pf rg slot 1 s of None \<Rightarrow> None
      | Some (tx_desc_addr, s) \<Rightarrow>
          let nic = nic\<lparr>tx_descs := tx_desc_addr\<rparr>;
              s = on_mem (fill_bytes (tx_descs nic) (TX_DESC_COUNT * 16) 0) s
          in case mmap_local pf rg slot 4 s of None \<Rightarrow> None
             | Some (tx_buf_addr, s) \<Rightarrow>
                 let nic = nic\<lparr>tx_buffers := tx_buf_addr\<rparr>;
                     s = on_mem (init_ring (tx_descs nic) tx_buf_addr 1 TX_DESC_COUNT) s;
                     s = write_reg pf nic 0x3800 (ucast (tx_descs nic)) s;
                     s = write_reg pf nic 0x3804 (ucast (drop_bit 32 (tx_descs nic))) s;
                     s = write_reg pf nic 0x3808 (of_nat (TX_DESC_COUNT * 16)) s;
                     s = write_reg pf nic 0x3810 0 s;
                     s = write_reg pf nic 0x3818 0 s
                 in Some (nic, s))"

definition enable :: "'d platform \<Rightarrow> e1000 \<Rightarrow> 'd os \<Rightarrow> 'd os option" where
  "enable pf nic s =
     (let rctl = read_reg pf nic 0x0100 s;
          rctl = rctl AND NOT 0xFFFF;
          rctl = rctl OR push_bit 1 1;
          rctl = rctl OR push_bit 3 1;
          rctl = rctl OR push_bit 4 1;
          rctl = rctl OR push_bit 6 1;
          rctl = rctl OR push_bit 15 1;
          rctl = rctl OR push_bit 27 1;
          rctl = rctl OR 1;
          s = write_reg pf nic 0x0100 rctl s;
          tctl = read_reg pf nic 0x0400 s;
          tctl = tctl OR push_bit 1 1;
          tctl = tctl OR push_bit 3 1;
          s = write_reg pf nic 0x0400 tctl s
      in log_line pf (str ''[e1000] RCTL=0x'' @ fmt_hex (ucast rctl) @ str '' TCTL=0x'' @ fmt_hex (ucast tctl)) s)"

definition new_nic :: "'d platform \<Rightarrow> regs \<Rightarrow> u64 \<Rightarrow> u32 \<Rightarrow> 'd os \<Rightarrow> (e1000 \<times> 'd os) option" where
  "new_nic pf rg slot bar0 s =
     (let base = ucast bar0;
          ral = reg_rd (p_bus pf) (base + 0x5400) (os_machine s);
          rah = reg_rd (p_bus pf) (base + 0x5404) (os_machine s);
          addr = [ucast ral, ucast (drop_bit 8 ral), ucast (drop_bit 16 ral), ucast (drop_bit 24 ral),
            ucast rah, ucast (drop_bit 8 rah)];
          nic = \<lparr>mmio_base = base, mac = addr, rx_descs = 0, rx_buffers = 0, tx_descs = 0, tx_buffers = 0\<rparr>
      in do { s \<leftarrow> init pf nic s; (nic, s) \<leftarrow> setup_rx pf rg slot nic s; (nic, s) \<leftarrow> setup_tx pf rg slot nic s;
              s \<leftarrow> enable pf nic s; Some (nic, s) })"

section \<open>Packets\<close>

definition receive :: "'d platform \<Rightarrow> e1000 \<Rightarrow> 'd os \<Rightarrow> (u64 \<times> nat) option \<times> 'd os" where
  "receive pf nic s =
     (let rdt = unat (read_reg pf nic 0x2818 s);
          idx = (rdt + 1) mod RX_DESC_COUNT;
          desc = desc_at (rx_descs nic) idx
      in if os_mem s (RxDesc_status desc) AND 1 \<noteq> 0 then
           let len = unat (rd16 (os_mem s) (RxDesc_length desc));
               buf = buffer_at (rx_buffers nic) idx;
               s = on_mem (st8 (RxDesc_status desc) 0) s;
               s = write_reg pf nic 0x2818 (of_nat idx) s
           in (Some (buf, len), s)
         else (None, s))"

definition poll_receive :: "'d platform \<Rightarrow> e1000 \<Rightarrow> 'd os \<Rightarrow> (u64 \<times> nat) option \<times> 'd os" where
  "poll_receive pf nic s = receive pf nic s"

definition send :: "'d platform \<Rightarrow> e1000 \<Rightarrow> u8 list \<Rightarrow> 'd os \<Rightarrow> bool \<times> 'd os" where
  "send pf nic pkt s =
     (if length pkt > 2048 then (False, s)
      else let tdt = unat (read_reg pf nic 0x3818 s);
               desc = desc_at (tx_descs nic) tdt
           in if os_mem s (TxDesc_status desc) AND 0x0F \<noteq> 1 then (False, s)
              else let s = on_mem (wr_bytes (buffer_at (tx_buffers nic) tdt) pkt) s;
                       s = on_mem (wr16 (TxDesc_length desc) (of_nat (length pkt))) s;
                       s = on_mem (st8 (TxDesc_cmd desc) 0x0B) s;
                       s = on_mem (\<lambda>mem. st8 (TxDesc_status desc) (mem (TxDesc_status desc) AND NOT 1) mem) s;
                       new_tdt = (tdt + 1) mod TX_DESC_COUNT
                   in (True, write_reg pf nic 0x3818 (of_nat new_tdt) s))"

section \<open>Sending\<close>

lemma write_reg_simps [simp]: "os_mem (write_reg pf nic a v s) = os_mem s" "RAM_MGR (write_reg pf nic a v s) = RAM_MGR s"
  by (simp_all add: write_reg_def)

text \<open>The two areas of the sending side lie apart.\<close>

definition tx_layout :: "e1000 \<Rightarrow> bool" where
  "tx_layout nic \<longleftrightarrow> (\<forall>x. \<not> (in_region (tx_descs nic) 128 x \<and> in_region (tx_buffers nic) 16384 x))"

text \<open>A descriptor is the card's until the card sets its done bit and nothing else in the low half of the status.\<close>

definition tx_done :: "e1000 \<Rightarrow> memory \<Rightarrow> nat \<Rightarrow> bool" where
  "tx_done nic mem i \<longleftrightarrow> mem (TxDesc_status (desc_at (tx_descs nic) i)) AND 0x0F = 1"

definition tx_desc_bytes :: "e1000 \<Rightarrow> memory \<Rightarrow> nat \<Rightarrow> u8 list" where
  "tx_desc_bytes nic mem i = rd_bytes mem (desc_at (tx_descs nic) i) 16"

definition tx_packet :: "e1000 \<Rightarrow> memory \<Rightarrow> nat \<Rightarrow> nat \<Rightarrow> u8 list" where
  "tx_packet nic mem i n = rd_bytes mem (buffer_at (tx_buffers nic) i) n"

definition others_kept :: "e1000 \<Rightarrow> nat \<Rightarrow> memory \<Rightarrow> memory \<Rightarrow> bool" where
  "others_kept nic t mem mem' \<longleftrightarrow>
     (\<forall>i<8. i \<noteq> t \<longrightarrow> tx_desc_bytes nic mem' i = tx_desc_bytes nic mem i \<and> tx_packet nic mem' i 2048 = tx_packet nic mem i 2048)"

text \<open>What sending writes.\<close>

definition send_mem :: "e1000 \<Rightarrow> u8 list \<Rightarrow> nat \<Rightarrow> memory \<Rightarrow> memory" where
  "send_mem nic pkt tdt mem =
     (let desc = desc_at (tx_descs nic) tdt;
          mem = st8 (TxDesc_cmd desc) 0x0B (wr16 (TxDesc_length desc) (of_nat (length pkt)) (wr_bytes (buffer_at (tx_buffers nic) tdt) pkt mem))
      in st8 (TxDesc_status desc) (mem (TxDesc_status desc) AND NOT 1) mem)"

lemma send_eq:
  assumes "length pkt \<le> 2048"
  shows "send pf nic pkt s = (let tdt = unat (read_reg pf nic 0x3818 s) in
    if tx_done nic (os_mem s) tdt
    then (True, write_reg pf nic 0x3818 (of_nat ((tdt + 1) mod 8)) (on_mem (send_mem nic pkt tdt) s)) else (False, s))"
  using assms by (simp add: send_def tx_done_def Let_def on_mem_on_mem send_mem_def [abs_def] o_def TX_DESC_COUNT_def)

lemma offset_eq_iff: "i < 2 ^ 64 \<Longrightarrow> (a :: u64) + of_nat i = b \<longleftrightarrow> unat (b - a) = i"
  by (metis add_diff_cancel_left' diff_add_cancel add.commute unat_of_nat_u64 of_nat_unat_u64)

text \<open>Offsets within an area.\<close>

lemma area_offset: "in_region (a + of_nat j) n x \<Longrightarrow> j + n \<le> 2 ^ 64 \<Longrightarrow> \<exists>i<n. x = a + of_nat (j + i) \<and> unat (x - a) = j + i"
proof -
  assume r: "in_region (a + of_nat j) n x" and b: "j + n \<le> 2 ^ 64"
  from r obtain i where i: "i < n" "x = a + of_nat j + of_nat i" by (auto elim: in_regionE)
  then have "x = a + of_nat (j + i)" by simp
  moreover from this have "unat (x - a) = j + i" using i(1) b unat_of_nat_u64 [of "j + i"] by (simp del: of_nat_add)
  ultimately show ?thesis using i(1) by blast
qed

lemma send_mem_other:
  assumes "\<not> in_region (desc_at (tx_descs nic) t + 8) 5 x" "\<not> in_region (buffer_at (tx_buffers nic) t) (length pkt) x"
  shows "send_mem nic pkt t mem x = mem x"
proof -
  have off: "x \<noteq> desc_at (tx_descs nic) t + 8 + of_nat i" if "i < 5" for i
    using assms(1) that by auto
  show ?thesis
    using off [of 0] off [of 1] off [of 3] off [of 4] assms(2)
    by (simp add: send_mem_def Let_def st8_def wr16_def TxDesc_status_def TxDesc_cmd_def TxDesc_length_def wr_bytes_other add.assoc)
qed

lemma send_mem_others_kept:
  assumes lay: "tx_layout nic" and t: "t < 8" and len: "length pkt \<le> 2048"
  shows "others_kept nic t mem (send_mem nic pkt t mem)"
proof -
  have desc: "in_region (tx_descs nic) 128 x \<and> unat (x - tx_descs nic) div 16 = i" if "in_region (desc_at (tx_descs nic) i + of_nat k) n x" "k + n \<le> 16" "i < 8" for i k n x
  proof -
    from that(1) have "in_region (tx_descs nic + of_nat (16 * i + k)) n x" by (simp add: desc_at_def add.assoc)
    from area_offset [OF this] that(2,3) obtain j where j: "j < n" "unat (x - tx_descs nic) = 16 * i + k + j" by auto
    moreover have "16 * i + k + j < 128" using j(1) that(2,3) by linarith
    moreover have "(16 * i + k + j) div 16 = i" using j(1) that(2) by (simp add: div_nat_eqI)
    ultimately show ?thesis by (simp add: in_region_def)
  qed
  have buf: "in_region (tx_buffers nic) 16384 x \<and> unat (x - tx_buffers nic) div 2048 = i" if "in_region (buffer_at (tx_buffers nic) i) n x" "n \<le> 2048" "i < 8" for i n x
  proof -
    from that(1) have "in_region (tx_buffers nic + of_nat (i * 2048)) n x" by (simp add: buffer_at_def)
    from area_offset [OF this] that(2,3) obtain j where j: "j < n" "unat (x - tx_buffers nic) = i * 2048 + j" by auto
    moreover have "i * 2048 + j < 16384" using j(1) that(2,3) by linarith
    moreover have "(i * 2048 + j) div 2048 = i" using j(1) that(2) by (simp add: div_nat_eqI)
    ultimately show ?thesis by (simp add: in_region_def)
  qed
  have keep: "send_mem nic pkt t mem x = mem x" if "in_region (desc_at (tx_descs nic) i) 16 x \<or> in_region (buffer_at (tx_buffers nic) i) 2048 x" "i < 8" "i \<noteq> t" for i x
  proof (rule send_mem_other)
    have apart: "\<not> (in_region (tx_descs nic) 128 x \<and> in_region (tx_buffers nic) 16384 x)" using lay by (simp add: tx_layout_def)
    have here: "in_region (tx_descs nic) 128 x \<and> unat (x - tx_descs nic) div 16 = i
        \<or> in_region (tx_buffers nic) 16384 x \<and> unat (x - tx_buffers nic) div 2048 = i"
      using that(1,2) desc [of i 0 16 x] buf [of i 2048 x] by auto
    show "\<not> in_region (desc_at (tx_descs nic) t + 8) 5 x"
      using desc [of t 8 5 x] here apart t that(3) by auto
    show "\<not> in_region (buffer_at (tx_buffers nic) t) (length pkt) x"
      using buf [OF _ len t, of x] here apart that(3) by auto
  qed
  show ?thesis
    unfolding others_kept_def tx_desc_bytes_def tx_packet_def
    by (intro allI impI conjI rd_bytes_cong keep) auto
qed

text \<open>What is in the descriptor and the buffer after it.\<close>

lemma send_mem_written:
  fixes mem :: memory
  assumes lay: "tx_layout nic" and t: "t < 8" and len: "length pkt \<le> 2048"
  defines "m \<equiv> send_mem nic pkt t mem" and "d \<equiv> desc_at (tx_descs nic) t"
  shows "tx_packet nic m t (length pkt) = pkt" "rd16 m (TxDesc_length d) = of_nat (length pkt)"
    "m (TxDesc_cmd d) = 0x0B" "\<not> tx_done nic m t"
proof -
  show "rd16 m (TxDesc_length d) = of_nat (length pkt)"
  proof -
    have "rd16 m (d + 8) = rd16 (wr16 (d + 8) (of_nat (length pkt)) mem) (d + 8)"
      by (rule rd16_cong) (simp_all add: m_def send_mem_def Let_def d_def [symmetric] st8_def wr16_def
          TxDesc_status_def TxDesc_cmd_def TxDesc_length_def)
    then show ?thesis by (simp add: TxDesc_length_def)
  qed
  show "m (TxDesc_cmd d) = 0x0B"
    by (simp add: m_def send_mem_def Let_def d_def [symmetric] st8_def TxDesc_status_def TxDesc_cmd_def)
  have "m (TxDesc_status d) AND 1 = 0"
    by (simp add: m_def send_mem_def Let_def d_def [symmetric] st8_def TxDesc_status_def TxDesc_cmd_def and.assoc)
  then show "\<not> tx_done nic m t"
  proof (rule contrapos_pn)
    assume "tx_done nic m t"
    then have "(m (TxDesc_status d) AND 0x0F) AND 1 = 1" by (simp add: tx_done_def d_def)
    then show "m (TxDesc_status d) AND 1 \<noteq> 0" by (simp add: and.assoc)
  qed
  have at: "m (buffer_at (tx_buffers nic) t + of_nat i) = pkt ! i" if i: "i < length pkt" for i
  proof -
    have "in_region (tx_buffers nic) 16384 (buffer_at (tx_buffers nic) t + of_nat i)"
      using in_region_sub [of "tx_buffers nic" "t * 2048" 2048 "buffer_at (tx_buffers nic) t + of_nat i" 16384] t i len
      by (simp add: buffer_at_def)
    then have out: "\<not> in_region (tx_descs nic) 128 (buffer_at (tx_buffers nic) t + of_nat i)"
      using lay by (auto simp: tx_layout_def)
    have off: "buffer_at (tx_buffers nic) t + of_nat i \<noteq> d + of_nat k" if "k < 16" for k
    proof
      assume eq: "buffer_at (tx_buffers nic) t + of_nat i = d + of_nat k"
      have "in_region (tx_descs nic) 128 (d + of_nat k)"
        using in_region_sub [of "tx_descs nic" "16 * t" 16 "d + of_nat k" 128] t that by (simp add: d_def desc_at_def)
      with out eq show False by simp
    qed
    show ?thesis
      using off [of 8] off [of 9] off [of 11] off [of 12] wr_bytes_offset [of i pkt "buffer_at (tx_buffers nic) t" mem] i len
      by (simp add: add.commute [of 9 d] m_def send_mem_def Let_def d_def [symmetric] st8_def wr16_def TxDesc_status_def TxDesc_cmd_def TxDesc_length_def)
  qed
  show "tx_packet nic m t (length pkt) = pkt"
    unfolding tx_packet_def by (rule nth_equalityI) (simp_all add: at)
qed

text \<open>C17. Sending a packet. It is accepted exactly when it fits a buffer and the descriptor at the tail is done. Then the
  packet is in that descriptor's buffer, the descriptor has its length and the command and is no longer done, the
  tail register is set to the next descriptor, and the descriptor and the buffer of every other slot are as before:
  no packet the card has not sent yet is touched. A packet that is refused changes nothing.\<close>

theorem e1000_send:
  assumes "tx_layout nic" "unat (read_reg pf nic 0x3818 s) < 8"
  shows "let t = unat (read_reg pf nic 0x3818 s); d = desc_at (tx_descs nic) t; (ok, s') = send pf nic pkt s in
    (ok \<longleftrightarrow> length pkt \<le> 2048 \<and> tx_done nic (os_mem s) t) \<and>
    (if ok then
       tx_packet nic (os_mem s') t (length pkt) = pkt \<and> rd16 (os_mem s') (TxDesc_length d) = of_nat (length pkt)
       \<and> os_mem s' (TxDesc_cmd d) = 0x0B \<and> \<not> tx_done nic (os_mem s') t
       \<and> others_kept nic t (os_mem s) (os_mem s')
       \<and> s' = write_reg pf nic 0x3818 (of_nat ((t + 1) mod 8)) (on_mem (\<lambda>_. os_mem s') s)
     else s' = s)"
proof (cases "length pkt \<le> 2048")
  case False
  then show ?thesis by (simp add: send_def)
next
  case True
  let ?t = "unat (read_reg pf nic 0x3818 s)"
  note w = send_mem_written [OF assms True, of "os_mem s"] send_mem_others_kept [OF assms True, of "os_mem s"]
  have "on_mem (send_mem nic pkt ?t) s = on_mem (\<lambda>_. send_mem nic pkt ?t (os_mem s)) s" by (rule on_mem_const) simp
  then show ?thesis
    using True w by (auto simp: send_eq Let_def split: if_splits)
qed

definition sample_nic :: e1000 where
  "sample_nic = \<lparr>mmio_base = 0xF0000000, mac = [], rx_descs = 0, rx_buffers = 0, tx_descs = 0x4000, tx_buffers = 0x8000\<rparr>"

theorem e1000_send_witness:
  "fst (send idle_platform sample_nic [1, 2, 3] (idle_os ((\<lambda>_. 0)(0x400C := 1)) None))"
proof -
  have "tx_layout sample_nic" by (auto simp: tx_layout_def sample_nic_def in_region_iff_bounds)
  from e1000_send [OF this, of idle_platform "idle_os ((\<lambda>_. 0)(0x400C := 1)) None" "[1, 2, 3]"]
  show ?thesis
    by (simp add: read_reg_def reg_rd_def idle_platform_def idle_bus_def Let_def split_beta tx_done_def desc_at_def
        TxDesc_status_def sample_nic_def)
qed

end
