(* ===== verification/Driver_Pages.thy ===== *)
theory Driver_Pages imports Memory_Calls begin

text \<open>
  What a driver or the loader gets from \<open>sys_mmap\<close>, proved from the page allocator's contract (\<open>Page_Allocator\<close>): fresh
  pages in a row, the rest of a free stretch still free, and every byte that was in use before unchanged.
\<close>

section \<open>Pages for a driver\<close>

text \<open>A local variable of the kernel: in pages that are in use, away from the bitmap.\<close>

definition local_var :: "ram_manager \<Rightarrow> memory \<Rightarrow> u64 \<Rightarrow> bool" where
  "local_var mgr mem slot \<longleftrightarrow> (\<forall>x. in_region slot 8 x \<longrightarrow> \<not> in_bitmap mgr x \<and> is_used mgr (unat x div 4096) mem)"

lemma local_var_off: "local_var mgr mem slot \<Longrightarrow> off_bitmap mgr slot"
  by (simp add: local_var_def off_bitmap_def)

text \<open>A state in which only bytes outside the bitmap differ has the same free pages.\<close>

lemma wr64_wf:
  assumes "ram_wf mgr mem" "off_bitmap mgr slot"
  shows "ram_wf mgr (wr64 slot v mem)" "is_used mgr k (wr64 slot v mem) = is_used mgr k mem"
proof -
  have "wr64 slot v mem x = mem x" if "in_bitmap mgr x" for x
    by (rule wr64_other) (use that assms(2) in \<open>auto simp: off_bitmap_def\<close>)
  from ram.client_write [OF assms(1) this] show "ram_wf mgr (wr64 slot v mem)" "is_used mgr k (wr64 slot v mem) = is_used mgr k mem"
    by auto
qed

text \<open>A stretch of free pages.\<close>

definition stretch :: "ram_manager \<Rightarrow> memory \<Rightarrow> nat \<Rightarrow> nat \<Rightarrow> bool" where
  "stretch mgr mem q n \<longleftrightarrow> (\<forall>k. in_run q n k \<longrightarrow> \<not> is_used mgr k mem)"

text \<open>What every step of the setup keeps: the allocator's state and every byte in use but the bitmap and the local variable.\<close>

definition grown :: "ram_manager \<Rightarrow> u64 \<Rightarrow> 'd os \<Rightarrow> 'd os \<Rightarrow> bool" where
  "grown mgr slot s s' \<longleftrightarrow> RAM_MGR s' = Some mgr \<and> ram_wf mgr (os_mem s')
     \<and> (\<forall>k. is_used mgr k (os_mem s) \<longrightarrow> is_used mgr k (os_mem s'))
     \<and> (\<forall>x. is_used mgr (unat x div 4096) (os_mem s) \<and> \<not> in_bitmap mgr x \<and> \<not> in_region slot 8 x \<longrightarrow> os_mem s' x = os_mem s x)"

lemma grown_refl: "RAM_MGR s = Some mgr \<Longrightarrow> ram_wf mgr (os_mem s) \<Longrightarrow> grown mgr slot s s"
  by (simp add: grown_def)

lemma grown_trans: "grown mgr slot s t \<Longrightarrow> grown mgr slot t u \<Longrightarrow> grown mgr slot s u"
  by (auto simp: grown_def)

text \<open>
  One request of a driver: the allocator is first fit, so it gets pages at or before the stretch it knows to be
  free, and the rest of the stretch stays free.
\<close>

lemma mmap_local_run:
  assumes mgr: "RAM_MGR s = Some mgr" and wf: "ram_wf mgr (os_mem s)" and off: "off_bitmap mgr slot"
    and n: "0 < unat n" "unat n \<le> N" and run: "stretch mgr (os_mem s) q N"
  obtains p s1 where "mmap_local pf rg slot n s = Some (page_addr p, s1)" "grown mgr slot s s1"
    "p + unat n \<le> 2 ^ 52" "stretch mgr (os_mem s) p (unat n)" "stretch mgr (os_mem s1) (q + unat n) (N - unat n)"
    "\<And>k. is_used mgr k (os_mem s1) \<longleftrightarrow> is_used mgr k (os_mem s) \<or> in_run p (unat n) k"
proof -
  let ?M = "wr64 slot 0 (os_mem s)"
  note w = wr64_wf [OF wf off, where v = 0]
  have free: "free_run mgr ?M (unat n) q"
    using run n(2) by (auto simp: free_run_iff stretch_def w(2) in_run_def)
  have "fst (allocate_sectors mgr (unat n) ?M) \<noteq> None"
    using free n(1) by (auto simp: allocate_None_iff)
  then obtain a M where al: "allocate_sectors mgr (unat n) ?M = (Some a, M)" by (metis not_None_eq prod.collapse)
  then obtain p where p: "first_run mgr ?M (unat n) = Some p" "a = page_addr p" "M = mark_range mgr p (unat n) ?M"
      "p + unat n \<le> total_sectors mgr" "free_run mgr ?M (unat n) p" by (rule allocate_Some_cases)
  note ok = ram_wf_ok [OF wf]
  have used: "is_used mgr k M \<longleftrightarrow> is_used mgr k (os_mem s) \<or> in_run p (unat n) k" for k
    using is_used_mark_range_run [OF ok p(4), of k ?M] by (auto simp: p(3) w(2))
  have wfM: "ram_wf mgr M" using ram.alloc_inv [OF w(1), of "unat n"] al by simp
  have "p \<le> q" using first_run_Some(3) [OF n(1) p(1), of q] free by (meson not_le)
  define s1 where "s1 = ret 0 (on_mem (\<lambda>_. wr64 slot a M) (on_mem (wr64 slot 0) s))"
  note v = wr64_wf [OF wfM off, where v = a]
  have m1: "os_mem s1 = wr64 slot a M" by (simp add: s1_def)
  have "mmap_local pf rg slot n s = Some (page_addr p, s1)"
    using mgr al by (simp add: mmap_local_def k_sys_mmap_eq s1_def p(2))
  moreover have "grown mgr slot s s1"
    using mgr v used ok by (auto simp: grown_def s1_def wr64_other p(3) mark_range_frame)
  moreover have "stretch mgr (os_mem s1) (q + unat n) (N - unat n)"
    using run \<open>p \<le> q\<close> by (auto simp: stretch_def m1 v(2) used in_run_def)
  moreover have "stretch mgr (os_mem s) p (unat n)"
    using p(5) by (simp add: stretch_def free_run_iff w(2))
  moreover have "p + unat n \<le> 2 ^ 52" using p(4) ok by (simp add: ram_ok_def)
  ultimately show thesis using that [of p s1] v(2) used m1 by simp
qed

text \<open>A driver's stores into its own pages.\<close>

lemma own_store_grown:
  assumes g: "grown mgr slot s s1"
    and own: "\<And>x. f (os_mem s1) x \<noteq> os_mem s1 x \<Longrightarrow> \<not> is_used mgr (unat x div 4096) (os_mem s)"
    and wf: "ram_wf mgr (os_mem s)"
  shows "grown mgr slot s (on_mem f s1)" "is_used mgr k (f (os_mem s1)) = is_used mgr k (os_mem s1)"
proof -
  have "f (os_mem s1) x = os_mem s1 x" if "in_bitmap mgr x" for x
    using own [of x] wf that by (auto simp: ram_wf_def)
  from ram.client_write [of mgr "os_mem s1", OF _ this] g
  have "ram_wf mgr (f (os_mem s1))" "\<And>k. is_used mgr k (f (os_mem s1)) = is_used mgr k (os_mem s1)"
    by (auto simp: grown_def)
  moreover have "is_used mgr (unat x div 4096) (os_mem s) \<Longrightarrow> f (os_mem s1) x = os_mem s1 x" for x
    using own [of x] by auto
  ultimately show "grown mgr slot s (on_mem f s1)" "is_used mgr k (f (os_mem s1)) = is_used mgr k (os_mem s1)"
    using g by (simp_all add: grown_def)
qed

lemma region_in_run:
  assumes "in_region (page_addr p) m x" "m \<le> n * 4096" "p + n \<le> 2 ^ 52"
  shows "in_run p n (unat x div 4096)"
proof -
  from assms(1) obtain j where "j < m" "x = page_addr p + of_nat j" by (auto elim: in_regionE)
  with page_offset [OF assms(3), of j] assms(2) show ?thesis by simp
qed

lemma grown_cong: "os_mem t = os_mem t' \<Longrightarrow> RAM_MGR t = RAM_MGR t' \<Longrightarrow> grown mgr slot s t = grown mgr slot s t'"
  "os_mem s = os_mem s' \<Longrightarrow> grown mgr slot s t = grown mgr slot s' t"
  by (simp_all add: grown_def)

section \<open>A small memory for the witnesses\<close>

text \<open>64 pages, of which page 1 (the bitmap) and page 9 (the local variable) are in use.\<close>

definition sample_ram :: ram_manager where
  "sample_ram = \<lparr>bitmap = 0x1000, total_sectors = 64\<rparr>"

definition sample_mem :: memory where
  "sample_mem = (\<lambda>_. 0)(0x1000 := 2, 0x1001 := 2)"

lemma sample_free: "stretch sample_ram sample_mem 10 22"
proof -
  have "list_all (\<lambda>k. \<not> is_used sample_ram k sample_mem) [10..<32]" by code_simp
  then show ?thesis by (simp add: list_all_iff stretch_def in_run_def)
qed

lemma sample_wf: "ram_wf sample_ram sample_mem"
proof -
  have "is_used sample_ram 1 sample_mem" by code_simp
  moreover have "unat x div 4096 = 1" if "in_bitmap sample_ram x" for x
    using that by (auto simp: in_bitmap_def bitmap_bytes_def sample_ram_def in_region_iff_bounds div_nat_eqI)
  ultimately show ?thesis by (auto simp: ram_wf_def ram_ok_def sample_ram_def)
qed

lemma sample_var: "local_var sample_ram sample_mem 0x9000"
proof -
  have "is_used sample_ram 9 sample_mem" by code_simp
  moreover have "unat x div 4096 = 9 \<and> \<not> in_bitmap sample_ram x" if "in_region 0x9000 8 x" for x
    using that by (auto simp: in_bitmap_def bitmap_bytes_def sample_ram_def in_region_iff_bounds div_nat_eqI)
  ultimately show ?thesis by (auto simp: local_var_def)
qed

end
