(* ===== verification/E1000_Setup.thy ===== *)
theory E1000_Setup imports E1000 Driver_Pages begin

text \<open>
  The rings that \<open>setup_tx\<close> and \<open>setup_rx\<close> (\<open>kernel/src/net/e1000.rs\<close>) build in the pages they get: proved from the
  page allocator's contract (\<open>Page_Allocator\<close>).
\<close>

section \<open>Filling a ring\<close>

lemma init_desc_other:
  "\<not> in_region (desc_at ring i) 16 x \<Longrightarrow> init_desc ring bufs st i mem x = mem x"
proof -
  assume n: "\<not> in_region (desc_at ring i) 16 x"
  then have "\<not> in_region (desc_at ring i) 8 x" by (simp add: in_region_def)
  moreover have "x \<noteq> desc_at ring i + 12" using n in_region_offset [of 12 "desc_at ring i" 16] by auto
  ultimately show "init_desc ring bufs st i mem x = mem x"
    by (simp add: init_desc_def st8_def RxDesc_status_def RxDesc_buffer_addr_def wr64_other)
qed

lemma desc_apart:
  assumes "in_region (desc_at ring i) 16 x" "in_region (desc_at ring j) 16 x" "i < 2 ^ 56" "j < 2 ^ 56"
  shows "i = j"
proof -
  have "unat (x - ring) div 16 = k" if "in_region (desc_at ring k) 16 x" "k < 2 ^ 56" for k
  proof -
    from area_offset [of ring "16 * k" 16 x] that obtain l where "l < 16" "unat (x - ring) = 16 * k + l"
      by (auto simp: desc_at_def)
    then show ?thesis by (simp add: div_nat_eqI)
  qed
  from this [OF assms(1,3)] this [OF assms(2,4)] show ?thesis by simp
qed

lemma init_ring_Suc: "init_ring ring bufs st (Suc n) mem = init_desc ring bufs st n (init_ring ring bufs st n mem)"
  by (simp add: init_ring_def)

lemma init_ring_other:
  "(\<And>i. i < n \<Longrightarrow> \<not> in_region (desc_at ring i) 16 x) \<Longrightarrow> init_ring ring bufs st n mem x = mem x"
  by (induction n) (simp_all add: init_ring_Suc init_desc_other, simp add: init_ring_def)

definition desc_set :: "u64 \<Rightarrow> u64 \<Rightarrow> u8 \<Rightarrow> memory \<Rightarrow> nat \<Rightarrow> bool" where
  "desc_set ring bufs st mem i \<longleftrightarrow>
     rd64 mem (RxDesc_buffer_addr (desc_at ring i)) = buffer_at bufs i \<and> mem (RxDesc_status (desc_at ring i)) = st"

lemma desc_set_cong:
  assumes "\<And>x. in_region (desc_at ring i) 16 x \<Longrightarrow> mem' x = mem x"
  shows "desc_set ring bufs st mem' i = desc_set ring bufs st mem i"
proof -
  have "rd64 mem' (desc_at ring i) = rd64 mem (desc_at ring i)"
    by (rule rd64_cong) (use assms in \<open>simp add: in_region_mono\<close>)
  moreover have "mem' (desc_at ring i + 12) = mem (desc_at ring i + 12)"
    using assms [of "desc_at ring i + of_nat 12"] in_region_offset [of 12 "desc_at ring i" 16] by simp
  ultimately show ?thesis by (simp add: desc_set_def RxDesc_buffer_addr_def RxDesc_status_def)
qed

lemma init_desc_set: "desc_set ring bufs st (init_desc ring bufs st i mem) i"
proof -
  have "rd64 (init_desc ring bufs st i mem) (desc_at ring i)
      = rd64 (wr64 (desc_at ring i) (buffer_at bufs i) mem) (desc_at ring i)"
  proof (rule rd64_cong)
    fix k :: nat assume "k < 8"
    then have "desc_at ring i + of_nat k \<noteq> desc_at ring i + of_nat 12"
      using add_of_nat_u64_inj [of k 12 "desc_at ring i"] by simp
    then show "init_desc ring bufs st i mem (desc_at ring i + of_nat k)
        = wr64 (desc_at ring i) (buffer_at bufs i) mem (desc_at ring i + of_nat k)"
      by (simp add: init_desc_def st8_def RxDesc_status_def RxDesc_buffer_addr_def)
  qed
  then show ?thesis by (simp add: desc_set_def RxDesc_buffer_addr_def) (simp add: init_desc_def st8_def)
qed

lemma init_ring_set: "n \<le> 2 ^ 32 \<Longrightarrow> i < n \<Longrightarrow> desc_set ring bufs st (init_ring ring bufs st n mem) i"
proof (induction n)
  case (Suc n)
  show ?case
  proof (cases "i = n")
    case True
    then show ?thesis by (simp add: init_ring_Suc init_desc_set)
  next
    case False
    then have "i < n" "i < 2 ^ 56" "n < 2 ^ 56" using Suc.prems by auto
    then have "desc_set ring bufs st (init_ring ring bufs st (Suc n) mem) i = desc_set ring bufs st (init_ring ring bufs st n mem) i"
      using False by (intro desc_set_cong) (auto simp: init_ring_Suc dest: desc_apart intro!: init_desc_other)
    then show ?thesis using Suc \<open>i < n\<close> by simp
  qed
qed simp

section \<open>A ring with its buffers\<close>

text \<open>What \<open>setup_rx\<close> and \<open>setup_tx\<close> do to memory: a page of descriptors, \<open>k\<close> pages of buffers.\<close>

definition ring_alloc :: "'d platform \<Rightarrow> regs \<Rightarrow> u64 \<Rightarrow> nat \<Rightarrow> u64 \<Rightarrow> u8 \<Rightarrow> 'd os \<Rightarrow> (u64 \<times> u64 \<times> 'd os) option" where
  "ring_alloc pf rg slot n k st s =
     (case mmap_local pf rg slot 1 s of None \<Rightarrow> None
      | Some (a, s) \<Rightarrow>
          (case mmap_local pf rg slot k (on_mem (fill_bytes a (n * 16) 0) s) of None \<Rightarrow> None
           | Some (b, s) \<Rightarrow> Some (a, b, on_mem (init_ring a b st n) s)))"

lemma desc_in_page:
  assumes "in_region (desc_at (page_addr p) i) 16 x" "i < 256" "p + 1 \<le> 2 ^ 52"
  shows "unat x div 4096 = p"
proof -
  from area_offset [of "page_addr p" "16 * i" 16 x] assms(1,2) obtain j
    where "j < 16" "x = page_addr p + of_nat (16 * i + j)" by (auto simp: desc_at_def)
  with page_offset [of p 1 "16 * i + j"] assms(2,3) show ?thesis by simp
qed

lemma ring_alloc_ok:
  assumes mgr: "RAM_MGR s = Some mgr" and wf: "ram_wf mgr (os_mem s)" and off: "off_bitmap mgr slot"
    and n: "n \<le> 256" and k: "0 < unat k" "1 + unat k \<le> N" and run: "stretch mgr (os_mem s) q N"
  obtains p b s3 where "ring_alloc pf rg slot n k st s = Some (page_addr p, page_addr b, s3)" "grown mgr slot s s3"
    "p + 1 \<le> 2 ^ 52" "b + unat k \<le> 2 ^ 52" "stretch mgr (os_mem s) p 1" "stretch mgr (os_mem s) b (unat k)" "\<not> in_run b (unat k) p"
    "stretch mgr (os_mem s3) (q + (1 + unat k)) (N - (1 + unat k))"
    "\<And>j. is_used mgr j (os_mem s3) \<longleftrightarrow> is_used mgr j (os_mem s) \<or> j = p \<or> in_run b (unat k) j"
    "\<And>i. i < n \<Longrightarrow> desc_set (page_addr p) (page_addr b) st (os_mem s3) i"
proof -
  have N: "unat (1 :: u64) \<le> N" "0 < unat (1 :: u64)" using k by auto
  obtain p s1 where s1: "mmap_local pf rg slot 1 s = Some (page_addr p, s1)" "grown mgr slot s s1"
      "p + 1 \<le> 2 ^ 52" "stretch mgr (os_mem s) p 1" "stretch mgr (os_mem s1) (q + 1) (N - 1)"
      "\<And>k. is_used mgr k (os_mem s1) \<longleftrightarrow> is_used mgr k (os_mem s) \<or> k = p"
    using mmap_local_run [OF mgr wf off N(2,1) run, of pf rg] by auto
  have p_free: "\<not> is_used mgr p (os_mem s)" using s1(4) by (simp add: stretch_def)
  let ?f = "fill_bytes (page_addr p) (n * 16) 0"
  have own1: "\<not> is_used mgr (unat x div 4096) (os_mem s)" if "?f (os_mem s1) x \<noteq> os_mem s1 x" for x
  proof -
    have "in_region (page_addr p) (n * 16) x" using that by (auto simp: fill_bytes_def split: if_splits)
    from region_in_run [OF this, of 1] n s1(3) p_free show ?thesis by simp
  qed
  note g2 = own_store_grown [OF s1(2) own1 wf]
  define s2 where "s2 = on_mem ?f s1"
  have s2: "RAM_MGR s2 = Some mgr" "ram_wf mgr (os_mem s2)" "\<And>k. is_used mgr k (os_mem s2) \<longleftrightarrow> is_used mgr k (os_mem s) \<or> k = p"
    using g2 s1(6) by (auto simp: s2_def grown_def)
  have run2: "stretch mgr (os_mem s2) (q + 1) (N - 1)" using s1(5,6) s2(3) by (simp add: stretch_def)
  have k2: "unat k \<le> N - 1" using k(2) by simp
  obtain b s3 where s3: "mmap_local pf rg slot k s2 = Some (page_addr b, s3)" "grown mgr slot s2 s3"
      "b + unat k \<le> 2 ^ 52" "stretch mgr (os_mem s2) b (unat k)" "stretch mgr (os_mem s3) (q + 1 + unat k) (N - 1 - unat k)"
      "\<And>j. is_used mgr j (os_mem s3) \<longleftrightarrow> is_used mgr j (os_mem s2) \<or> in_run b (unat k) j"
    using mmap_local_run [OF s2(1,2) off k(1) k2 run2, of pf rg] by auto
  let ?g = "init_ring (page_addr p) (page_addr b) st n"
  have own3: "\<not> is_used mgr (unat x div 4096) (os_mem s)" if "?g (os_mem s3) x \<noteq> os_mem s3 x" for x
  proof -
    have "\<not> (\<forall>i<n. \<not> in_region (desc_at (page_addr p) i) 16 x)" using that init_ring_other by blast
    then obtain i where "in_region (desc_at (page_addr p) i) 16 x" "i < 256" using n by auto
    from desc_in_page [OF this s1(3)] p_free show ?thesis by simp
  qed
  have "grown mgr slot s s3" using g2(1) s3(2) unfolding s2_def by (rule grown_trans)
  note g4 = own_store_grown [OF this own3 wf]
  have "ring_alloc pf rg slot n k st s = Some (page_addr p, page_addr b, on_mem ?g s3)"
    using s1(1) s3(1) by (simp add: ring_alloc_def s2_def)
  moreover have "\<not> in_run b (unat k) p" "stretch mgr (os_mem s) b (unat k)" using s3(4) s2(3) by (auto simp: stretch_def)
  moreover have "stretch mgr (os_mem (on_mem ?g s3)) (q + (1 + unat k)) (N - (1 + unat k))"
    using s3(5) g4(2) by (simp add: stretch_def add.assoc)
  moreover have "\<And>i. i < n \<Longrightarrow> desc_set (page_addr p) (page_addr b) st (os_mem (on_mem ?g s3)) i"
    using init_ring_set [of n _ "page_addr p" "page_addr b" st] n by simp
  ultimately show thesis
    using that [of p b "on_mem ?g s3"] g4 s1(3,4) s3(3,6) s2(3) by simp
qed

section \<open>Both rings\<close>

text \<open>Register writes and the driver's record do not matter here.\<close>

lemma setup_rx_alloc:
  assumes "ring_alloc pf rg slot 32 16 0 s = Some (a, b, s')"
  shows "\<exists>s1. setup_rx pf rg slot nic s = Some (nic\<lparr>rx_descs := a, rx_buffers := b\<rparr>, s1) \<and> os_mem s1 = os_mem s' \<and> RAM_MGR s1 = RAM_MGR s'"
  using assms by (auto simp: ring_alloc_def setup_rx_def RX_DESC_COUNT_def Let_def split: option.splits)

lemma setup_tx_alloc:
  assumes "ring_alloc pf rg slot 8 4 1 s = Some (a, b, s')"
  shows "\<exists>s1. setup_tx pf rg slot nic s = Some (nic\<lparr>tx_descs := a, tx_buffers := b\<rparr>, s1) \<and> os_mem s1 = os_mem s' \<and> RAM_MGR s1 = RAM_MGR s'"
  using assms by (auto simp: ring_alloc_def setup_tx_def TX_DESC_COUNT_def Let_def split: option.splits)

definition setup_rings :: "'d platform \<Rightarrow> regs \<Rightarrow> u64 \<Rightarrow> e1000 \<Rightarrow> 'd os \<Rightarrow> (e1000 \<times> 'd os) option" where
  "setup_rings pf rg slot nic s = do { (nic, s) \<leftarrow> setup_rx pf rg slot nic s; setup_tx pf rg slot nic s }"

text \<open>Areas given by address and length that have no byte in common.\<close>

fun apart :: "(u64 \<times> nat) list \<Rightarrow> bool" where
  "apart [] \<longleftrightarrow> True"
| "apart ((a, n) # as) \<longleftrightarrow> (\<forall>(b, m)\<in>set as. \<forall>x. \<not> (in_region a n x \<and> in_region b m x)) \<and> apart as"

definition nic_areas :: "e1000 \<Rightarrow> (u64 \<times> nat) list" where
  "nic_areas nic = [(rx_descs nic, 512), (rx_buffers nic, 65536), (tx_descs nic, 128), (tx_buffers nic, 16384)]"

text \<open>C11. The rings of the network card. With 22 free pages in a row, \<open>setup_rx\<close> and \<open>setup_tx\<close> return; the descriptors and the
  buffers of the two sides lie in four areas that share no byte, each of the 32 receive descriptors points to its own
  2048 bytes with status 0, each of the 8 send descriptors to its own with the done bit set, and nothing that was
  in use before has changed, but for the bitmap and the local variable.\<close>

theorem e1000_rings:
  assumes mgr: "RAM_MGR s = Some mgr" and wf: "ram_wf mgr (os_mem s)" and var: "local_var mgr (os_mem s) slot"
    and run: "stretch mgr (os_mem s) q 22"
  shows "\<exists>nic' s'. setup_rings pf rg slot nic s = Some (nic', s') \<and> apart (nic_areas nic') \<and> tx_layout nic' \<and> grown mgr slot s s'
    \<and> (\<forall>i<32. desc_set (rx_descs nic') (rx_buffers nic') 0 (os_mem s') i)
    \<and> (\<forall>i<8. desc_set (tx_descs nic') (tx_buffers nic') 1 (os_mem s') i)"
proof -
  note off = local_var_off [OF var]
  have sz: "0 < unat (16 :: u64)" "1 + unat (16 :: u64) \<le> 22" "(32 :: nat) \<le> 256"
    "0 < unat (4 :: u64)" "1 + unat (4 :: u64) \<le> 5" "(8 :: nat) \<le> 256" by simp_all
  obtain p b s1 where rx: "ring_alloc pf rg slot 32 16 0 s = Some (page_addr p, page_addr b, s1)" "grown mgr slot s s1"
      "p + 1 \<le> 2 ^ 52" "b + 16 \<le> 2 ^ 52" "stretch mgr (os_mem s) p 1" "stretch mgr (os_mem s) b 16" "\<not> in_run b 16 p"
      "stretch mgr (os_mem s1) (q + 17) 5"
      "\<And>j. is_used mgr j (os_mem s1) \<longleftrightarrow> is_used mgr j (os_mem s) \<or> j = p \<or> in_run b 16 j"
      "\<And>i. i < 32 \<Longrightarrow> desc_set (page_addr p) (page_addr b) 0 (os_mem s1) i"
    by (rule ring_alloc_ok [OF mgr wf off sz(3,1,2) run, of pf rg 0]) simp_all
  obtain s2 where s2: "setup_rx pf rg slot nic s = Some (nic\<lparr>rx_descs := page_addr p, rx_buffers := page_addr b\<rparr>, s2)"
      "os_mem s2 = os_mem s1" "RAM_MGR s2 = RAM_MGR s1"
    using setup_rx_alloc [OF rx(1)] by blast
  have st2: "RAM_MGR s2 = Some mgr" "ram_wf mgr (os_mem s2)" "stretch mgr (os_mem s2) (q + 17) 5"
    using rx(2,8) s2 by (simp_all add: grown_def)
  obtain p' b' s3 where tx: "ring_alloc pf rg slot 8 4 1 s2 = Some (page_addr p', page_addr b', s3)" "grown mgr slot s2 s3"
      "p' + 1 \<le> 2 ^ 52" "b' + 4 \<le> 2 ^ 52" "stretch mgr (os_mem s2) p' 1" "stretch mgr (os_mem s2) b' 4" "\<not> in_run b' 4 p'"
      "\<And>i. i < 8 \<Longrightarrow> desc_set (page_addr p') (page_addr b') 1 (os_mem s3) i"
    by (rule ring_alloc_ok [OF st2(1,2) off sz(6,4,5) st2(3), of pf rg 1]) simp_all
  let ?nic = "nic\<lparr>rx_descs := page_addr p, rx_buffers := page_addr b, tx_descs := page_addr p', tx_buffers := page_addr b'\<rparr>"
  obtain s4 where s4: "setup_tx pf rg slot (nic\<lparr>rx_descs := page_addr p, rx_buffers := page_addr b\<rparr>) s2 = Some (?nic, s4)"
      "os_mem s4 = os_mem s3" "RAM_MGR s4 = RAM_MGR s3"
    using setup_tx_alloc [OF tx(1), of "nic\<lparr>rx_descs := page_addr p, rx_buffers := page_addr b\<rparr>"] by auto
  have g1: "grown mgr slot s s2" using rx(2) grown_cong(1) [OF s2(2,3)] by blast
  have g2: "grown mgr slot s2 s4" using tx(2) grown_cong(1) [OF s4(2,3)] by blast
  have rx_kept: "desc_set (page_addr p) (page_addr b) 0 (os_mem s4) i" if i: "i < 32" for i
  proof -
    have "os_mem s4 x = os_mem s2 x" if "in_region (desc_at (page_addr p) i) 16 x" for x
    proof -
      have pg: "unat x div 4096 = p" using desc_in_page [OF that _ rx(3)] i by simp
      have free: "\<not> is_used mgr p (os_mem s)" using rx(5) by (simp add: stretch_def)
      have "\<not> in_bitmap mgr x" "\<not> in_region slot 8 x" using wf var free pg by (auto simp: ram_wf_def local_var_def)
      moreover have "is_used mgr (unat x div 4096) (os_mem s2)" using rx(9) s2(2) pg by simp
      ultimately show ?thesis using g2 by (simp add: grown_def)
    qed
    then show ?thesis using rx(10) [OF i] s2(2) desc_set_cong [of "page_addr p" i "os_mem s4" "os_mem s2"] by simp
  qed
  have pages: "in_region (page_addr p) 512 x \<Longrightarrow> unat x div 4096 = p" "in_region (page_addr b) 65536 x \<Longrightarrow> in_run b 16 (unat x div 4096)"
    "in_region (page_addr p') 128 x \<Longrightarrow> unat x div 4096 = p'" "in_region (page_addr b') 16384 x \<Longrightarrow> in_run b' 4 (unat x div 4096)" for x
    using region_in_run [of p 512 x 1] region_in_run [of b 65536 x 16] region_in_run [of p' 128 x 1] region_in_run [of b' 16384 x 4]
      rx(3,4) tx(3,4) by simp_all
  have new: "\<not> (in_run b' 4 k \<or> k = p') " if "k = p \<or> in_run b 16 k" for k
    using tx(5,6) rx(9) s2(2) that by (auto simp: stretch_def)
  have ap: "apart (nic_areas ?nic)"
    unfolding nic_areas_def using pages new rx(7) tx(7) by auto metis+
  then have "tx_layout ?nic" by (simp add: tx_layout_def nic_areas_def)
  then show ?thesis
    using s2(1) s4(1,2) ap g1 g2 grown_trans [OF g1 g2] rx_kept tx(8) by (auto simp: setup_rings_def)
qed

theorem e1000_rings_witness:
  "\<exists>nic' s'. setup_rings idle_platform zero_regs 0x9000 sample_nic (idle_os sample_mem (Some sample_ram)) = Some (nic', s') \<and> tx_layout nic'"
  using e1000_rings [of "idle_os sample_mem (Some sample_ram)" sample_ram "0x9000" 10 idle_platform zero_regs sample_nic]
    sample_wf sample_var sample_free by auto

end
