(* ===== verification/E1000_Receive.thy ===== *)
theory E1000_Receive imports E1000_Setup begin

text \<open>
  Receiving (\<open>receive\<close> in \<open>kernel/src/net/e1000.rs\<close>) against the card: the ring of 32 descriptors is a queue of packets. The
  card is not code of the repository; what is used of it is what its manual says: the tail register holds what was
  last written to it, the card fills the descriptor at its own head when that is not the tail, and then goes on to the next.
\<close>

section \<open>The slots of the ring\<close>

definition slot_region :: "e1000 \<Rightarrow> nat \<Rightarrow> u64 \<Rightarrow> bool" where
  "slot_region nic i x \<longleftrightarrow> in_region (desc_at (rx_descs nic) i) 16 x \<or> in_region (buffer_at (rx_buffers nic) i) 2048 x"

definition rx_layout :: "e1000 \<Rightarrow> bool" where
  "rx_layout nic \<longleftrightarrow> (\<forall>x. \<not> (in_region (rx_descs nic) 512 x \<and> in_region (rx_buffers nic) 65536 x))"

text \<open>A slot with a packet in it, and one without.\<close>

definition holds_packet :: "e1000 \<Rightarrow> memory \<Rightarrow> nat \<Rightarrow> u8 list \<Rightarrow> bool" where
  "holds_packet nic mem i p \<longleftrightarrow> mem (RxDesc_status (desc_at (rx_descs nic) i)) AND 1 \<noteq> 0 \<and> length p \<le> 2048 \<and>
     rd16 mem (RxDesc_length (desc_at (rx_descs nic) i)) = of_nat (length p) \<and>
     rd_bytes mem (buffer_at (rx_buffers nic) i) (length p) = p"

definition empty_slot :: "e1000 \<Rightarrow> memory \<Rightarrow> nat \<Rightarrow> bool" where
  "empty_slot nic mem i \<longleftrightarrow> mem (RxDesc_status (desc_at (rx_descs nic) i)) AND 1 = 0"

lemma desc_in_area: "in_region (desc_at ring i) 16 x \<Longrightarrow> i < 32 \<Longrightarrow> in_region ring 512 x"
  using in_region_sub [of ring "16 * i" 16 x 512] by (simp add: desc_at_def)

lemma buffer_in_area: "in_region (buffer_at bufs i) 2048 x \<Longrightarrow> i < 32 \<Longrightarrow> in_region bufs 65536 x"
  using in_region_sub [of bufs "i * 2048" 2048 x 65536] by (simp add: buffer_at_def)

lemma buffer_apart:
  assumes "in_region (buffer_at bufs i) 2048 x" "in_region (buffer_at bufs j) 2048 x" "i < 32" "j < 32"
  shows "i = j"
proof -
  have "unat (x - bufs) div 2048 = k" if "in_region (buffer_at bufs k) 2048 x" "k < 32" for k
  proof -
    from area_offset [of bufs "k * 2048" 2048 x] that obtain l where "l < 2048" "unat (x - bufs) = k * 2048 + l"
      by (auto simp: buffer_at_def)
    then show ?thesis by (simp add: div_nat_eqI)
  qed
  from this [OF assms(1,3)] this [OF assms(2,4)] show ?thesis by simp
qed

lemma slot_apart:
  assumes "rx_layout nic" "slot_region nic i x" "slot_region nic j x" "i < 32" "j < 32"
  shows "i = j"
proof -
  have "\<not> (in_region (desc_at (rx_descs nic) a) 16 x \<and> in_region (buffer_at (rx_buffers nic) b) 2048 x)" if "a < 32" "b < 32" for a b
    using assms(1) desc_in_area [of "rx_descs nic" a x, OF _ that(1)] buffer_in_area [of "rx_buffers nic" b x, OF _ that(2)]
    by (auto simp: rx_layout_def)
  then show ?thesis
    using assms(2-5) desc_apart [of "rx_descs nic" i x j] buffer_apart [of "rx_buffers nic" i x j] by (auto simp: slot_region_def)
qed

lemma slot_fields:
  "slot_region nic i (RxDesc_status (desc_at (rx_descs nic) i))" "slot_region nic i (RxDesc_length (desc_at (rx_descs nic) i))"
  "slot_region nic i (RxDesc_length (desc_at (rx_descs nic) i) + 1)" "k < 2048 \<Longrightarrow> slot_region nic i (buffer_at (rx_buffers nic) i + of_nat k)"
proof -
  have "in_region (desc_at (rx_descs nic) i) 16 (desc_at (rx_descs nic) i + of_nat k)" if "k < 16" for k using that by simp
  from this [of 12] this [of 8] this [of 9] show "slot_region nic i (RxDesc_status (desc_at (rx_descs nic) i))"
    "slot_region nic i (RxDesc_length (desc_at (rx_descs nic) i))" "slot_region nic i (RxDesc_length (desc_at (rx_descs nic) i) + 1)"
    by (simp_all add: slot_region_def RxDesc_status_def RxDesc_length_def add.assoc)
qed (simp add: slot_region_def)

lemma slot_cong:
  assumes "\<And>x. slot_region nic i x \<Longrightarrow> mem' x = mem x"
  shows "holds_packet nic mem' i p = holds_packet nic mem i p" "empty_slot nic mem' i = empty_slot nic mem i"
proof -
  have st: "mem' (RxDesc_status (desc_at (rx_descs nic) i)) = mem (RxDesc_status (desc_at (rx_descs nic) i))"
    by (rule assms) (rule slot_fields)
  have len: "rd16 mem' (RxDesc_length (desc_at (rx_descs nic) i)) = rd16 mem (RxDesc_length (desc_at (rx_descs nic) i))"
    by (rule rd16_cong) (rule assms, rule slot_fields)+
  have "rd_bytes mem' (buffer_at (rx_buffers nic) i) (length p) = rd_bytes mem (buffer_at (rx_buffers nic) i) (length p)" if "length p \<le> 2048"
    by (rule rd_bytes_cong) (use that in \<open>intro assms slot_fields, simp\<close>)
  with st len show "holds_packet nic mem' i p = holds_packet nic mem i p" "empty_slot nic mem' i = empty_slot nic mem i"
    by (auto simp: holds_packet_def empty_slot_def)
qed

section \<open>The card's part\<close>

text \<open>The card puts a packet into slot \<open>i\<close>: the bytes, the length, and a status whose done bit is set.\<close>

definition deposit :: "e1000 \<Rightarrow> nat \<Rightarrow> u8 list \<Rightarrow> u8 \<Rightarrow> memory \<Rightarrow> memory" where
  "deposit nic i p st mem =
     st8 (RxDesc_status (desc_at (rx_descs nic) i)) st
       (wr16 (RxDesc_length (desc_at (rx_descs nic) i)) (of_nat (length p)) (wr_bytes (buffer_at (rx_buffers nic) i) p mem))"

lemma deposit_other:
  assumes "\<not> slot_region nic i x" "length p \<le> 2048"
  shows "deposit nic i p st mem x = mem x"
proof -
  have "\<not> in_region (buffer_at (rx_buffers nic) i) (length p) x"
    using assms in_region_mono [of "buffer_at (rx_buffers nic) i" "length p" x 2048] by (auto simp: slot_region_def)
  then show ?thesis
    using slot_fields(1-3) [of nic i] assms(1) by (auto simp: deposit_def st8_def wr16_def wr_bytes_other)
qed

lemma deposit_holds:
  assumes lay: "rx_layout nic" and i: "i < 32" and p: "length p \<le> 2048" and st: "st AND 1 \<noteq> 0"
  shows "holds_packet nic (deposit nic i p st mem) i p"
proof -
  let ?d = "desc_at (rx_descs nic) i" and ?b = "buffer_at (rx_buffers nic) i" and ?m = "deposit nic i p st mem"
  have "rd16 ?m (?d + 8) = rd16 (wr16 (?d + 8) (of_nat (length p)) mem) (?d + 8)"
    by (rule rd16_cong) (simp_all add: deposit_def st8_def wr16_def RxDesc_status_def RxDesc_length_def)
  moreover have "?m (?b + of_nat k) = p ! k" if k: "k < length p" for k
  proof -
    have "in_region (rx_buffers nic) 65536 (?b + of_nat k)" by (rule buffer_in_area [OF _ i]) (use k p in simp)
    then have "\<not> in_region ?d 16 (?b + of_nat k)" using lay desc_in_area [of "rx_descs nic" i "?b + of_nat k", OF _ i] by (auto simp: rx_layout_def)
    then have off: "?b + of_nat k \<noteq> ?d + of_nat j" if "j < 16" for j using that by auto
    show ?thesis
      using off [of 8] off [of 9] off [of 12] wr_bytes_offset [of k p ?b mem] k p
      by (simp add: deposit_def st8_def wr16_def RxDesc_status_def RxDesc_length_def add.assoc)
  qed
  then have "rd_bytes ?m ?b (length p) = p" by (intro nth_equalityI) simp_all
  ultimately show ?thesis using st p by (simp add: holds_packet_def RxDesc_length_def) (simp add: deposit_def st8_def)
qed

text \<open>The tail register of the card (offset 0x2818), read and written.\<close>

definition tail_register :: "'d bus \<Rightarrow> e1000 \<Rightarrow> ('d \<Rightarrow> nat) \<Rightarrow> bool" where
  "tail_register bus nic rdt \<longleftrightarrow> (\<forall>d. rdt d < 32 \<and> mmio_rd bus (mmio_base nic + 0x2818) d = of_nat (rdt d)) \<and>
     (\<forall>d i. i < 32 \<longrightarrow> rdt (mmio_wr bus (mmio_base nic + 0x2818) (of_nat i) d) = i)"

section \<open>Runs\<close>

text \<open>
  A run of the driver and the card: the kernel's state, the card's head, the packets the card has put into the ring and
  those \<open>receive\<close> has returned, both in order. A packet is read out of the slice \<open>receive\<close> returns before anything else happens.
\<close>

record 'd rx_run =
  rx_os :: "'d os"
  rx_head :: nat
  rx_put :: "u8 list list"
  rx_got :: "u8 list list"

text \<open>
  Between two steps anything else may happen to the kernel and the card that leaves the ring and the tail alone.
\<close>

inductive rx_step :: "'d platform \<Rightarrow> e1000 \<Rightarrow> ('d \<Rightarrow> nat) \<Rightarrow> 'd rx_run \<Rightarrow> 'd rx_run \<Rightarrow> bool" for pf nic rdt where
  rx_put: "rx_head r \<noteq> rdt (dev (os_machine (rx_os r))) \<Longrightarrow> length p \<le> 2048 \<Longrightarrow> st AND 1 \<noteq> 0 \<Longrightarrow>
    rdt (dev m) = rdt (dev (os_machine (rx_os r))) \<Longrightarrow> ram m = deposit nic (rx_head r) p st (os_mem (rx_os r)) \<Longrightarrow>
    rx_step pf nic rdt r (r\<lparr>rx_os := set_machine m (rx_os r), rx_head := (rx_head r + 1) mod 32, rx_put := rx_put r @ [p]\<rparr>)"
| rx_get: "receive pf nic (rx_os r) = (Some (buf, len), s) \<Longrightarrow>
    rx_step pf nic rdt r (r\<lparr>rx_os := s, rx_got := rx_got r @ [rd_bytes (os_mem s) buf len]\<rparr>)"
| rx_none: "receive pf nic (rx_os r) = (None, s) \<Longrightarrow> rx_step pf nic rdt r (r\<lparr>rx_os := s\<rparr>)"
| rx_other: "rdt (dev (os_machine s)) = rdt (dev (os_machine (rx_os r))) \<Longrightarrow>
    (\<And>i x. i < 32 \<Longrightarrow> slot_region nic i x \<Longrightarrow> os_mem s x = os_mem (rx_os r) x) \<Longrightarrow>
    rx_step pf nic rdt r (r\<lparr>rx_os := s\<rparr>)"

inductive rx_reachable :: "'d platform \<Rightarrow> e1000 \<Rightarrow> ('d \<Rightarrow> nat) \<Rightarrow> 'd rx_run \<Rightarrow> 'd rx_run \<Rightarrow> bool" for pf nic rdt r0 where
  rx_start: "rx_reachable pf nic rdt r0 r0"
| rx_more: "rx_reachable pf nic rdt r0 r \<Longrightarrow> rx_step pf nic rdt r r' \<Longrightarrow> rx_reachable pf nic rdt r0 r'"

section \<open>The ring is a queue\<close>

text \<open>The slot \<open>j\<close> places behind the tail.\<close>

definition behind :: "nat \<Rightarrow> nat \<Rightarrow> nat" where
  "behind t j = (t + 1 + j) mod 32"

lemma behind_less [simp]: "behind t j < 32"
  by (simp add: behind_def)

lemma behind_behind [simp]: "behind (behind t 0) j = behind t (Suc j)"
  using mod_add_left_eq [of "t + 1" 32 "Suc j"] by (simp add: behind_def)

lemma behind_inj:
  assumes "j < 32" "k < 32"
  shows "behind t j = behind t k \<longleftrightarrow> j = k"
proof -
  have "(behind t l + 31 * (t + 1)) mod 32 = l" if "l < 32" for l
  proof -
    have "(behind t l + 31 * (t + 1)) mod 32 = (t + 1 + l + 31 * (t + 1)) mod 32"
      unfolding behind_def by (rule mod_add_left_eq)
    also have "t + 1 + l + 31 * (t + 1) = l + 32 * (t + 1)" by simp
    also have "(l + 32 * (t + 1)) mod 32 = l" using that by (simp only: mod_mult_self2 mod_less)
    finally show ?thesis .
  qed
  from this [OF assms(1)] this [OF assms(2)] show ?thesis by metis
qed

lemma behind_last: "t < 32 \<Longrightarrow> behind t 31 = t"
  by (simp add: behind_def)

definition rx_inv :: "e1000 \<Rightarrow> ('d \<Rightarrow> nat) \<Rightarrow> 'd rx_run \<Rightarrow> bool" where
  "rx_inv nic rdt r \<longleftrightarrow> (\<exists>pend. let t = rdt (dev (os_machine (rx_os r))); mem = os_mem (rx_os r) in
     rx_put r = rx_got r @ pend \<and> length pend < 32 \<and> rx_head r = behind t (length pend) \<and>
     (\<forall>j<length pend. holds_packet nic mem (behind t j) (pend ! j)) \<and>
     (\<forall>j. length pend \<le> j \<longrightarrow> j < 32 \<longrightarrow> empty_slot nic mem (behind t j)))"

text \<open>What \<open>receive\<close> does, in terms of slots.\<close>

lemma receive_cases:
  assumes tl: "tail_register (p_bus pf) nic rdt" and t: "t = rdt (dev (os_machine s))"
  defines "i \<equiv> behind t 0"
  shows "empty_slot nic (os_mem s) i \<Longrightarrow> receive pf nic s = (None, s)"
    and "holds_packet nic (os_mem s) i p \<Longrightarrow> \<exists>s'. receive pf nic s = (Some (buffer_at (rx_buffers nic) i, length p), s')
      \<and> rdt (dev (os_machine s')) = i \<and> os_mem s' = st8 (RxDesc_status (desc_at (rx_descs nic) i)) 0 (os_mem s)"
proof -
  have "rdt (dev (os_machine s)) < 32" using tl by (simp add: tail_register_def)
  then have "unat (of_nat t :: u32) = t" by (simp add: t unat_of_nat take_bit_nat_eq_self)
  then have rd: "unat (read_reg pf nic 0x2818 s) = t" "(t + 1) mod 32 = i"
    using tl by (simp_all add: read_reg_def reg_rd_def tail_register_def t i_def behind_def del: unat_of_nat)
  show "receive pf nic s = (None, s)" if "empty_slot nic (os_mem s) i"
    using that rd by (simp add: receive_def Let_def RX_DESC_COUNT_def empty_slot_def)
  show "\<exists>s'. receive pf nic s = (Some (buffer_at (rx_buffers nic) i, length p), s')
      \<and> rdt (dev (os_machine s')) = i \<and> os_mem s' = st8 (RxDesc_status (desc_at (rx_descs nic) i)) 0 (os_mem s)"
    if h: "holds_packet nic (os_mem s) i p"
  proof -
    let ?s1 = "on_mem (st8 (RxDesc_status (desc_at (rx_descs nic) i)) 0) s"
    have "unat (of_nat (length p) :: u16) = length p"
      using h by (simp add: holds_packet_def unat_of_nat take_bit_nat_eq_self)
    then have "receive pf nic s = (Some (buffer_at (rx_buffers nic) i, length p), write_reg pf nic 0x2818 (of_nat i) ?s1)"
      using h rd by (simp add: receive_def Let_def RX_DESC_COUNT_def holds_packet_def)
    moreover have "rdt (dev (os_machine (write_reg pf nic 0x2818 (of_nat i) ?s1))) = i"
      using tl by (simp add: write_reg_def tail_register_def i_def)
    ultimately show ?thesis by simp
  qed
qed

lemma rx_step_inv:
  assumes tl: "tail_register (p_bus pf) nic rdt" and lay: "rx_layout nic"
  shows "rx_step pf nic rdt r r' \<Longrightarrow> rx_inv nic rdt r \<Longrightarrow> rx_inv nic rdt r'"
proof (induction rule: rx_step.induct)
  case (rx_put r p st m)
  let ?t = "rdt (dev (os_machine (rx_os r)))"
  obtain pend where i: "rx_put r = rx_got r @ pend" "length pend < 32" "rx_head r = behind ?t (length pend)"
      "\<And>j. j < length pend \<Longrightarrow> holds_packet nic (os_mem (rx_os r)) (behind ?t j) (pend ! j)"
      "\<And>j. length pend \<le> j \<Longrightarrow> j < 32 \<Longrightarrow> empty_slot nic (os_mem (rx_os r)) (behind ?t j)"
    using rx_put.prems by (auto simp: rx_inv_def Let_def)
  have t: "?t < 32" using tl by (simp add: tail_register_def)
  have n: "length pend \<noteq> 31" using rx_put.hyps(1) i(3) behind_last [OF t] by auto
  have other: "ram m x = os_mem (rx_os r) x" if "j < 32" "j \<noteq> length pend" "slot_region nic (behind ?t j) x" for j x
  proof -
    have "\<not> slot_region nic (rx_head r) x"
      using slot_apart [OF lay that(3), of "rx_head r"] behind_inj [of j "length pend" ?t] that(1,2) i(2,3) by auto
    then show ?thesis using deposit_other rx_put.hyps(2,5) by simp
  qed
  have same: "holds_packet nic (ram m) (behind ?t j) q = holds_packet nic (os_mem (rx_os r)) (behind ?t j) q"
    "empty_slot nic (ram m) (behind ?t j) = empty_slot nic (os_mem (rx_os r)) (behind ?t j)" if "j < 32" "j \<noteq> length pend" for j q
    by (rule slot_cong, rule other [OF that], assumption)+
  have new: "holds_packet nic (ram m) (rx_head r) p"
    using deposit_holds [OF lay _ rx_put.hyps(2,3), of "rx_head r"] i(3) rx_put.hyps(5) by simp
  have "holds_packet nic (ram m) (behind ?t j) ((pend @ [p]) ! j)" if "j < length (pend @ [p])" for j
  proof (cases "j = length pend")
    case True
    then show ?thesis using new i(3) by simp
  next
    case False
    then have j: "j < length pend" using that by simp
    then show ?thesis using i(2,4) same(1) [of j] False by (simp add: nth_append)
  qed
  moreover have "empty_slot nic (ram m) (behind ?t j)" if "length (pend @ [p]) \<le> j" "j < 32" for j
    using that i(5) same(2) [of j] by simp
  moreover have "(rx_head r + 1) mod 32 = behind ?t (length (pend @ [p]))"
    using i(3) by (simp add: behind_def mod_simps)
  ultimately show ?case
    using i(1,2) n rx_put.hyps(4) unfolding rx_inv_def Let_def by (intro exI [of _ "pend @ [p]"]) simp
next
  case (rx_get r buf len s)
  let ?t = "rdt (dev (os_machine (rx_os r)))" and ?M = "os_mem (rx_os r)"
  obtain pend where i: "rx_put r = rx_got r @ pend" "length pend < 32" "rx_head r = behind ?t (length pend)"
      "\<And>j. j < length pend \<Longrightarrow> holds_packet nic ?M (behind ?t j) (pend ! j)"
      "\<And>j. length pend \<le> j \<Longrightarrow> j < 32 \<Longrightarrow> empty_slot nic ?M (behind ?t j)"
    using rx_get.prems by (auto simp: rx_inv_def Let_def)
  note rc = receive_cases [OF tl refl, of "rx_os r"]
  obtain p ps where pend: "pend = p # ps"
    using rc(1) i(5) [of 0] rx_get.hyps by (cases pend) auto
  have h0: "holds_packet nic ?M (behind ?t 0) p" using i(4) [of 0] pend by simp
  let ?i = "behind ?t 0"
  have s: "buf = buffer_at (rx_buffers nic) ?i" "len = length p" "rdt (dev (os_machine s)) = ?i"
      "os_mem s = st8 (RxDesc_status (desc_at (rx_descs nic) ?i)) 0 ?M"
    using rc(2) [OF h0] rx_get.hyps by auto
  have other: "os_mem s x = ?M x" if "j < 32" "j \<noteq> 0" "slot_region nic (behind ?t j) x" for j x
  proof -
    have "\<not> slot_region nic ?i x" using slot_apart [OF lay that(3), of ?i] behind_inj [of j 0 ?t] that(1,2) by auto
    then show ?thesis using slot_fields(1) [of nic ?i] s(4) by (auto simp: st8_def)
  qed
  have same: "holds_packet nic (os_mem s) (behind ?t j) q = holds_packet nic ?M (behind ?t j) q"
    "empty_slot nic (os_mem s) (behind ?t j) = empty_slot nic ?M (behind ?t j)" if "j < 32" "j \<noteq> 0" for j q
    by (rule slot_cong, rule other [OF that], assumption)+
  have got: "rd_bytes (os_mem s) buf len = p"
  proof -
    have "os_mem s (buffer_at (rx_buffers nic) ?i + of_nat k) = ?M (buffer_at (rx_buffers nic) ?i + of_nat k)" if "k < length p" for k
    proof -
      have "in_region (rx_buffers nic) 65536 (buffer_at (rx_buffers nic) ?i + of_nat k)"
        using that h0 buffer_in_area [of "rx_buffers nic" ?i] by (simp add: holds_packet_def)
      then have "\<not> in_region (desc_at (rx_descs nic) ?i) 16 (buffer_at (rx_buffers nic) ?i + of_nat k)"
        using lay desc_in_area [of "rx_descs nic" ?i "buffer_at (rx_buffers nic) ?i + of_nat k"] by (auto simp: rx_layout_def)
      moreover have "in_region (desc_at (rx_descs nic) ?i) 16 (RxDesc_status (desc_at (rx_descs nic) ?i))"
        using in_region_offset [of 12 "desc_at (rx_descs nic) ?i" 16] by (simp add: RxDesc_status_def)
      ultimately have "buffer_at (rx_buffers nic) ?i + of_nat k \<noteq> RxDesc_status (desc_at (rx_descs nic) ?i)" by metis
      then show ?thesis by (simp add: s(4) st8_def)
    qed
    then have "rd_bytes (os_mem s) buf len = rd_bytes ?M (buffer_at (rx_buffers nic) ?i) (length p)"
      unfolding s(1,2) by (intro rd_bytes_cong) simp
    then show ?thesis using h0 by (simp add: holds_packet_def)
  qed
  have "holds_packet nic (os_mem s) (behind ?i j) (ps ! j)" if "j < length ps" for j
    using that i(2) i(4) [of "Suc j"] same(1) [of "Suc j"] pend by simp
  moreover have "empty_slot nic (os_mem s) (behind ?i j)" if "length ps \<le> j" "j < 32" for j
  proof (cases "j = 31")
    case True
    then show ?thesis using behind_last [of ?i] by (simp add: empty_slot_def s(4) st8_def)
  next
    case False
    then show ?thesis using that i(5) [of "Suc j"] same(2) [of "Suc j"] pend by simp
  qed
  ultimately show ?case
    using i(1-3) pend got s(3) unfolding rx_inv_def Let_def by (intro exI [of _ ps]) simp
next
  case (rx_none r s)
  then have "s = rx_os r" by (auto simp: receive_def Let_def split: if_splits)
  with rx_none show ?case by simp
next
  case (rx_other s r)
  have "os_mem s x = os_mem (rx_os r) x" if "slot_region nic (behind t j) x" for t j x
    by (rule rx_other.hyps(2) [OF behind_less that])
  note same = slot_cong [where mem' = "os_mem s" and mem = "os_mem (rx_os r)", OF this]
  have "holds_packet nic (os_mem s) (behind t j) q = holds_packet nic (os_mem (rx_os r)) (behind t j) q"
    "empty_slot nic (os_mem s) (behind t j) = empty_slot nic (os_mem (rx_os r)) (behind t j)" for t j q
    by (simp_all add: same)
  then show ?case using rx_other.prems rx_other.hyps(1) by (simp add: rx_inv_def Let_def)
qed


lemma rx_reachable_inv:
  assumes "tail_register (p_bus pf) nic rdt" "rx_layout nic"
  shows "rx_reachable pf nic rdt r0 r \<Longrightarrow> rx_inv nic rdt r0 \<Longrightarrow> rx_inv nic rdt r"
  by (induction rule: rx_reachable.induct) (auto intro: rx_step_inv [OF assms])

text \<open>The state after \<open>setup_rx\<close>: every slot empty, the card's head behind the tail.\<close>

definition rx_fresh :: "e1000 \<Rightarrow> ('d \<Rightarrow> nat) \<Rightarrow> 'd rx_run \<Rightarrow> bool" where
  "rx_fresh nic rdt r \<longleftrightarrow> rx_put r = [] \<and> rx_got r = [] \<and> rx_head r = behind (rdt (dev (os_machine (rx_os r)))) 0 \<and>
     (\<forall>i<32. empty_slot nic (os_mem (rx_os r)) i)"

lemma rx_fresh_inv: "rx_fresh nic rdt r \<Longrightarrow> rx_inv nic rdt r"
  by (simp add: rx_fresh_def rx_inv_def Let_def)

text \<open>C14. The receive ring is a first-in-first-out queue. However the card's deliveries, the driver's calls of \<open>receive\<close> and other
  activity interleave, the packets returned so far, followed by those still in the ring (fewer than 32), are the packets
  the card has put in, in order and byte for byte: none is lost, repeated or torn. \<open>receive\<close> answers \<open>None\<close> exactly
  when nothing is waiting, and otherwise returns the oldest packet that waits.\<close>

theorem e1000_receive_fifo:
  assumes "tail_register (p_bus pf) nic rdt" "rx_layout nic" "rx_fresh nic rdt r0" "rx_reachable pf nic rdt r0 r"
  shows "\<exists>pend. rx_put r = rx_got r @ pend \<and> length pend < 32 \<and>
    (case receive pf nic (rx_os r) of (None, s) \<Rightarrow> pend = [] \<and> s = rx_os r
     | (Some (buf, len), s) \<Rightarrow> pend \<noteq> [] \<and> rd_bytes (os_mem (rx_os r)) buf len = hd pend)"
proof -
  let ?t = "rdt (dev (os_machine (rx_os r)))"
  obtain pend where i: "rx_put r = rx_got r @ pend" "length pend < 32"
      "\<And>j. j < length pend \<Longrightarrow> holds_packet nic (os_mem (rx_os r)) (behind ?t j) (pend ! j)"
      "\<And>j. length pend \<le> j \<Longrightarrow> j < 32 \<Longrightarrow> empty_slot nic (os_mem (rx_os r)) (behind ?t j)"
    using rx_reachable_inv [OF assms(1,2,4)] rx_fresh_inv [OF assms(3)] by (auto simp: rx_inv_def Let_def)
  note rc = receive_cases [OF assms(1) refl, of "rx_os r"]
  show ?thesis
  proof (cases pend)
    case Nil
    then show ?thesis using i(1,2) rc(1) i(4) [of 0] by auto
  next
    case (Cons p ps)
    then have h: "holds_packet nic (os_mem (rx_os r)) (behind ?t 0) p" using i(3) [of 0] by simp
    from rc(2) [OF h] h i(1,2) Cons show ?thesis by (auto simp: holds_packet_def)
  qed
qed

text \<open>A card that is nothing but its tail register, and a packet of two bytes.\<close>

definition tail_card :: "nat bus" where
  "tail_card = \<lparr>mmio_rd = (\<lambda>_ d. of_nat (d mod 32)), mmio_wr = (\<lambda>_ v _. unat v), spin = (\<lambda>_ m. m),
     pio_in8 = (\<lambda>_ d. (0, d)), pio_out8 = (\<lambda>_ _ d. d), pio_in32 = (\<lambda>_ d. (0, d)), pio_out32 = (\<lambda>_ _ d. d),
     rdtsc = (\<lambda>c. (0, c)), rdmsr = (\<lambda>_ _. 0)\<rparr>"

definition tail_platform :: "nat platform" where
  "tail_platform = \<lparr>p_disk = no_disk, p_bus = tail_card, p_font = [], p_path_buf = 0x8000, iret = (\<lambda>r r'. r)\<rparr>"

definition tail_os :: "nat os" where
  "tail_os =
     \<lparr>world = \<lparr>WOKEN = False, KEYS = initial_ring, IS_SHIFT = False, KEYBOARD_WAKER = False, EOI_CALLBACK = False,
        APIC_BASE = 0, GLOBAL_TIMER = None, CTABLE = initial_containers, hw = \<lparr>ram = (\<lambda>_. 0), dev = 31\<rparr>\<rparr>,
      FDS = FD_TABLE_0, SCREEN = initial_screen, RAM_MGR = None, SYSCALL_RET = 0\<rparr>"

definition tail_nic :: e1000 where
  "tail_nic = \<lparr>mmio_base = 0xFEB80000, mac = [2, 0, 0, 0, 0, 1], rx_descs = 0x10000, rx_buffers = 0x20000, tx_descs = 0x40000, tx_buffers = 0x50000\<rparr>"

theorem e1000_receive_fifo_witness:
  "\<exists>buf len s. receive tail_platform tail_nic
     (set_machine \<lparr>ram = deposit tail_nic 0 [7, 8] 3 (\<lambda>_. 0), dev = 31\<rparr> tail_os) = (Some (buf, len), s)
   \<and> rd_bytes (deposit tail_nic 0 [7, 8] 3 (\<lambda>_. 0)) buf len = [7, 8]"
proof -
  let ?rdt = "\<lambda>d. d mod 32" and ?m = "\<lparr>ram = deposit tail_nic 0 [7, 8] 3 (\<lambda>_. 0), dev = 31\<rparr>"
  let ?r0 = "\<lparr>rx_os = tail_os, rx_head = 0, rx_put = [], rx_got = []\<rparr>"
  let ?r1 = "?r0\<lparr>rx_os := set_machine ?m tail_os, rx_head := 1, rx_put := [[7, 8]]\<rparr>"
  have tl: "tail_register (p_bus tail_platform) tail_nic ?rdt"
    by (simp add: tail_register_def tail_platform_def tail_card_def unat_of_nat take_bit_nat_eq_self)
  have lay: "rx_layout tail_nic" by (simp add: rx_layout_def tail_nic_def in_region_iff_bounds)
  have fresh: "rx_fresh tail_nic ?rdt ?r0" by (simp add: rx_fresh_def tail_os_def behind_def empty_slot_def)
  have "rx_step tail_platform tail_nic ?rdt ?r0 ?r1"
    using rx_step.rx_put [of ?r0 ?rdt "[7, 8]" 3 ?m tail_nic tail_platform] by (simp add: tail_os_def)
  then have r1: "rx_reachable tail_platform tail_nic ?rdt ?r0 ?r1" by (rule rx_more [OF rx_start])
  show ?thesis
    using e1000_receive_fifo [OF tl lay fresh r1] by (auto split: prod.splits option.splits)
qed

end
