(* ===== verification/Elf_Loader.thy ===== *)
theory Elf_Loader imports Memory_Calls begin

text \<open>
  The program loader, \<open>kernel/src/boot/exec.rs\<close>: an ELF file is opened, its header and program headers are
  read, one block of pages is obtained for the span of the loadable segments, and each segment is read to its place.
  \<open>rg\<close> are the registers at the system calls; \<open>hdr\<close> and \<open>slot\<close> are the addresses of the local header and of the
  local variables \<open>sys_mmap\<close> fills. The program's entry point is code that is not in the repository's kernel: a
  parameter, the state after it returns.
\<close>

record elf64_header =
  e_ident :: "u8 list"
  e_type :: u16
  e_machine :: u16
  e_version :: u32
  e_entry :: u64
  e_phoff :: u64
  e_shoff :: u64
  e_flags :: u32
  e_ehsize :: u16
  e_phentsize :: u16
  e_phnum :: u16
  e_shentsize :: u16
  e_shnum :: u16
  e_shstrndx :: u16

record elf64_phdr =
  p_type :: u32
  p_flags :: u32
  p_offset :: u64
  p_vaddr :: u64
  p_paddr :: u64
  p_filesz :: u64
  p_memsz :: u64
  p_align :: u64

record loaded_elf =
  entry :: u64
  base_addr :: u64
  elf_size :: u64
  elf_path :: "u8 list"

text \<open>The records in memory (\<open>repr(C)\<close>).\<close>

definition rd_header :: "memory \<Rightarrow> u64 \<Rightarrow> elf64_header" where
  "rd_header mem a = \<lparr>e_ident = rd_bytes mem a 16, e_type = rd16 mem (a + 16), e_machine = rd16 mem (a + 18),
     e_version = rd32 mem (a + 20), e_entry = rd64 mem (a + 24), e_phoff = rd64 mem (a + 32), e_shoff = rd64 mem (a + 40),
     e_flags = rd32 mem (a + 48), e_ehsize = rd16 mem (a + 52), e_phentsize = rd16 mem (a + 54), e_phnum = rd16 mem (a + 56),
     e_shentsize = rd16 mem (a + 58), e_shnum = rd16 mem (a + 60), e_shstrndx = rd16 mem (a + 62)\<rparr>"

definition rd_phdr :: "memory \<Rightarrow> u64 \<Rightarrow> elf64_phdr" where
  "rd_phdr mem a = \<lparr>p_type = rd32 mem a, p_flags = rd32 mem (a + 4), p_offset = rd64 mem (a + 8), p_vaddr = rd64 mem (a + 16),
     p_paddr = rd64 mem (a + 24), p_filesz = rd64 mem (a + 32), p_memsz = rd64 mem (a + 40), p_align = rd64 mem (a + 48)\<rparr>"

section \<open>The span of the segments\<close>

definition span_step :: "elf64_phdr \<Rightarrow> u64 \<times> u64 \<Rightarrow> u64 \<times> u64" where
  "span_step phdr acc =
     (case acc of (min_vaddr, max_vaddr) \<Rightarrow>
        if p_type phdr = 1 then
          let min_vaddr = (if p_vaddr phdr < min_vaddr then p_vaddr phdr else min_vaddr);
              seg_end = p_vaddr phdr + p_memsz phdr
          in (min_vaddr, if seg_end > max_vaddr then seg_end else max_vaddr)
        else acc)"

definition phdr_at :: "memory \<Rightarrow> u64 \<Rightarrow> u64 \<Rightarrow> nat \<Rightarrow> elf64_phdr" where
  "phdr_at mem phdr_mem phdr_size i = rd_phdr mem (phdr_mem + of_nat i * phdr_size)"

definition span :: "memory \<Rightarrow> u64 \<Rightarrow> u64 \<Rightarrow> nat \<Rightarrow> u64 \<times> u64" where
  "span mem phdr_mem phdr_size phdr_count =
     fold (\<lambda>i. span_step (phdr_at mem phdr_mem phdr_size i)) [0..<phdr_count] (0xFFFFFFFFFFFFFFFF, 0)"

section \<open>Loading\<close>

text \<open>The results of these calls are dropped by the loader.\<close>

definition seek_to :: "'d platform \<Rightarrow> regs \<Rightarrow> u32 \<Rightarrow> u64 \<Rightarrow> 'd os \<Rightarrow> 'd os option" where
  "seek_to pf rg fd pos s = map_option snd (k_sys_seek pf rg fd pos s)"

definition close_file :: "'d platform \<Rightarrow> regs \<Rightarrow> u32 \<Rightarrow> 'd os \<Rightarrow> 'd os option" where
  "close_file pf rg fd s = map_option snd (k_sys_close pf rg fd s)"

definition load_segment :: "'d platform \<Rightarrow> regs \<Rightarrow> u32 \<Rightarrow> u64 \<Rightarrow> u64 \<Rightarrow> u64 \<Rightarrow> nat \<Rightarrow> 'd os \<Rightarrow> 'd os option" where
  "load_segment pf rg fd phdr_mem phdr_size base_offset i s =
     (let phdr = phdr_at (os_mem s) phdr_mem phdr_size i in
      if p_type phdr = 1 then
        let dest = p_vaddr phdr + base_offset in
        if p_filesz phdr > 0 then
          do { s \<leftarrow> seek_to pf rg fd (p_offset phdr) s;
               (_, s) \<leftarrow> k_sys_read_file pf rg fd dest (p_filesz phdr) s;
               Some s }
        else Some s
      else Some s)"

fun load_segments :: "'d platform \<Rightarrow> regs \<Rightarrow> u32 \<Rightarrow> u64 \<Rightarrow> u64 \<Rightarrow> u64 \<Rightarrow> nat list \<Rightarrow> 'd os \<Rightarrow> 'd os option" where
  "load_segments pf rg fd phdr_mem phdr_size base_offset [] s = Some s"
| "load_segments pf rg fd phdr_mem phdr_size base_offset (i # is) s =
     (case load_segment pf rg fd phdr_mem phdr_size base_offset i s of None \<Rightarrow> None
      | Some s \<Rightarrow> load_segments pf rg fd phdr_mem phdr_size base_offset is s)"

definition elf_magic :: "u8 list" where "elf_magic = 0x7F # str ''ELF''"

definition header_accepted :: "elf64_header \<Rightarrow> bool" where
  "header_accepted h \<longleftrightarrow> take 4 (e_ident h) = elf_magic \<and> (e_type h = 2 \<or> e_type h = 3)"

text \<open>The part after the header has been accepted: the image, or \<open>None\<close> when there is no loadable segment.\<close>

definition load_image ::
  "'d platform \<Rightarrow> regs \<Rightarrow> u64 \<Rightarrow> u32 \<Rightarrow> elf64_header \<Rightarrow> 'd os \<Rightarrow> ((u64 \<times> u64 \<times> u64) option \<times> 'd os) option" where
  "load_image pf rg slot fd h s =
     (let phdr_count = unat (e_phnum h); phdr_size = ucast (e_phentsize h) :: u64;
          total_phdr_size = ucast (e_phnum h) * phdr_size
      in do {
        (phdr_mem, s) \<leftarrow> mmap_local pf rg slot ((total_phdr_size + 4095) div 4096) s;
        s \<leftarrow> seek_to pf rg fd (e_phoff h) s;
        (_, s) \<leftarrow> k_sys_read_file pf rg fd phdr_mem total_phdr_size s;
        let (min_vaddr, max_vaddr) = span (os_mem s) phdr_mem phdr_size phdr_count;
        if min_vaddr = 0xFFFFFFFFFFFFFFFF then map_option (\<lambda>s. (None, s)) (close_file pf rg fd s)
        else do {
          let total_size = max_vaddr - min_vaddr;
          let total_pages = (total_size + 4095) div 4096;
          (base, s) \<leftarrow> mmap_local pf rg slot total_pages s;
          let s = on_mem (fill_bytes base (unat total_size) 0) s;
          let base_offset = base - min_vaddr;
          s \<leftarrow> load_segments pf rg fd phdr_mem phdr_size base_offset [0..<phdr_count] s;
          s \<leftarrow> close_file pf rg fd s;
          Some (Some (base, total_size, base_offset), s) } })"

definition load_elf ::
  "'d platform \<Rightarrow> regs \<Rightarrow> u64 \<Rightarrow> u64 \<Rightarrow> u8 list \<Rightarrow> 'd os \<Rightarrow> (loaded_elf option \<times> 'd os) option" where
  "load_elf pf rg hdr slot path s = do {
     s \<leftarrow> log_line pf (str ''[ELF] Loading: '' @ path) s;
     (fd, s) \<leftarrow> k_sys_open pf rg path s;
     if sint fd < 0 then Some (None, s)
     else do {
       let s = on_mem (fill_bytes hdr 64 0) s;
       s \<leftarrow> seek_to pf rg fd 0 s;
       (n, s) \<leftarrow> k_sys_read_file pf rg fd hdr 64 s;
       let h = rd_header (os_mem s) hdr;
       if n \<noteq> 64 \<or> \<not> header_accepted h then map_option (\<lambda>s. (None, s)) (close_file pf rg fd s)
       else do {
         (img, s) \<leftarrow> load_image pf rg slot fd h s;
         case img of
           None \<Rightarrow> Some (None, s)
         | Some (base, total_size, base_offset) \<Rightarrow> do {
             let actual_entry = e_entry h + base_offset;
             s \<leftarrow> log_line pf (str ''[ELF] Loaded: '' @ path @ str '' entry=0x'' @ fmt_hex actual_entry) s;
             Some (Some \<lparr>entry = actual_entry, base_addr = base, elf_size = total_size, elf_path = path\<rparr>, s) } } } }"

text \<open>Running: \<open>load_and_run\<close> enters a program that never returns, \<open>load_and_run_container\<close> one that does.\<close>

definition load_and_run :: "'d platform \<Rightarrow> regs \<Rightarrow> u64 \<Rightarrow> u64 \<Rightarrow> u8 list \<Rightarrow> 'd os \<Rightarrow> (u64 \<times> 'd os) option" where
  "load_and_run pf rg hdr slot path s = do {
     (elf, s) \<leftarrow> load_elf pf rg hdr slot path s;
     case elf of Some e \<Rightarrow> None | None \<Rightarrow> Some (-1, s) }"

definition load_and_run_container ::
  "(u64 \<Rightarrow> 'd os \<Rightarrow> 'd os option) \<Rightarrow> 'd platform \<Rightarrow> regs \<Rightarrow> u64 \<Rightarrow> u64 \<Rightarrow> u8 list \<Rightarrow> 'd os \<Rightarrow> (u64 \<times> 'd os) option" where
  "load_and_run_container program pf rg hdr slot path s = do {
     (elf, s) \<leftarrow> load_elf pf rg hdr slot path s;
     case elf of
       Some e \<Rightarrow> do {
         s \<leftarrow> log_line pf (str ''[ELF] Container: calling entry 0x'' @ fmt_hex (entry e)) s;
         s \<leftarrow> program (entry e) s;
         s \<leftarrow> log_line pf (str ''[ELF] Container: returned from '' @ path) s;
         s \<leftarrow> log_line pf (str ''[ELF] After entry return, about to return 0'') s;
         Some (0, s) }
     | None \<Rightarrow> Some (-1, s) }"

section \<open>The descriptor table\<close>

text \<open>The table without the entry of one descriptor.\<close>

definition without :: "u32 \<Rightarrow> 'd os \<Rightarrow> fd_table" where
  "without fd s = (FDS s)[unat fd := None]"

lemma without_cong: "FDS s' = FDS s \<Longrightarrow> without fd s' = without fd s"
  by (simp add: without_def)

lemma set_fd_without: "(set_fd fd d tbl)[unat fd := None] = tbl[unat fd := None]"
  by (simp add: set_fd_def split: option.split)

lemma log_line_FDS: "log_line pf msg s = Some s' \<Longrightarrow> FDS s' = FDS s"
  by (auto simp: log_line_def)

lemma mmap_local_FDS: "mmap_local pf rg slot n s = Some (a, s') \<Longrightarrow> FDS s' = FDS s"
  by (auto simp: mmap_local_def k_sys_mmap_def call_unit_eq handler_cases sc_mget_def split: option.splits)

lemma seek_to_without: "seek_to pf rg fd pos s = Some s' \<Longrightarrow> without fd s' = without fd s"
  by (auto simp: seek_to_def k_sys_seek_def call_ret_eq handler_cases sc_seek_def sys_seek_def without_def set_fd_without
      split: option.splits)

definition keeps_others :: "u32 \<Rightarrow> fd_table \<Rightarrow> ('a \<times> fd_table \<times> 'd machine) option \<Rightarrow> bool" where
  "keeps_others fd tbl x \<longleftrightarrow> (case x of None \<Rightarrow> True | Some (v, tbl', m) \<Rightarrow> tbl'[unat fd := None] = tbl[unat fd := None])"

lemma keeps_others_simps: "keeps_others fd tbl None" "keeps_others fd tbl (Some (v, tbl, m))"
    "keeps_others fd tbl (Some (v, set_fd fd d tbl, m))"
  by (simp_all add: keeps_others_def set_fd_without)

lemma sys_read_file_table: "keeps_others fd tbl (sys_read_file io fd buf len tbl m)"
  unfolding sys_read_file_def Let_def
  by (simp only: keeps_others_simps if_True if_False split: if_split option.split prod.split)
    (simp only: keeps_others_simps simp_thms)

lemma read_file_without: "k_sys_read_file pf rg fd buf len s = Some (v, s') \<Longrightarrow> without fd s' = without fd s"
  using sys_read_file_table [of fd "FDS s" "p_disk pf" buf len "os_machine s"]
  by (auto simp: k_sys_read_file_def call_ret_eq handler_cases sc_read_file_def on_files_def without_def Let_def
      keeps_others_def split: if_splits)

lemma close_file_FDS:
  "close_file pf rg fd s = Some s' \<Longrightarrow> 3 \<le> unat fd \<Longrightarrow> unat fd < 256 \<Longrightarrow> FDS s' = without fd s"
  by (auto simp: close_file_def k_sys_close_def call_ret_eq handler_cases sc_close_def close_fd_def without_def
      word_le_nat_alt)

lemma syscall_open_table:
  assumes "syscall_open io path tbl m = Some (fd, tbl', m')"
  shows "fd = -1 \<and> tbl' = tbl \<or> 3 \<le> unat fd \<and> unat fd < 256 \<and> 0 \<le> sint fd \<and> tbl'[unat fd := None] = tbl"
proof -
  have alloc: "fd = -1 \<and> tbl' = tbl \<or> (\<exists>d. fd_scan d [3..<256] tbl = (fd, tbl'))"
    using assms by (auto simp: syscall_open_def allocate_fd_def split: if_splits option.splits prod.splits)
  moreover have "fd = -1 \<and> tbl' = tbl \<or> 3 \<le> unat fd \<and> unat fd < 256 \<and> 0 \<le> sint fd \<and> tbl'[unat fd := None] = tbl"
    if "fd_scan d [3..<256] tbl = (fd, tbl')" for d
  proof -
    have "\<forall>i\<in>set [3..<256]. i < 256" by simp
    from fd_scan_cases [OF this, of tbl d] that consider "fd = -1" "tbl' = tbl"
      | i where "i \<in> set [3..<256]" "tbl ! i = None" "fd = of_nat i" "tbl' = tbl[i := Some d]"
      by fastforce
    then show ?thesis
    proof cases
      case (2 i)
      then have i: "3 \<le> i" "i < 256" by auto
      have "unat fd = i" using i by (simp add: 2 unat_u32_small)
      moreover have "0 \<le> sint fd" using i by (simp add: 2(3) signed_of_nat signed_take_bit_int_eq_self)
      moreover have "tbl'[i := None] = tbl" using 2(2,4) by (metis list_update_id list_update_overwrite)
      ultimately show ?thesis using i by simp
    qed simp
  qed
  ultimately show ?thesis by blast
qed

lemma open_FDS:
  assumes "k_sys_open pf rg path s = Some (fd, s')"
  shows "sint fd < 0 \<and> FDS s' = FDS s \<or> 0 \<le> sint fd \<and> 3 \<le> unat fd \<and> unat fd < 256 \<and> without fd s' = FDS s"
  using assms
  by (auto simp: k_sys_open_def Let_def call_ret_eq handler_cases sc_open_def on_files_def without_def
      dest: syscall_open_table)

lemma load_segment_without:
  "load_segment pf rg fd a sz off i s = Some s' \<Longrightarrow> without fd s' = without fd s"
  by (auto simp: load_segment_def Let_def dest!: seek_to_without read_file_without split: if_splits Option.bind_splits)

lemma load_segments_without:
  "load_segments pf rg fd a sz off is s = Some s' \<Longrightarrow> without fd s' = without fd s"
  by (induction "is" arbitrary: s) (auto dest!: load_segment_without split: option.splits)

lemma load_image_FDS:
  assumes "load_image pf rg slot fd h s = Some (img, s')" "3 \<le> unat fd" "unat fd < 256"
  shows "FDS s' = without fd s"
proof -
  have mm: "mmap_local pf rg slot n t = Some (v, t') \<Longrightarrow> without fd t' = without fd t" for n t v t'
    by (rule without_cong) (rule mmap_local_FDS)
  have fill: "without fd (on_mem f t) = without fd t" for f and t :: "'a os"
    by (rule without_cong) simp
  show ?thesis
    using assms
    by (auto simp: load_image_def Let_def split_def fill dest!: mm seek_to_without read_file_without load_segments_without close_file_FDS
        split: if_splits Option.bind_splits prod.splits)
qed

text \<open>C18. The loader leaks no file descriptor: whenever \<open>load_elf\<close> returns, with an image or with a refusal (the file cannot be opened,
  its header is short, is not an ELF header or of the wrong type, or nothing is to be loaded), the descriptor table
  is the one before.\<close>

theorem load_elf_closes:
  "case load_elf pf rg hdr slot path s of None \<Rightarrow> True | Some (elf, s') \<Rightarrow> FDS s' = FDS s"
proof (cases "load_elf pf rg hdr slot path s")
  case (Some r)
  obtain elf s' where r: "r = (elf, s')" by (cases r)
  from Some obtain s1 fd s2 where s1: "log_line pf (str ''[ELF] Loading: '' @ path) s = Some s1"
      and s2: "k_sys_open pf rg path s1 = Some (fd, s2)"
    by (auto simp: load_elf_def split: Option.bind_splits)
  note t1 = log_line_FDS [OF s1]
  from open_FDS [OF s2] show ?thesis
  proof
    assume "sint fd < 0 \<and> FDS s2 = FDS s1"
    then show ?thesis using Some s1 s2 t1 by (simp add: load_elf_def r)
  next
    assume fd: "0 \<le> sint fd \<and> 3 \<le> unat fd \<and> unat fd < 256 \<and> without fd s2 = FDS s1"
    have rest: "FDS s' = without fd s2"
      using Some s1 s2 fd
      by (auto simp: load_elf_def r Let_def without_cong [of "on_mem f t" for f t]
          dest!: seek_to_without read_file_without close_file_FDS load_image_FDS log_line_FDS
          split: if_splits Option.bind_splits option.splits)
    then show ?thesis using Some fd t1 by (simp add: r)
  qed
qed simp

section \<open>Every segment inside the image\<close>

lemma span_step_mono:
  "span_step ph (lo, hi) = (lo', hi') \<Longrightarrow> lo' \<le> lo \<and> hi \<le> hi'
     \<and> (p_type ph = 1 \<longrightarrow> lo' \<le> p_vaddr ph \<and> p_vaddr ph + p_memsz ph \<le> hi')"
  by (auto simp: span_step_def Let_def split: if_splits)

lemma fold_span_mono:
  "fold (\<lambda>i. span_step (f i)) is (lo, hi) = (lo', hi') \<Longrightarrow> lo' \<le> lo \<and> hi \<le> hi' \<and>
     (\<forall>i\<in>set is. p_type (f i) = 1 \<longrightarrow> lo' \<le> p_vaddr (f i) \<and> p_vaddr (f i) + p_memsz (f i) \<le> hi')"
proof (induction "is" arbitrary: lo hi)
  case (Cons i "is")
  obtain lo1 hi1 where s: "span_step (f i) (lo, hi) = (lo1, hi1)" by fastforce
  from Cons.IH [of lo1 hi1] Cons.prems s span_step_mono [OF s] show ?case by fastforce
qed simp

lemma segment_inside:
  assumes lo: "lo \<le> p_vaddr ph" and hi: "p_vaddr ph + p_memsz ph \<le> hi" and "p_filesz ph \<le> p_memsz ph"
    and "unat (p_vaddr ph) + unat (p_memsz ph) < 2 ^ 64" and x: "in_region (p_vaddr ph + (base - lo)) (unat (p_filesz ph)) x"
  shows "in_region base (unat (hi - lo)) x"
proof -
  have e: "unat (p_vaddr ph + p_memsz ph) = unat (p_vaddr ph) + unat (p_memsz ph)"
    using assms(4) by (simp add: unat_word_ariths)
  have lohi: "unat (hi - lo) = unat hi - unat lo" "unat (p_vaddr ph - lo) = unat (p_vaddr ph) - unat lo"
    using lo hi e by (auto simp: unat_sub word_le_nat_alt)
  have dest: "p_vaddr ph + (base - lo) = base + of_nat (unat (p_vaddr ph - lo))" by simp
  have "unat (p_vaddr ph - lo) + unat (p_filesz ph) \<le> unat (hi - lo)"
    using lo hi e assms(3) by (simp add: lohi word_le_nat_alt)
  then show ?thesis using x in_region_sub [of base "unat (p_vaddr ph - lo)" "unat (p_filesz ph)" x "unat (hi - lo)"]
    by (simp only: dest) simp
qed

text \<open>Where the segments go. For every loadable segment whose file part is not longer than its memory part and whose
  addresses do not wrap, the bytes the loader reads for it lie within the block it has obtained, at the distance from
  the start the segment has from the lowest address; the block's size is the span of the segments.\<close>

theorem elf_segments_inside:
  assumes "i < n" "p_type (phdr_at mem a sz i) = 1"
    and "p_filesz (phdr_at mem a sz i) \<le> p_memsz (phdr_at mem a sz i)"
    and "unat (p_vaddr (phdr_at mem a sz i)) + unat (p_memsz (phdr_at mem a sz i)) < 2 ^ 64"
  shows "case span mem a sz n of (lo, hi) \<Rightarrow>
    (let ph = phdr_at mem a sz i; dest = p_vaddr ph + (base - lo) in
      dest - base = p_vaddr ph - lo \<and> lo \<le> p_vaddr ph \<and>
      (\<forall>x. in_region dest (unat (p_filesz ph)) x \<longrightarrow> in_region base (unat (hi - lo)) x))"
proof -
  let ?ph = "phdr_at mem a sz i"
  obtain lo hi where s: "span mem a sz n = (lo, hi)" by fastforce
  have b: "lo \<le> p_vaddr ?ph" "p_vaddr ?ph + p_memsz ?ph \<le> hi"
    using fold_span_mono [OF s [unfolded span_def]] assms(1,2) by auto
  show ?thesis using b(1) segment_inside [OF b assms(3,4)] by (simp add: s Let_def)
qed

text \<open>One program header at 0x100: a segment of 0x10 bytes at 0x400000, 0x20 in memory.\<close>

theorem elf_segments_inside_witness:
  "case span (wr64 0x128 0x20 (wr64 0x120 0x10 (wr64 0x110 0x400000 (wr32 0x100 1 (\<lambda>_. 0))))) 0x100 56 1 of (lo, hi) \<Rightarrow>
     lo \<le> 0x400000 \<and> (\<forall>x. in_region (0x400000 + (0x9000 - lo)) 0x10 x \<longrightarrow> in_region 0x9000 (unat (hi - lo)) x)"
proof -
  let ?mem = "wr64 0x128 0x20 (wr64 0x120 0x10 (wr64 0x110 0x400000 (wr32 0x100 1 (\<lambda>_. 0))))"
  have ph: "p_type (phdr_at ?mem 0x100 56 0) = 1" "p_vaddr (phdr_at ?mem 0x100 56 0) = 0x400000"
    "p_filesz (phdr_at ?mem 0x100 56 0) = 0x10" "p_memsz (phdr_at ?mem 0x100 56 0) = 0x20"
    by (simp_all add: phdr_at_def rd_phdr_def rd64_def rd32_def rd16_def wr64_def wr32_def wr16_def)
  show ?thesis
    using elf_segments_inside [of 0 1 ?mem "0x100" 56 "0x9000"] by (simp add: ph Let_def split: prod.splits)
qed

end
