(* ===== verification/Elf_Image.thy ===== *)
theory Elf_Image imports Elf_Loader File_System Driver_Pages begin

text \<open>
  What the ELF loader (\<open>kernel/src/boot/exec.rs\<close>) puts into memory: the loadable segments of the file, laid over zeros in
  fresh pages. Proved on any block device from the contracts of the file calls and of the page allocator, then
  stated for the AHCI driver.
\<close>

section \<open>The image of a file\<close>

text \<open>The reference: a program header of the file, and what the segments make of a memory, in their order.\<close>

definition file_slice :: "u8 list \<Rightarrow> u64 \<Rightarrow> u64 \<Rightarrow> u8 list" where
  "file_slice F pos len = take (unat len) (drop (unat pos) F)"

definition file_memory :: "u8 list \<Rightarrow> memory" where
  "file_memory F = (\<lambda>x. if unat x < length F then F ! unat x else 0)"

definition file_headers :: "u8 list \<Rightarrow> elf64_header \<Rightarrow> elf64_phdr list" where
  "file_headers F h = map (phdr_at (file_memory F) (e_phoff h) (ucast (e_phentsize h))) [0..<unat (e_phnum h)]"

definition place_segment :: "u8 list \<Rightarrow> u64 \<Rightarrow> elf64_phdr \<Rightarrow> memory \<Rightarrow> memory" where
  "place_segment F base_offset ph mem =
     (if p_type ph = 1 then wr_bytes (p_vaddr ph + base_offset) (file_slice F (p_offset ph) (p_filesz ph)) mem else mem)"

definition elf_image :: "u8 list \<Rightarrow> u64 \<Rightarrow> elf64_phdr list \<Rightarrow> memory \<Rightarrow> memory" where
  "elf_image F base_offset phs mem = fold (place_segment F base_offset) phs mem"

lemma elf_image_simps [simp]: "elf_image F off [] mem = mem"
    "elf_image F off (ph # phs) mem = elf_image F off phs (place_segment F off ph mem)"
  by (simp_all add: elf_image_def)

lemma place_segment_cong: "mem x = mem' x \<Longrightarrow> place_segment F off ph mem x = place_segment F off ph mem' x"
  by (simp add: place_segment_def wr_bytes_def)

lemma elf_image_cong: "mem x = mem' x \<Longrightarrow> elf_image F off phs mem x = elf_image F off phs mem' x"
proof (induction phs arbitrary: mem mem')
  case (Cons ph phs)
  have "place_segment F off ph mem x = place_segment F off ph mem' x" by (rule place_segment_cong) (rule Cons.prems)
  then have "elf_image F off phs (place_segment F off ph mem) x = elf_image F off phs (place_segment F off ph mem') x"
    by (rule Cons.IH)
  then show ?case by (simp only: elf_image_simps)
qed simp

lemma span_fold: "span mem a sz n = fold span_step (map (phdr_at mem a sz) [0..<n]) (0xFFFFFFFFFFFFFFFF, 0)"
  by (simp add: span_def fold_map o_def)

lemma rd_phdr_cong:
  assumes "\<And>i. i < 56 \<Longrightarrow> mem (a + of_nat i) = mem' (b + of_nat i)"
  shows "rd_phdr mem a = rd_phdr mem' b"
proof -
  have r32: "rd32 mem (a + of_nat j) = rd32 mem' (b + of_nat j)" if "j + 4 \<le> 56" for j
    using assms [of "j + i" for i] that by (intro rd32_cong) (simp add: add.assoc)
  have r64: "rd64 mem (a + of_nat j) = rd64 mem' (b + of_nat j)" if "j + 8 \<le> 56" for j
    using assms [of "j + i" for i] that by (intro rd64_cong) (simp add: add.assoc)
  show ?thesis
    using r32 [of 0] r32 [of 4] r64 [of 8] r64 [of 16] r64 [of 24] r64 [of 32] r64 [of 40] r64 [of 48]
    by (simp add: rd_phdr_def)
qed

section \<open>Reading a piece of the file\<close>

text \<open>What the steps of the loader leave alone: the allocator, and the other descriptors.\<close>

definition same_kernel :: "u32 \<Rightarrow> 'd os \<Rightarrow> 'd os \<Rightarrow> bool" where
  "same_kernel fd s s' \<longleftrightarrow> RAM_MGR s' = RAM_MGR s \<and> without fd s' = without fd s"

lemma same_kernel_refl: "same_kernel fd s s"
  by (simp add: same_kernel_def)

lemma same_kernel_trans: "same_kernel fd s t \<Longrightarrow> same_kernel fd t u \<Longrightarrow> same_kernel fd s u"
  by (simp add: same_kernel_def)

text \<open>
  What the loader needs of the kernel's state: a well-formed allocator whose free pages are neither page 0 nor the disk driver's
  (\<open>scr\<close>), and its local variable in memory that is in use.
\<close>

definition loader_ready :: "(u64 \<Rightarrow> bool) \<Rightarrow> ram_manager \<Rightarrow> u64 \<Rightarrow> 'd os \<Rightarrow> bool" where
  "loader_ready scr mgr slot s \<longleftrightarrow> RAM_MGR s = Some mgr \<and> ram_wf mgr (os_mem s) \<and> local_var mgr (os_mem s) slot \<and>
     is_used mgr 0 (os_mem s) \<and> (\<forall>x. scr x \<longrightarrow> is_used mgr (unat x div 4096) (os_mem s) \<and> \<not> in_bitmap mgr x)"

text \<open>What it needs of the file: the program headers and the loadable segments lie in it.\<close>

definition headers_fit :: "u32 \<Rightarrow> elf64_header \<Rightarrow> bool" where
  "headers_fit sz h \<longleftrightarrow> 56 \<le> unat (e_phentsize h) \<and> 0 < unat (e_phnum h) \<and>
     unat (e_phoff h) + unat (e_phnum h) * unat (e_phentsize h) \<le> unat sz"

definition segments_fit :: "u32 \<Rightarrow> elf64_phdr list \<Rightarrow> bool" where
  "segments_fit sz phs \<longleftrightarrow> (\<forall>ph\<in>set phs. p_type ph = 1 \<longrightarrow> unat (p_offset ph) + unat (p_filesz ph) \<le> unat sz \<and>
     p_filesz ph \<le> p_memsz ph \<and> unat (p_vaddr ph) + unat (p_memsz ph) < 2 ^ 64)"

definition pages_for :: "nat \<Rightarrow> nat" where
  "pages_for n = (n + 4095) div 4096"

definition headers_size :: "elf64_header \<Rightarrow> nat" where
  "headers_size h = unat (e_phnum h) * unat (e_phentsize h)"

lemma pages_for_le: "n \<le> pages_for n * 4096"
  by (simp add: pages_for_def)

lemma unat_plus_of_nat: "unat (a :: u64) + n < 2 ^ 64 \<Longrightarrow> unat (a + of_nat n) = unat a + n"
  by (simp add: unat_word_ariths)

lemma headers_size_less: "headers_size h < 2 ^ 32"
proof -
  have "unat (e_phnum h) < 2 ^ 16" "unat (e_phentsize h) < 2 ^ 16" using unsigned_less [of "e_phnum h"] unsigned_less [of "e_phentsize h"] by simp_all
  then have "headers_size h < 2 ^ 16 * 2 ^ 16" unfolding headers_size_def by (intro mult_strict_mono) simp_all
  then show ?thesis by simp
qed

lemma unat_ucast_u16 [simp]: "unat (ucast (x :: u16) :: u64) = unat x"
proof -
  have "unat x < 2 ^ 16" using unsigned_less [of x] by simp
  then show ?thesis by (simp add: unsigned_ucast_eq take_bit_nat_eq_self)
qed

lemma headers_size_word: "unat (ucast (e_phnum h) * ucast (e_phentsize h) :: u64) = headers_size h"
    "unat ((ucast (e_phnum h) * ucast (e_phentsize h) + 4095 :: u64) div 4096) = pages_for (headers_size h)"
proof -
  show 1: "unat (ucast (e_phnum h) * ucast (e_phentsize h) :: u64) = headers_size h"
    using headers_size_less [of h] by (simp add: headers_size_def unat_word_ariths)
  then show "unat ((ucast (e_phnum h) * ucast (e_phentsize h) + 4095 :: u64) div 4096) = pages_for (headers_size h)"
    using headers_size_less [of h] by (simp add: unat_div unat_word_ariths pages_for_def del: unat_ucast_u16)
qed

lemma stretch_bound:
  assumes "ram_ok mgr" "stretch mgr mem q n" "0 < n"
  shows "q + n \<le> 2 ^ 52"
proof -
  have "free_run mgr mem n q" using assms(2) by (simp add: free_run_iff stretch_def)
  from free_run_bound [OF assms(3) this] assms(1) show ?thesis by (simp add: ram_ok_def)
qed

lemma total_pages_word:
  assumes "pages_for (unat t) + 2 \<le> 2 ^ 52"
  shows "unat ((t + 4095 :: u64) div 4096) = pages_for (unat t)"
proof -
  have "unat t + 4095 < 2 ^ 64" using assms pages_for_le [of "unat t"] by simp
  then show ?thesis by (simp add: unat_div unat_word_ariths pages_for_def)
qed

lemma mmap_local_machine:
  "mmap_local pf rg slot n s = Some (v, s') \<Longrightarrow> \<exists>f. os_machine s' = on_ram f (os_machine s)"
  by (auto simp: mmap_local_def k_sys_mmap_def call_unit_eq handler_cases sc_mget_def split: option.splits)

lemma close_file_ok:
  "3 \<le> unat fd \<Longrightarrow> unat fd < 256 \<Longrightarrow> \<exists>s'. close_file pf rg fd s = Some s' \<and> FDS s' = without fd s \<and> os_machine s' = os_machine s"
  by (simp add: close_file_def k_sys_close_def call_ret_eq handler_cases sc_close_def close_fd_def without_def word_le_nat_alt)

text \<open>The bytes of the table, wherever it has been read to.\<close>

lemma table_headers:
  assumes fit: "headers_fit sz h" "unat sz \<le> length F"
    and bytes: "rd_bytes mem a (headers_size h) = take (headers_size h) (drop (unat (e_phoff h)) F)"
    and i: "i < unat (e_phnum h)"
  shows "phdr_at mem a (ucast (e_phentsize h)) i = file_headers F h ! i"
    and "in_region (a + of_nat i * ucast (e_phentsize h)) 56 x \<Longrightarrow> in_region a (headers_size h) x"
proof -
  let ?z = "unat (e_phentsize h)"
  have w: "of_nat i * (ucast (e_phentsize h) :: u64) = of_nat (i * ?z)" by (metis of_nat_mult of_nat_unat_u64 unat_ucast_u16)
  have le: "i * ?z + 56 \<le> headers_size h"
  proof -
    have "Suc i * ?z \<le> headers_size h" using i unfolding headers_size_def by (intro mult_le_mono1) simp
    then show ?thesis using fit(1) by (simp add: headers_fit_def)
  qed
  have sz: "unat sz < 2 ^ 32" by simp
  have "rd_phdr mem (a + of_nat (i * ?z)) = rd_phdr (file_memory F) (e_phoff h + of_nat (i * ?z))"
  proof (rule rd_phdr_cong)
    fix k :: nat assume k: "k < 56"
    then have b: "i * ?z + k < headers_size h" using le by simp
    have at: "unat (e_phoff h) + (i * ?z + k) < unat sz" using b fit(1) by (simp add: headers_fit_def headers_size_def)
    have lt: "unat (e_phoff h) + (i * ?z + k) < length F" and "unat (e_phoff h) + (i * ?z + k) < 2 ^ 64"
      using at fit(2) order.strict_trans [OF at sz] by simp_all
    then have u: "unat (e_phoff h + of_nat (i * ?z + k)) = unat (e_phoff h) + (i * ?z + k)" by (intro unat_plus_of_nat)
    have "mem (a + of_nat (i * ?z + k)) = F ! (unat (e_phoff h) + (i * ?z + k))"
      using rd_bytes_eqD [OF bytes b] b lt by simp
    then show "mem (a + of_nat (i * ?z) + of_nat k) = file_memory F (e_phoff h + of_nat (i * ?z) + of_nat k)"
      using u lt by (simp add: file_memory_def add.assoc)
  qed
  moreover have "file_headers F h ! i = phdr_at (file_memory F) (e_phoff h) (ucast (e_phentsize h)) i"
    using i by (simp add: file_headers_def)
  ultimately show "phdr_at mem a (ucast (e_phentsize h)) i = file_headers F h ! i"
    by (simp only: phdr_at_def w)
  have "headers_size h \<le> 2 ^ 64" using headers_size_less [of h] by simp
  then show "in_region a (headers_size h) x" if "in_region (a + of_nat i * ucast (e_phentsize h)) 56 x"
    using that le in_region_sub [of a "i * ?z" 56 x "headers_size h"] by (simp only: w)
qed

lemma table_map:
  assumes "headers_fit sz h" "unat sz \<le> length F"
    and "rd_bytes mem a (headers_size h) = take (headers_size h) (drop (unat (e_phoff h)) F)"
  shows "map (phdr_at mem a (ucast (e_phentsize h))) [0..<unat (e_phnum h)] = file_headers F h"
proof (rule nth_equalityI)
  fix i assume "i < length (map (phdr_at mem a (ucast (e_phentsize h))) [0..<unat (e_phnum h)])"
  then have "i < unat (e_phnum h)" by simp
  with table_headers(1) [OF assms this]
  show "map (phdr_at mem a (ucast (e_phentsize h))) [0..<unat (e_phnum h)] ! i = file_headers F h ! i" by simp
qed (simp add: file_headers_def)

context block_device begin

text \<open>The descriptor \<open>fd\<close> is open on the file with the clusters \<open>cs\<close> and the size \<open>sz\<close>.\<close>

definition serves :: "simple_fs \<Rightarrow> (u64 \<Rightarrow> u8 list) \<Rightarrow> u32 list \<Rightarrow> u32 \<Rightarrow> u32 \<Rightarrow> 'd os \<Rightarrow> bool" where
  "serves fs D cs sz fd s \<longleftrightarrow> inv (os_machine s) \<and> disk (os_machine s) = D \<and> fd_ok (FDS s) \<and>
     (\<exists>d. get_fd fd (FDS s) = Some d \<and> \<not> fd_is_dir d \<and> fd_size d = sz \<and> file_chain fs D (fd_cluster d) cs)"

definition file_at :: "simple_fs \<Rightarrow> (u64 \<Rightarrow> u8 list) \<Rightarrow> u32 list \<Rightarrow> u32 \<Rightarrow> bool" where
  "file_at fs D cs sz \<longleftrightarrow> volume_at valid D fs \<and> chain_valid valid fs cs \<and> unat sz \<le> length (file_bytes fs D cs)"

lemma delivered_wr:
  assumes "delivered buf bs m m'" "length bs \<le> 2 ^ 64" "\<not> scratch x"
  shows "ram m' x = wr_bytes buf bs (ram m) x"
proof (cases "in_region buf (length bs) x")
  case True
  then obtain i where i: "i < length bs" "i < 2 ^ 64" "x = buf + of_nat i" by (rule in_regionE)
  have "rd_bytes (ram m') buf (length bs) ! i = bs ! i" using assms(1) by (simp add: delivered_def)
  with i show ?thesis by (simp add: wr_bytes_offset)
next
  case False
  with assms show ?thesis by (simp add: delivered_def wr_bytes_other)
qed

lemma seek_to_serves:
  assumes "serves fs D cs sz fd s"
  obtains s' where "seek_to pf rg fd pos s = Some s'" "serves fs D cs sz fd s'" "same_kernel fd s s'"
    "os_machine s' = os_machine s" "\<And>d. get_fd fd (FDS s') = Some d \<Longrightarrow> fd_position d = pos"
proof -
  obtain d where d: "get_fd fd (FDS s) = Some d" "\<not> fd_is_dir d" "fd_size d = sz" "file_chain fs D (fd_cluster d) cs"
      "fd_ok (FDS s)" "inv (os_machine s)" "disk (os_machine s) = D"
    using assms by (auto simp: serves_def)
  let ?d = "seek pos d"
  define s' where "s' = ret pos (s\<lparr>FDS := set_fd fd ?d (FDS s)\<rparr>)"
  have st: "fd_ok (set_fd fd ?d (FDS s))" "get_fd fd (set_fd fd ?d (FDS s)) = Some ?d"
    using fds.store_ok [OF d(5), of fd ?d] d(1) by simp_all
  have run: "seek_to pf rg fd pos s = Some s'"
    using d(1) by (simp add: seek_to_def k_sys_seek_def call_ret_eq handler_cases sc_seek_def sys_seek_def s'_def seek_def)
  have "without fd s' = without fd s" by (simp add: s'_def without_def set_fd_without)
  moreover have "serves fs D cs sz fd s'"
    using d st by (simp add: serves_def s'_def seek_def)
  ultimately show thesis
    using run st by (intro that [of s']) (auto simp: same_kernel_def s'_def seek_def)
qed

lemma read_serves:
  assumes disk: "p_disk pf = io" and f: "file_at fs D cs sz" and s: "serves fs D cs sz fd s"
    and at: "\<And>d. get_fd fd (FDS s) = Some d \<Longrightarrow> fd_position d = pos"
    and len: "unat pos + unat len \<le> unat sz" "len \<noteq> 0" and buf: "buf \<noteq> 0" "user_buffer buf (unat len)"
  obtains s' where "k_sys_read_file pf rg fd buf len s = Some (len, s')" "serves fs D cs sz fd s'" "same_kernel fd s s'"
    "delivered buf (file_slice (file_bytes fs D cs) pos len) (os_machine s) (os_machine s')"
proof -
  obtain d where d: "get_fd fd (FDS s) = Some d" "\<not> fd_is_dir d" "fd_size d = sz" "file_chain fs D (fd_cluster d) cs"
      "fd_ok (FDS s)" "inv (os_machine s)" "disk (os_machine s) = D"
    using s by (auto simp: serves_def)
  have p: "fd_position d = pos" using at d(1) .
  have n: "unat len = min (unat len) (unat (fd_size d) - unat (fd_position d))" using len(1) d(3) p by simp
  have l0: "0 < unat len" using len(2) by (simp add: unat_gt_0)
  have lt: "unat (fd_position d) < unat (fd_size d)" using len(1) l0 unfolding d(3) p by linarith
  have vol: "volume_at valid (disk (os_machine s)) fs" "chain_valid valid fs cs"
    "unat (fd_size d) \<le> length (file_bytes fs (disk (os_machine s)) cs)"
    "file_chain fs (disk (os_machine s)) (fd_cluster d) cs"
    using f d by (simp_all add: file_at_def)
  obtain m' where m': "sys_read_file io fd buf len (FDS s) (os_machine s) =
        Some (of_nat (unat len), set_fd fd (d\<lparr>fd_position := fd_position d + of_nat (unat len)\<rparr>) (FDS s), m')"
      "delivered buf (take (unat len) (drop (unat (fd_position d)) (file_bytes fs (disk (os_machine s)) cs))) (os_machine s) m'"
    using sys_read_file_spec [OF d(6) vol(1) d(1,2) vol(4,2) lt vol(3) buf(1) len(2) buf(2) n] by blast
  let ?d = "d\<lparr>fd_position := pos + len\<rparr>"
  define s' where "s' = ret len (set_machine m' (s\<lparr>FDS := set_fd fd ?d (FDS s)\<rparr>))"
  have st: "fd_ok (set_fd fd ?d (FDS s))" "get_fd fd (set_fd fd ?d (FDS s)) = Some ?d"
    using fds.store_ok [OF d(5), of fd ?d] d(1) by simp_all
  have run: "k_sys_read_file pf rg fd buf len s = Some (len, s')"
    using m'(1) buf(1) l0 disk p
    by (simp add: k_sys_read_file_def call_ret_eq handler_cases sc_read_file_def on_files_def s'_def word_less_nat_alt)
  have del: "delivered buf (file_slice (file_bytes fs D cs) pos len) (os_machine s) (os_machine s')"
    using m'(2) d(7) p by (simp add: s'_def file_slice_def)
  have "without fd s' = without fd s" by (simp add: s'_def without_def set_fd_without)
  moreover have "serves fs D cs sz fd s'"
    using d st del by (simp add: serves_def s'_def delivered_def)
  ultimately show thesis using run del by (intro that [of s']) (simp_all add: same_kernel_def s'_def)
qed

section \<open>The segments\<close>

text \<open>A segment that lies in the file, and whose place in memory is the caller's.\<close>

definition placeable :: "u32 \<Rightarrow> u64 \<Rightarrow> elf64_phdr \<Rightarrow> bool" where
  "placeable sz off ph \<longleftrightarrow> (p_type ph = 1 \<longrightarrow> unat (p_offset ph) + unat (p_filesz ph) \<le> unat sz \<and>
     (p_filesz ph \<noteq> 0 \<longrightarrow> p_vaddr ph + off \<noteq> 0) \<and> user_buffer (p_vaddr ph + off) (unat (p_filesz ph)))"

lemma load_segment_spec:
  assumes disk: "p_disk pf = io" and f: "file_at fs D cs sz" and s: "serves fs D cs sz fd s"
    and ph: "placeable sz off (phdr_at (os_mem s) a psz i)"
  obtains s' where "load_segment pf rg fd a psz off i s = Some s'" "serves fs D cs sz fd s'" "same_kernel fd s s'"
    "\<And>x. \<not> scratch x \<Longrightarrow> os_mem s' x = place_segment (file_bytes fs D cs) off (phdr_at (os_mem s) a psz i) (os_mem s) x"
proof -
  let ?ph = "phdr_at (os_mem s) a psz i"
  show thesis
  proof (cases "p_type ?ph = 1 \<and> p_filesz ?ph \<noteq> 0")
    case False
    then have "load_segment pf rg fd a psz off i s = Some s" by (auto simp: load_segment_def Let_def)
    moreover have "place_segment (file_bytes fs D cs) off ?ph (os_mem s) = os_mem s"
      using False by (auto simp: place_segment_def file_slice_def)
    ultimately show thesis using s by (intro that [of s]) (simp_all add: same_kernel_refl)
  next
    case True
    then have p: "unat (p_offset ?ph) + unat (p_filesz ?ph) \<le> unat sz" "p_vaddr ?ph + off \<noteq> 0"
      "user_buffer (p_vaddr ?ph + off) (unat (p_filesz ?ph))" "p_filesz ?ph > 0"
      using ph by (auto simp: placeable_def word_neq_0_conv)
    obtain s1 where s1: "seek_to pf rg fd (p_offset ?ph) s = Some s1" "serves fs D cs sz fd s1" "same_kernel fd s s1"
        "os_machine s1 = os_machine s" "\<And>d. get_fd fd (FDS s1) = Some d \<Longrightarrow> fd_position d = p_offset ?ph"
      by (rule seek_to_serves [OF s]) (rule that)
    obtain s2 where s2: "k_sys_read_file pf rg fd (p_vaddr ?ph + off) (p_filesz ?ph) s1 = Some (p_filesz ?ph, s2)"
        "serves fs D cs sz fd s2" "same_kernel fd s1 s2"
        "delivered (p_vaddr ?ph + off) (file_slice (file_bytes fs D cs) (p_offset ?ph) (p_filesz ?ph)) (os_machine s1) (os_machine s2)"
      by (rule read_serves [OF disk f s1(2) s1(5) p(1) conjunct2 [OF True] p(2,3)], assumption, rule that)
    have "load_segment pf rg fd a psz off i s = Some s2"
      using True p(4) s1(1) s2(1) by (simp add: load_segment_def Let_def)
    moreover have "length (file_slice (file_bytes fs D cs) (p_offset ?ph) (p_filesz ?ph)) \<le> 2 ^ 64"
      using unat_le_u64 [of "p_filesz ?ph"] by (simp add: file_slice_def min_le_iff_disj)
    ultimately show thesis
      using s2 True s1(4) delivered_wr [OF s2(4)]
      by (intro that [of s2]) (auto intro: same_kernel_trans [OF s1(3)] simp: place_segment_def)
  qed
qed

text \<open>
  All of them. The table of program headers must not be where a segment goes, nor where the disk driver works, so that every
  step sees the same headers.
\<close>

lemma load_segments_spec:
  assumes disk: "p_disk pf = io" and f: "file_at fs D cs sz"
    and table: "\<And>i x. i \<in> set idx \<Longrightarrow> in_region (a + of_nat i * psz) 56 x \<Longrightarrow> \<not> scratch x \<and> \<not> img x"
    and segs: "\<And>i x. i \<in> set idx \<Longrightarrow> p_type (phdr_at M a psz i) = 1 \<Longrightarrow>
      in_region (p_vaddr (phdr_at M a psz i) + off) (unat (p_filesz (phdr_at M a psz i))) x \<Longrightarrow> img x"
    and place: "\<And>i. i \<in> set idx \<Longrightarrow> placeable sz off (phdr_at M a psz i)"
    and s: "serves fs D cs sz fd s"
    and M: "\<And>i. i \<in> set idx \<Longrightarrow> phdr_at (os_mem s) a psz i = phdr_at M a psz i"
  shows "\<exists>s'. load_segments pf rg fd a psz off idx s = Some s' \<and> serves fs D cs sz fd s' \<and> same_kernel fd s s' \<and>
    (\<forall>x. \<not> scratch x \<longrightarrow> os_mem s' x = elf_image (file_bytes fs D cs) off (map (phdr_at M a psz) idx) (os_mem s) x)"
  using table segs place s M
proof (induction idx arbitrary: s)
  case Nil
  then show ?case by (simp add: same_kernel_refl)
next
  case (Cons i js)
  let ?F = "file_bytes fs D cs" and ?ph = "phdr_at M a psz i"
  have eq: "phdr_at (os_mem s) a psz i = ?ph" using Cons.prems(5) by simp
  have "placeable sz off (phdr_at (os_mem s) a psz i)" using Cons.prems(3) by (simp add: eq)
  from load_segment_spec [OF disk f Cons.prems(4) this, where rg = rg]
  obtain s1 where s1: "load_segment pf rg fd a psz off i s = Some s1" "serves fs D cs sz fd s1" "same_kernel fd s s1"
      "\<And>x. \<not> scratch x \<Longrightarrow> os_mem s1 x = place_segment ?F off ?ph (os_mem s) x"
    by (auto simp: eq)
  have keep: "os_mem s1 x = os_mem s x" if "\<not> scratch x" "\<not> img x" for x
  proof -
    have "\<not> in_region (p_vaddr ?ph + off) (length (file_slice ?F (p_offset ?ph) (p_filesz ?ph))) x" if "p_type ?ph = 1"
    proof
      assume "in_region (p_vaddr ?ph + off) (length (file_slice ?F (p_offset ?ph) (p_filesz ?ph))) x"
      then have "in_region (p_vaddr ?ph + off) (unat (p_filesz ?ph)) x" by (rule in_region_mono) (simp add: file_slice_def)
      then show False using Cons.prems(2) [of i x] that \<open>\<not> img x\<close> by simp
    qed
    then show ?thesis using s1(4) [OF that(1)] by (simp add: place_segment_def wr_bytes_other)
  qed
  have M1: "phdr_at (os_mem s1) a psz j = phdr_at M a psz j" if j: "j \<in> set js" for j
  proof -
    have "phdr_at (os_mem s1) a psz j = phdr_at (os_mem s) a psz j"
      unfolding phdr_at_def
    proof (rule rd_phdr_cong)
      fix k :: nat assume "k < 56"
      then have "in_region (a + of_nat j * psz) 56 (a + of_nat j * psz + of_nat k)" by simp
      with Cons.prems(1) [of j] j keep show "os_mem s1 (a + of_nat j * psz + of_nat k) = os_mem s (a + of_nat j * psz + of_nat k)"
        by simp
    qed
    then show ?thesis using Cons.prems(5) [of j] j by simp
  qed
  have "\<exists>s'. load_segments pf rg fd a psz off js s1 = Some s' \<and> serves fs D cs sz fd s' \<and> same_kernel fd s1 s' \<and>
      (\<forall>x. \<not> scratch x \<longrightarrow> os_mem s' x = elf_image ?F off (map (phdr_at M a psz) js) (os_mem s1) x)"
    by (rule Cons.IH) (use Cons.prems s1(2) M1 in auto)
  then obtain s' where s': "load_segments pf rg fd a psz off js s1 = Some s'" "serves fs D cs sz fd s'" "same_kernel fd s1 s'"
      "\<And>x. \<not> scratch x \<Longrightarrow> os_mem s' x = elf_image ?F off (map (phdr_at M a psz) js) (os_mem s1) x" by blast
  have "os_mem s' x = elf_image ?F off (map (phdr_at M a psz) (i # js)) (os_mem s) x" if "\<not> scratch x" for x
  proof -
    have "elf_image ?F off (map (phdr_at M a psz) js) (os_mem s1) x = elf_image ?F off (map (phdr_at M a psz) js) (place_segment ?F off ?ph (os_mem s)) x"
      by (rule elf_image_cong) (rule s1(4) [OF that])
    then show ?thesis using s'(4) [OF that] by simp
  qed
  with s' s1(1) same_kernel_trans [OF s1(3) s'(3)] show ?case by auto
qed

section \<open>The table of program headers\<close>

text \<open>Pages that were free belong to nobody: not to the disk driver, not to the allocator, not to a local variable.\<close>

lemma fresh_page:
  assumes "loader_ready scratch mgr slot s" "\<not> is_used mgr (unat x div 4096) (os_mem s)"
  shows "\<not> scratch x" "\<not> in_bitmap mgr x" "\<not> in_region slot 8 x" "x \<noteq> 0"
  using assms by (auto simp: loader_ready_def ram_wf_def local_var_def)

text \<open>A delivery into fresh pages keeps what \<open>grown\<close> keeps.\<close>

lemma delivered_wf:
  assumes r: "loader_ready scratch mgr slot s" and wf: "ram_wf mgr (os_mem s1)"
    and del: "delivered a bs (os_machine s1) (os_machine s2)"
    and own: "\<And>x. in_region a (length bs) x \<Longrightarrow> \<not> is_used mgr (unat x div 4096) (os_mem s)"
  shows "ram_wf mgr (os_mem s2)" "is_used mgr k (os_mem s2) = is_used mgr k (os_mem s1)"
proof -
  have "os_mem s2 x = os_mem s1 x" if "in_bitmap mgr x" for x
  proof -
    have "\<not> scratch x" using r that by (auto simp: loader_ready_def)
    moreover have "\<not> in_region a (length bs) x" using own [of x] fresh_page(2) [OF r, of x] that by blast
    ultimately show ?thesis using del by (simp add: delivered_def)
  qed
  from ram.client_write [OF wf this] show "ram_wf mgr (os_mem s2)" "is_used mgr k (os_mem s2) = is_used mgr k (os_mem s1)"
    by auto
qed

lemma mmap_serves:
  assumes "mmap_local pf rg slot n s = Some (v, s')" "serves fs D cs sz fd s"
  shows "serves fs D cs sz fd s'" "without fd s' = without fd s"
proof -
  note t = mmap_local_FDS [OF assms(1)]
  obtain f where "os_machine s' = on_ram f (os_machine s)" using mmap_local_machine [OF assms(1)] by blast
  with t assms(2) show "serves fs D cs sz fd s'" "without fd s' = without fd s"
    by (simp_all add: serves_def ram_inv_iff ram_disk without_def)
qed

lemma read_headers_spec:
  assumes disk: "p_disk pf = io" and f: "file_at fs D cs sz" and s: "serves fs D cs sz fd s"
    and r: "loader_ready scratch mgr slot s" and fit: "headers_fit sz h"
    and run: "stretch mgr (os_mem s) q N" and N: "pages_for (headers_size h) \<le> N"
  defines "tps \<equiv> ucast (e_phnum h) * ucast (e_phentsize h) :: u64" and "n \<equiv> pages_for (headers_size h)"
  obtains p s1 s2 s3 where "mmap_local pf rg slot ((tps + 4095) div 4096) s = Some (page_addr p, s1)"
    "seek_to pf rg fd (e_phoff h) s1 = Some s2" "k_sys_read_file pf rg fd (page_addr p) tps s2 = Some (tps, s3)"
    "serves fs D cs sz fd s3" "same_kernel fd s s3" "RAM_MGR s3 = Some mgr" "ram_wf mgr (os_mem s3)" "p + n \<le> 2 ^ 52"
    "stretch mgr (os_mem s) p n" "\<And>k. is_used mgr k (os_mem s3) \<longleftrightarrow> is_used mgr k (os_mem s) \<or> in_run p n k"
    "stretch mgr (os_mem s3) (q + n) (N - n)"
    "rd_bytes (os_mem s3) (page_addr p) (headers_size h) = take (headers_size h) (drop (unat (e_phoff h)) (file_bytes fs D cs))"
    "\<And>x. is_used mgr (unat x div 4096) (os_mem s) \<Longrightarrow> \<not> in_bitmap mgr x \<Longrightarrow> \<not> in_region slot 8 x \<Longrightarrow> \<not> scratch x \<Longrightarrow> os_mem s3 x = os_mem s x"
proof -
  have mgr: "RAM_MGR s = Some mgr" and wf: "ram_wf mgr (os_mem s)" and off: "off_bitmap mgr slot"
    using r by (auto simp: loader_ready_def dest: local_var_off)
  note w = headers_size_word [of h, folded tps_def]
  have hs: "0 < headers_size h" using fit by (simp add: headers_fit_def headers_size_def)
  have n0: "0 < unat ((tps + 4095) div 4096)" "unat ((tps + 4095) div 4096) \<le> N"
    using hs N pages_for_le [of "headers_size h"] by (simp_all only: w)
  obtain p s1 where s1: "mmap_local pf rg slot ((tps + 4095) div 4096) s = Some (page_addr p, s1)" "grown mgr slot s s1"
      "p + n \<le> 2 ^ 52" "stretch mgr (os_mem s) p n" "stretch mgr (os_mem s1) (q + n) (N - n)"
      "\<And>k. is_used mgr k (os_mem s1) \<longleftrightarrow> is_used mgr k (os_mem s) \<or> in_run p n k"
    by (rule mmap_local_run [OF mgr wf off n0 run, of pf rg, unfolded w, folded n_def]) (rule that)
  note sv1 = mmap_serves [OF s1(1) s]
  obtain s2 where s2: "seek_to pf rg fd (e_phoff h) s1 = Some s2" "serves fs D cs sz fd s2" "same_kernel fd s1 s2"
      "os_machine s2 = os_machine s1" "\<And>d. get_fd fd (FDS s2) = Some d \<Longrightarrow> fd_position d = e_phoff h"
    by (rule seek_to_serves [OF sv1(1)]) (rule that)
  have own: "\<not> is_used mgr (unat x div 4096) (os_mem s)" if "in_region (page_addr p) (headers_size h) x" for x
    using region_in_run [OF that pages_for_le, folded n_def, OF s1(3)] s1(4) by (simp add: stretch_def)
  have "\<not> scratch (page_addr p + of_nat i)" if "i < headers_size h" for i
    using that headers_size_less [of h] by (intro fresh_page(1) [OF r] own) simp
  then have u: "user_buffer (page_addr p) (unat tps)" using headers_size_less [of h] by (simp add: user_buffer_def w)
  have p0: "page_addr p \<noteq> 0" by (intro fresh_page(4) [OF r] own) (simp add: hs)
  have tp: "unat (e_phoff h) + unat tps \<le> unat sz" "tps \<noteq> 0"
    using fit hs by (auto simp: headers_fit_def w headers_size_def [symmetric] simp flip: unat_gt_0)
  obtain s3 where s3: "k_sys_read_file pf rg fd (page_addr p) tps s2 = Some (tps, s3)" "serves fs D cs sz fd s3" "same_kernel fd s2 s3"
      "delivered (page_addr p) (file_slice (file_bytes fs D cs) (e_phoff h) tps) (os_machine s2) (os_machine s3)"
    by (rule read_serves [OF disk f s2(2) s2(5) tp p0 u], assumption, rule that)
  have sl: "file_slice (file_bytes fs D cs) (e_phoff h) tps = take (headers_size h) (drop (unat (e_phoff h)) (file_bytes fs D cs))"
    by (simp add: file_slice_def w)
  have len: "length (take (headers_size h) (drop (unat (e_phoff h)) (file_bytes fs D cs))) = headers_size h"
  proof -
    have "unat (e_phoff h) + headers_size h \<le> length (file_bytes fs D cs)" using f tp(1) by (simp add: file_at_def w)
    then show ?thesis by simp
  qed
  note del = s3(4) [unfolded sl s2(4)]
  have wf1: "ram_wf mgr (os_mem s1)" using s1(2) by (simp add: grown_def)
  note wf3 = delivered_wf [OF r wf1 del, unfolded len, OF own]
  have k: "same_kernel fd s1 s3" by (rule same_kernel_trans [OF s2(3) s3(3)])
  show thesis
  proof (rule that [OF s1(1) s2(1) s3(1,2)])
    show "same_kernel fd s s3" "RAM_MGR s3 = Some mgr"
      using k sv1(2) s1(2) mgr by (auto simp: same_kernel_def grown_def)
    show "stretch mgr (os_mem s3) (q + n) (N - n)" using s1(5) wf3(2) by (simp add: stretch_def)
    show "rd_bytes (os_mem s3) (page_addr p) (headers_size h) = take (headers_size h) (drop (unat (e_phoff h)) (file_bytes fs D cs))"
      using del by (simp only: delivered_def len)
    show "os_mem s3 x = os_mem s x" if "is_used mgr (unat x div 4096) (os_mem s)" "\<not> in_bitmap mgr x" "\<not> in_region slot 8 x" "\<not> scratch x" for x
    proof -
      have "os_mem s3 x = os_mem s1 x" using del own [of x] that by (auto simp only: delivered_def len)
      then show ?thesis using s1(2) that by (simp add: grown_def)
    qed
  qed (use s1 wf3 in auto)
qed

section \<open>The image\<close>

lemma load_body_spec:
  fixes fs D cs h lo hi base sz pf fd
  defines "F \<equiv> file_bytes fs D cs" and "phs \<equiv> file_headers (file_bytes fs D cs) h" and "img \<equiv> in_region base (unat (hi - lo))"
  assumes disk: "p_disk pf = io" and f: "file_at fs D cs sz" and s: "serves fs D cs sz fd s" and fit: "headers_fit sz h"
    and span: "fold span_step phs (0xFFFFFFFFFFFFFFFF, 0) = (lo, hi)" and segs: "segments_fit sz phs"
    and table: "rd_bytes (os_mem s) a (headers_size h) = take (headers_size h) (drop (unat (e_phoff h)) F)"
    and apart: "\<And>x. in_region a (headers_size h) x \<Longrightarrow> \<not> scratch x \<and> \<not> img x"
    and own: "\<And>x. img x \<Longrightarrow> \<not> scratch x \<and> x \<noteq> 0"
  shows "\<exists>s'. load_segments pf rg fd a (ucast (e_phentsize h)) (base - lo) [0..<unat (e_phnum h)] s = Some s'
    \<and> serves fs D cs sz fd s' \<and> same_kernel fd s s'
    \<and> (\<forall>x. \<not> scratch x \<longrightarrow> os_mem s' x = elf_image F (base - lo) phs (os_mem s) x)"
proof -
  let ?n = "unat (e_phnum h)" and ?z = "ucast (e_phentsize h) :: u64" and ?M = "os_mem s"
  have sz: "unat sz \<le> length F" using f by (simp add: file_at_def F_def)
  note th = table_headers [OF fit sz table]
  have hd: "phdr_at ?M a ?z i = phs ! i" if "i < ?n" for i using th(1) [OF that] by (simp add: phs_def F_def)
  have phs: "map (phdr_at ?M a ?z) [0..<?n] = phs"
    by (rule nth_equalityI) (simp_all add: hd, simp add: phs_def file_headers_def)
  have len: "length phs = ?n" by (simp add: phs_def file_headers_def)
  have seg: "p_type (phs ! i) = 1 \<Longrightarrow> in_region (p_vaddr (phs ! i) + (base - lo)) (unat (p_filesz (phs ! i))) x \<Longrightarrow> img x"
    if i: "i < ?n" for i x
  proof -
    assume t: "p_type (phs ! i) = 1" and x: "in_region (p_vaddr (phs ! i) + (base - lo)) (unat (p_filesz (phs ! i))) x"
    have m: "phs ! i \<in> set phs" using i len by simp
    have "lo \<le> p_vaddr (phs ! i)" "p_vaddr (phs ! i) + p_memsz (phs ! i) \<le> hi"
      using fold_span_mono [of "\<lambda>ph. ph" phs, OF span] m t by auto
    moreover have "p_filesz (phs ! i) \<le> p_memsz (phs ! i)" "unat (p_vaddr (phs ! i)) + unat (p_memsz (phs ! i)) < 2 ^ 64"
      using segs m t by (auto simp: segments_fit_def)
    ultimately show "img x" unfolding img_def using x by (rule segment_inside)
  qed
  have place: "placeable sz (base - lo) (phdr_at ?M a ?z i)" if i: "i < ?n" for i
  proof -
    have "\<not> scratch (p_vaddr (phs ! i) + (base - lo) + of_nat j)" if "p_type (phs ! i) = 1" "j < unat (p_filesz (phs ! i))" for j
    proof -
      have "j < 2 ^ 64" using order.strict_trans [OF that(2) unat_lt_u64] by simp
      then have "img (p_vaddr (phs ! i) + (base - lo) + of_nat j)" using that by (intro seg [OF i]) simp_all
      then show ?thesis using own by blast
    qed
    moreover have "p_vaddr (phs ! i) + (base - lo) \<noteq> 0" if "p_type (phs ! i) = 1" "p_filesz (phs ! i) \<noteq> 0"
      using that seg [OF i, of "p_vaddr (phs ! i) + (base - lo)"] own by (auto simp flip: unat_gt_0)
    moreover have "unat (p_offset (phs ! i)) + unat (p_filesz (phs ! i)) \<le> unat sz" if "p_type (phs ! i) = 1"
      using segs that i len by (simp add: segments_fit_def)
    ultimately show ?thesis by (simp add: placeable_def user_buffer_def hd [OF i])
  qed
  have tab: "\<not> scratch x \<and> \<not> img x" if "i \<in> set [0..<?n]" "in_region (a + of_nat i * ?z) 56 x" for i x
    using th(2) [of i x] that apart by simp
  have "\<exists>s'. load_segments pf rg fd a ?z (base - lo) [0..<?n] s = Some s' \<and> serves fs D cs sz fd s' \<and> same_kernel fd s s' \<and>
    (\<forall>x. \<not> scratch x \<longrightarrow> os_mem s' x = elf_image (file_bytes fs D cs) (base - lo) (map (phdr_at ?M a ?z) [0..<?n]) ?M x)"
    by (rule load_segments_spec [OF disk f, where img = img, OF tab]) (use seg place s in \<open>auto simp: hd\<close>)
  then show ?thesis by (simp only: phs F_def)
qed

lemma elf_image_other:
  assumes "\<And>ph. ph \<in> set phs \<Longrightarrow> p_type ph = 1 \<Longrightarrow> \<not> in_region (p_vaddr ph + off) (unat (p_filesz ph)) x"
  shows "elf_image F off phs mem x = mem x"
  using assms
proof (induction phs arbitrary: mem)
  case (Cons ph phs)
  have "place_segment F off ph mem x = mem x"
  proof (cases "p_type ph = 1")
    case True
    then have "\<not> in_region (p_vaddr ph + off) (unat (p_filesz ph)) x" using Cons.prems by simp
    then have "\<not> in_region (p_vaddr ph + off) (length (file_slice F (p_offset ph) (p_filesz ph))) x"
      by (rule contrapos_nn) (erule in_region_mono, simp add: file_slice_def)
    then show ?thesis by (simp add: place_segment_def wr_bytes_other)
  qed (simp add: place_segment_def)
  then show ?case using Cons by simp
qed simp

lemma elf_image_outside:
  assumes "fold span_step phs (0xFFFFFFFFFFFFFFFF, 0) = (lo, hi)" "segments_fit sz phs" "\<not> in_region base (unat (hi - lo)) x"
  shows "elf_image F (base - lo) phs mem x = mem x"
proof (rule elf_image_other)
  fix ph assume ph: "ph \<in> set phs" "p_type ph = 1"
  then have "lo \<le> p_vaddr ph" "p_vaddr ph + p_memsz ph \<le> hi" "p_filesz ph \<le> p_memsz ph" "unat (p_vaddr ph) + unat (p_memsz ph) < 2 ^ 64"
    using fold_span_mono [of "\<lambda>ph. ph" phs, OF assms(1)] assms(2) by (auto simp: segments_fit_def)
  from segment_inside [OF this] assms(3) show "\<not> in_region (p_vaddr ph + (base - lo)) (unat (p_filesz ph)) x" by blast
qed

lemma load_image_spec:
  fixes fs D cs h lo hi s
  defines "F \<equiv> file_bytes fs D cs" and "phs \<equiv> file_headers (file_bytes fs D cs) h"
  assumes disk: "p_disk pf = io" and f: "file_at fs D cs sz" and s: "serves fs D cs sz fd s" and fd: "3 \<le> unat fd" "unat fd < 256"
    and r: "loader_ready scratch mgr slot s" and fit: "headers_fit sz h"
    and span: "fold span_step phs (0xFFFFFFFFFFFFFFFF, 0) = (lo, hi)" and segs: "segments_fit sz phs" and ne: "lo < hi"
    and run: "stretch mgr (os_mem s) q (pages_for (headers_size h) + pages_for (unat (hi - lo)))"
  shows "\<exists>base s'. load_image pf rg slot fd h s = Some (Some (base, hi - lo, base - lo), s') \<and> FDS s' = without fd s
    \<and> inv (os_machine s') \<and> disk (os_machine s') = D
    \<and> (\<forall>x. in_region base (unat (hi - lo)) x \<longrightarrow> \<not> is_used mgr (unat x div 4096) (os_mem s) \<and> os_mem s' x = elf_image F (base - lo) phs (\<lambda>_. 0) x)
    \<and> (\<forall>x. is_used mgr (unat x div 4096) (os_mem s) \<longrightarrow> \<not> in_bitmap mgr x \<longrightarrow> \<not> in_region slot 8 x \<longrightarrow> \<not> scratch x \<longrightarrow> os_mem s' x = os_mem s x)"
proof -
  let ?n1 = "pages_for (headers_size h)" and ?n2 = "pages_for (unat (hi - lo))" and ?z = "ucast (e_phentsize h) :: u64"
  let ?tps = "ucast (e_phnum h) * ucast (e_phentsize h) :: u64"
  have ok: "ram_ok mgr" and p0: "is_used mgr 0 (os_mem s)" and var: "local_var mgr (os_mem s) slot"
    using r by (auto simp: loader_ready_def dest: ram_wf_ok)
  obtain p s1 s2 s3 where t: "mmap_local pf rg slot ((?tps + 4095) div 4096) s = Some (page_addr p, s1)"
      "seek_to pf rg fd (e_phoff h) s1 = Some s2" "k_sys_read_file pf rg fd (page_addr p) ?tps s2 = Some (?tps, s3)"
      "serves fs D cs sz fd s3" "same_kernel fd s s3" "RAM_MGR s3 = Some mgr" "ram_wf mgr (os_mem s3)" "p + ?n1 \<le> 2 ^ 52"
      "stretch mgr (os_mem s) p ?n1" "\<And>k. is_used mgr k (os_mem s3) \<longleftrightarrow> is_used mgr k (os_mem s) \<or> in_run p ?n1 k"
      "stretch mgr (os_mem s3) (q + ?n1) ?n2"
      "rd_bytes (os_mem s3) (page_addr p) (headers_size h) = take (headers_size h) (drop (unat (e_phoff h)) F)"
      "\<And>x. is_used mgr (unat x div 4096) (os_mem s) \<Longrightarrow> \<not> in_bitmap mgr x \<Longrightarrow> \<not> in_region slot 8 x \<Longrightarrow> \<not> scratch x \<Longrightarrow> os_mem s3 x = os_mem s x"
    using read_headers_spec [OF disk f s r fit run le_add1, of rg] unfolding F_def by (metis add_diff_cancel_left')
  have d0: "0 < unat (hi - lo)" using ne by (simp add: unat_gt_0)
  have n2: "0 < ?n2" using d0 pages_for_le [of "unat (hi - lo)"] by (cases ?n2) simp_all
  have "q \<noteq> 0"
  proof
    assume "q = 0"
    then have "in_run q (?n1 + ?n2) 0" using n2 by (simp add: in_run_def)
    then show False using run p0 by (simp add: stretch_def)
  qed
  moreover have "q + (?n1 + ?n2) \<le> 2 ^ 52" by (rule stretch_bound [OF ok run]) (use n2 in simp)
  moreover have "0 < headers_size h" using fit by (simp add: headers_fit_def headers_size_def)
  then have "0 < ?n1" using pages_for_le [of "headers_size h"] by (cases ?n1) simp_all
  ultimately have "?n2 + 2 \<le> 2 ^ 52" by linarith
  note w2 = total_pages_word [OF this]
  have off: "off_bitmap mgr slot" using var by (rule local_var_off)
  have sz: "unat sz \<le> length F" using f by (simp add: file_at_def F_def)
  have n2w: "0 < unat ((hi - lo + 4095) div 4096)" "unat ((hi - lo + 4095) div 4096) \<le> ?n2" using n2 by (simp_all only: w2)
  obtain b s4 where m: "mmap_local pf rg slot ((hi - lo + 4095) div 4096) s3 = Some (page_addr b, s4)" "grown mgr slot s3 s4"
      "b + ?n2 \<le> 2 ^ 52" "stretch mgr (os_mem s3) b ?n2"
    by (rule mmap_local_run [OF t(6,7) off n2w t(11), of pf rg, unfolded w2]) (rule that)
  let ?base = "page_addr b" and ?T = "unat (hi - lo)" and ?off = "page_addr b - lo"
  define s5 where "s5 = on_mem (fill_bytes ?base ?T 0) s4"
  have img: "\<not> is_used mgr (unat x div 4096) (os_mem s3)" "\<not> is_used mgr (unat x div 4096) (os_mem s)" if "in_region ?base ?T x" for x
    using region_in_run [OF that pages_for_le m(3)] m(4) t(10) by (auto simp: stretch_def)
  have table: "is_used mgr (unat x div 4096) (os_mem s3)" "\<not> is_used mgr (unat x div 4096) (os_mem s)"
    if "in_region (page_addr p) (headers_size h) x" for x
    using region_in_run [OF that pages_for_le t(8)] t(9,10) by (auto simp: stretch_def)
  have sv5: "serves fs D cs sz fd s5"
    using mmap_serves(1) [OF m(1) t(4)] by (simp add: serves_def s5_def ram_inv_iff ram_disk)
  have keep5: "os_mem s5 x = os_mem s3 x"
    if "is_used mgr (unat x div 4096) (os_mem s3)" "\<not> in_bitmap mgr x" "\<not> in_region slot 8 x" for x
  proof -
    have "\<not> in_region ?base ?T x" using that(1) img(1) [of x] by blast
    then show ?thesis using that m(2) by (simp add: s5_def fill_bytes_other grown_def)
  qed
  have tab5: "rd_bytes (os_mem s5) (page_addr p) (headers_size h) = take (headers_size h) (drop (unat (e_phoff h)) F)"
    unfolding t(12) [symmetric]
  proof (rule rd_bytes_same)
    fix i assume "i < headers_size h"
    then have "in_region (page_addr p) (headers_size h) (page_addr p + of_nat i)" using headers_size_less [of h] by simp
    note tb = table [OF this]
    show "os_mem s5 (page_addr p + of_nat i) = os_mem s3 (page_addr p + of_nat i)"
      by (rule keep5 [OF tb(1) fresh_page(2,3) [OF r tb(2)]])
  qed
  have apart: "\<not> scratch x \<and> \<not> in_region ?base ?T x" if "in_region (page_addr p) (headers_size h) x" for x
    using table [OF that] img(1) [of x] fresh_page(1) [OF r] by blast
  have own: "\<not> scratch x \<and> x \<noteq> 0" if "in_region ?base ?T x" for x
    using fresh_page(1,4) [OF r img(2) [OF that]] by blast
  obtain s6 where s6: "load_segments pf rg fd (page_addr p) ?z ?off [0..<unat (e_phnum h)] s5 = Some s6" "serves fs D cs sz fd s6"
      "same_kernel fd s5 s6" "\<And>x. \<not> scratch x \<Longrightarrow> os_mem s6 x = elf_image F ?off phs (os_mem s5) x"
    using load_body_spec [OF disk f sv5 fit span [unfolded phs_def] segs [unfolded phs_def] tab5 [unfolded F_def] apart own, of rg]
    by (auto simp: F_def phs_def)
  obtain s7 where s7: "close_file pf rg fd s6 = Some s7" "FDS s7 = without fd s6" "os_machine s7 = os_machine s6"
    using close_file_ok [OF fd, of pf rg s6] by blast
  have sp: "span (os_mem s3) (page_addr p) ?z (unat (e_phnum h)) = (lo, hi)"
    unfolding span_fold table_map [OF fit sz t(12)] using span by (simp only: phs_def F_def)
  have "hi \<le> 0xFFFFFFFFFFFFFFFF" using unat_lt_u64 [of hi] unfolding word_le_nat_alt by (simp del: unat_lt_u64)
  then have "lo \<noteq> 0xFFFFFFFFFFFFFFFF" using ne by auto
  then have "load_image pf rg slot fd h s = Some (Some (?base, hi - lo, ?off), s7)"
    using t(1-3) sp m(1) s6(1) s7(1) by (simp add: load_image_def Let_def s5_def)
  moreover have "FDS s7 = without fd s"
    using s7(2) s6(3) mmap_serves(2) [OF m(1) t(4)] t(5) without_cong [of s5 s4 fd] by (simp add: same_kernel_def s5_def)
  moreover have "inv (os_machine s7)" "disk (os_machine s7) = D" using s6(2) s7(3) by (simp_all add: serves_def)
  moreover have "os_mem s7 x = elf_image F ?off phs (\<lambda>_. 0) x" if x: "in_region ?base ?T x" for x
  proof -
    have "elf_image F ?off phs (os_mem s5) x = elf_image F ?off phs (\<lambda>_. 0) x"
      by (rule elf_image_cong) (simp add: s5_def fill_bytes_def x)
    then show ?thesis using s6(4) own [OF x] s7(3) by simp
  qed
  moreover have "os_mem s7 x = os_mem s x"
    if x: "is_used mgr (unat x div 4096) (os_mem s)" "\<not> in_bitmap mgr x" "\<not> in_region slot 8 x" "\<not> scratch x" for x
  proof -
    have "\<not> in_region ?base ?T x" using img(2) [of x] x(1) by blast
    from elf_image_outside [OF span segs this] have "os_mem s7 x = os_mem s5 x" using s6(4) [OF x(4)] s7(3) by simp
    also have "\<dots> = os_mem s3 x" by (rule keep5) (use x t(10) in auto)
    also have "\<dots> = os_mem s x" by (rule t(13)) (use x in auto)
    finally show ?thesis .
  qed
  ultimately show ?thesis using img(2) by blast
qed

end

section \<open>On the AHCI driver\<close>

text \<open>C12. Loading an ELF file. With an open file that holds the program headers and the segments (each with a file part not
  longer than its memory part), at least one byte to load, enough free pages in a row, and a disk driver whose memory
  the page allocator does not hand out: \<open>load_image\<close> returns a block of the size of the segments' span in pages that
  were free, the difference between its address and the lowest segment address, and closes the file. The block
  holds the bytes the segments have in the file, each at its distance from the lowest address, over zeros. The disk
  is as it was, and so is all memory that was in use, but for the page bitmap, the local variable and the driver's own.\<close>

theorem load_image_loads:
  assumes ahci: "ahci_contract bus g idle sectors cap dma" "idle (dev (os_machine s))" "p_disk pf = ahci_io bus g"
    and D: "D = sectors (dev (os_machine s))" and F: "F = file_bytes fs D cs" and phs: "phs = file_headers F h"
    and vol: "volume_at (\<lambda>l. l < cap) D fs"
    and d: "get_fd fd (FDS s) = Some d" "\<not> fd_is_dir d" "length (FDS s) = 256" "3 \<le> unat fd"
    and chain: "file_chain fs D (fd_cluster d) cs" "chain_valid (\<lambda>l. l < cap) fs cs" "unat (fd_size d) \<le> length F"
    and mgr: "loader_ready (ahci_scratch g dma) mgr slot s"
    and fit: "headers_fit (fd_size d) h" "segments_fit (fd_size d) phs"
    and span: "fold span_step phs (0xFFFFFFFFFFFFFFFF, 0) = (lo, hi)" "lo < hi"
    and free: "stretch mgr (os_mem s) q (pages_for (headers_size h) + pages_for (unat (hi - lo)))"
  shows "\<exists>base s'. load_image pf rg slot fd h s = Some (Some (base, hi - lo, base - lo), s') \<and> FDS s' = (FDS s)[unat fd := None]
    \<and> sectors (dev (os_machine s')) = D \<and> idle (dev (os_machine s'))
    \<and> (\<forall>x. in_region base (unat (hi - lo)) x \<longrightarrow>
         \<not> is_used mgr (unat x div 4096) (os_mem s) \<and> os_mem s' x = elf_image F (base - lo) phs (\<lambda>_. 0) x)
    \<and> (\<forall>x. is_used mgr (unat x div 4096) (os_mem s) \<longrightarrow> \<not> in_bitmap mgr x \<longrightarrow> \<not> in_region slot 8 x \<longrightarrow>
         \<not> ahci_scratch g dma x \<longrightarrow> os_mem s' x = os_mem s x)"
proof -
  have inv: "ahci_contract bus g idle sectors cap dma \<and> idle (dev (os_machine s))" using ahci by blast
  have fd: "unat fd < 256" using d(1) by (simp add: get_fd_def split: if_splits)
  have f: "ahci.file_at cap fs D cs (fd_size d)" unfolding ahci.file_at_def using vol chain(2,3) F by simp
  have sv: "ahci.serves sectors bus g idle cap dma fs D cs (fd_size d) fd s"
    unfolding ahci.serves_def fd_ok_def using inv D d chain(1) by blast
  show ?thesis
    using ahci.load_image_spec [OF ahci(3) f sv d(4) fd mgr fit(1) span(1) [unfolded phs F] fit(2) [unfolded phs F] span(2) free, of rg]
    unfolding phs F without_def by blast
qed

text \<open>
  A file of 59 bytes: one program header (a segment of 3 bytes at offset 56, 5 in memory, for the address 0x400000) and the
  bytes \<open>HIJ\<close>. Pages 0, 1 (the bitmap) and 9 (the local variable) are in use.
\<close>

definition elf_disk :: "u64 \<Rightarrow> u8 list" where
  "elf_disk = sample_disk(4 := sample_sector [(0, 1), (8, 56), (18, 0x40), (32, 3), (40, 5), (56, 0x48), (57, 0x49), (58, 0x4A)])"

definition elf_mem :: memory where
  "elf_mem = (\<lambda>_. 0)(0x1000 := 3, 0x1001 := 2)"

definition elf_open :: file_descriptor where
  "elf_open = \<lparr>fd_cluster = 3, fd_position = 0, fd_is_dir = False, fd_size = 59\<rparr>"

definition elf_os :: "sim os" where
  "elf_os =
     \<lparr>world = \<lparr>WOKEN = False, KEYS = initial_ring, IS_SHIFT = False, KEYBOARD_WAKER = False, EOI_CALLBACK = False,
        APIC_BASE = 0, GLOBAL_TIMER = None, CTABLE = initial_containers,
        hw = \<lparr>ram = elf_mem, dev = \<lparr>sim_sectors = elf_disk, sim_pending = False\<rparr>\<rparr>\<rparr>,
      FDS = FD_TABLE_0[3 := Some elf_open], SCREEN = initial_screen, RAM_MGR = Some sample_ram, SYSCALL_RET = 0\<rparr>"

definition elf_platform :: "sim platform" where
  "elf_platform = \<lparr>p_disk = ahci_io sim_hw sim_globals, p_bus = sim_hw, p_font = [], p_path_buf = 0x8000, iret = (\<lambda>r r'. r)\<rparr>"

definition elf_hdr :: elf64_header where
  "elf_hdr = \<lparr>e_ident = elf_magic, e_type = 2, e_machine = 62, e_version = 1, e_entry = 0x400000, e_phoff = 0, e_shoff = 0,
     e_flags = 0, e_ehsize = 64, e_phentsize = 56, e_phnum = 1, e_shentsize = 0, e_shnum = 0, e_shstrndx = 0\<rparr>"

definition elf_seg :: elf64_phdr where
  "elf_seg = \<lparr>p_type = 1, p_flags = 0, p_offset = 56, p_vaddr = 0x400000, p_paddr = 0, p_filesz = 3, p_memsz = 5, p_align = 0\<rparr>"

lemma elf_os_simps [simp]: "os_mem elf_os = elf_mem" "sim_sectors (dev (os_machine elf_os)) = elf_disk" "RAM_MGR elf_os = Some sample_ram"
    "FDS elf_os = FD_TABLE_0[3 := Some elf_open]" "p_disk elf_platform = ahci_io sim_hw sim_globals" "sim_idle (dev (os_machine elf_os))"
  by (simp_all add: elf_os_def elf_platform_def sim_idle_def elf_disk_def)

lemma elf_disk_other: "l \<noteq> 4 \<Longrightarrow> elf_disk l = sample_disk l"
  by (simp add: elf_disk_def)

lemma elf_volume: "volume_at (\<lambda>l. l < 2 ^ 48) elf_disk sample_fs"
  using sample_volume by (simp add: volume_at_def elf_disk_other sample_mbr)

lemma elf_chain: "file_chain sample_fs elf_disk 3 [3]" "file_bytes sample_fs elf_disk [3] = elf_disk 4"
proof -
  have "fat_value sample_fs elf_disk 3 = fat_value sample_fs sample_disk 3"
    by (simp add: fat_value_def elf_disk_other fat_sector_def get_fat_lba_def sample_fs_def Let_def)
  then show "file_chain sample_fs elf_disk 3 [3]"
    using sample_fat by (auto simp: file_chain_def chain_Cons_iff chain_Nil_iff live_cluster_def)
  show "file_bytes sample_fs elf_disk [3] = elf_disk 4"
    by (simp add: file_bytes_def cluster_bytes_def sample_lbas)
qed

lemma elf_headers: "file_headers (elf_disk 4) elf_hdr = [elf_seg]"
proof -
  have "phdr_at (file_memory (elf_disk 4)) 0 56 0 = elf_seg"
    by (simp add: phdr_at_def rd_phdr_def elf_seg_def rd64_def rd32_def rd16_def file_memory_def elf_disk_def)
  then show ?thesis by (simp add: file_headers_def elf_hdr_def)
qed

lemma elf_ready: "loader_ready (ahci_scratch sim_globals (\<lambda>x. False)) sample_ram 0x9000 elf_os"
proof -
  have used: "is_used sample_ram 0 elf_mem" "is_used sample_ram 1 elf_mem" "is_used sample_ram 9 elf_mem" by code_simp+
  have "unat x div 4096 = 1" if "in_bitmap sample_ram x" for x
    using that by (auto simp: in_bitmap_def bitmap_bytes_def sample_ram_def in_region_iff_bounds div_nat_eqI)
  then have "ram_wf sample_ram elf_mem" using used by (auto simp: ram_wf_def ram_ok_def sample_ram_def)
  moreover have "unat x div 4096 = 9 \<and> \<not> in_bitmap sample_ram x" if "in_region 0x9000 8 x" for x
    using that by (auto simp: in_bitmap_def bitmap_bytes_def sample_ram_def in_region_iff_bounds div_nat_eqI)
  then have "local_var sample_ram elf_mem 0x9000" using used by (auto simp: local_var_def)
  moreover have "is_used sample_ram (unat x div 4096) elf_mem \<and> \<not> in_bitmap sample_ram x"
    if "ahci_scratch sim_globals (\<lambda>x. False) x" for x
  proof -
    have "0x4000000 \<le> unat x" using that by (auto simp: ahci_scratch_def sim_globals_def in_region_iff_bounds)
    then have "64 \<le> unat x div 4096" "\<not> in_bitmap sample_ram x"
      by (auto simp: less_eq_div_iff_mult_less_eq in_bitmap_def bitmap_bytes_def sample_ram_def in_region_iff_bounds)
    then show ?thesis by (simp add: sample_ram_def)
  qed
  ultimately show ?thesis using used by (simp add: loader_ready_def)
qed

lemma elf_free: "stretch sample_ram elf_mem 10 2"
proof -
  have "list_all (\<lambda>k. \<not> is_used sample_ram k elf_mem) [10..<12]" by code_simp
  then show ?thesis by (simp add: list_all_iff stretch_def in_run_def)
qed

theorem load_image_loads_witness:
  "\<exists>base s'. load_image elf_platform zero_regs 0x9000 3 elf_hdr elf_os = Some (Some (base, 5, base - 0x400000), s')
    \<and> rd_bytes (os_mem s') base 5 = [0x48, 0x49, 0x4A, 0, 0]"
proof -
  have h: "get_fd 3 (FDS elf_os) = Some elf_open" "\<not> fd_is_dir elf_open" "length (FDS elf_os) = 256" "3 \<le> unat (3 :: u32)"
    "file_chain sample_fs elf_disk (fd_cluster elf_open) [3]" "chain_valid (\<lambda>l. l < 2 ^ 48) sample_fs [3]"
    "unat (fd_size elf_open) \<le> length (elf_disk 4)" "headers_fit (fd_size elf_open) elf_hdr" "segments_fit (fd_size elf_open) [elf_seg]"
    "fold span_step [elf_seg] (0xFFFFFFFFFFFFFFFF, 0) = (0x400000, 0x400005)" "(0x400000 :: u64) < 0x400005"
    using elf_chain sample_chain_valid [of 3]
    by (simp_all add: get_fd_def FD_TABLE_0_def elf_open_def elf_disk_def headers_fit_def elf_hdr_def segments_fit_def elf_seg_def span_step_def)
  have free: "stretch sample_ram (os_mem elf_os) 10 (pages_for (headers_size elf_hdr) + pages_for (unat (0x400005 - 0x400000 :: u64)))"
  proof -
    have "pages_for (headers_size elf_hdr) + pages_for (unat (0x400005 - 0x400000 :: u64)) = 2"
      by (simp add: pages_for_def headers_size_def elf_hdr_def)
    with elf_free show ?thesis by simp
  qed
  have phs: "[elf_seg] = file_headers (elf_disk 4) elf_hdr" by (rule elf_headers [symmetric])
  note loads = load_image_loads [OF sim_ahci_contract elf_os_simps(6) elf_os_simps(5) elf_os_simps(2) [symmetric] elf_chain(2) [symmetric] phs
      elf_volume h(1-7) elf_ready h(8-11) free, of zero_regs]
  from loads obtain base s' where s': "load_image elf_platform zero_regs 0x9000 3 elf_hdr elf_os = Some (Some (base, 5, base - 0x400000), s')"
      "\<And>x. in_region base 5 x \<Longrightarrow> os_mem s' x = elf_image (elf_disk 4) (base - 0x400000) [elf_seg] (\<lambda>_. 0) x"
    by auto
  have sl: "file_slice (elf_disk 4) 56 3 = [0x48, 0x49, 0x4A]"
    unfolding file_slice_def elf_disk_def by (subst fun_upd_same, subst slice_sample_sector) (simp_all add: upt_rec)
  have "os_mem s' (base + of_nat i) = ([0x48, 0x49, 0x4A, 0, 0] :: u8 list) ! i" if i: "i < 5" for i
  proof -
    have "os_mem s' (base + of_nat i) = wr_bytes base [0x48, 0x49, 0x4A] (\<lambda>_. 0) (base + of_nat i)"
      using s'(2) [of "base + of_nat i"] i sl by (simp add: elf_image_def place_segment_def elf_seg_def)
    also have "\<dots> = ([0x48, 0x49, 0x4A, 0, 0] :: u8 list) ! i"
    proof -
      have "i = 0 \<or> i = 1 \<or> i = 2 \<or> i = 3 \<or> i = 4" using i by linarith
      then show ?thesis by (elim disjE; simp add: wr_bytes_def in_region_def)
    qed
    finally show ?thesis .
  qed
  then have "rd_bytes (os_mem s') base 5 = [0x48, 0x49, 0x4A, 0, 0]" by (intro nth_equalityI) simp_all
  with s'(1) show ?thesis by blast
qed

end
