(* ===== verification/Executor.thy ===== *)
theory Executor imports Kernel_World begin

text \<open>
  The executor, \<open>kernel/src/executor.rs\<close>, and the interface of a future. A future is a state with a
  poll function on that state and the shared kernel state; a poll may also panic. \<open>block_on\<close> may run
  for ever, hence \<open>partial_function (option)\<close>. Interrupts that arrive while it runs are the argument \<open>irq\<close>, applied once per
  turn of the loop; \<open>pause\<close> lets the hardware run on.

  The interface (\<open>future\<close>) is the argument why \<open>await\<close> returns: each pending poll brings the future nearer to
  being ready (\<open>rank\<close>), and neither the executor's own writes nor the interrupts take it further away.
  \<open>idle\<close> holds between polls, \<open>armed\<close> when a poll begins.
\<close>

datatype 'a poll_result = Ready 'a | Pending | Panicked

type_synonym ('f, 'd, 'a) poll_fun = "'f \<Rightarrow> 'd kworld \<Rightarrow> 'a poll_result \<times> 'f \<times> 'd kworld"

definition pause :: "'d bus \<Rightarrow> 'd kworld \<Rightarrow> 'd kworld" where
  "pause bus w = on_hw (spin bus 1) w"

partial_function (option) block_on ::
    "('d kworld \<Rightarrow> 'd kworld) \<Rightarrow> 'd bus \<Rightarrow> ('f, 'd, 'a) poll_fun \<Rightarrow> 'f \<Rightarrow> 'd kworld \<Rightarrow> ('a \<times> 'd kworld) option" where
  "block_on irq bus pol f w =
     (case pol f (irq w) of
        (Panicked, f, w) \<Rightarrow> None
      | (Ready x, f, w) \<Rightarrow> Some (x, w)
      | (Pending, f, w) \<Rightarrow>
          (case pol f (w\<lparr>WOKEN := False\<rparr>) of
             (Panicked, f, w) \<Rightarrow> None
           | (Ready x, f, w) \<Rightarrow> Some (x, w)
           | (Pending, f, w) \<Rightarrow> block_on irq bus pol f (if \<not> WOKEN w then pause bus w else w)))"

locale future =
  fixes irq :: "'d kworld \<Rightarrow> 'd kworld"
    and bus :: "'d bus"
    and pol :: "('f, 'd, 'a) poll_fun"
    and idle :: "'f \<Rightarrow> 'd kworld \<Rightarrow> bool"
    and armed :: "'f \<Rightarrow> 'd kworld \<Rightarrow> bool"
    and rank :: "'f \<Rightarrow> 'd kworld \<Rightarrow> nat"
    and post :: "'f \<Rightarrow> 'd kworld \<Rightarrow> 'a \<Rightarrow> 'd kworld \<Rightarrow> bool"
  assumes no_panic: "armed f w \<Longrightarrow> fst (pol f w) \<noteq> Panicked"
    and ready: "armed f w \<Longrightarrow> pol f w = (Ready x, f', w') \<Longrightarrow> post f w x w'"
    and pending: "armed f w \<Longrightarrow> pol f w = (Pending, f', w') \<Longrightarrow> idle f' w' \<and> rank f' w' < rank f w"
    and pending_post: "armed f w \<Longrightarrow> pol f w = (Pending, f', w') \<Longrightarrow> post f' w' x w'' \<Longrightarrow> post f w x w''"
    and quiet: "idle f w \<Longrightarrow> v \<in> {irq w, w\<lparr>WOKEN := False\<rparr>, irq (pause bus w)} \<Longrightarrow>
          armed f v \<and> rank f v \<le> rank f w \<and> (post f v x w'' \<longrightarrow> post f w x w'')"
begin

lemma turn_cases:
  assumes "armed f w"
  obtains x f' w' where "pol f w = (Ready x, f', w')" "post f w x w'"
  | f' w' where "pol f w = (Pending, f', w')" "idle f' w'" "rank f' w' < rank f w"
      "\<And>x w''. post f' w' x w'' \<Longrightarrow> post f w x w''"
proof (cases "pol f w")
  case (fields r f' w')
  with assms no_panic [OF assms] ready [OF assms] pending [OF assms] pending_post [OF assms] that
  show thesis by (cases r) auto
qed

text \<open>Awaiting returns, with a result that meets the contract.\<close>

lemma block_on_armed:
  assumes "armed f (irq w)"
  shows "\<exists>x w'. block_on irq bus pol f w = Some (x, w') \<and> post f (irq w) x w'"
  using assms
proof (induction "rank f (irq w)" arbitrary: f w rule: less_induct)
  case less
  from less.prems show ?case
  proof (cases rule: turn_cases)
    case (1 x f1 w1)
    then show ?thesis by (subst block_on.simps) simp
  next
    case p1: (2 f1 w1)
    let ?w = "w1\<lparr>WOKEN := False\<rparr>"
    have q1: "armed f1 ?w \<and> rank f1 ?w \<le> rank f1 w1 \<and> (post f1 ?w x w'' \<longrightarrow> post f1 w1 x w'')" for x w''
      using quiet [OF p1(2), of ?w] by blast
    have "armed f1 ?w" using q1 by blast
    then show ?thesis
    proof (cases rule: turn_cases)
      case (1 x f2 w2)
      have "post f (irq w) x w2" using p1(4) q1 1(2) by blast
      moreover have "block_on irq bus pol f w = Some (x, w2)" using p1(1) 1(1) by (subst block_on.simps) simp
      ultimately show ?thesis by blast
    next
      case p2: (2 f2 w2)
      let ?v = "if \<not> WOKEN w2 then pause bus w2 else w2"
      have v: "armed f2 (irq ?v) \<and> rank f2 (irq ?v) \<le> rank f2 w2 \<and> (post f2 (irq ?v) x w'' \<longrightarrow> post f2 w2 x w'')" for x w''
        using quiet [OF p2(2), of "irq ?v"] by auto
      have "rank f2 (irq ?v) \<le> rank f2 w2" "rank f1 ?w \<le> rank f1 w1" "armed f2 (irq ?v)" using v q1 by blast+
      with p1(3) p2(3) have "rank f2 (irq ?v) < rank f (irq w)" by linarith
      from less.hyps [OF this \<open>armed f2 (irq ?v)\<close>] obtain x w' where
        r: "block_on irq bus pol f2 ?v = Some (x, w')" "post f2 (irq ?v) x w'" by blast
      have "post f (irq w) x w'" using p1(4) q1 p2(4) v r(2) by blast
      with r(1) p1(1) p2(1) show ?thesis by (subst block_on.simps) simp
    qed
  qed
qed

theorem block_on_returns:
  assumes "idle f w"
  shows "\<exists>x w'. block_on irq bus pol f w = Some (x, w') \<and> post f w x w'"
  using block_on_armed [of f w] quiet [OF assms, of "irq w"] by blast

end

text \<open>A future that is never ready is never done, whatever the executor and the interrupts do.\<close>

lemma block_on_diverges:
  assumes never: "\<And>f w. fst (pol f w) = Pending"
  shows "block_on irq bus pol f w = None"
proof (rule ccontr)
  assume "block_on irq bus pol f w \<noteq> None"
  then obtain y where y: "block_on irq bus pol f w = Some y" by auto
  have "(\<forall>f w. fst (pol f w) = Pending) \<longrightarrow> False"
  proof (rule block_on.raw_induct [OF _ y, where P = "\<lambda>irq bus pol f w y. (\<forall>f w. fst (pol f w) = Pending) \<longrightarrow> False"])
    fix bo :: "('b kworld \<Rightarrow> 'b kworld) \<Rightarrow> 'b bus \<Rightarrow> ('a, 'b, 'c) poll_fun \<Rightarrow> 'a \<Rightarrow> 'b kworld \<Rightarrow> ('c \<times> 'b kworld) option"
      and irq bus pol f w y
    assume IH: "\<And>irq bus pol f w y. bo irq bus pol f w = Some y \<Longrightarrow> (\<forall>f w. fst (pol f w) = Pending) \<longrightarrow> False"
      and run: "(case pol f (irq w) of
        (Panicked, f, w) \<Rightarrow> None
      | (Ready x, f, w) \<Rightarrow> Some (x, w)
      | (Pending, f, w) \<Rightarrow>
          (case pol f (w\<lparr>WOKEN := False\<rparr>) of
             (Panicked, f, w) \<Rightarrow> None
           | (Ready x, f, w) \<Rightarrow> Some (x, w)
           | (Pending, f, w) \<Rightarrow> bo irq bus pol f (if \<not> WOKEN w then pause bus w else w))) = Some y"
    show "(\<forall>f w. fst (pol f w) = Pending) \<longrightarrow> False"
    proof
      assume n: "\<forall>f w. fst (pol f w) = Pending"
      obtain f1 w1 where p1: "pol f (irq w) = (Pending, f1, w1)" using n by (metis prod.collapse)
      obtain f2 w2 where p2: "pol f1 (w1\<lparr>WOKEN := False\<rparr>) = (Pending, f2, w2)" using n by (metis prod.collapse)
      from run p1 p2 have "bo irq bus pol f2 (if \<not> WOKEN w2 then pause bus w2 else w2) = Some y" by simp
      from IH [OF this] n show False by blast
    qed
  qed
  with never show False by blast
qed

end
