(* ===== verification/Futures.thy ===== *)
theory Futures imports Executor begin

text \<open>
  The futures of the kernel (\<open>kernel/src/boot/async_utils.rs\<close>, \<open>main.rs\<close>, \<open>boot/container.rs\<close>) and, for each
  one that is ever ready, an interpretation of the \<open>future\<close> interface: awaiting it returns. The keyboard
  future's contract rests on the ring's laws, the sleep future's on a running time stamp counter, and a
  container's future inherits the contract of the future it wraps.
\<close>

section \<open>The poll functions\<close>

definition poll_yield :: "(unit, 'd, unit) poll_fun" where
  "poll_yield f w = (Pending, f, wake w)"

definition poll_key :: "'d bus \<Rightarrow> (unit, 'd, u8) poll_fun" where
  "poll_key bus f w =
     (let w = wake w in
      case pop_key w of
        (Some sc, w) \<Rightarrow> (Ready sc, f, w)
      | (None, w) \<Rightarrow>
          (case poll_keyboard bus w of
             (Some sc, w) \<Rightarrow> (Ready sc, f, w)
           | (None, w) \<Rightarrow> (Pending, f, w)))"

text \<open>The shell's keyboard future also tracks the shift key.\<close>

definition track_shift :: "u8 \<Rightarrow> 'd kworld \<Rightarrow> 'd kworld" where
  "track_shift sc w =
     (let w = (if sc = 0x2A \<or> sc = 0x36 then w\<lparr>IS_SHIFT := True\<rparr> else w)
      in if sc = 0xAA \<or> sc = 0xB6 then w\<lparr>IS_SHIFT := False\<rparr> else w)"

definition poll_shell_key :: "'d bus \<Rightarrow> (unit, 'd, u8) poll_fun" where
  "poll_shell_key bus f w =
     (let w = register_keyboard_waker w in
      case pop_key w of
        (Some sc, w) \<Rightarrow> (Ready sc, f, track_shift sc w)
      | (None, w) \<Rightarrow>
          (case poll_keyboard bus w of
             (Some sc, w) \<Rightarrow> (Ready sc, f, track_shift sc w)
           | (None, w) \<Rightarrow> (Pending, f, w)))"

record delay_future =
  remaining :: u64

definition delay_new :: "u64 \<Rightarrow> delay_future" where
  "delay_new ticks = \<lparr>remaining = ticks\<rparr>"

definition poll_delay :: "(delay_future, 'd, unit) poll_fun" where
  "poll_delay f w =
     (if remaining f = 0 then (Ready (), f, w)
      else (Pending, f\<lparr>remaining := remaining f - 1\<rparr>, wake w))"

record sleep_future =
  target_tsc :: u64

definition sleep_for :: "'d bus \<Rightarrow> (u64 \<Rightarrow> u64) \<Rightarrow> 'd kworld \<Rightarrow> (sleep_future \<times> 'd kworld) option" where
  "sleep_for bus ticks_of w =
     (case GLOBAL_TIMER w of None \<Rightarrow> None
      | Some t \<Rightarrow>
          (case now bus t (hw w) of (n, m) \<Rightarrow>
             let ticks = ticks_of (frequency t) in Some (\<lparr>target_tsc = n + ticks\<rparr>, w\<lparr>hw := m\<rparr>)))"

definition sleep_ms :: "'d bus \<Rightarrow> u64 \<Rightarrow> 'd kworld \<Rightarrow> (sleep_future \<times> 'd kworld) option" where
  "sleep_ms bus ms w = sleep_for bus (\<lambda>freq. (freq * ms) div 1000) w"

definition sleep_us :: "'d bus \<Rightarrow> u64 \<Rightarrow> 'd kworld \<Rightarrow> (sleep_future \<times> 'd kworld) option" where
  "sleep_us bus us w = sleep_for bus (\<lambda>freq. (freq * us) div 1000000) w"

definition poll_sleep :: "'d bus \<Rightarrow> (sleep_future, 'd, unit) poll_fun" where
  "poll_sleep bus f w =
     (case GLOBAL_TIMER w of None \<Rightarrow> (Panicked, f, w)
      | Some t \<Rightarrow>
          (case now bus t (hw w) of (n, m) \<Rightarrow>
             let w = w\<lparr>hw := m\<rparr>
             in if n \<ge> target_tsc f then (Ready (), f, w) else (Pending, f, wake w)))"

definition poll_nop :: "(unit, 'd, unit) poll_fun" where
  "poll_nop f w = (Ready (), f, w)"

definition poll_container :: "('f, 'd, unit) poll_fun \<Rightarrow> ('f \<times> u32, 'd, unit) poll_fun" where
  "poll_container pol f w =
     (if get_container_state (snd f) (CTABLE w) = Some Stopped then (Ready (), f, w)
      else case pol (fst f) w of (r, f', w) \<Rightarrow> (r, (f', snd f), w))"

definition run_in_container :: "u32 \<Rightarrow> 'f \<Rightarrow> 'f \<times> u32" where
  "run_in_container container_id f = (f, container_id)"

section \<open>The interfaces\<close>

text \<open>A countdown: its rank is the number of polls left.\<close>

interpretation delay: future irq bus poll_delay "\<lambda>f w. True" "\<lambda>f w. True" "\<lambda>f w. unat (remaining f)" "\<lambda>f w x w'. True"
  for irq :: "'d kworld \<Rightarrow> 'd kworld" and bus :: "'d bus"
proof unfold_locales
  fix f f' :: delay_future and w w' :: "'d kworld"
  assume "poll_delay f w = (Pending, f', w')"
  then have "remaining f \<noteq> 0" "remaining f' = remaining f - 1" by (auto simp: poll_delay_def split: if_splits)
  then show "True \<and> unat (remaining f') < unat (remaining f)" by (simp add: unat_minus_one unat_gt_0)
qed (simp_all add: poll_delay_def)

text \<open>Interrupts that only add scan codes, as \<open>keyboard_handler\<close> does.\<close>

definition irq_pushes :: "('d kworld \<Rightarrow> 'd kworld) \<Rightarrow> bool" where
  "irq_pushes irq \<longleftrightarrow> (\<forall>w. ring_ok (KEYS w) \<longrightarrow>
     ring_ok (KEYS (irq w)) \<and> (\<exists>ys. ring_keys (KEYS (irq w)) = ring_keys (KEYS w) @ ys))"

lemma keyboard_handler_pushes: "irq_pushes (keyboard_handler bus)"
  unfolding irq_pushes_def keyboard_handler_keys
  by (simp add: keys.put_inv keys.put_contents)

definition key_waiting :: "('d kworld \<Rightarrow> 'd kworld) \<Rightarrow> 'd kworld \<Rightarrow> bool" where
  "key_waiting irq w \<longleftrightarrow> irq_pushes irq \<and> ring_ok (KEYS w) \<and> ring_keys (KEYS w) \<noteq> []"

lemma key_waiting_irq:
  "key_waiting irq w \<Longrightarrow> key_waiting irq (irq w) \<and> hd (ring_keys (KEYS (irq w))) = hd (ring_keys (KEYS w))"
  unfolding key_waiting_def irq_pushes_def by (metis append_is_Nil_conv hd_append2)

lemma key_waiting_cong: "KEYS v = KEYS w \<Longrightarrow> key_waiting irq v = key_waiting irq w"
  by (simp add: key_waiting_def)

lemma pop_key_waiting:
  assumes "key_waiting irq w"
  shows "\<exists>w'. pop_key w = (Some (hd (ring_keys (KEYS w))), w')"
proof -
  from assms obtain x xs where x: "ring_keys (KEYS w) = x # xs" by (cases "ring_keys (KEYS w)") (auto simp: key_waiting_def)
  have "fst (get_key_from_buffer (KEYS w)) = Some x"
    using keys.take_fst [of "KEYS w"] assms x by (simp add: key_waiting_def)
  with x show ?thesis by (cases "get_key_from_buffer (KEYS w)") (simp add: pop_key_def)
qed

interpretation key: future irq bus "poll_key bus" "\<lambda>f w. key_waiting irq w" "\<lambda>f w. key_waiting irq w" "\<lambda>f w. 0"
    "\<lambda>f w x w'. x = hd (ring_keys (KEYS w))"
  for irq :: "'d kworld \<Rightarrow> 'd kworld" and bus :: "'d bus"
proof unfold_locales
  fix f f' :: unit and w v w' :: "'d kworld" and x
  assume k: "key_waiting irq w"
  then have "key_waiting irq (wake w)" by (simp add: key_waiting_cong [of "wake w" w])
  from pop_key_waiting [OF this] obtain w1 where
    "poll_key bus f w = (Ready (hd (ring_keys (KEYS w))), f, w1)" by (auto simp: poll_key_def)
  then show "fst (poll_key bus f w) \<noteq> Panicked"
    and "poll_key bus f w = (Ready x, f', w') \<Longrightarrow> x = hd (ring_keys (KEYS w))"
    and "poll_key bus f w = (Pending, f', w') \<Longrightarrow> key_waiting irq w' \<and> (0 :: nat) < 0"
    and "poll_key bus f w = (Pending, f', w') \<Longrightarrow> x = hd (ring_keys (KEYS w')) \<Longrightarrow> x = hd (ring_keys (KEYS w))"
    by auto
next
  fix f :: unit and w v :: "'d kworld" and x :: u8
  assume k: "key_waiting irq w" and v: "v \<in> {irq w, w\<lparr>WOKEN := False\<rparr>, irq (pause bus w)}"
  have "key_waiting irq (pause bus w)" "KEYS (pause bus w) = KEYS w"
    using k key_waiting_cong [of "pause bus w" w irq] by (simp_all add: pause_def on_hw_def)
  with v k key_waiting_irq [OF k] key_waiting_irq [of irq "pause bus w"] key_waiting_cong [of "w\<lparr>WOKEN := False\<rparr>" w irq]
  show "key_waiting irq v \<and> (0 :: nat) \<le> 0 \<and> (x = hd (ring_keys (KEYS v)) \<longrightarrow> x = hd (ring_keys (KEYS w)))"
    by auto
qed

text \<open>Interrupts that take bounded time and leave the timer alone.\<close>

definition irq_brief :: "('d kworld \<Rightarrow> 'd kworld) \<Rightarrow> ('d machine \<Rightarrow> nat) \<Rightarrow> nat \<Rightarrow> bool" where
  "irq_brief irq clk R \<longleftrightarrow> (\<forall>w. GLOBAL_TIMER (irq w) = GLOBAL_TIMER w
     \<and> clk (hw w) \<le> clk (hw (irq w)) \<and> clk (hw (irq w)) \<le> clk (hw w) + R)"

definition clock_ok :: "('d kworld \<Rightarrow> 'd kworld) \<Rightarrow> 'd bus \<Rightarrow> ('d machine \<Rightarrow> nat) \<Rightarrow> nat \<Rightarrow> bool" where
  "clock_ok irq bus clk R \<longleftrightarrow> tsc_runs bus clk R \<and> irq_brief irq clk R"

definition sleep_inv :: "('d kworld \<Rightarrow> 'd kworld) \<Rightarrow> 'd bus \<Rightarrow> ('d machine \<Rightarrow> nat) \<Rightarrow> nat \<Rightarrow> nat \<Rightarrow>
    sleep_future \<Rightarrow> 'd kworld \<Rightarrow> bool" where
  "sleep_inv irq bus clk R k f w \<longleftrightarrow> clock_ok irq bus clk R \<and> GLOBAL_TIMER w \<noteq> None
     \<and> clk (hw w) \<le> unat (target_tsc f) + k * R \<and> unat (target_tsc f) + 4 * R < 2 ^ 64"

lemma poll_sleep_cases:
  assumes "sleep_inv irq bus clk R 3 f w"
  obtains w' where "poll_sleep bus f w = (Ready (), f, w')" "unat (target_tsc f) < clk (hw w')"
      "clk (hw w') \<le> unat (target_tsc f) + 4 * R"
  | w' where "poll_sleep bus f w = (Pending, f, w')" "sleep_inv irq bus clk R 1 f w'"
      "clk (hw w) < unat (target_tsc f)" "clk (hw w) < clk (hw w')"
proof -
  from assms have runs: "tsc_runs bus clk R" by (simp add: sleep_inv_def clock_ok_def)
  from assms obtain t where t: "GLOBAL_TIMER w = Some t" by (auto simp: sleep_inv_def)
  from tsc_runs_read [OF runs] obtain m where m: "read_tsc bus (hw w) = (of_nat (clk (hw w)), m)"
      "clk (hw w) < clk m" "clk m \<le> clk (hw w) + R" by blast
  have "clk (hw w) < 2 ^ 64" using assms by (simp add: sleep_inv_def)
  then have cmp: "of_nat (clk (hw w)) \<ge> target_tsc f \<longleftrightarrow> clk (hw w) \<ge> unat (target_tsc f)"
    by (simp only: word_le_nat_alt unat_of_nat_u64)
  show thesis
  proof (cases "clk (hw w) \<ge> unat (target_tsc f)")
    case True
    with m t cmp have "poll_sleep bus f w = (Ready (), f, w\<lparr>hw := m\<rparr>)" by (simp add: poll_sleep_def now_def)
    then show thesis using True m assms by (intro that(1)) (auto simp: sleep_inv_def)
  next
    case False
    with m t cmp have "poll_sleep bus f w = (Pending, f, wake (w\<lparr>hw := m\<rparr>))" by (simp add: poll_sleep_def now_def)
    then show thesis using False m assms by (intro that(2)) (auto simp: sleep_inv_def)
  qed
qed

lemma sleep_inv_irq: "sleep_inv irq bus clk R k f w \<Longrightarrow>
    sleep_inv irq bus clk R (Suc k) f (irq w) \<and> clk (hw w) \<le> clk (hw (irq w))"
proof -
  assume i: "sleep_inv irq bus clk R k f w"
  then have "irq_brief irq clk R" by (simp add: sleep_inv_def clock_ok_def)
  then have "GLOBAL_TIMER (irq w) = GLOBAL_TIMER w" "clk (hw w) \<le> clk (hw (irq w))" "clk (hw (irq w)) \<le> clk (hw w) + R"
    by (auto simp: irq_brief_def)
  with i show ?thesis by (simp add: sleep_inv_def)
qed

lemma sleep_inv_pause: "sleep_inv irq bus clk R k f w \<Longrightarrow>
    sleep_inv irq bus clk R (Suc k) f (pause bus w) \<and> clk (hw w) \<le> clk (hw (pause bus w))"
  using tsc_runs_spin [of bus clk R "hw w"] by (auto simp: sleep_inv_def clock_ok_def pause_def on_hw_def)

lemma sleep_inv_mono: "sleep_inv irq bus clk R k f w \<Longrightarrow> k \<le> k' \<Longrightarrow> sleep_inv irq bus clk R k' f w"
proof -
  assume i: "sleep_inv irq bus clk R k f w" and "k \<le> k'"
  then have "k * R \<le> k' * R" by (intro mult_le_mono1)
  with i show ?thesis unfolding sleep_inv_def by linarith
qed

interpretation sleep: future irq bus "poll_sleep bus" "sleep_inv irq bus clk R 1" "sleep_inv irq bus clk R 3"
    "\<lambda>f w. unat (target_tsc f) + 1 - clk (hw w)"
    "\<lambda>f w x w'. unat (target_tsc f) < clk (hw w') \<and> clk (hw w') \<le> unat (target_tsc f) + 4 * R"
  for irq :: "'d kworld \<Rightarrow> 'd kworld" and bus :: "'d bus" and clk :: "'d machine \<Rightarrow> nat" and R :: nat
proof unfold_locales
  fix f f' :: sleep_future and w w' w'' :: "'d kworld" and x :: unit
  assume i: "sleep_inv irq bus clk R 3 f w"
  show "fst (poll_sleep bus f w) \<noteq> Panicked" using i by (rule poll_sleep_cases) auto
  show "unat (target_tsc f) < clk (hw w') \<and> clk (hw w') \<le> unat (target_tsc f) + 4 * R"
    if "poll_sleep bus f w = (Ready x, f', w')" using i by (rule poll_sleep_cases) (use that in auto)
  show "sleep_inv irq bus clk R 1 f' w' \<and> unat (target_tsc f') + 1 - clk (hw w') < unat (target_tsc f) + 1 - clk (hw w)"
    if "poll_sleep bus f w = (Pending, f', w')" using i by (rule poll_sleep_cases) (use that in auto)
  show "unat (target_tsc f) < clk (hw w'') \<and> clk (hw w'') \<le> unat (target_tsc f) + 4 * R"
    if "poll_sleep bus f w = (Pending, f', w')" "unat (target_tsc f') < clk (hw w'') \<and> clk (hw w'') \<le> unat (target_tsc f') + 4 * R"
    using i by (rule poll_sleep_cases) (use that in auto)
next
  fix f :: sleep_future and w v w'' :: "'d kworld" and x :: unit
  assume i: "sleep_inv irq bus clk R 1 f w" and v: "v \<in> {irq w, w\<lparr>WOKEN := False\<rparr>, irq (pause bus w)}"
  have "sleep_inv irq bus clk R 3 f v \<and> clk (hw w) \<le> clk (hw v)"
    using v sleep_inv_irq [OF i] sleep_inv_pause [OF i] sleep_inv_irq [of irq bus clk R 2 f "pause bus w"]
      sleep_inv_mono [of irq bus clk R _ f _ 3] i
    by (auto simp: numeral_2_eq_2 numeral_3_eq_3) (auto simp: sleep_inv_def)
  then show "sleep_inv irq bus clk R 3 f v \<and> unat (target_tsc f) + 1 - clk (hw v) \<le> unat (target_tsc f) + 1 - clk (hw w)
      \<and> (unat (target_tsc f) < clk (hw w'') \<and> clk (hw w'') \<le> unat (target_tsc f) + 4 * R \<longrightarrow>
         unat (target_tsc f) < clk (hw w'') \<and> clk (hw w'') \<le> unat (target_tsc f) + 4 * R)"
    by auto
qed

text \<open>A future without a value, run in a container, keeps its contract, or ends because the container was stopped.\<close>

locale task = future irq bus pol idle armed rank post
  for irq :: "'d kworld \<Rightarrow> 'd kworld" and bus :: "'d bus" and pol :: "('f, 'd, unit) poll_fun"
    and idle :: "'f \<Rightarrow> 'd kworld \<Rightarrow> bool" and armed :: "'f \<Rightarrow> 'd kworld \<Rightarrow> bool" and rank :: "'f \<Rightarrow> 'd kworld \<Rightarrow> nat"
    and post :: "'f \<Rightarrow> 'd kworld \<Rightarrow> unit \<Rightarrow> 'd kworld \<Rightarrow> bool"

sublocale task \<subseteq> boxed: future irq bus "poll_container pol" "\<lambda>f. idle (fst f)" "\<lambda>f. armed (fst f)" "\<lambda>f. rank (fst f)"
    "\<lambda>f w x w'. get_container_state (snd f) (CTABLE w') = Some Stopped \<or> post (fst f) w x w'"
proof unfold_locales
  fix f f' :: "'f \<times> u32" and w w' w'' v :: "'d kworld" and x :: unit
  assume a: "armed (fst f) w"
  show "fst (poll_container pol f w) \<noteq> Panicked"
    using no_panic [OF a] by (auto simp: poll_container_def split: prod.splits)
  show "get_container_state (snd f) (CTABLE w') = Some Stopped \<or> post (fst f) w x w'"
    if "poll_container pol f w = (Ready x, f', w')"
    using that ready [OF a] by (auto simp: poll_container_def split: if_splits prod.splits)
  show "idle (fst f') w' \<and> rank (fst f') w' < rank (fst f) w"
    if "poll_container pol f w = (Pending, f', w')"
    using that pending [OF a] by (auto simp: poll_container_def split: if_splits prod.splits)
  show "get_container_state (snd f) (CTABLE w'') = Some Stopped \<or> post (fst f) w x w''"
    if "poll_container pol f w = (Pending, f', w')"
      "get_container_state (snd f') (CTABLE w'') = Some Stopped \<or> post (fst f') w' x w''"
    using that pending_post [OF a] by (auto simp: poll_container_def split: if_splits prod.splits)
next
  fix f :: "'f \<times> u32" and w v w'' :: "'d kworld" and x :: unit
  assume "idle (fst f) w" "v \<in> {irq w, w\<lparr>WOKEN := False\<rparr>, irq (pause bus w)}"
  then show "armed (fst f) v \<and> rank (fst f) v \<le> rank (fst f) w
      \<and> (get_container_state (snd f) (CTABLE w'') = Some Stopped \<or> post (fst f) v x w'' \<longrightarrow>
         get_container_state (snd f) (CTABLE w'') = Some Stopped \<or> post (fst f) w x w'')"
    using quiet [of "fst f" w v x w''] by blast
qed

interpretation delay_task: task irq bus poll_delay "\<lambda>f w. True" "\<lambda>f w. True" "\<lambda>f w. unat (remaining f)" "\<lambda>f w x w'. True"
  for irq :: "'d kworld \<Rightarrow> 'd kworld" and bus :: "'d bus" ..

interpretation sleep_task: task irq bus "poll_sleep bus" "sleep_inv irq bus clk R 1" "sleep_inv irq bus clk R 3"
    "\<lambda>f w. unat (target_tsc f) + 1 - clk (hw w)"
    "\<lambda>f w x w'. unat (target_tsc f) < clk (hw w') \<and> clk (hw w') \<le> unat (target_tsc f) + 4 * R"
  for irq :: "'d kworld \<Rightarrow> 'd kworld" and bus :: "'d bus" and clk :: "'d machine \<Rightarrow> nat" and R :: nat ..

section \<open>Properties\<close>

lemma sleep_ms_start:
  assumes ok: "clock_ok irq bus clk R" "GLOBAL_TIMER w = Some t"
    and small: "clk (hw w) + unat (frequency t * ms div 1000) + 4 * R < 2 ^ 64"
  obtains f w1 where "sleep_ms bus ms w = Some (f, w1)" "sleep_inv irq bus clk R 1 f w1" "CTABLE w1 = CTABLE w"
    "unat (target_tsc f) = clk (hw w) + unat (frequency t * ms div 1000)"
proof -
  have runs: "tsc_runs bus clk R" using ok(1) by (simp add: clock_ok_def)
  from tsc_runs_read [OF runs] obtain m where m: "read_tsc bus (hw w) = (of_nat (clk (hw w)), m)"
      "clk (hw w) < clk m" "clk m \<le> clk (hw w) + R" by blast
  let ?f = "\<lparr>target_tsc = of_nat (clk (hw w)) + frequency t * ms div 1000\<rparr>"
  have "of_nat (clk (hw w)) + frequency t * ms div 1000 = (of_nat (clk (hw w) + unat (frequency t * ms div 1000)) :: u64)"
    by simp
  then have tg: "unat (target_tsc ?f) = clk (hw w) + unat (frequency t * ms div 1000)"
    using small by (simp only: sleep_future.simps unat_of_nat_u64)
  show thesis
  proof (rule that [OF _ _ _ tg])
    show "sleep_ms bus ms w = Some (?f, w\<lparr>hw := m\<rparr>)"
      using m ok(2) by (simp add: sleep_ms_def sleep_for_def now_def)
    show "sleep_inv irq bus clk R 1 ?f (w\<lparr>hw := m\<rparr>)"
      using ok small m unfolding sleep_inv_def tg by simp
  qed simp
qed

text \<open>
  C26. \<open>sleep_ms(ms).await\<close> returns, not early and at most four clock steps late: with a running time
  stamp counter and interrupts that take bounded time, \<open>block_on\<close> returns once the clock is past its value
  at the call plus \<open>frequency * ms / 1000\<close>, provided the target does not reach the counter's wrap-around.
\<close>

theorem sleep_await_returns:
  assumes "clock_ok irq bus clk R" "GLOBAL_TIMER w = Some t"
    and "clk (hw w) + unat (frequency t * ms div 1000) + 4 * R < 2 ^ 64"
  shows "\<exists>f w1 w2. sleep_ms bus ms w = Some (f, w1) \<and> block_on irq bus (poll_sleep bus) f w1 = Some ((), w2)
    \<and> clk (hw w) + unat (frequency t * ms div 1000) < clk (hw w2)
    \<and> clk (hw w2) \<le> clk (hw w) + unat (frequency t * ms div 1000) + 4 * R"
proof -
  from sleep_ms_start [OF assms] obtain f w1 where f: "sleep_ms bus ms w = Some (f, w1)" "sleep_inv irq bus clk R 1 f w1"
    "unat (target_tsc f) = clk (hw w) + unat (frequency t * ms div 1000)" by blast
  from sleep.block_on_returns [OF f(2)] f(1,3) show ?thesis by auto
qed

text \<open>A kernel state with the timer calibrated to 1 MHz, on the counter of \<open>Tsc_Timer\<close>.\<close>

definition demo_world :: "nat kworld" where
  "demo_world = \<lparr>WOKEN = False, KEYS = initial_ring, IS_SHIFT = False, KEYBOARD_WAKER = False, EOI_CALLBACK = False,
     APIC_BASE = 0, GLOBAL_TIMER = Some \<lparr>frequency = 1000000\<rparr>, CTABLE = init_containers initial_containers,
     hw = \<lparr>ram = (\<lambda>_. 0), dev = 100\<rparr>\<rparr>"

lemma tick_clock_ok: "clock_ok (\<lambda>w. w) tick_bus dev 7"
  by (simp add: clock_ok_def tick_bus_runs irq_brief_def)

theorem sleep_await_returns_witness:
  "\<exists>f w1 w2. sleep_ms tick_bus 3 demo_world = Some (f, w1)
     \<and> block_on (\<lambda>w. w) tick_bus (poll_sleep tick_bus) f w1 = Some ((), w2) \<and> 3100 < dev (hw w2)"
proof -
  let ?t = "\<lparr>frequency = 1000000\<rparr> :: tsc_timer"
  have "\<exists>f w1 w2. sleep_ms tick_bus 3 demo_world = Some (f, w1)
     \<and> block_on (\<lambda>w. w) tick_bus (poll_sleep tick_bus) f w1 = Some ((), w2)
     \<and> dev (hw demo_world) + unat (frequency ?t * 3 div 1000) < dev (hw w2)
     \<and> dev (hw w2) \<le> dev (hw demo_world) + unat (frequency ?t * 3 div 1000) + 4 * 7"
    by (rule sleep_await_returns [OF tick_clock_ok]) (simp_all add: demo_world_def)
  then show ?thesis by (auto simp: demo_world_def)
qed

text \<open>
  C27. A countdown awaited inside a container always returns, whatever the interrupts do; in a container
  that is stopped it returns at its first poll and the work inside it is not polled at all.
\<close>

theorem container_await_returns:
  "(\<exists>w'. block_on irq bus (poll_container poll_delay) (run_in_container i (delay_new n)) w = Some ((), w'))
   \<and> (get_container_state i (CTABLE (irq w)) = Some Stopped \<longrightarrow>
        block_on irq bus (poll_container pol) (run_in_container i f) w = Some ((), irq w))"
proof (intro conjI impI)
  show "\<exists>w'. block_on irq bus (poll_container poll_delay) (run_in_container i (delay_new n)) w = Some ((), w')"
    using delay_task.boxed.block_on_returns [where f = "run_in_container i (delay_new n)" and w = w] by simp
  assume "get_container_state i (CTABLE (irq w)) = Some Stopped"
  then show "block_on irq bus (poll_container pol) (run_in_container i f) w = Some ((), irq w)"
    by (subst block_on.simps) (simp add: poll_container_def run_in_container_def)
qed

theorem container_await_returns_witness:
  "block_on (\<lambda>w. w) tick_bus (poll_container poll_yield) (run_in_container 1 ())
     (demo_world\<lparr>CTABLE := stop_container 1 (snd (create_container 0x4000 1 ''a'' (init_containers initial_containers)))\<rparr>)
   \<noteq> None"
proof -
  let ?w = "demo_world\<lparr>CTABLE := stop_container 1 (snd (create_container 0x4000 1 ''a'' (init_containers initial_containers)))\<rparr>"
  have s: "get_container_state 1 (CTABLE ((\<lambda>w. w) ?w)) = Some Stopped"
    by (simp add: get_container_state_def stop_container_def create_container_def init_containers_def Let_def)
  from conjunct2 [OF container_await_returns [of "\<lambda>w. w" tick_bus 1 0 ?w poll_yield "()"]] s show ?thesis by simp
qed

text \<open>
  C35. Awaiting \<open>YieldFuture\<close> never returns: its poll is pending every time, so \<open>block_on\<close> polls it for ever,
  whatever the interrupts and the hardware do.
\<close>

theorem yield_never_returns:
  "block_on irq bus poll_yield f w = None"
  by (rule block_on_diverges) (simp add: poll_yield_def)

text \<open>
  Awaiting a key returns the oldest scan code of the ring, if there is one, with keyboard interrupts
  arriving all the while.
\<close>

theorem key_await_returns:
  assumes "ring_ok (KEYS w)" "ring_keys (KEYS w) = sc # scs"
  shows "\<exists>w'. block_on (keyboard_handler bus) bus (poll_key bus) () w = Some (sc, w')"
proof -
  have "key_waiting (keyboard_handler bus) w" using assms by (simp add: key_waiting_def keyboard_handler_pushes)
  from key.block_on_returns [OF this, where f = "()" and bus = bus] assms(2) show ?thesis by auto
qed

theorem key_await_returns_witness:
  "\<exists>w'. block_on (keyboard_handler tick_bus) tick_bus (poll_key tick_bus) ()
     (demo_world\<lparr>KEYS := push_key 0x30 (push_key 0x1E initial_ring)\<rparr>) = Some (0x1E, w')"
proof -
  have ok: "ring_ok (push_key 0x30 (push_key 0x1E initial_ring))"
    by (intro push_key_inv) (simp add: ring_ok_def initial_ring_def)
  have "ring_keys (push_key 0x30 (push_key 0x1E initial_ring)) = [0x1E, 0x30]"
    by (simp add: ring_keys_def ring_count_def push_key_def initial_ring_def Let_def upt_eval)
  then show ?thesis
    using key_await_returns [of "demo_world\<lparr>KEYS := push_key 0x30 (push_key 0x1E initial_ring)\<rparr>" "0x1E" "[0x30]" tick_bus] ok
    by simp
qed

end
