(* ===== verification/Draw.thy ===== *)
theory Draw imports Framebuffer begin

text \<open>
  The boot menu's and the shell's drawing, \<open>kernel/src/draw.rs\<close>: directly into the frame buffer's
  memory, and into a double buffer whose pixel vector is indexed with a bounds check, so a write
  past its end is a panic (\<open>None\<close>). The font parser is a copy of the one in \<open>Framebuffer\<close>.
\<close>

record frame_buffer_config =
  frame_buffer :: u64
  pixels_per_scan_line :: u32
  horizontal_resolution :: u32
  vertical_resolution :: u32

record double_buffer =
  vram_shadow :: "u32 list"
  db_width :: u32
  db_height :: u32
  scanline :: u32

definition db_new :: "frame_buffer_config \<Rightarrow> double_buffer" where
  "db_new fb =
     (let sz = unat (pixels_per_scan_line fb * vertical_resolution fb)
      in \<lparr>vram_shadow = replicate sz 0, db_width = horizontal_resolution fb, db_height = vertical_resolution fb,
          scanline = pixels_per_scan_line fb\<rparr>)"

definition db_flip :: "double_buffer \<Rightarrow> frame_buffer_config \<Rightarrow> memory \<Rightarrow> memory" where
  "db_flip db fb mem =
     fold (\<lambda>i. wr32 (frame_buffer fb + of_nat (4 * i)) (vram_shadow db ! i)) [0..<length (vram_shadow db)] mem"

section \<open>Directly into the frame buffer\<close>

definition vram_put :: "frame_buffer_config \<Rightarrow> u32 \<Rightarrow> u32 \<Rightarrow> u32 \<Rightarrow> memory \<Rightarrow> memory" where
  "vram_put fb px py color mem =
     (if px < horizontal_resolution fb \<and> py < vertical_resolution fb
      then wr32 (frame_buffer fb + 4 * ucast (pixels_per_scan_line fb * py + px)) color mem else mem)"

definition vram_draw_char :: "u8 list \<Rightarrow> frame_buffer_config \<Rightarrow> u32 \<Rightarrow> u32 \<Rightarrow> u8 \<Rightarrow> u32 \<Rightarrow> memory \<Rightarrow> memory option" where
  "vram_draw_char font fb x y c color mem =
     (case glyph font c of
        None \<Rightarrow> None
      | Some None \<Rightarrow> Some mem
      | Some (Some rows) \<Rightarrow>
          Some (fold (\<lambda>dy. fold (\<lambda>dx m. if row_bit (rows ! dy) dx then vram_put fb (x + of_nat dx) (y + of_nat dy) color m else m)
            [0..<8]) [0..<length rows] mem))"

fun vram_draw_string :: "u8 list \<Rightarrow> frame_buffer_config \<Rightarrow> u32 \<Rightarrow> u32 \<Rightarrow> u8 list \<Rightarrow> u32 \<Rightarrow> memory \<Rightarrow> memory option" where
  "vram_draw_string font fb x y [] color mem = Some mem"
| "vram_draw_string font fb x y (c # cs) color mem =
     (case vram_draw_char font fb x y c color mem of None \<Rightarrow> None
      | Some mem \<Rightarrow> vram_draw_string font fb (x + 8) y cs color mem)"

text \<open>The decimal digits, least significant first, at most 20 of them.\<close>

function dec_buf :: "u64 \<Rightarrow> u8 list \<Rightarrow> u8 list" where
  "dec_buf val buf =
     (if val > 0 \<and> length buf < 20 then dec_buf (val div 10) (buf @ [48 + ucast (val mod 10)]) else buf)"
  by pat_completeness auto
termination
  by (relation "measure (\<lambda>(val, buf). 20 - length buf)") auto

declare dec_buf.simps [simp del]

definition vram_draw_u64 :: "u8 list \<Rightarrow> frame_buffer_config \<Rightarrow> u32 \<Rightarrow> u32 \<Rightarrow> u64 \<Rightarrow> u32 \<Rightarrow> memory \<Rightarrow> memory option" where
  "vram_draw_u64 font fb x y val color mem =
     (if val = 0 then vram_draw_char font fb x y 48 color mem
      else let buf = dec_buf val []; i = length buf
           in for_opt (\<lambda>j. vram_draw_char font fb (x + of_nat (i - 1 - j) * 8) y (buf ! j) color) [0..<i] mem)"

definition clear_screen :: "frame_buffer_config \<Rightarrow> u32 \<Rightarrow> memory \<Rightarrow> memory" where
  "clear_screen fb color mem =
     fold (\<lambda>i. wr32 (frame_buffer fb + of_nat (4 * i)) color)
       [0..<unat (pixels_per_scan_line fb * vertical_resolution fb)] mem"

section \<open>Into the double buffer\<close>

definition db_store :: "nat \<Rightarrow> u32 \<Rightarrow> double_buffer \<Rightarrow> double_buffer option" where
  "db_store index color db =
     (if index < length (vram_shadow db) then Some (db\<lparr>vram_shadow := (vram_shadow db)[index := color]\<rparr>) else None)"

definition draw_char_db :: "u8 list \<Rightarrow> u32 \<Rightarrow> u32 \<Rightarrow> u8 \<Rightarrow> u32 \<Rightarrow> double_buffer \<Rightarrow> double_buffer option" where
  "draw_char_db font x y c color db =
     (case glyph font c of
        None \<Rightarrow> None
      | Some None \<Rightarrow> Some db
      | Some (Some rows) \<Rightarrow>
          for_opt (\<lambda>dy. for_opt (\<lambda>dx db.
              if row_bit (rows ! dy) dx then
                let px = x + of_nat dx; py = y + of_nat dy
                in if px < db_width db \<and> py < db_height db
                   then db_store (unat (scanline db * py + px)) color db else Some db
              else Some db) [0..<8]) [0..<length rows] db)"

fun draw_string_db :: "u8 list \<Rightarrow> u32 \<Rightarrow> u32 \<Rightarrow> u8 list \<Rightarrow> u32 \<Rightarrow> double_buffer \<Rightarrow> double_buffer option" where
  "draw_string_db font x y [] color db = Some db"
| "draw_string_db font x y (c # cs) color db =
     (case draw_char_db font x y c color db of None \<Rightarrow> None
      | Some db \<Rightarrow> draw_string_db font (x + 8) y cs color db)"

definition clear_screen_db :: "u32 \<Rightarrow> double_buffer \<Rightarrow> double_buffer" where
  "clear_screen_db color db = db\<lparr>vram_shadow := replicate (length (vram_shadow db)) color\<rparr>"

definition hex_char :: "u8 \<Rightarrow> u8" where
  "hex_char m = (if m < 10 then 48 + m else 65 + (m - 10))"

text \<open>The hexadecimal digits, least significant first; \<open>buf[i]\<close> panics from the 21st on.\<close>

function hex_buf :: "u64 \<Rightarrow> u8 list \<Rightarrow> u8 list option" where
  "hex_buf val buf =
     (if val > 0 then
        if length buf < 20 then hex_buf (val div 16) (buf @ [hex_char (ucast (val mod 16))]) else None
      else Some buf)"
  by pat_completeness auto
termination
  by (relation "measure (\<lambda>(val, buf). 20 - length buf)") auto

declare hex_buf.simps [simp del]

definition draw_u64_db :: "u8 list \<Rightarrow> u32 \<Rightarrow> u32 \<Rightarrow> u64 \<Rightarrow> u32 \<Rightarrow> double_buffer \<Rightarrow> double_buffer option" where
  "draw_u64_db font x y val color db =
     (if val = 0 then draw_string_db font x y [48] color db
      else case hex_buf val [] of None \<Rightarrow> None
        | Some buf \<Rightarrow>
            let i = length buf
            in for_opt (\<lambda>j. draw_string_db font (x + of_nat j * 8) y [buf ! (i - 1 - j)] color) [0..<i] db)"

definition fill_rect_db :: "u32 \<Rightarrow> u32 \<Rightarrow> u32 \<Rightarrow> u32 \<Rightarrow> u32 \<Rightarrow> double_buffer \<Rightarrow> double_buffer option" where
  "fill_rect_db x y width height color db =
     for_opt (\<lambda>dy. for_opt (\<lambda>dx db.
         let px = x + of_nat dx; py = y + of_nat dy
         in if px < db_width db \<and> py < db_height db
            then db_store (unat py * unat (scanline db) + unat px) color db else Some db)
       [0..<unat width]) [0..<unat height] db"

definition draw_rect_db :: "u32 \<Rightarrow> u32 \<Rightarrow> u32 \<Rightarrow> u32 \<Rightarrow> u32 \<Rightarrow> double_buffer \<Rightarrow> double_buffer option" where
  "draw_rect_db x y width height color db =
     for_opt (\<lambda>dy. for_opt (\<lambda>dx db.
         let px = x + of_nat dx; py = y + of_nat dy
         in if px < db_width db \<and> py < db_height db
            then db_store (unat py * unat (scanline db) + unat px) color db else Some db)
       [0..<unat width]) [0..<unat height] db"

text \<open>\<open>draw_hex_dump\<close>: two digits and a space per byte, 16 bytes per line, at most 128 bytes.\<close>

fun hex_dump_from :: "u8 list \<Rightarrow> u32 \<Rightarrow> u32 \<Rightarrow> (nat \<Rightarrow> u8) \<Rightarrow> nat \<Rightarrow> nat list \<Rightarrow> u32 \<Rightarrow> double_buffer \<Rightarrow> double_buffer option" where
  "hex_dump_from font x y dat len [] color db = Some db"
| "hex_dump_from font x y dat len (i # is) color db =
     (let val = dat i;
          dx = of_nat (i mod 16) * 24; dy = of_nat (i div 16) * 12;
          s = [hex_char (drop_bit 4 val AND 0xF), hex_char (val AND 0xF), 32]
      in case draw_string_db font (x + dx) (y + dy) s color db of None \<Rightarrow> None
         | Some db \<Rightarrow> if i \<ge> 127 then Some db else hex_dump_from font x y dat len is color db)"

definition draw_hex_dump :: "u8 list \<Rightarrow> u32 \<Rightarrow> u32 \<Rightarrow> memory \<Rightarrow> u64 \<Rightarrow> nat \<Rightarrow> u32 \<Rightarrow> double_buffer \<Rightarrow> double_buffer option" where
  "draw_hex_dump font x y mem dat len color db =
     hex_dump_from font x y (\<lambda>i. mem (dat + of_nat i)) len [0..<len] color db"

definition draw_hex_db :: "u8 list \<Rightarrow> u32 \<Rightarrow> u32 \<Rightarrow> u64 \<Rightarrow> u32 \<Rightarrow> double_buffer \<Rightarrow> double_buffer option" where
  "draw_hex_db font x y val color db =
     map_option fst (for_opt (\<lambda>i (db, temp).
         let hex = ucast (temp AND 0xF); c = hex_char hex
         in map_option (\<lambda>db. (db, drop_bit 4 temp)) (draw_char_db font (x + of_nat i * 8) y c color db))
       (rev [0..<16]) (db, val))"

section \<open>No panic\<close>

definition db_ok :: "double_buffer \<Rightarrow> bool" where
  "db_ok db \<longleftrightarrow> unat (db_width db) \<le> unat (scanline db)
     \<and> unat (db_height db) * unat (scanline db) \<le> length (vram_shadow db)
     \<and> unat (db_height db) * unat (scanline db) < 2 ^ 32"

definition db_same :: "double_buffer \<Rightarrow> double_buffer \<Rightarrow> bool" where
  "db_same a b \<longleftrightarrow> db_width b = db_width a \<and> db_height b = db_height a \<and> scanline b = scanline a
     \<and> length (vram_shadow b) = length (vram_shadow a)"

text \<open>An operation that returns on a well-formed buffer and leaves it one of the same shape.\<close>

definition db_safe :: "(double_buffer \<Rightarrow> double_buffer option) \<Rightarrow> bool" where
  "db_safe f \<longleftrightarrow> (\<forall>db. db_ok db \<longrightarrow> (\<exists>db'. f db = Some db' \<and> db_same db db'))"

lemma db_ok_same: "db_same db db' \<Longrightarrow> db_ok db' = db_ok db"
  by (simp add: db_ok_def db_same_def)

lemma db_safe_Some [intro!]: "db_safe Some"
  by (simp add: db_safe_def db_same_def)

lemma db_safe_bind:
  assumes "db_safe f" "db_safe g"
  shows "db_safe (\<lambda>db. case f db of None \<Rightarrow> None | Some db \<Rightarrow> g db)"
  unfolding db_safe_def
proof (intro allI impI)
  fix db assume ok: "db_ok db"
  then obtain d1 where d1: "f db = Some d1" "db_same db d1" using assms(1) by (auto simp: db_safe_def)
  have "db_ok d1" using ok db_ok_same [OF d1(2)] by simp
  with assms(2) obtain d2 where "g d1 = Some d2" "db_same d1 d2" unfolding db_safe_def by blast
  with d1 show "\<exists>db'. (case f db of None \<Rightarrow> None | Some db \<Rightarrow> g db) = Some db' \<and> db_same db db'"
    by (auto simp: db_same_def)
qed

lemma db_safe_for: "(\<And>i. db_safe (f i)) \<Longrightarrow> db_safe (for_opt f is)"
proof (induction "is")
  case Nil
  then show ?case by (simp add: db_safe_def db_same_def)
next
  case (Cons i "is")
  have "for_opt f (i # is) = (\<lambda>db. case f i db of None \<Rightarrow> None | Some db \<Rightarrow> for_opt f is db)" by (rule ext) simp
  then show ?case using db_safe_bind Cons by metis
qed

lemma db_index:
  assumes "db_ok db" "px < db_width db" "py < db_height db"
  shows "unat py * unat (scanline db) + unat px < length (vram_shadow db)"
    "unat (scanline db * py + px) = unat py * unat (scanline db) + unat px"
proof -
  have w: "unat px < unat (scanline db)" using assms by (simp add: db_ok_def word_less_nat_alt)
  have "(unat py + 1) * unat (scanline db) \<le> unat (db_height db) * unat (scanline db)"
    using assms(3) by (intro mult_le_mono1) (simp add: word_less_nat_alt)
  then have lt: "unat py * unat (scanline db) + unat px < unat (db_height db) * unat (scanline db)" using w by simp
  then show "unat py * unat (scanline db) + unat px < length (vram_shadow db)" using assms(1) by (simp add: db_ok_def)
  have "unat py * unat (scanline db) + unat px < 2 ^ 32" using lt assms(1) by (simp add: db_ok_def)
  then show "unat (scanline db * py + px) = unat py * unat (scanline db) + unat px"
    by (simp add: unat_word_ariths mult.commute)
qed

lemma db_put_safe:
  "db_safe (\<lambda>db. if px < db_width db \<and> py < db_height db then db_store (unat (scanline db * py + px)) color db else Some db)"
  "db_safe (\<lambda>db. if px < db_width db \<and> py < db_height db then db_store (unat py * unat (scanline db) + unat px) color db else Some db)"
  by (simp_all add: db_safe_def db_store_def db_index db_same_def)

lemma fill_rect_db_safe: "db_safe (fill_rect_db x y w h color)"
  unfolding fill_rect_db_def [abs_def] Let_def
  by (rule db_safe_for, rule db_safe_for, rule db_put_safe(2))

text \<open>The kernel's font (the first magic) never makes the parser panic.\<close>

definition psf1 :: "u8 list \<Rightarrow> bool" where
  "psf1 font \<longleftrightarrow> take 2 font = [0x36, 0x04]"

lemma glyph_total: "psf1 font \<Longrightarrow> glyph font c \<noteq> None"
  using draw_char_total [of font 0 0 c 0 initial_screen] by (auto simp: psf1_def draw_char_def split: option.splits)

lemma draw_char_db_safe:
  assumes "psf1 font"
  shows "db_safe (draw_char_db font x y c color)"
proof -
  obtain g where g: "glyph font c = Some g" using glyph_total [OF assms, of c] by auto
  show ?thesis
  proof (cases g)
    case None
    with g show ?thesis by (simp add: db_safe_def draw_char_db_def db_same_def)
  next
    case (Some rows)
    let ?put = "\<lambda>dy dx db. if x + of_nat dx < db_width db \<and> y + of_nat dy < db_height db
          then db_store (unat (scanline db * (y + of_nat dy) + (x + of_nat dx))) color db else Some db"
    have cell: "db_safe (\<lambda>db. if row_bit (rows ! dy) dx then ?put dy dx db else Some db)" for dx dy
    proof (cases "row_bit (rows ! dy) dx")
      case True
      then show ?thesis using db_put_safe(1) [of "x + of_nat dx" "y + of_nat dy" color] by simp
    next
      case False
      then show ?thesis by (simp add: db_safe_Some)
    qed
    have "draw_char_db font x y c color = for_opt (\<lambda>dy. for_opt (\<lambda>dx db. if row_bit (rows ! dy) dx then ?put dy dx db else Some db) [0..<8]) [0..<length rows]"
      by (rule ext) (simp only: draw_char_db_def g Some Let_def option.case)
    then show ?thesis using db_safe_for [OF db_safe_for [OF cell]] by simp
  qed
qed

lemma draw_string_db_safe: "psf1 font \<Longrightarrow> db_safe (draw_string_db font x y cs color)"
proof (induction cs arbitrary: x)
  case Nil
  have "draw_string_db font x y [] color = Some" by (rule ext) simp
  then show ?case by (simp add: db_safe_Some)
next
  case (Cons c cs)
  have "draw_string_db font x y (c # cs) color =
      (\<lambda>db. case draw_char_db font x y c color db of None \<Rightarrow> None | Some db \<Rightarrow> draw_string_db font (x + 8) y cs color db)"
    by (rule ext) simp
  then show ?case using db_safe_bind [OF draw_char_db_safe [OF Cons.prems] Cons.IH [OF Cons.prems]] by simp
qed

section \<open>Numbers\<close>

text \<open>A hexadecimal numeral: most significant digit first, no leading zero.\<close>

definition hex_numeral :: "u8 list \<Rightarrow> u64 \<Rightarrow> bool" where
  "hex_numeral ds val \<longleftrightarrow> ds \<noteq> [] \<and> (\<forall>d\<in>set ds. unat d < 16)
     \<and> foldl (\<lambda>a d. 16 * a + unat d) 0 ds = unat val \<and> (hd ds = 0 \<longrightarrow> val = 0)"

lemma hex_buf_digits:
  "unat val < 16 ^ n \<Longrightarrow> length buf + n \<le> 20 \<Longrightarrow> \<exists>ds. hex_buf val buf = Some (buf @ map hex_char ds)
     \<and> (\<forall>d\<in>set ds. unat d < 16) \<and> foldr (\<lambda>d a. 16 * a + unat d) ds 0 = unat val
     \<and> (ds = [] \<longleftrightarrow> val = 0) \<and> (ds \<noteq> [] \<longrightarrow> last ds \<noteq> 0)"
proof (induction n arbitrary: val buf)
  case 0
  then show ?case by (intro exI [of _ "[]"]) (simp add: hex_buf.simps [of 0] unat_eq_0)
next
  case (Suc n)
  show ?case
  proof (cases "val = 0")
    case True
    then show ?thesis by (intro exI [of _ "[]"]) (simp add: hex_buf.simps [of 0])
  next
    case False
    let ?d = "ucast (val mod 16) :: u8"
    have d: "unat ?d = unat val mod 16"
    proof -
      have "unat (val mod 16) = unat val mod 16" by (simp add: unat_mod)
      then show ?thesis by (simp add: unsigned_ucast_eq take_bit_nat_eq_self)
    qed
    have q: "unat (val div 16) = unat val div 16" by (simp add: unat_div)
    have "unat (val div 16) < 16 ^ n" using Suc.prems(1) by (simp add: q div_less_iff_less_mult mult.commute)
    from Suc.IH [OF this, of "buf @ [hex_char ?d]"] Suc.prems(2) obtain ds where ds:
      "hex_buf (val div 16) (buf @ [hex_char ?d]) = Some ((buf @ [hex_char ?d]) @ map hex_char ds)"
      "\<forall>d\<in>set ds. unat d < 16" "foldr (\<lambda>d a. 16 * a + unat d) ds 0 = unat (val div 16)"
      "ds = [] \<longleftrightarrow> val div 16 = 0" "ds \<noteq> [] \<longrightarrow> last ds \<noteq> 0" by auto
    have run: "hex_buf val buf = Some (buf @ map hex_char (?d # ds))"
      using False Suc.prems(2) ds(1) by (simp add: hex_buf.simps [of val] word_gt_0)
    have lst: "last (?d # ds) \<noteq> 0"
    proof (cases "ds = []")
      case True
      then have "unat val div 16 = 0" using ds(4) q by (metis unat_0)
      then have "unat ?d = unat val" using d by (metis add.right_neutral add_0 div_mult_mod_eq mult_0)
      with False True show ?thesis by (metis last.simps unat_0 unat_eq_0)
    qed (use ds(5) in simp)
    have "unat ?d < 16" using d by simp
    then show ?thesis
      using run lst ds(2,3) d q False by (intro exI [of _ "?d # ds"]) simp
  qed
qed

lemma draw_string_db_for:
  "for_opt (\<lambda>j. draw_string_db font (x + of_nat j * 8) y [cs ! j] color) [0..<length cs] db = draw_string_db font x y cs color db"
proof (induction cs arbitrary: x db)
  case (Cons c cs)
  have "[0..<length (c # cs)] = 0 # map Suc [0..<length cs]"
    by (simp add: upt_conv_Cons map_Suc_upt del: upt_Suc)
  moreover have "for_opt (\<lambda>j. draw_string_db font (x + of_nat (Suc j) * 8) y [cs ! j] color) [0..<length cs] d
      = draw_string_db font (x + 8) y cs color d" for d
    unfolding Cons.IH [of "x + 8", symmetric]
    by (rule for_opt_cong) (simp add: algebra_simps del: draw_string_db.simps)
  moreover have "draw_string_db font x y [c] color db = draw_char_db font x y c color db"
    by (simp split: option.splits)
  ultimately show ?case
    unfolding draw_string_db.simps(2) [of font x y c cs]
    by (simp add: for_opt_map del: of_nat_Suc upt_Suc draw_string_db.simps split: option.splits)
qed simp

lemma draw_u64_db_numeral:
  "\<exists>ds. hex_numeral ds val \<and> draw_u64_db font x y val color db = draw_string_db font x y (map hex_char ds) color db"
proof (cases "val = 0")
  case True
  then show ?thesis by (intro exI [of _ "[0]"]) (simp add: hex_numeral_def draw_u64_db_def hex_char_def)
next
  case False
  have "unat val < 16 ^ 16" by (simp)
  from hex_buf_digits [OF this, of "[]"] False obtain ds where ds: "hex_buf val [] = Some (map hex_char ds)"
    "\<forall>d\<in>set ds. unat d < 16" "foldr (\<lambda>d a. 16 * a + unat d) ds 0 = unat val" "ds \<noteq> []" "last ds \<noteq> 0" by auto
  let ?cs = "map hex_char (rev ds)"
  have "draw_u64_db font x y val color db =
      for_opt (\<lambda>j. draw_string_db font (x + of_nat j * 8) y [map hex_char ds ! (length ds - 1 - j)] color) [0..<length ds] db"
    using False ds(1) by (simp add: draw_u64_db_def Let_def)
  also have "\<dots> = for_opt (\<lambda>j. draw_string_db font (x + of_nat j * 8) y [?cs ! j] color) [0..<length ?cs] db"
    by (simp, rule for_opt_cong) (simp add: rev_nth)
  also have "\<dots> = draw_string_db font x y ?cs color db" by (rule draw_string_db_for)
  finally have "draw_u64_db font x y val color db = draw_string_db font x y ?cs color db" .
  moreover have "hex_numeral (rev ds) val"
    using ds False by (simp add: hex_numeral_def foldl_conv_foldr hd_rev)
  ultimately show ?thesis by blast
qed

lemma draw_u64_db_safe: "psf1 font \<Longrightarrow> db_safe (draw_u64_db font x y val color)"
  using draw_u64_db_numeral [of val font x y color] draw_string_db_safe [of font x y _ color]
  by (metis (no_types, lifting) db_safe_def)

lemma hex_dump_safe: "psf1 font \<Longrightarrow> db_safe (hex_dump_from font x y dat len is color)"
proof (induction "is")
  case Nil
  have "hex_dump_from font x y dat len [] color = Some" by (rule ext) simp
  then show ?case by (simp add: db_safe_Some)
next
  case (Cons i "is")
  let ?s = "[hex_char (drop_bit 4 (dat i) AND 0xF), hex_char (dat i AND 0xF), 32]"
  have eq: "hex_dump_from font x y dat len (i # is) color =
     (\<lambda>db. case draw_string_db font (x + of_nat (i mod 16) * 24) (y + of_nat (i div 16) * 12) ?s color db of None \<Rightarrow> None
         | Some db \<Rightarrow> (if i \<ge> 127 then Some else hex_dump_from font x y dat len is color) db)"
    by (rule ext) (simp add: Let_def split: option.splits)
  have "db_safe (if i \<ge> 127 then Some else hex_dump_from font x y dat len is color)"
    using Cons by (simp add: db_safe_Some)
  then show ?case unfolding eq by (rule db_safe_bind [OF draw_string_db_safe [OF Cons.prems]])
qed

lemma draw_hex_db_safe:
  assumes "psf1 font"
  shows "db_safe (draw_hex_db font x y val color)"
proof -
  let ?f = "\<lambda>i (db, temp). let hex = ucast (temp AND 0xF); c = hex_char hex
         in map_option (\<lambda>db. (db, drop_bit 4 (temp :: u64))) (draw_char_db font (x + of_nat i * 8) y c color db)"
  have "\<exists>db' t'. for_opt ?f is (db, t) = Some (db', t') \<and> db_same db db'" if "db_ok db" for "is" db t
    using that
  proof (induction "is" arbitrary: db t)
    case Nil
    then show ?case by (simp add: db_same_def)
  next
    case (Cons i "is")
    obtain d1 where d1: "draw_char_db font (x + of_nat i * 8) y (hex_char (ucast (t AND 0xF))) color db = Some d1" "db_same db d1"
      using draw_char_db_safe [OF assms] Cons.prems unfolding db_safe_def by blast
    have "db_ok d1" using Cons.prems db_ok_same [OF d1(2)] by simp
    from Cons.IH [OF this, of "drop_bit 4 t"] obtain db' t' where
      r: "for_opt ?f is (d1, drop_bit 4 t) = Some (db', t')" "db_same d1 db'" by blast
    have "?f i (db, t) = Some (d1, drop_bit 4 t)" by (simp only: prod.case Let_def d1(1) option.map)
    then have "for_opt ?f (i # is) (db, t) = Some (db', t')" by (simp only: for_opt.simps option.case r(1))
    moreover have "db_same db db'" using d1(2) r(2) by (simp add: db_same_def)
    ultimately show ?case by blast
  qed
  then show ?thesis unfolding db_safe_def draw_hex_db_def by fastforce
qed

section \<open>Properties\<close>

text \<open>
  C39. No drawing operation of the double buffer panics: on a buffer made for a mode whose scan line
  covers its width (and with the kernel's kind of font), the bounds-checked pixel stores of every operation
  stay inside the pixel vector, for all coordinates and sizes, and the buffer keeps its shape.
\<close>

theorem double_buffer_safe:
  assumes "psf1 font" "unat (horizontal_resolution fb) \<le> unat (pixels_per_scan_line fb)"
    and "unat (vertical_resolution fb) * unat (pixels_per_scan_line fb) < 2 ^ 32"
  shows "db_ok (db_new fb) \<and> db_safe (fill_rect_db x y w h color) \<and> db_safe (draw_rect_db x y w h color)
    \<and> db_safe (draw_char_db font x y c color) \<and> db_safe (draw_string_db font x y cs color)
    \<and> db_safe (draw_u64_db font x y val color) \<and> db_safe (draw_hex_db font x y val color)
    \<and> db_safe (draw_hex_dump font x y mem a len color)"
proof -
  show ?thesis
  proof (intro conjI)
    show "db_ok (db_new fb)"
      using assms(2,3) by (simp add: db_ok_def db_new_def Let_def unat_word_ariths mult.commute)
    have "draw_rect_db x y w h color = fill_rect_db x y w h color"
      by (rule ext) (simp only: draw_rect_db_def fill_rect_db_def)
    then show "db_safe (draw_rect_db x y w h color)" by (simp only: fill_rect_db_safe)
    have "draw_hex_dump font x y mem a len color = hex_dump_from font x y (\<lambda>i. mem (a + of_nat i)) len [0..<len] color"
      by (rule ext) (simp only: draw_hex_dump_def)
    then show "db_safe (draw_hex_dump font x y mem a len color)" by (simp only: hex_dump_safe [OF assms(1)])
  qed (rule fill_rect_db_safe draw_char_db_safe draw_string_db_safe draw_u64_db_safe draw_hex_db_safe assms(1))+
qed

theorem double_buffer_safe_witness:
  "\<exists>db. fill_rect_db 2 1 9 9 7 (db_new \<lparr>frame_buffer = 0x80000000, pixels_per_scan_line = 4, horizontal_resolution = 3, vertical_resolution = 2\<rparr>) = Some db"
proof -
  let ?fb = "\<lparr>frame_buffer = 0x80000000, pixels_per_scan_line = 4, horizontal_resolution = 3, vertical_resolution = 2\<rparr>"
  have f: "psf1 [0x36, 0x04, 2, 16]" by (simp add: psf1_def)
  have "db_ok (db_new ?fb) \<and> db_safe (fill_rect_db 2 1 9 9 7)"
    using double_buffer_safe [OF f, of ?fb 2 1 9 9 7] by simp
  then show ?thesis unfolding db_safe_def by blast
qed

text \<open>
  C40. \<open>draw_u64_db\<close>, which draws digit by digit from a buffer filled from the least significant one, draws
  the same as one call of \<open>draw_string_db\<close> with the hexadecimal numeral of the number, without leading zeros.
\<close>

theorem draw_u64_db_equiv:
  "\<exists>ds. hex_numeral ds val \<and> draw_u64_db font x y val color db = draw_string_db font x y (map hex_char ds) color db"
  by (rule draw_u64_db_numeral)

end
