(* ===== verification/Shell.thy ===== *)
theory Shell imports Futures Fat32 Draw Rust_Text begin

text \<open>
  The boot menu and the debug shell of \<open>kmain\<close> (\<open>kernel/src/main.rs\<close>) with the key maps (\<open>kernel/src/keyboard.rs\<close>): a
  line editor, the commands \<open>cd\<close>, \<open>ls\<close>, \<open>set lba\<close>, \<open>clear\<close> and \<open>reboot\<close>, and the sector viewer. The shell's variables are one
  record; the disk, the devices, the font, the frame buffer and the controller's base are the
  environment. \<open>None\<close> is a panic or a wait that never ends.
\<close>

record console =
  current_y :: u32
  line_height :: u32

record shell =
  sh_db :: double_buffer
  sh_console :: console
  input_buf :: "u8 list"
  input_len :: nat
  debug_lba :: u64
  CURRENT_DIR_CLUSTER :: u32

record 'd shell_env =
  se_io :: "'d disk_io"
  se_bus :: "'d bus"
  se_font :: "u8 list"
  se_fb :: frame_buffer_config
  se_abar :: u64

section \<open>Key maps\<close>

definition KEYMAP :: "u8 list" where
  "KEYMAP =
    [0, 0x1B] @ str ''1234567890-='' @ [8, 9]
    @ str ''qwertyuiop[]'' @ [10, 0] @ str ''as''
    @ str ''dfghjkl;'' @ [39] @ [96, 0, 92] @ str ''zxcv''
    @ str ''bnm,./'' @ [0, 42, 0, 32, 0, 0, 0, 0, 0, 0]
    @ replicate 7 0 @ str ''789-456+1''
    @ str ''230.'' @ replicate 12 0
    @ replicate 16 0
    @ replicate 16 0"

definition SHIFT_KEYMAP :: "u8 list" where
  "SHIFT_KEYMAP =
    [0, 0x1B, 33, 34] @ str ''#$%&'' @ [39] @ str ''()~=+'' @ [8, 9]
    @ str ''QWERTYUIOP{}'' @ [10, 0] @ str ''AS''
    @ str ''DFGHJKL:*~'' @ [0] @ str ''|ZXCV''
    @ str ''BNM<>?'' @ [0, 42, 0, 32, 0, 0, 0, 0, 0, 0]
    @ replicate 7 0 @ str ''789-456+1''
    @ str ''230.'' @ replicate 12 0
    @ replicate 16 0
    @ replicate 16 0"

section \<open>The console\<close>

definition console_new :: console where
  "console_new = \<lparr>current_y = 220, line_height = 20\<rparr>"

definition write_line :: "u8 list \<Rightarrow> u8 list \<Rightarrow> u32 \<Rightarrow> console \<times> double_buffer \<Rightarrow> (console \<times> double_buffer) option" where
  "write_line font text color cd =
     (case cd of (c, db) \<Rightarrow> do {
        db \<leftarrow> draw_string_db font 10 (current_y c) text color db;
        let c = c\<lparr>current_y := current_y c + line_height c\<rparr>;
        if current_y c > 440
        then map_option (\<lambda>db. (c\<lparr>current_y := 220\<rparr>, db)) (fill_rect_db 0 220 800 260 0x000000 db)
        else Some (c, db) })"

definition say :: "'d shell_env \<Rightarrow> u8 list \<Rightarrow> u32 \<Rightarrow> shell \<Rightarrow> shell option" where
  "say env text color sh =
     map_option (\<lambda>(c, db). sh\<lparr>sh_console := c, sh_db := db\<rparr>) (write_line (se_font env) text color (sh_console sh, sh_db sh))"

section \<open>Words and numbers of a command line\<close>

definition whitespace :: "u8 \<Rightarrow> bool" where
  "whitespace b \<longleftrightarrow> (9 \<le> b \<and> b \<le> 13) \<or> b = 32"

text \<open>\<open>split_whitespace\<close> on the ASCII text the key maps can produce.\<close>

function split_whitespace :: "u8 list \<Rightarrow> u8 list list" where
  "split_whitespace cs =
     (let cs = dropWhile whitespace cs in
      if cs = [] then [] else takeWhile (\<lambda>c. \<not> whitespace c) cs # split_whitespace (dropWhile (\<lambda>c. \<not> whitespace c) cs))"
  by pat_completeness auto
termination
proof (relation "measure length")
  fix cs x :: "u8 list"
  assume x: "x = dropWhile whitespace cs" "x \<noteq> []"
  then have "\<not> whitespace (hd x)" using hd_dropWhile [of whitespace cs] by simp
  with x(2) have "length (dropWhile (\<lambda>c. \<not> whitespace c) x) < length x"
    by (cases x) (auto simp: le_imp_less_Suc length_dropWhile_le)
  also have "\<dots> \<le> length cs" by (simp add: x(1) length_dropWhile_le)
  finally show "(dropWhile (\<lambda>c. \<not> whitespace c) x, cs) \<in> measure length" by simp
qed simp

declare split_whitespace.simps [simp del]

text \<open>\<open>u64::from_str_radix\<close>: an optional plus sign, at least one digit, no overflow.\<close>

definition to_digit :: "nat \<Rightarrow> u8 \<Rightarrow> nat option" where
  "to_digit radix c =
     (let d = (if 48 \<le> c \<and> c \<le> 57 then unat c - 48 else if 97 \<le> c \<and> c \<le> 122 then unat c - 87
               else if 65 \<le> c \<and> c \<le> 90 then unat c - 55 else 36)
      in if d < radix then Some d else None)"

fun digits_value :: "nat \<Rightarrow> nat \<Rightarrow> u8 list \<Rightarrow> nat option" where
  "digits_value radix acc [] = Some acc"
| "digits_value radix acc (c # cs) =
     (case to_digit radix c of None \<Rightarrow> None
      | Some d \<Rightarrow> if acc * radix + d < 2 ^ 64 then digits_value radix (acc * radix + d) cs else None)"

definition from_str_radix :: "nat \<Rightarrow> u8 list \<Rightarrow> u64 option" where
  "from_str_radix radix cs =
     (let ds = (if cs \<noteq> [] \<and> hd cs = 43 then tl cs else cs)
      in if ds = [] then None else map_option of_nat (digits_value radix 0 ds))"

definition parse_lba :: "u8 list \<Rightarrow> u64" where
  "parse_lba val_str =
     (if starts_with val_str (str ''0x'') \<or> starts_with val_str (str ''0X'')
      then (case from_str_radix 16 (drop 2 val_str) of Some v \<Rightarrow> v | None \<Rightarrow> 0)
      else (case from_str_radix 10 val_str of Some v \<Rightarrow> v | None \<Rightarrow> 0))"

section \<open>Listing a directory\<close>

text \<open>The text of an entry: its short name, with a slash for a directory.\<close>

definition entry_text :: "u8 list \<Rightarrow> u8 list" where
  "entry_text e = display_name e @ (if entry_attr e AND 0x10 \<noteq> 0 then [47] else [])"

text \<open>One sector's entries; the flag says whether the directory goes on.\<close>

fun list_entries :: "u8 list \<Rightarrow> u8 list \<Rightarrow> nat list \<Rightarrow> console \<times> double_buffer \<Rightarrow> (bool \<times> console \<times> double_buffer) option" where
  "list_entries font sec [] cd = Some (True, cd)"
| "list_entries font sec (j # js) cd =
     (let e = dir_entry sec j in
      if entry_name e ! 0 = 0x00 then Some (False, cd)
      else if entry_name e ! 0 = 0xE5 then list_entries font sec js cd
      else if entry_attr e = 0x0F then list_entries font sec js cd
      else case write_line font (entry_text e) 0xFFFFFF cd of None \<Rightarrow> None
        | Some cd \<Rightarrow> list_entries font sec js cd)"

fun list_sectors ::
  "u8 list \<Rightarrow> 'd disk_io \<Rightarrow> u64 \<Rightarrow> nat list \<Rightarrow> console \<times> double_buffer \<Rightarrow> 'd machine \<Rightarrow> (bool \<times> (console \<times> double_buffer) \<times> 'd machine) option" where
  "list_sectors font io lba [] cd m = Some (True, cd, m)"
| "list_sectors font io lba (i # is) cd m =
     (case io_read io (lba + of_nat i) m of None \<Rightarrow> None
      | Some m \<Rightarrow>
          (case list_entries font (buffer io m) [0..<16] cd of None \<Rightarrow> None
           | Some (True, cd) \<Rightarrow> list_sectors font io lba is cd m
           | Some (False, cd) \<Rightarrow> Some (False, cd, m)))"

partial_function (option) list_directory ::
  "u8 list \<Rightarrow> 'd disk_io \<Rightarrow> simple_fs \<Rightarrow> u32 \<Rightarrow> console \<times> double_buffer \<Rightarrow> 'd machine \<Rightarrow> ((console \<times> double_buffer) \<times> 'd machine) option" where
  "list_directory font io fs current cd m =
     (if live_cluster current
      then case list_sectors font io (get_lba_of_cluster fs current) [0..<unat (sectors_per_clus fs)] cd m of
             None \<Rightarrow> None
           | Some (goes_on, cd, m) \<Rightarrow>
               if goes_on
               then (case read_fat io fs current m of None \<Rightarrow> None
                     | Some (next_c, m) \<Rightarrow> list_directory font io fs next_c cd m)
               else Some (cd, m)
      else Some (cd, m))"

section \<open>Commands\<close>

text \<open>A command leaves the shell running or resets the machine.\<close>

datatype 'd outcome = Continue shell "'d kworld" | Reset "'d machine"

definition main_wait :: "'d bus \<Rightarrow> u64 \<Rightarrow> 'd machine \<Rightarrow> 'd machine" where
  "main_wait bus ms = spin bus (unat (ms * 10000))"

text \<open>\<open>reset_system\<close> never returns; the machine after its port writes, before it faults on purpose.\<close>

definition reset_system :: "'d bus \<Rightarrow> 'd machine \<Rightarrow> 'd machine" where
  "reset_system bus m =
     (let m = out8 bus 0x64 0xFE m;
          port = 0xCF9;
          m = out8 bus port 0x06 m;
          m = main_wait bus 5 m
      in out8 bus port 0x0E m)"

definition arg :: "nat \<Rightarrow> u8 list list \<Rightarrow> u8 list option" where
  "arg i ws = (if i < length ws then Some (ws ! i) else None)"

text \<open>The directory commands start at the current directory, or at the root when there is none.\<close>

definition start_dir :: "simple_fs \<Rightarrow> shell \<Rightarrow> u32" where
  "start_dir fs sh = (if CURRENT_DIR_CLUSTER sh = 0 then root_cluster fs else CURRENT_DIR_CLUSTER sh)"

text \<open>\<open>main.rs\<close> has a copy of its own of \<open>find_directory\<close>, which is the one that the commands call.\<close>

definition main_find_directory ::
  "'d disk_io \<Rightarrow> simple_fs \<Rightarrow> u32 \<Rightarrow> u8 list \<Rightarrow> 'd machine \<Rightarrow> (u32 option \<times> 'd machine) option" where
  "main_find_directory io fs cluster dir_name m = dir_walk io fs (match_directory dir_name) cluster m"

definition set_hw :: "'d machine \<Rightarrow> 'd kworld \<Rightarrow> 'd kworld" where
  "set_hw m w = w\<lparr>hw := m\<rparr>"

definition cmd_cd :: "'d shell_env \<Rightarrow> u8 list list \<Rightarrow> shell \<Rightarrow> 'd kworld \<Rightarrow> (shell \<times> 'd kworld) option" where
  "cmd_cd env ws sh w =
     (let target = (case arg 1 ws of Some t \<Rightarrow> t | None \<Rightarrow> str ''/'') in
      if target = str ''/'' \<or> target = str ''..'' then Some (sh\<lparr>CURRENT_DIR_CLUSTER := 0\<rparr>, w)
      else do {
        (ofs, m) \<leftarrow> fs_init (se_io env) (hw w);
        case ofs of
          None \<Rightarrow> Some (sh, set_hw m w)
        | Some fs \<Rightarrow> do {
            (dir, m) \<leftarrow> main_find_directory (se_io env) fs (start_dir fs sh) target m;
            sh \<leftarrow> (case dir of
                Some dir \<Rightarrow> say env (str ''cd '' @ target) 0x00FF00 (sh\<lparr>CURRENT_DIR_CLUSTER := dir\<rparr>)
              | None \<Rightarrow> say env (str ''Not found'') 0xFF0000 sh);
            Some (sh, set_hw m w) } })"

definition cmd_ls :: "'d shell_env \<Rightarrow> u8 list list \<Rightarrow> shell \<Rightarrow> 'd kworld \<Rightarrow> (shell \<times> 'd kworld) option" where
  "cmd_ls env ws sh w =
     (let target_dir = (case arg 1 ws of Some t \<Rightarrow> t | None \<Rightarrow> []) in
      do {
        (ofs, m) \<leftarrow> fs_init (se_io env) (hw w);
        case ofs of
          None \<Rightarrow> Some (sh, set_hw m w)
        | Some fs \<Rightarrow> do {
            let cluster = start_dir fs sh;
            (cluster, m) \<leftarrow>
              (if target_dir \<noteq> [] then do {
                 (dir, m) \<leftarrow> main_find_directory (se_io env) fs cluster target_dir m;
                 Some (case dir of Some dir \<Rightarrow> dir | None \<Rightarrow> cluster, m) }
               else Some (cluster, m));
            ((c, db), m) \<leftarrow> list_directory (se_font env) (se_io env) fs cluster (sh_console sh, sh_db sh) m;
            Some (sh\<lparr>sh_console := c, sh_db := db\<rparr>, set_hw m w) } })"

definition lba_text :: "u64 \<Rightarrow> u8 list" where
  "lba_text n = fmt_dec n @ str '' (0x'' @ fmt_hex n @ str '')''"

definition cmd_set :: "'d shell_env \<Rightarrow> u8 list list \<Rightarrow> shell \<Rightarrow> shell option" where
  "cmd_set env ws sh =
     (let target = (case arg 1 ws of Some t \<Rightarrow> t | None \<Rightarrow> []) in
      if target = str ''lba'' then
        (case arg 2 ws of
           Some val_str \<Rightarrow>
             let val = parse_lba val_str
             in say env (str ''LBA set to '' @ lba_text val) 0x00FF00 (sh\<lparr>debug_lba := val\<rparr>)
         | None \<Rightarrow> say env (str ''Current LBA: '' @ lba_text (debug_lba sh)) 0x00FF00 sh)
      else say env (str ''Usage: set lba <number>'') 0xFFFF00 sh)"

definition input_line :: "shell \<Rightarrow> u8 list" where
  "input_line sh = take (input_len sh) (input_buf sh)"

text \<open>The Enter key: the line is a command, and then empty.\<close>

definition run_command :: "'d shell_env \<Rightarrow> shell \<Rightarrow> 'd kworld \<Rightarrow> 'd outcome option" where
  "run_command env sh w =
     (let cmd_line = input_line sh;
          sh = sh\<lparr>sh_console := (sh_console sh)\<lparr>current_y := current_y (sh_console sh) + 20\<rparr>\<rparr>;
          ws = split_whitespace cmd_line;
          cmd = (case arg 0 ws of Some c \<Rightarrow> c | None \<Rightarrow> []);
          done = (\<lambda>(sh, w). Continue (sh\<lparr>input_len := 0\<rparr>) w) in
      if cmd = str ''reboot'' then Some (Reset (reset_system (se_bus env) (hw w)))
      else if cmd = str ''clear'' then
        Some (done (sh\<lparr>sh_db := clear_screen_db 0x000000 (sh_db sh), sh_console := (sh_console sh)\<lparr>current_y := 130\<rparr>\<rparr>, w))
      else if cmd = str ''cd'' then map_option done (cmd_cd env ws sh w)
      else if cmd = str ''ls'' then map_option done (cmd_ls env ws sh w)
      else if cmd = str ''set'' then map_option (\<lambda>sh. done (sh, w)) (cmd_set env ws sh)
      else if cmd \<noteq> [] then map_option (\<lambda>sh. done (sh, w)) (say env (str ''Unknown: '' @ cmd) 0xFF0000 sh)
      else Some (done (sh, w)))"

section \<open>Keys\<close>

definition key_char :: "bool \<Rightarrow> u8 \<Rightarrow> u8" where
  "key_char shifted scancode = (if shifted then SHIFT_KEYMAP else KEYMAP) ! unat scancode"

definition type_char :: "bool \<Rightarrow> u8 \<Rightarrow> shell \<Rightarrow> shell" where
  "type_char shifted scancode sh =
     (let c = key_char shifted scancode in
      if c \<noteq> 0 \<and> c \<noteq> 8 \<and> c \<noteq> 10 \<and> input_len sh < 63
      then sh\<lparr>input_buf := (input_buf sh)[input_len sh := c], input_len := input_len sh + 1\<rparr> else sh)"

definition handle_key :: "'d shell_env \<Rightarrow> u8 \<Rightarrow> shell \<Rightarrow> 'd kworld \<Rightarrow> 'd outcome option" where
  "handle_key env scancode sh w =
     (if scancode AND 0x80 = 0 then
        if scancode = 0x4B then
          Some (Continue (if debug_lba sh > 0 then sh\<lparr>debug_lba := debug_lba sh - 1\<rparr> else sh) w)
        else if scancode = 0x4D then
          Some (Continue (if debug_lba sh < 0xFFFFFFFF then sh\<lparr>debug_lba := debug_lba sh + 1\<rparr> else sh) w)
        else if scancode = 0x1C then run_command env sh w
        else if scancode = 0x0E then
          Some (Continue (if input_len sh > 0 then sh\<lparr>input_len := input_len sh - 1\<rparr> else sh) w)
        else Some (Continue (if unat scancode < 0x80 then type_char (IS_SHIFT w) scancode sh else sh) w)
      else Some (Continue sh w))"

section \<open>The screen and the loop\<close>

text \<open>The viewer waits for the disk's command register, without a limit.\<close>

partial_function (option) wait_command_done :: "'d bus \<Rightarrow> u64 \<Rightarrow> 'd machine \<Rightarrow> 'd machine option" where
  "wait_command_done bus ci m = (if reg_rd bus ci m AND 1 \<noteq> 0 then wait_command_done bus ci (spin bus 1 m) else Some m)"

definition view_sector :: "'d shell_env \<Rightarrow> shell \<Rightarrow> 'd machine \<Rightarrow> (shell \<times> 'd machine) option" where
  "view_sector env sh m =
     (let active_port = io_port (se_io env) in
      if active_port \<noteq> -1 then do {
        m \<leftarrow> io_read (se_io env) (debug_lba sh) m;
        m \<leftarrow> wait_command_done (se_bus env) (se_abar env + 0x100 + (scast active_port * 0x80) + 0x38) m;
        db \<leftarrow> draw_hex_dump (se_font env) 10 30 (ram m) (io_data (se_io env)) 128 0x00FFFF (sh_db sh);
        Some (sh\<lparr>sh_db := db\<rparr>, m) }
      else Some (sh, m))"

definition refresh :: "'d shell_env \<Rightarrow> shell \<Rightarrow> 'd kworld \<Rightarrow> (shell \<times> 'd kworld) option" where
  "refresh env sh w = do {
     db \<leftarrow> fill_rect_db 0 0 (horizontal_resolution (se_fb env)) 130 0x111111 (sh_db sh);
     db \<leftarrow> draw_string_db (se_font env) 10 10 (str ''LBA: '' @ lba_text (debug_lba sh)) 0xFFFF00 db;
     (sh, m) \<leftarrow> view_sector env (sh\<lparr>sh_db := db\<rparr>) (hw w);
     let y = current_y (sh_console sh);
     db \<leftarrow> fill_rect_db 0 y (horizontal_resolution (se_fb env)) 20 0x000000 (sh_db sh);
     db \<leftarrow> draw_string_db (se_font env) 10 y (str ''forward@os:~$ '') 0x00FF00 db;
     db \<leftarrow> draw_string_db (se_font env) 130 y (input_line sh) 0xFFFFFF db;
     Some (sh\<lparr>sh_db := db\<rparr>, set_hw (on_ram (db_flip db (se_fb env)) m) w) }"

definition shell_new :: "console \<Rightarrow> double_buffer \<Rightarrow> shell" where
  "shell_new c db = \<lparr>sh_db = db, sh_console = c, input_buf = replicate 64 0, input_len = 0, debug_lba = 0, CURRENT_DIR_CLUSTER = 0\<rparr>"

text \<open>
  The shell as a future: until it finds no key it handles the one it has and draws the screen again. At its
  first poll it draws the screen before it asks for a key (\<open>started\<close>). It is never ready. A reset and an endless
  wait are \<open>None\<close>.
\<close>

partial_function (option) shell_keys :: "'d shell_env \<Rightarrow> shell \<Rightarrow> 'd kworld \<Rightarrow> (shell \<times> 'd kworld) option" where
  "shell_keys env sh w =
     (case poll_shell_key (se_bus env) () w of
        (Ready sc, f, w) \<Rightarrow>
          (case handle_key env sc sh w of
             Some (Continue sh w) \<Rightarrow>
               (case refresh env sh w of None \<Rightarrow> None | Some (sh, w) \<Rightarrow> shell_keys env sh w)
           | _ \<Rightarrow> None)
      | (_, f, w) \<Rightarrow> Some (sh, w))"

definition poll_shell :: "'d shell_env \<Rightarrow> (bool \<times> shell, 'd, unit) poll_fun" where
  "poll_shell env f w =
     (case f of (started, sh) \<Rightarrow>
        (case (if started then Some (sh, w) else refresh env sh w) of
           None \<Rightarrow> (Panicked, f, w)
         | Some (sh, w) \<Rightarrow>
             (case shell_keys env sh w of None \<Rightarrow> (Panicked, (True, sh), w) | Some (sh, w) \<Rightarrow> (Pending, (True, sh), w))))"

section \<open>The boot menu\<close>

definition draw_menu :: "'d shell_env \<Rightarrow> double_buffer \<Rightarrow> double_buffer option" where
  "draw_menu env db = do {
     db \<leftarrow> draw_string_db (se_font env) 150 80 (str ''===================================='') 0x00FF00 db;
     db \<leftarrow> draw_string_db (se_font env) 150 100 (str ''       FORWARD OS BOOT MENU         '') 0xFFFFFF db;
     db \<leftarrow> draw_string_db (se_font env) 150 120 (str ''===================================='') 0x00FF00 db;
     db \<leftarrow> draw_string_db (se_font env) 170 160 (str ''[F1] Standard Boot (Auto sys64)'') 0x888888 db;
     db \<leftarrow> draw_string_db (se_font env) 170 190 (str ''[F2] Debug Shell (Manual AHCI/xHCI)'') 0x00FFFF db;
     draw_string_db (se_font env) 200 450 (str ''PRESS ANY KEY TO START...'') 0xFFFFFF db }"

text \<open>The mode the first key pressed chooses: 1 with F1, 2 with any other.\<close>

partial_function (option) boot_menu :: "'d bus \<Rightarrow> 'd kworld \<Rightarrow> (nat \<times> 'd kworld) option" where
  "boot_menu bus w =
     (case poll_keyboard bus w of
        (Some sc, w) \<Rightarrow>
          if sc \<noteq> 0 \<and> sc AND 0x80 = 0 then Some (if sc = 0x3B then 1 else 2, pause bus w)
          else boot_menu bus (pause bus w)
      | (None, w) \<Rightarrow> boot_menu bus (pause bus w))"

end
