(* ===== verification/Shell_Correct.thy ===== *)
theory Shell_Correct imports Shell begin

text \<open>
  Properties of the debug shell (\<open>Shell\<close>): the fixed-size input buffer implements a line editor on lists, for every
  key and state, and the number a \<open>set lba\<close> command is given, in either notation, is the one the viewer shows next.
\<close>

section \<open>The line editor\<close>

text \<open>The specification: the line as a list of characters.\<close>

definition typed_char :: "u8 \<Rightarrow> bool" where
  "typed_char c \<longleftrightarrow> c \<noteq> 0 \<and> c \<noteq> 8 \<and> c \<noteq> 10"

definition edit_line :: "bool \<Rightarrow> u8 \<Rightarrow> u8 list \<Rightarrow> u8 list" where
  "edit_line shifted sc line =
     (if sc \<ge> 0x80 \<or> sc = 0x4B \<or> sc = 0x4D then line
      else if sc = 0x1C then []
      else if sc = 0x0E then butlast line
      else let c = key_char shifted sc in if typed_char c \<and> length line < 63 then line @ [c] else line)"

definition shell_ok :: "shell \<Rightarrow> bool" where
  "shell_ok sh \<longleftrightarrow> length (input_buf sh) = 64 \<and> input_len sh \<le> 63 \<and> (\<forall>c\<in>set (input_line sh). c < 0x80 \<and> typed_char c)"

lemma keymaps: "length KEYMAP = 128" "length SHIFT_KEYMAP = 128" "list_all (\<lambda>c. c < 0x80) KEYMAP" "list_all (\<lambda>c. c < 0x80) SHIFT_KEYMAP"
  by code_simp+

lemma key_char_ascii: "unat sc < 128 \<Longrightarrow> key_char shifted sc < 0x80"
  using keymaps by (auto simp: key_char_def list_all_length)

lemma make_code: "(sc :: u8) AND 0x80 = 0 \<longleftrightarrow> sc < 0x80"
proof -
  have b: "unat sc < 256" using unsigned_less [of sc] by simp
  have "sc AND 2 ^ 7 \<noteq> 0 \<longleftrightarrow> bit (unat sc) 7" by (simp only: and_exp_iff) (simp add: bit_unsigned_iff)
  also have "\<dots> \<longleftrightarrow> odd (unat sc div 2 ^ 7)" by (rule bit_iff_odd)
  also have "\<dots> \<longleftrightarrow> 128 \<le> unat sc"
  proof (cases "128 \<le> unat sc")
    case True
    then have "unat sc div 2 ^ 7 = 1" using b by (intro div_nat_eqI) simp_all
    with True show ?thesis by simp
  qed simp
  finally show ?thesis by (auto simp: word_less_nat_alt)
qed

lemma input_line_simps [simp]: "input_line (sh\<lparr>debug_lba := v\<rparr>) = input_line sh" "input_line (sh\<lparr>input_len := 0\<rparr>) = []"
  by (simp_all add: input_line_def)

lemma shell_ok_type_char:
  assumes ok: "shell_ok sh" and sc: "unat sc < 128"
  shows "shell_ok (type_char shifted sc sh) \<and> input_line (type_char shifted sc sh)
    = (let c = key_char shifted sc in if typed_char c \<and> length (input_line sh) < 63 then input_line sh @ [c] else input_line sh)"
proof -
  let ?c = "key_char shifted sc"
  have len: "length (input_line sh) = input_len sh" using ok by (simp add: input_line_def shell_ok_def)
  show ?thesis
  proof (cases "typed_char ?c \<and> input_len sh < 63")
    case True
    let ?sh = "sh\<lparr>input_buf := (input_buf sh)[input_len sh := ?c], input_len := input_len sh + 1\<rparr>"
    have "type_char shifted sc sh = ?sh" using True by (simp add: type_char_def typed_char_def)
    moreover have "input_line ?sh = input_line sh @ [?c]"
      using True ok by (simp add: input_line_def shell_ok_def take_Suc_conv_app_nth)
    ultimately show ?thesis using True ok key_char_ascii [OF sc, of shifted] len by (simp add: shell_ok_def)
  next
    case False
    then have "type_char shifted sc sh = sh" by (auto simp: type_char_def typed_char_def)
    with False ok len show ?thesis by (auto simp: Let_def)
  qed
qed

lemma shell_ok_backspace:
  assumes ok: "shell_ok sh"
  defines "sh' \<equiv> if input_len sh > 0 then sh\<lparr>input_len := input_len sh - 1\<rparr> else sh"
  shows "shell_ok sh' \<and> input_line sh' = butlast (input_line sh)"
proof (cases "input_len sh > 0")
  case True
  have l: "input_line sh' = butlast (input_line sh)"
    using True ok by (simp add: sh'_def input_line_def shell_ok_def butlast_take)
  then have "shell_ok sh'" using ok True by (auto simp: shell_ok_def sh'_def dest: in_set_butlastD)
  with l show ?thesis by simp
qed (use ok in \<open>simp add: sh'_def input_line_def\<close>)

text \<open>Drawing a line does not touch the input.\<close>

lemma say_input: "say env text color sh = Some sh' \<Longrightarrow> input_buf sh' = input_buf sh \<and> debug_lba sh' = debug_lba sh"
  by (auto simp: say_def)

lemma run_command_input:
  assumes "run_command env sh w = Some (Continue sh' w')"
  shows "input_buf sh' = input_buf sh \<and> input_len sh' = 0"
  using assms
  by (auto simp: run_command_def cmd_cd_def cmd_ls_def cmd_set_def Let_def dest!: say_input
      split: if_splits option.splits Option.bind_splits prod.splits)

text \<open>C16. The shell's fixed buffer is a line editor. Whatever key comes, in any state of the shell with at most 63 characters of
  plain ASCII in its buffer, the next state has at most 63 characters of ASCII again, and its line is what the
  editor on lists makes of the old one: a character key appends its character, with the shift state's map, unless
  the line is full; backspace drops the last; Enter empties it; release codes and the arrow keys leave it. Only
  Enter, whose command may reset the machine, can fail to come back.\<close>

theorem shell_line_editor:
  assumes "shell_ok sh"
  shows "case handle_key env sc sh w of
      Some (Continue sh' w') \<Rightarrow> shell_ok sh' \<and> input_line sh' = edit_line (IS_SHIFT w) sc (input_line sh)
    | _ \<Rightarrow> sc = 0x1C"
proof (cases "sc < 0x80")
  case False
  then show ?thesis using assms by (simp add: handle_key_def make_code edit_line_def leI)
next
  case True
  then have sc: "unat sc < 128" by (simp add: word_less_nat_alt)
  note key = handle_key_def make_code True
  consider "sc = 0x4B" | "sc = 0x4D" | "sc = 0x1C" | "sc = 0x0E" | "sc \<notin> {0x4B, 0x4D, 0x1C, 0x0E}" by blast
  then show ?thesis
  proof cases
    case 1
    then show ?thesis using assms by (simp add: key edit_line_def shell_ok_def)
  next
    case 2
    then show ?thesis using assms by (simp add: key edit_line_def shell_ok_def)
  next
    case 3
    then show ?thesis
      using assms run_command_input [of env sh w]
      by (auto simp: key edit_line_def shell_ok_def input_line_def split: option.split outcome.split)
  next
    case 4
    then show ?thesis using shell_ok_backspace [OF assms] by (simp add: key edit_line_def)
  next
    case 5
    then show ?thesis using shell_ok_type_char [OF assms sc] True sc by (simp add: key edit_line_def Let_def not_le)
  qed
qed

definition sample_shell :: shell where
  "sample_shell = shell_new console_new \<lparr>vram_shadow = [], db_width = 0, db_height = 0, scanline = 0\<rparr>"

definition sample_env :: "nat shell_env" where
  "sample_env = \<lparr>se_io = \<lparr>io_port = -1, io_data = 0, io_read = (\<lambda>_ m. Some m), io_write = (\<lambda>_ m. Some m), io_spin = (\<lambda>_ m. m)\<rparr>,
     se_bus = tick_bus, se_font = [], se_fb = \<lparr>frame_buffer = 0, pixels_per_scan_line = 0, horizontal_resolution = 0, vertical_resolution = 0\<rparr>,
     se_abar = 0\<rparr>"

theorem shell_line_editor_witness:
  "case handle_key sample_env 0x1E sample_shell demo_world of
     Some (Continue sh' w') \<Rightarrow> input_line sh' = str ''a''
   | _ \<Rightarrow> False"
proof -
  have ok: "shell_ok sample_shell"
    by (simp add: shell_ok_def sample_shell_def shell_new_def input_line_def del: replicate.simps)
  have e: "edit_line (IS_SHIFT demo_world) 0x1E (input_line sample_shell) = str ''a''" by code_simp
  show ?thesis
    using shell_line_editor [OF ok, where env = sample_env and sc = "0x1E" and w = demo_world] e
    by (simp split: option.splits outcome.splits)
qed

section \<open>Numbers typed at the prompt\<close>

lemma to_digit_char: "d < r \<Longrightarrow> r \<le> 16 \<Longrightarrow> to_digit r (digit_char d) = Some d"
proof -
  have "list_all (\<lambda>d. to_digit 16 (digit_char d) = Some d) [0..<16]" by code_simp
  moreover assume "d < r" "r \<le> 16"
  ultimately have "to_digit 16 (digit_char d) = Some d" by (simp add: list_all_iff)
  with \<open>d < r\<close> \<open>r \<le> 16\<close> show ?thesis by (auto simp: to_digit_def Let_def split: if_splits)
qed

lemma foldl_digits_ge: "2 \<le> (r :: nat) \<Longrightarrow> acc \<le> foldl (\<lambda>n d. n * r + d) acc ds"
proof (induction ds arbitrary: acc)
  case (Cons d ds)
  have "acc * 1 \<le> acc * r" using Cons.prems by (intro mult_le_mono2) simp
  then have "acc \<le> acc * r + d" unfolding mult_1_right by (rule trans_le_add1)
  also have "\<dots> \<le> foldl (\<lambda>n d. n * r + d) (acc * r + d) ds" by (rule Cons.IH [OF Cons.prems])
  finally show ?case by simp
qed simp

lemma digits_value_map:
  assumes "2 \<le> r" "r \<le> 16" "\<forall>d\<in>set ds. d < r" "foldl (\<lambda>n d. n * r + d) acc ds < 2 ^ 64"
  shows "digits_value r acc (map digit_char ds) = Some (foldl (\<lambda>n d. n * r + d) acc ds)"
  using assms
proof (induction ds arbitrary: acc)
  case (Cons d ds)
  have "acc * r + d \<le> foldl (\<lambda>n d. n * r + d) (acc * r + d) ds" by (rule foldl_digits_ge [OF Cons.prems(1)])
  also have "\<dots> < 2 ^ 64" using Cons.prems(4) by simp
  finally have "acc * r + d < 2 ^ 64" .
  then show ?case using Cons by (simp add: to_digit_char)
qed simp

lemma foldl_digits: "2 \<le> r \<Longrightarrow> foldl (\<lambda>n d. n * r + d) 0 (digits r n) = n"
proof (induction r n rule: digits.induct)
  case (1 r n)
  show ?case
  proof (cases "n < r")
    case True
    then show ?thesis by (subst digits.simps) simp
  next
    case False
    then have "digits r n = digits r (n div r) @ [n mod r]" using 1(2) by (subst digits.simps) simp
    with 1 False show ?thesis by simp
  qed
qed

lemma digits_ne: "digits r n \<noteq> []"
  by (subst digits.simps) simp

lemma digit_char_range: "d < 16 \<Longrightarrow> 48 \<le> digit_char d \<and> digit_char d \<le> 70"
proof -
  have "list_all (\<lambda>d. 48 \<le> digit_char d \<and> digit_char d \<le> 70) [0..<16]" by code_simp
  then show "d < 16 \<Longrightarrow> 48 \<le> digit_char d \<and> digit_char d \<le> 70" by (simp add: list_all_iff)
qed

lemma from_str_radix_digits:
  assumes "2 \<le> r" "r \<le> 16"
  shows "from_str_radix r (map digit_char (digits r (unat (n :: u64)))) = Some n"
proof -
  have ds: "\<forall>d\<in>set (digits r (unat n)). d < r" using digits_less [OF assms(1)] by blast
  obtain d ds' where d: "digits r (unat n) = d # ds'" using digits_ne by (cases "digits r (unat n)") auto
  have "digit_char d \<noteq> 43" using digit_char_range [of d] ds assms(2) by (auto simp: d)
  then have "from_str_radix r (map digit_char (digits r (unat n)))
      = map_option of_nat (digits_value r 0 (map digit_char (digits r (unat n))))"
    by (simp add: from_str_radix_def d)
  also have "digits_value r 0 (map digit_char (digits r (unat n))) = Some (unat n)"
    using digits_value_map [OF assms ds, of 0] foldl_digits [OF assms(1), of "unat n"] by simp
  finally show ?thesis by simp
qed

lemma dropWhile_none: "\<forall>c\<in>set cs. \<not> P c \<Longrightarrow> dropWhile P cs = cs"
  by (cases cs) auto

lemma split_whitespace_word:
  assumes "cs \<noteq> []" "\<forall>c\<in>set cs. \<not> whitespace c"
  shows "split_whitespace (cs @ 32 # rest) = cs # split_whitespace rest" "split_whitespace cs = [cs]"
proof -
  have sp: "whitespace 32" by (simp add: whitespace_def)
  have hd: "\<not> whitespace (hd cs)" using assms by simp
  have drop: "dropWhile whitespace (cs @ zs) = cs @ zs" for zs using assms(1) hd by (cases cs) simp_all
  have stop: "takeWhile (\<lambda>c. \<not> whitespace c) (cs @ 32 # zs) = cs" "dropWhile (\<lambda>c. \<not> whitespace c) (cs @ 32 # zs) = 32 # zs"
    "takeWhile (\<lambda>c. \<not> whitespace c) cs = cs" "dropWhile (\<lambda>c. \<not> whitespace c) cs = []" for zs
    using assms(2) sp by (simp_all add: takeWhile_append2 dropWhile_append2)
  have "dropWhile whitespace (32 # rest) = dropWhile whitespace rest" using sp by simp
  then have skip: "split_whitespace (32 # rest) = split_whitespace rest"
    by (simp only: split_whitespace.simps [of "32 # rest"] split_whitespace.simps [of rest])
  have "cs @ 32 # rest \<noteq> []" by simp
  then show "split_whitespace (cs @ 32 # rest) = cs # split_whitespace rest"
    by (simp only: split_whitespace.simps [of "cs @ 32 # rest"] Let_def drop stop skip if_False)
  have "split_whitespace [] = []" by (simp add: split_whitespace.simps)
  then show "split_whitespace cs = [cs]"
    using assms(1) drop [of "[]"] by (simp only: split_whitespace.simps [of cs] Let_def append_Nil2 stop if_False)
qed

lemma set_lba_words:
  assumes "cs \<noteq> []" "\<forall>c\<in>set cs. \<not> whitespace c"
  shows "split_whitespace (str ''set lba '' @ cs) = [str ''set'', str ''lba'', cs]"
proof -
  have w: "\<forall>c\<in>set (str ''set''). \<not> whitespace c" "\<forall>c\<in>set (str ''lba''). \<not> whitespace c" "str ''set'' \<noteq> []" "str ''lba'' \<noteq> []"
    by (simp_all add: str_def whitespace_def)
  have e: "str ''set lba '' @ cs = str ''set'' @ 32 # str ''lba'' @ 32 # cs" by (simp add: str_def)
  show ?thesis unfolding e by (simp only: split_whitespace_word(1) [OF w(3,1)] split_whitespace_word(1) [OF w(4,2)] split_whitespace_word(2) [OF assms])
qed

lemma digits_no_space:
  assumes "2 \<le> r" "r \<le> 16" "c \<in> set (map digit_char (digits r n))"
  shows "\<not> whitespace c" "c \<noteq> 120" "c \<noteq> 88"
proof -
  obtain d where d: "c = digit_char d" "d < r" using assms(1,3) digits_less by auto
  with assms(2) digit_char_range [of d] have "48 \<le> c \<and> c \<le> 70" by simp
  then have "48 \<le> unat c" "unat c \<le> 70" by (simp_all add: word_le_nat_alt)
  then show "\<not> whitespace c" "c \<noteq> 120" "c \<noteq> 88" by (auto simp: whitespace_def word_le_nat_alt)
qed

lemma parse_lba_dec: "parse_lba (fmt_dec n) = n"
proof -
  have no: "c \<in> set (fmt_dec n) \<Longrightarrow> c \<noteq> 120 \<and> c \<noteq> 88" for c
    using digits_no_space [of 10 c "unat n"] by (simp add: fmt_dec_def)
  have "\<not> starts_with (fmt_dec n) [48, x]" if "x \<in> {120, 88}" for x
  proof
    assume s: "starts_with (fmt_dec n) [48, x]"
    then have "x \<in> set (take 2 (fmt_dec n))" by (simp add: starts_with_def numeral_2_eq_2)
    then have "x \<in> set (fmt_dec n)" by (rule in_set_takeD)
    with no that show False by blast
  qed
  then show ?thesis
    using from_str_radix_digits [of 10 n] by (simp add: parse_lba_def str_def fmt_dec_def)
qed

lemma parse_lba_hex: "parse_lba (str ''0x'' @ fmt_hex n) = n"
  using from_str_radix_digits [of 16 n] by (simp add: parse_lba_def str_def starts_with_def fmt_hex_def)

text \<open>Printing on a buffer that fits its mode never fails.\<close>

lemma say_total:
  assumes "psf1 (se_font env)" "db_ok (sh_db sh)"
  shows "\<exists>c db. say env text color sh = Some (sh\<lparr>sh_console := c, sh_db := db\<rparr>)"
proof -
  obtain db where db: "draw_string_db (se_font env) 10 (current_y (sh_console sh)) text color (sh_db sh) = Some db"
      "db_same (sh_db sh) db"
    using draw_string_db_safe [OF assms(1)] assms(2) unfolding db_safe_def by blast
  have "db_ok db" using db_ok_same [OF db(2)] assms(2) by simp
  then obtain db2 where "fill_rect_db 0 220 800 260 0 db = Some db2"
    using fill_rect_db_safe unfolding db_safe_def by blast
  with db(1) show ?thesis by (cases "current_y (sh_console sh) + line_height (sh_console sh) > 440") (auto simp: say_def write_line_def Let_def)
qed

text \<open>C31. A sector number survives the prompt: with the line \<open>set lba\<close> and any 64-bit number, in decimal or in hexadecimal
  as the shell itself prints it, Enter sets the viewer to that very number, empties the line and keeps the
  shell running.\<close>

theorem set_lba_command:
  assumes "psf1 (se_font env)" "db_ok (sh_db sh)"
    and "input_line sh = str ''set lba '' @ fmt_dec n \<or> input_line sh = str ''set lba 0x'' @ fmt_hex n"
  shows "\<exists>sh'. handle_key env 0x1C sh w = Some (Continue sh' w) \<and> debug_lba sh' = n \<and> input_line sh' = []"
proof -
  define cs where "cs = (if input_line sh = str ''set lba '' @ fmt_dec n then fmt_dec n else str ''0x'' @ fmt_hex n)"
  have line: "input_line sh = str ''set lba '' @ cs" using assms(3) by (auto simp: cs_def str_def)
  have val: "parse_lba cs = n" using parse_lba_dec parse_lba_hex by (simp add: cs_def)
  have ne: "cs \<noteq> []" by (simp add: cs_def fmt_dec_def digits_ne str_def)
  have sp: "\<forall>c\<in>set cs. \<not> whitespace c"
    using digits_no_space(1) [of 10 _ "unat n"] digits_no_space(1) [of 16 _ "unat n"]
    by (auto simp: cs_def fmt_dec_def fmt_hex_def str_def whitespace_def)
  let ?sh = "sh\<lparr>sh_console := (sh_console sh)\<lparr>current_y := current_y (sh_console sh) + 20\<rparr>, debug_lba := n\<rparr>"
  have "\<exists>c db. say env (str ''LBA set to '' @ lba_text n) 0x00FF00 ?sh = Some (?sh\<lparr>sh_console := c, sh_db := db\<rparr>)"
    by (rule say_total) (use assms(1,2) in simp_all)
  then obtain c db where said: "say env (str ''LBA set to '' @ lba_text n) 0x00FF00 ?sh = Some (?sh\<lparr>sh_console := c, sh_db := db\<rparr>)"
    by blast
  have cmds: "str ''set'' \<noteq> str ''reboot''" "str ''set'' \<noteq> str ''clear''" "str ''set'' \<noteq> str ''cd''" "str ''set'' \<noteq> str ''ls''"
    by (simp_all add: str_def)
  have "run_command env sh w = Some (Continue (?sh\<lparr>sh_console := c, sh_db := db, input_len := 0\<rparr>) w)"
    using said cmds
    by (simp add: run_command_def Let_def line set_lba_words [OF ne sp] arg_def cmd_set_def val)
  then show ?thesis by (simp add: handle_key_def make_code input_line_def)
qed

theorem set_lba_command_witness:
  "\<exists>sh'. handle_key (sample_env\<lparr>se_font := [0x36, 0x04, 0, 0]\<rparr>) 0x1C
      (sample_shell\<lparr>input_buf := str ''set lba 0x800'' @ replicate 51 0, input_len := 13\<rparr>) demo_world
    = Some (Continue sh' demo_world) \<and> debug_lba sh' = 2048"
proof -
  let ?sh = "sample_shell\<lparr>input_buf := str ''set lba 0x800'' @ replicate 51 0, input_len := 13\<rparr>"
  have f: "psf1 (se_font (sample_env\<lparr>se_font := [0x36, 0x04, 0, 0]\<rparr>))" by (simp add: psf1_def)
  have d: "db_ok (sh_db ?sh)" by (simp add: db_ok_def sample_shell_def shell_new_def)
  have l: "input_line ?sh = str ''set lba '' @ fmt_dec 2048 \<or> input_line ?sh = str ''set lba 0x'' @ fmt_hex 2048"
    by code_simp
  from set_lba_command [OF f d l] show ?thesis by blast
qed

end
