(* ===== verification/Boot_Memory.thy ===== *)
theory Boot_Memory imports Ram_Manager begin

text \<open>
  The memory part of \<open>kmain\<close> (\<open>kernel/src/main.rs\<close>): the UEFI memory map that the boot loader
  hands over is read twice, once to count the conventional memory and once to free its sectors
  in the bitmap at \<open>0x2000000\<close>; then the AHCI structures and the heap are allocated. The map is
  read from the same memory the bitmap is written to.
\<close>

record mmap_config =
  mm_ptr :: u64
  mm_len :: u64
  mm_desc_size :: u64

text \<open>\<open>mmap.len / mmap.desc_size\<close> panics on a descriptor size of 0.\<close>

definition desc_count :: "mmap_config \<Rightarrow> nat option" where
  "desc_count mmap = (if mm_desc_size mmap = 0 then None
                      else Some (unat (mm_len mmap div mm_desc_size mmap)))"

definition desc_addr :: "mmap_config \<Rightarrow> nat \<Rightarrow> u64" where
  "desc_addr mmap i = mm_ptr mmap + of_nat i * mm_desc_size mmap"

definition desc_type :: "memory \<Rightarrow> u64 \<Rightarrow> u32" where "desc_type mem desc = rd32 mem desc"
definition desc_start :: "memory \<Rightarrow> u64 \<Rightarrow> u64" where "desc_start mem desc = rd64 mem (desc + 8)"
definition desc_pages :: "memory \<Rightarrow> u64 \<Rightarrow> u64" where "desc_pages mem desc = rd64 mem (desc + 24)"

definition sum_ram :: "mmap_config \<Rightarrow> memory \<Rightarrow> nat \<Rightarrow> u64" where
  "sum_ram mmap mem count =
     fold (\<lambda>i total_ram. let desc = desc_addr mmap i in
             if desc_type mem desc = 7 then total_ram + desc_pages mem desc * 4096 else total_ram)
       [0..<count] 0"

definition free_desc :: "ram_manager \<Rightarrow> u64 \<Rightarrow> u64 \<Rightarrow> memory \<Rightarrow> memory" where
  "free_desc mgr start n mem =
     fold (\<lambda>j m. let addr = start + of_nat j * 4096 in
             if addr \<ge> 0x4000000 then mark_free mgr (unat (addr div 4096)) m else m)
       [0..<unat n] mem"

definition free_conventional :: "mmap_config \<Rightarrow> ram_manager \<Rightarrow> nat \<Rightarrow> memory \<Rightarrow> memory" where
  "free_conventional mmap mgr count mem =
     fold (\<lambda>i m. let desc = desc_addr mmap i in
             if desc_type m desc = 7 then free_desc mgr (desc_start m desc) (desc_pages m desc) m
             else m)
       [0..<count] mem"

definition init_ram :: "mmap_config \<Rightarrow> memory \<Rightarrow> (ram_manager \<times> memory) option" where
  "init_ram mmap mem =
     (case desc_count mmap of None \<Rightarrow> None
      | Some count \<Rightarrow>
          let total_ram = sum_ram mmap mem count;
              (ram_mgr, mem1) = ram_new 0x2000000 total_ram mem
          in Some (ram_mgr, free_conventional mmap ram_mgr count mem1))"

text \<open>
  The two allocations after it; \<open>expect\<close> panics when there is no room. The result holds the
  address of the AHCI structures and the one of the heap, which is \<open>16384 * 4096\<close> bytes long.
\<close>

definition boot_memory :: "mmap_config \<Rightarrow> memory \<Rightarrow> (ram_manager \<times> u64 \<times> u64 \<times> memory) option" where
  "boot_memory mmap mem =
     do { (m, mem) \<leftarrow> init_ram mmap mem;
          (case allocate_sectors m 4 mem of
             (None, _) \<Rightarrow> None
           | (Some ahci_mem_common, mem) \<Rightarrow>
               (case allocate_sectors m 16384 mem of
                  (None, _) \<Rightarrow> None
                | (Some heap, mem) \<Rightarrow> Some (m, ahci_mem_common, heap, mem))) }"

section \<open>The fresh bitmap\<close>

lemma ram_new_mgr: "fst (ram_new b t mem) = \<lparr>bitmap = b, total_sectors = unat (t div 4096)\<rparr>"
  by (simp add: ram_new_def Let_def PAGE_SIZE_def)

lemma ram_new_bitmap: "bitmap (fst (ram_new b t mem)) = b"
  by (simp add: ram_new_mgr)

lemma ram_new_ok: "ram_ok (fst (ram_new b t mem))"
proof -
  have "unat (t div 4096) = unat t div 4096" by (simp add: unat_div)
  moreover have "unat t < 2 ^ 64" using unat_lt_u64 [of t] by simp
  ultimately show ?thesis
    using less_mult_imp_div_less [of "unat t" "2 ^ 52" 4096] by (simp add: ram_ok_def ram_new_mgr)
qed

lemma fold_store_ones:
  "fold (\<lambda>i m. m(b + of_nat i := v)) [0..<n] mem x = (if \<exists>i<n. x = b + of_nat i then v else mem x)"
  for mem :: memory
  by (induction n) (auto simp: less_Suc_eq)

lemma ram_new_mem:
  "snd (ram_new b t mem) = fill_bytes b (bitmap_bytes (fst (ram_new b t mem))) 0xFF mem"
proof
  fix x
  let ?n = "bitmap_bytes (fst (ram_new b t mem))"
  have n: "?n < 2 ^ 64"
    using ram_new_ok [of b t mem] by (simp add: bitmap_bytes_def ram_ok_def)
  have "(\<exists>i<?n. x = b + of_nat i) \<longleftrightarrow> in_region b ?n x"
    using n by (auto elim!: in_regionE)
  then show "snd (ram_new b t mem) x = fill_bytes b ?n 0xFF mem x"
    by (simp add: ram_new_def Let_def PAGE_SIZE_def bitmap_bytes_def fold_store_ones fill_bytes_def)
qed

lemma bit_FF: "n < 8 \<Longrightarrow> bit (0xFF :: u8) n"
proof -
  have ones: "(0xFF :: u8) = - 1" by simp
  show "n < 8 \<Longrightarrow> ?thesis" by (simp only: ones bit_minus_1_iff) simp
qed

lemma ram_new_all_used: "is_used (fst (ram_new b t mem)) k (snd (ram_new b t mem))"
proof (cases "k < total_sectors (fst (ram_new b t mem))")
  case True
  with bitmap_byte_in [OF ram_new_ok True]
  show ?thesis
    using bit_FF [of "k mod 8"]
    by (simp add: is_used_bit ram_new_mem fill_bytes_def in_bitmap_def ram_new_bitmap)
qed simp

section \<open>Freeing the conventional memory\<close>

lemma unat_page_of: "unat a + j * 4096 < 2 ^ 64 \<Longrightarrow>
   unat ((a + of_nat j * 4096) div 4096) = unat a div 4096 + j" for a :: u64
proof -
  assume h: "unat a + j * 4096 < 2 ^ 64"
  then have "unat (of_nat j * 4096 :: u64) = j * 4096"
    by (simp add: unat_word_ariths take_bit_nat_eq_self unat_of_nat)
  with h have "unat (a + of_nat j * 4096) = unat a + j * 4096"
    by (simp add: unat_word_ariths)
  then show ?thesis by (simp add: unat_div)
qed

definition desc_sectors :: "u64 \<Rightarrow> u64 \<Rightarrow> nat \<Rightarrow> bool" where
  "desc_sectors start n k \<longleftrightarrow> in_run (unat start div 4096) (unat n) k"

lemma addr_ge_iff:
  assumes "unat a + j * 4096 < 2 ^ 64"
  shows "(0x4000000 :: u64) \<le> a + of_nat j * 4096 \<longleftrightarrow> 0x4000 \<le> unat a div 4096 + j"
proof -
  have "(0x4000000 :: u64) \<le> a + of_nat j * 4096 \<longleftrightarrow> 0x4000000 \<le> unat (a + of_nat j * 4096)"
    by (simp add: word_le_nat_alt)
  also have "\<dots> \<longleftrightarrow> 0x4000 \<le> unat (a + of_nat j * 4096) div 4096"
    by (simp add: less_eq_div_iff_mult_less_eq)
  also have "unat (a + of_nat j * 4096) div 4096 = unat a div 4096 + j"
    using unat_page_of [OF assms] by (simp add: unat_div)
  finally show ?thesis .
qed

lemma free_desc_used:
  assumes "ram_ok mgr" "unat start + unat n * 4096 \<le> 2 ^ 64"
  shows "is_used mgr k (free_desc mgr start n mem) \<longleftrightarrow>
    is_used mgr k mem \<and> \<not> (k < total_sectors mgr \<and> 0x4000 \<le> k \<and> desc_sectors start n k)"
proof -
  let ?f = "\<lambda>j m. let addr = start + of_nat j * 4096 in
             if addr \<ge> 0x4000000 then mark_free mgr (unat (addr div 4096)) m else m"
  have "is_used mgr k (fold ?f [0..<m] mem) \<longleftrightarrow>
      is_used mgr k mem \<and> \<not> (k < total_sectors mgr \<and> 0x4000 \<le> k \<and> in_run (unat start div 4096) m k)"
    if "m \<le> unat n" for m
    using that
  proof (induction m)
    case 0
    then show ?case by simp
  next
    case (Suc m)
    then have b: "unat start + m * 4096 < 2 ^ 64" using assms(2) by simp
    from Suc show ?case
      using unat_page_of [OF b] addr_ge_iff [OF b] assms(1)
      by (auto simp: Let_def is_used_mark_free_iff in_run_Suc)
  qed
  from this [of "unat n"] show ?thesis by (simp add: free_desc_def desc_sectors_def)
qed

lemma free_desc_frame:
  assumes "ram_ok mgr" "\<not> in_bitmap mgr x"
  shows "free_desc mgr start n mem x = mem x"
proof -
  have "fold (\<lambda>j m. let addr = start + of_nat j * 4096 in
             if addr \<ge> 0x4000000 then mark_free mgr (unat (addr div 4096)) m else m) [0..<m] mem x
     = mem x" for m
    by (induction m) (simp_all add: Let_def mark_free_frame [OF assms])
  then show ?thesis by (simp add: free_desc_def)
qed

section \<open>The map as the boot code finds it\<close>

text \<open>
  What UEFI guarantees of the map and of its place: the descriptors' bytes that the code reads
  do not overlap the bitmap, no region wraps, and the conventional memory fits the 32 MiB of
  bitmap below \<open>0x4000000\<close> (one tebibyte).
\<close>

definition desc_clear :: "ram_manager \<Rightarrow> u64 \<Rightarrow> bool" where
  "desc_clear mgr desc \<longleftrightarrow> (\<forall>i<32. \<not> in_bitmap mgr (desc + of_nat i))"

definition desc_fits :: "memory \<Rightarrow> u64 \<Rightarrow> bool" where
  "desc_fits mem desc \<longleftrightarrow> unat (desc_start mem desc) + unat (desc_pages mem desc) * 4096 \<le> 2 ^ 64"

definition is_conventional :: "mmap_config \<Rightarrow> memory \<Rightarrow> nat \<Rightarrow> nat \<Rightarrow> bool" where
  "is_conventional mmap mem count k \<longleftrightarrow>
     (\<exists>i<count. desc_type mem (desc_addr mmap i) = 7 \<and>
        desc_sectors (desc_start mem (desc_addr mmap i)) (desc_pages mem (desc_addr mmap i)) k)"

definition map_ok :: "mmap_config \<Rightarrow> memory \<Rightarrow> nat \<Rightarrow> ram_manager \<Rightarrow> bool" where
  "map_ok mmap mem count mgr \<longleftrightarrow>
     (\<forall>i<count. desc_clear mgr (desc_addr mmap i) \<and> desc_fits mem (desc_addr mmap i))"

lemma desc_cong:
  assumes clear: "desc_clear mgr d" and frame: "\<And>x. \<not> in_bitmap mgr x \<Longrightarrow> mem' x = mem x"
  shows "desc_type mem' d = desc_type mem d"
    "desc_start mem' d = desc_start mem d" "desc_pages mem' d = desc_pages mem d"
proof -
  have same: "mem' (d + of_nat i) = mem (d + of_nat i)" if "i < 32" for i
    using clear that by (simp add: frame desc_clear_def)
  show "desc_type mem' d = desc_type mem d"
    unfolding desc_type_def by (rule rd32_cong) (simp add: same)
  have "mem' (d + 8 + of_nat i) = mem (d + 8 + of_nat i)" if "i < 8" for i
    using same [of "8 + i"] that by (simp add: add.assoc)
  then show "desc_start mem' d = desc_start mem d" unfolding desc_start_def by (rule rd64_cong)
  have "mem' (d + 24 + of_nat i) = mem (d + 24 + of_nat i)" if "i < 8" for i
    using same [of "24 + i"] that by (simp add: add.assoc)
  then show "desc_pages mem' d = desc_pages mem d" unfolding desc_pages_def by (rule rd64_cong)
qed

lemma free_conventional_spec:
  assumes ok: "ram_ok mgr" and map: "map_ok mmap mem0 count mgr"
    and frame: "\<And>x. \<not> in_bitmap mgr x \<Longrightarrow> mem x = mem0 x"
  shows "(\<forall>x. \<not> in_bitmap mgr x \<longrightarrow> free_conventional mmap mgr count mem x = mem0 x) \<and>
    (is_used mgr k (free_conventional mmap mgr count mem) \<longleftrightarrow> is_used mgr k mem \<and>
       \<not> (k < total_sectors mgr \<and> 0x4000 \<le> k \<and> is_conventional mmap mem0 count k))"
  using map
proof (induction count)
  case 0
  then show ?case by (simp add: free_conventional_def is_conventional_def frame)
next
  case (Suc c)
  let ?m = "free_conventional mmap mgr c mem" and ?d = "desc_addr mmap c"
  from Suc.prems have IH: "(\<forall>x. \<not> in_bitmap mgr x \<longrightarrow> ?m x = mem0 x) \<and>
      (is_used mgr k ?m \<longleftrightarrow> is_used mgr k mem \<and>
       \<not> (k < total_sectors mgr \<and> 0x4000 \<le> k \<and> is_conventional mmap mem0 c k))"
    by (intro Suc.IH) (simp add: map_ok_def)
  from Suc.prems have d: "desc_clear mgr ?d" and f: "desc_fits mem0 ?d"
    by (auto simp: map_ok_def)
  have rd: "desc_type ?m ?d = desc_type mem0 ?d" "desc_start ?m ?d = desc_start mem0 ?d"
      "desc_pages ?m ?d = desc_pages mem0 ?d"
    using desc_cong [OF d, of ?m mem0] IH by auto
  have step: "free_conventional mmap mgr (Suc c) mem =
     (if desc_type mem0 ?d = 7 then free_desc mgr (desc_start mem0 ?d) (desc_pages mem0 ?d) ?m else ?m)"
    using rd by (simp add: free_conventional_def Let_def)
  have conv: "is_conventional mmap mem0 (Suc c) k \<longleftrightarrow> is_conventional mmap mem0 c k \<or>
      desc_type mem0 ?d = 7 \<and> desc_sectors (desc_start mem0 ?d) (desc_pages mem0 ?d) k"
    by (auto simp: is_conventional_def less_Suc_eq)
  show ?case
    using IH f ok by (auto simp: step conv free_desc_used free_desc_frame desc_fits_def)
qed

lemma init_ram_spec:
  assumes init: "init_ram mmap mem = Some (mgr, mem')" and count: "desc_count mmap = Some count"
    and map: "map_ok mmap mem count mgr"
  shows "ram_ok mgr" "bitmap mgr = 0x2000000"
    "total_sectors mgr = unat (sum_ram mmap mem count div 4096)"
    "\<And>x. \<not> in_bitmap mgr x \<Longrightarrow> mem' x = mem x"
    "\<And>k. is_used mgr k mem' \<longleftrightarrow>
       \<not> (k < total_sectors mgr \<and> 0x4000 \<le> k \<and> is_conventional mmap mem count k)"
proof -
  let ?p = "ram_new 0x2000000 (sum_ram mmap mem count) mem"
  from init count have mgr: "mgr = fst ?p" and mem': "mem' = free_conventional mmap mgr count (snd ?p)"
    by (auto simp: init_ram_def split: prod.splits)
  show ok: "ram_ok mgr" unfolding mgr by (rule ram_new_ok)
  show "bitmap mgr = 0x2000000" "total_sectors mgr = unat (sum_ram mmap mem count div 4096)"
    by (simp_all add: mgr ram_new_mgr)
  have "snd ?p x = mem x" if "\<not> in_bitmap mgr x" for x
    using that by (simp add: ram_new_mem in_bitmap_def mgr fill_bytes_def ram_new_bitmap)
  note spec = free_conventional_spec [OF ok map this]
  show "mem' x = mem x" if "\<not> in_bitmap mgr x" for x using spec that by (simp add: mem')
  show "is_used mgr k mem' \<longleftrightarrow>
     \<not> (k < total_sectors mgr \<and> 0x4000 \<le> k \<and> is_conventional mmap mem count k)" for k
    using spec [of k] ram_new_all_used [of "0x2000000" "sum_ram mmap mem count" mem k]
    by (simp add: mem' mgr)
qed

lemma init_ram_wf:
  assumes "init_ram mmap mem = Some (mgr, mem')" "desc_count mmap = Some count"
    "map_ok mmap mem count mgr" "total_sectors mgr \<le> 2 ^ 28"
  shows "ram_wf mgr mem'"
proof -
  note spec = init_ram_spec [OF assms(1-3)]
  have "unat x div 4096 < 0x4000" if "in_bitmap mgr x" for x
  proof -
    have "bitmap_bytes mgr \<le> 0x2000000" using assms(4) by (simp add: bitmap_bytes_def)
    with that have "in_region 0x2000000 0x2000000 x"
      using spec(2) by (auto simp: in_bitmap_def intro: in_region_mono)
    then have "unat x < 0x4000000" by (simp add: in_region_iff_bounds)
    then show ?thesis by (simp add: less_mult_imp_div_less)
  qed
  then show ?thesis using spec(1,5) by (force simp: ram_wf_def)
qed

section \<open>Properties\<close>

lemma first_run_eqI:
  assumes "0 < n" "free_run mgr mem n s" "\<And>t. t < s \<Longrightarrow> is_used mgr t mem"
  shows "first_run mgr mem n = Some s"
proof -
  have "\<not> free_run mgr mem n t" if "t < s" for t
    using assms(1,3) that by (auto simp: free_run_iff in_run_def)
  then show ?thesis
    using assms free_run_bound [OF assms(1,2)] unfolding first_run_def find_upt_Some by auto
qed

text \<open>A map of one descriptor, at address \<open>0x1000\<close>: \<open>n\<close> pages of conventional memory from address 0.\<close>

definition one_region :: "mmap_config \<Rightarrow> memory \<Rightarrow> u64 \<Rightarrow> bool" where
  "one_region mmap mem n \<longleftrightarrow> desc_count mmap = Some (Suc 0) \<and> desc_addr mmap 0 = 0x1000
     \<and> desc_type mem 0x1000 = 7 \<and> desc_start mem 0x1000 = 0 \<and> desc_pages mem 0x1000 = n"

definition example_map :: mmap_config where
  "example_map = \<lparr>mm_ptr = 0x1000, mm_len = 48, mm_desc_size = 48\<rparr>"

definition example_mem :: "u64 \<Rightarrow> memory" where
  "example_mem pages = wr64 0x1018 pages (wr32 0x1000 7 (\<lambda>_. 0))"

lemma example_region: "one_region example_map (example_mem n) n"
proof -
  have "desc_pages (example_mem n) 0x1000 = n" by (simp add: desc_pages_def example_mem_def)
  then show ?thesis
    by (simp add: one_region_def example_map_def desc_count_def desc_addr_def)
      (simp add: desc_type_def desc_start_def example_mem_def rd32_def rd64_def rd16_def wr64_def wr32_def wr16_def)
qed

lemma one_regionD:
  assumes "one_region mmap mem n"
  shows "desc_count mmap = Some (Suc 0)" "sum_ram mmap mem (Suc 0) = n * 4096"
    "is_conventional mmap mem (Suc 0) k \<longleftrightarrow> k < unat n"
  using assms by (auto simp: one_region_def sum_ram_def is_conventional_def desc_sectors_def in_run_def)

lemma one_region_ok:
  assumes r: "one_region mmap mem n" and le: "n \<le> 0x10000000" and i: "init_ram mmap mem = Some (mgr, mem')"
  shows "map_ok mmap mem (Suc 0) mgr" "total_sectors mgr = unat n"
proof -
  have un: "unat n \<le> 0x10000000" using le by (simp add: word_le_nat_alt)
  have mgr: "mgr = fst (ram_new 0x2000000 (n * 4096) mem)"
    using i by (auto simp: init_ram_def one_regionD [OF r] Let_def split: prod.splits)
  have "unat (n * 4096) = unat n * 4096"
    using un by (simp add: unat_word_ariths)
  then show tot: "total_sectors mgr = unat n"
    by (simp add: mgr ram_new_mgr unat_div)
  have "bitmap_bytes mgr \<le> 0x2000000" using tot un by (simp add: bitmap_bytes_def)
  then have bm: "\<not> in_bitmap mgr x" if "unat x < 0x2000000" for x
    using that by (simp add: in_bitmap_def mgr ram_new_bitmap in_region_iff_bounds)
  have "desc_clear mgr 0x1000"
    unfolding desc_clear_def
  proof (intro allI impI)
    fix i :: nat assume "i < 32"
    then have "unat (0x1000 + of_nat i :: u64) < 0x2000000"
      by (simp add: unat_word_ariths)
    then show "\<not> in_bitmap mgr (0x1000 + of_nat i)" by (rule bm)
  qed
  then show "map_ok mmap mem (Suc 0) mgr"
    using un r by (simp add: map_ok_def one_region_def desc_fits_def)
qed

lemma init_ram_total: "desc_count mmap = Some c \<Longrightarrow> \<exists>mgr mem'. init_ram mmap mem = Some (mgr, mem')"
  by (simp add: init_ram_def Let_def split: prod.splits)

text \<open>
  C19. What the boot code leaves free: for a memory map as UEFI gives it, a sector is free after
  \<open>RamManager::new\<close> and the loop over the map exactly when it lies in a region of conventional
  memory, at or above \<open>0x4000000\<close>, and below the number of conventional pages. Memory outside
  the bitmap is untouched and the manager is well-formed, so no page of the kernel image, of the
  boot stack or of the bitmap itself is ever handed out. A sector at or above the total is
  lost for good, wherever the map puts it.
\<close>

theorem boot_frees_conventional:
  assumes "init_ram mmap mem = Some (mgr, mem')" "desc_count mmap = Some count"
    "map_ok mmap mem count mgr" "total_sectors mgr \<le> 2 ^ 28"
  shows "(\<forall>k. \<not> is_used mgr k mem' \<longleftrightarrow> is_conventional mmap mem count k \<and> 0x4000 \<le> k
            \<and> k < unat (sum_ram mmap mem count div 4096))
    \<and> (\<forall>x. \<not> in_bitmap mgr x \<longrightarrow> mem' x = mem x) \<and> ram_wf mgr mem'"
  using init_ram_spec [OF assms(1-3)] init_ram_wf [OF assms] by auto

theorem boot_frees_conventional_witness:
  "\<exists>mgr mem'. init_ram example_map (example_mem 0x4001) = Some (mgr, mem')
     \<and> \<not> is_used mgr 0x4000 mem' \<and> is_used mgr 0x3FFF mem' \<and> is_used mgr 0x4001 mem'"
proof -
  obtain mgr mem' where i: "init_ram example_map (example_mem 0x4001) = Some (mgr, mem')"
    using init_ram_total [OF one_regionD(1) [OF example_region]] by blast
  have le: "(0x4001 :: u64) \<le> 0x10000000" by simp
  note ok = one_region_ok [OF example_region le i]
  have small: "total_sectors mgr \<le> 2 ^ 28" by (simp add: ok)
  note free = conjunct1 [OF boot_frees_conventional [OF i one_regionD(1) [OF example_region] ok(1) small], rule_format]
  show ?thesis
    using i free [of "0x4000"] free [of "0x3FFF"] free [of "0x4001"]
    by (auto simp: one_regionD [OF example_region])
qed

lemma boot_memory_spec:
  assumes "init_ram mmap mem = Some (mgr, mem1)" "desc_count mmap = Some count"
    "map_ok mmap mem count mgr" "total_sectors mgr \<le> 2 ^ 28" and tot: "0x8004 \<le> total_sectors mgr"
    and conv: "\<And>k. 0x4000 \<le> k \<Longrightarrow> k < 0x8004 \<Longrightarrow> is_conventional mmap mem count k"
  obtains mem' where "boot_memory mmap mem = Some (mgr, 0x4000000, 0x4004000, mem')" "ram_wf mgr mem'"
    "\<And>k. is_used mgr k mem' \<longleftrightarrow> k < 0x8004 \<or> total_sectors mgr \<le> k \<or> \<not> is_conventional mmap mem count k"
    "\<And>x. \<not> in_bitmap mgr x \<Longrightarrow> mem' x = mem x"
proof -
  note spec = init_ram_spec [OF assms(1-3)]
  note wf = init_ram_wf [OF assms(1-4)]
  let ?mem2 = "mark_range mgr 0x4000 4 mem1"
  let ?mem3 = "mark_range mgr 0x4004 16384 ?mem2"
  have used1: "is_used mgr k mem1 \<longleftrightarrow> \<not> (k < total_sectors mgr \<and> 0x4000 \<le> k
      \<and> is_conventional mmap mem count k)" for k by (rule spec(5))
  have run1: "free_run mgr mem1 4 0x4000"
    using tot conv by (auto simp: free_run_iff in_run_def used1)
  have "first_run mgr mem1 4 = Some 0x4000"
    by (rule first_run_eqI [OF _ run1]) (simp_all add: used1)
  then have a1: "allocate_sectors mgr 4 mem1 = (Some 0x4000000, ?mem2)"
    by (simp add: allocate_sectors_eq page_addr_def)
  have used2: "is_used mgr k ?mem2 \<longleftrightarrow> in_run 0x4000 4 k \<or> is_used mgr k mem1" for k
    using spec(1) tot by (intro is_used_mark_range_run) auto
  have run2: "free_run mgr ?mem2 16384 0x4004"
    using tot conv by (auto simp: free_run_iff in_run_def used1 used2)
  have "first_run mgr ?mem2 16384 = Some 0x4004"
  proof (rule first_run_eqI [OF _ run2])
    fix t :: nat assume "t < 0x4004"
    then show "is_used mgr t ?mem2"
      by (cases "t < 0x4000") (simp_all add: used1 used2 in_run_def)
  qed simp
  then have a2: "allocate_sectors mgr 16384 ?mem2 = (Some 0x4004000, ?mem3)"
    by (simp add: allocate_sectors_eq page_addr_def)
  have used3: "is_used mgr k ?mem3 \<longleftrightarrow> in_run 0x4004 16384 k \<or> is_used mgr k ?mem2" for k
    using spec(1) tot by (intro is_used_mark_range_run) auto
  have run: "boot_memory mmap mem = Some (mgr, 0x4000000, 0x4004000, ?mem3)"
    using assms(1) a1 a2 by (simp add: boot_memory_def)
  have wf3: "ram_wf mgr ?mem3" using wf by (auto simp: ram_wf_def used3 used2)
  have "is_used mgr k ?mem3 \<longleftrightarrow> k < 0x8004 \<or> total_sectors mgr \<le> k \<or> \<not> is_conventional mmap mem count k" for k
    using conv [of k] tot by (auto simp: used3 used2 used1 in_run_def)
  moreover have "?mem3 x = mem x" if "\<not> in_bitmap mgr x" for x
    using that spec(1,4) by (simp add: mark_range_frame)
  ultimately show thesis using that run wf3 by blast
qed

text \<open>
  The boot layout. When the 16388 sectors from \<open>0x4000000\<close> on are conventional memory, \<open>kmain\<close>
  puts the AHCI structures at \<open>0x4000000\<close> and the heap at \<open>0x4004000\<close>. The sector of the disk
  DMA buffer \<open>data_ptr = 0x10000000\<close> is not among them: if it is conventional memory too, it
  stays free, so a later allocation can hand it to a client while the driver writes into it.
\<close>

theorem boot_layout:
  assumes "init_ram mmap mem = Some (mgr, mem1)" "desc_count mmap = Some count"
    "map_ok mmap mem count mgr" "total_sectors mgr \<le> 2 ^ 28" "0x10000 < total_sectors mgr"
    and conv: "\<And>k. 0x4000 \<le> k \<Longrightarrow> k < 0x8004 \<Longrightarrow> is_conventional mmap mem count k"
    and data: "is_conventional mmap mem count 0x10000"
  shows "\<exists>mem'. boot_memory mmap mem = Some (mgr, 0x4000000, 0x4004000, mem')
           \<and> \<not> is_used mgr (unat ((0x10000000 :: u64) div 4096)) mem'
           \<and> (\<forall>k. 0x4000 \<le> k \<and> k < 0x8004 \<longrightarrow> is_used mgr k mem')"
proof -
  obtain mem' where m: "boot_memory mmap mem = Some (mgr, 0x4000000, 0x4004000, mem')"
      "\<And>k. is_used mgr k mem' \<longleftrightarrow> k < 0x8004 \<or> total_sectors mgr \<le> k \<or> \<not> is_conventional mmap mem count k"
    by (rule boot_memory_spec [OF assms(1-4) _ conv]) (use assms(5) in auto)
  then show ?thesis using assms(5) data by simp
qed

theorem boot_layout_witness:
  "\<exists>mgr mem'. boot_memory example_map (example_mem 0x10001) = Some (mgr, 0x4000000, 0x4004000, mem')
     \<and> \<not> is_used mgr (unat ((0x10000000 :: u64) div 4096)) mem'"
proof -
  obtain mgr mem' where i: "init_ram example_map (example_mem 0x10001) = Some (mgr, mem')"
    using init_ram_total [OF one_regionD(1) [OF example_region]] by blast
  have le: "(0x10001 :: u64) \<le> 0x10000000" by simp
  note ok = one_region_ok [OF example_region le i]
  have conv: "is_conventional example_map (example_mem 0x10001) (Suc 0) k" if "k \<le> 0x10000" for k
    using that by (simp add: one_regionD [OF example_region])
  have "\<exists>mem'. boot_memory example_map (example_mem 0x10001) = Some (mgr, 0x4000000, 0x4004000, mem')
           \<and> \<not> is_used mgr (unat ((0x10000000 :: u64) div 4096)) mem'
           \<and> (\<forall>k. 0x4000 \<le> k \<and> k < 0x8004 \<longrightarrow> is_used mgr k mem')"
    by (rule boot_layout [OF i one_regionD(1) [OF example_region] ok(1)]) (simp_all add: ok(2) conv)
  then show ?thesis by blast
qed

end
