(* ===== verification/Os_Paging.thy ===== *)
theory Os_Paging imports Ram_Manager begin

text \<open>
  The kernel's page tables, \<open>kernel/src/paging.rs\<close>: one PML4, one PDPT and 64 page directories of
  512 entries, each in a page got from the allocator, which map the first 64 GiB onto themselves with
  2 MiB pages. \<open>None\<close> is the panic of \<open>expect\<close> when the allocator has no page. The specification is
  the address translation the processor does with these tables (\<open>walk\<close>); the proof rests on the
  facts of the page allocator's interface, so that a page table is never handed out twice.
\<close>

definition PAGE_PRESENT :: u64 where "PAGE_PRESENT = push_bit 0 1"
definition PAGE_WRITABLE :: u64 where "PAGE_WRITABLE = push_bit 1 1"
definition PAGE_USER :: u64 where "PAGE_USER = push_bit 2 1"
definition PAGE_HUGE :: u64 where "PAGE_HUGE = push_bit 7 1"

definition phys_mask :: u64 where "phys_mask = 0x000FFFFFFFFFF000"

definition set_entry :: "u64 \<Rightarrow> nat \<Rightarrow> u64 \<Rightarrow> memory \<Rightarrow> memory" where
  "set_entry tbl i v mem = wr64 (tbl + of_nat (8 * i)) v mem"

definition clear_table :: "u64 \<Rightarrow> memory \<Rightarrow> memory" where
  "clear_table tbl mem = fold (\<lambda>i. set_entry tbl i 0) [0..<512] mem"

definition table_entry :: "u64 \<Rightarrow> u64" where
  "table_entry phys = (phys AND phys_mask) OR PAGE_PRESENT OR PAGE_WRITABLE OR PAGE_USER"

definition huge_entry :: "nat \<Rightarrow> nat \<Rightarrow> u64" where
  "huge_entry j i =
     (let addr = of_nat j * 1024 * 1024 * 1024 + of_nat i * 2 * 1024 * 1024;
          flags = PAGE_PRESENT OR PAGE_WRITABLE OR PAGE_HUGE OR PAGE_USER;
          flags = flags OR (push_bit 3 1 OR push_bit 4 1)
      in (addr AND phys_mask) OR flags)"

text \<open>The body of \<open>for j in 0..64\<close>.\<close>

definition map_gigabyte :: "ram_manager \<Rightarrow> u64 \<Rightarrow> nat \<Rightarrow> memory \<Rightarrow> memory option" where
  "map_gigabyte mgr pdpt j mem =
     (case allocate_sectors mgr 1 mem of
        (None, _) \<Rightarrow> None
      | (Some pd, mem) \<Rightarrow>
          let mem = clear_table pd mem;
              mem = set_entry pdpt j (table_entry pd) mem
          in Some (fold (\<lambda>i. set_entry pd i (huge_entry j i)) [0..<512] mem))"

definition init_os_paging :: "ram_manager \<Rightarrow> memory \<Rightarrow> (u64 \<times> memory) option" where
  "init_os_paging mgr mem =
     (case allocate_sectors mgr 1 mem of
        (None, _) \<Rightarrow> None
      | (Some pml4, mem) \<Rightarrow>
          (case allocate_sectors mgr 1 mem of
             (None, _) \<Rightarrow> None
           | (Some pdpt, mem) \<Rightarrow>
               let mem = clear_table pml4 mem;
                   mem = clear_table pdpt mem;
                   mem = set_entry pml4 0 (table_entry pdpt) mem
               in (case for_opt (map_gigabyte mgr pdpt) [0..<64] mem of
                     None \<Rightarrow> None
                   | Some mem \<Rightarrow> Some (pml4 AND phys_mask, mem))))"

section \<open>The processor's translation\<close>

text \<open>
  Four levels of 512 entries, 9 address bits each, from bit 39 down; an entry without its present
  bit ends the walk, a third-level entry with the page-size bit maps 2 MiB, a second-level one 1 GiB.
\<close>

definition walk_index :: "nat \<Rightarrow> u64 \<Rightarrow> nat" where
  "walk_index level va = unat (take_bit 9 (drop_bit (12 + 9 * level) va))"

definition next_entry :: "memory \<Rightarrow> u64 \<Rightarrow> nat \<Rightarrow> u64 \<Rightarrow> u64 option" where
  "next_entry mem tbl level va =
     (let e = rd64 mem ((tbl AND phys_mask) + of_nat (8 * walk_index level va))
      in if bit e 0 then Some e else None)"

definition walk :: "memory \<Rightarrow> u64 \<Rightarrow> u64 \<Rightarrow> u64 option" where
  "walk mem cr3 va =
     do { e4 \<leftarrow> next_entry mem cr3 3 va;
          e3 \<leftarrow> next_entry mem e4 2 va;
          if bit e3 7 then Some ((e3 AND 0x000FFFFFC0000000) OR take_bit 30 va)
          else do { e2 \<leftarrow> next_entry mem e3 1 va;
                    if bit e2 7 then Some ((e2 AND 0x000FFFFFFFE00000) OR take_bit 21 va)
                    else do { e1 \<leftarrow> next_entry mem e2 0 va;
                              Some ((e1 AND phys_mask) OR take_bit 12 va) } } }"

section \<open>Tables in pages\<close>

definition tab :: "memory \<Rightarrow> nat \<Rightarrow> u64 list" where
  "tab mem p = map (\<lambda>i. rd64 mem (page_addr p + of_nat (8 * i))) [0..<512]"

lemma length_tab [simp]: "length (tab mem p) = 512"
  by (simp add: tab_def)

lemma nth_tab: "i < 512 \<Longrightarrow> tab mem p ! i = rd64 mem (page_addr p + of_nat (8 * i))"
  by (simp add: tab_def)

lemma in_page_offset: "p < 2 ^ 52 \<Longrightarrow> k < 4096 \<Longrightarrow> in_page p (page_addr p + of_nat k)"
  using page_offset [of p 1 k] by (simp add: in_page_def)

lemma in_page_unique: "in_page p x \<Longrightarrow> in_page q x \<Longrightarrow> p = q"
  by (simp add: in_page_def)

lemma entry_in_page:
  assumes "p < 2 ^ 52" "i < 512" "in_region (page_addr p + of_nat (8 * i)) 8 x"
  shows "in_page p x"
proof -
  from assms(3) obtain k where k: "k < 8" "x = page_addr p + of_nat (8 * i) + of_nat k"
    by (auto elim: in_regionE)
  then have x: "x = page_addr p + of_nat (8 * i + k)" by simp
  have "8 * i + k < 4096" using assms(2) k(1) by linarith
  with x in_page_offset [OF assms(1)] show ?thesis by blast
qed

lemma set_entry_frame:
  "p < 2 ^ 52 \<Longrightarrow> i < 512 \<Longrightarrow> \<not> in_page p x \<Longrightarrow> set_entry (page_addr p) i v mem x = mem x"
  unfolding set_entry_def by (rule wr64_other) (blast dest: entry_in_page)

lemma tab_cong: "p < 2 ^ 52 \<Longrightarrow> (\<And>x. in_page p x \<Longrightarrow> mem' x = mem x) \<Longrightarrow> tab mem' p = tab mem p"
proof -
  assume p: "p < 2 ^ 52" and eq: "\<And>x. in_page p x \<Longrightarrow> mem' x = mem x"
  have "rd64 mem' (page_addr p + of_nat (8 * i)) = rd64 mem (page_addr p + of_nat (8 * i))" if "i < 512" for i
    by (rule rd64_cong) (rule eq, rule entry_in_page [OF p that], simp)
  then show ?thesis by (simp add: tab_def)
qed

lemma tab_set_same:
  assumes p: "p < 2 ^ 52" and i: "i < 512"
  shows "tab (set_entry (page_addr p) i v mem) p = (tab mem p)[i := v]"
proof (rule nth_equalityI)
  fix j assume "j < length (tab (set_entry (page_addr p) i v mem) p)"
  then have j: "j < 512" by simp
  show "tab (set_entry (page_addr p) i v mem) p ! j = (tab mem p)[i := v] ! j"
  proof (cases "j = i")
    case True
    with j show ?thesis by (simp add: nth_tab set_entry_def del: of_nat_mult)
  next
    case False
    have "\<not> in_region (page_addr p + of_nat (8 * i)) 8 (page_addr p + of_nat (8 * j) + of_nat k)" if "k < 8" for k
    proof -
      have "in_region (page_addr p + of_nat (8 * i)) 8 (page_addr p + of_nat (8 * j + k))
          \<longleftrightarrow> 8 * i \<le> 8 * j + k \<and> 8 * j + k < 8 * i + 8"
        by (rule in_region_shift) (use i j that in auto)
      also have "\<not> \<dots>" using False that by linarith
      finally show ?thesis by (simp add: add.assoc)
    qed
    then have "rd64 (set_entry (page_addr p) i v mem) (page_addr p + of_nat (8 * j)) = rd64 mem (page_addr p + of_nat (8 * j))"
      unfolding set_entry_def by (intro rd64_cong wr64_other) blast
    with False i j show ?thesis by (simp add: nth_tab del: of_nat_mult)
  qed
qed simp

lemma tab_set_other:
  "p < 2 ^ 52 \<Longrightarrow> q < 2 ^ 52 \<Longrightarrow> p \<noteq> q \<Longrightarrow> i < 512 \<Longrightarrow> tab (set_entry (page_addr p) i v mem) q = tab mem q"
  by (rule tab_cong) (auto intro!: set_entry_frame dest: in_page_unique)

text \<open>Filling a whole table, entry by entry.\<close>

lemma tab_fill:
  assumes "p < 2 ^ 52" "n \<le> 512"
  shows "tab (fold (\<lambda>i. set_entry (page_addr p) i (f i)) [0..<n] mem) p = map f [0..<n] @ drop n (tab mem p)"
  using assms(2)
proof (induction n)
  case (Suc n)
  then have n: "n < 512" by simp
  with Suc assms(1) show ?case
    by (simp add: tab_set_same list_update_append Cons_nth_drop_Suc [symmetric])
qed simp

lemma fill_frame:
  assumes "p < 2 ^ 52" "n \<le> 512" "\<not> in_page p x"
  shows "fold (\<lambda>i. set_entry (page_addr p) i (f i)) [0..<n] mem x = mem x"
  using assms(2)
proof (induction n)
  case (Suc n)
  then show ?case using set_entry_frame [OF assms(1) _ assms(3), of n] by simp
qed simp

lemma tab_clear: "p < 2 ^ 52 \<Longrightarrow> tab (clear_table (page_addr p) mem) p = replicate 512 0"
  using tab_fill [of p 512 "\<lambda>_. 0" mem] by (simp add: clear_table_def map_replicate_const)

lemma clear_frame: "p < 2 ^ 52 \<Longrightarrow> \<not> in_page p x \<Longrightarrow> clear_table (page_addr p) mem x = mem x"
  by (simp add: clear_table_def fill_frame)

section \<open>The pages the tables live in\<close>

text \<open>
  \<open>owned ts\<close>: since memory \<open>mem0\<close> exactly the pages \<open>ts\<close> were allocated, all of them distinct, and only
  they and the bitmap have been written.
\<close>

definition owned :: "ram_manager \<Rightarrow> memory \<Rightarrow> nat list \<Rightarrow> memory \<Rightarrow> bool" where
  "owned mgr mem0 ts mem \<longleftrightarrow> ram_wf mgr mem \<and> distinct ts
     \<and> (\<forall>p\<in>set ts. p < 2 ^ 52 \<and> p < total_sectors mgr \<and> \<not> is_used mgr p mem0 \<and> (\<forall>x. in_page p x \<longrightarrow> \<not> in_bitmap mgr x))
     \<and> (\<forall>k. is_used mgr k mem \<longleftrightarrow> is_used mgr k mem0 \<or> k \<in> set ts)
     \<and> (\<forall>x. \<not> in_bitmap mgr x \<longrightarrow> (\<forall>p\<in>set ts. \<not> in_page p x) \<longrightarrow> mem x = mem0 x)"

lemma owned_Nil: "ram_wf mgr mem \<Longrightarrow> owned mgr mem [] mem"
  by (simp add: owned_def)

lemma ownedD:
  assumes "owned mgr mem0 ts mem" "p \<in> set ts"
  shows "p < 2 ^ 52" "p < total_sectors mgr" "\<not> is_used mgr p mem0" "\<And>x. in_page p x \<Longrightarrow> \<not> in_bitmap mgr x"
  using assms by (auto simp: owned_def)

lemma free_below: "\<not> is_used mgr k mem \<Longrightarrow> k < total_sectors mgr"
  by (rule ccontr) simp

lemma owned_alloc:
  assumes ow: "owned mgr mem0 ts mem" and al: "allocate_sectors mgr 1 mem = (Some a, mem')"
  obtains p where "a = page_addr p" "p \<notin> set ts" "owned mgr mem0 (p # ts) mem'" "p < 2 ^ 52"
    "\<And>q. q \<in> set ts \<Longrightarrow> tab mem' q = tab mem q"
proof -
  have wf: "ram_wf mgr mem" using ow by (simp add: owned_def)
  from ram.alloc_page_cases [OF wf al] obtain p where p: "ram_wf mgr mem'" "a = page_addr p" "p + 1 \<le> 2 ^ 52"
    and fr: "\<And>k. in_run p 1 k \<Longrightarrow> \<not> is_used mgr k mem"
    and us: "\<And>k. \<not> is_used mgr k mem' \<longleftrightarrow> \<not> is_used mgr k mem \<and> \<not> in_run p 1 k"
    by blast
  have frp: "\<not> is_used mgr p mem" using fr [of p] by simp
  have us': "is_used mgr k mem' \<longleftrightarrow> is_used mgr k mem \<or> k = p" for k using us [of k] by auto
  have frame: "mem' x = mem x" if "\<not> in_bitmap mgr x" for x
    using ram.alloc_frame [OF wf that, of 1] al by simp
  have new: "p \<notin> set ts" "\<not> is_used mgr p mem0" using frp ow by (auto simp: owned_def)
  have tot: "p < total_sectors mgr" using frp by (rule free_below)
  have nb: "\<not> in_bitmap mgr x" if "in_page p x" for x by (rule ram.page_not_own [OF wf frp that])
  have "owned mgr mem0 (p # ts) mem'"
    using ow p(1,3) new tot nb us' frame unfolding owned_def by auto
  moreover have "tab mem' q = tab mem q" if "q \<in> set ts" for q
    by (rule tab_cong) (use ownedD [OF ow that] frame in auto)
  moreover have "p < 2 ^ 52" using p(3) by simp
  ultimately show thesis using that p(2) new(1) by blast
qed

text \<open>Stores into one's own pages keep ownership.\<close>

lemma owned_store:
  assumes ow: "owned mgr mem0 ts mem" and p: "p \<in> set ts" and eq: "\<And>x. \<not> in_page p x \<Longrightarrow> mem' x = mem x"
  shows "owned mgr mem0 ts mem'"
proof -
  have wf: "ram_wf mgr mem" using ow by (simp add: owned_def)
  have same: "mem' x = mem x" if "in_bitmap mgr x" for x using ownedD(4) [OF ow p] that eq by blast
  have "ram_wf mgr mem'" and "is_used mgr k mem' = is_used mgr k mem" for k
    using ram.client_write [OF wf same] by auto
  with ow p eq show ?thesis unfolding owned_def by auto
qed

lemma owned_set:
  assumes "owned mgr mem0 ts mem" "p \<in> set ts" "i < 512"
  shows "owned mgr mem0 ts (set_entry (page_addr p) i v mem)"
  by (rule owned_store [OF assms(1,2)]) (rule set_entry_frame [OF ownedD(1) [OF assms(1,2)] assms(3)])

lemma owned_clear:
  assumes "owned mgr mem0 ts mem" "p \<in> set ts"
  shows "owned mgr mem0 ts (clear_table (page_addr p) mem)"
  by (rule owned_store [OF assms]) (rule clear_frame [OF ownedD(1) [OF assms]])

lemma owned_fill:
  assumes "owned mgr mem0 ts mem" "p \<in> set ts"
  shows "owned mgr mem0 ts (fold (\<lambda>i. set_entry (page_addr p) i (f i)) [0..<512] mem)"
  by (rule owned_store [OF assms]) (rule fill_frame [OF ownedD(1) [OF assms]], simp)

text \<open>How many pages are free, and that an allocation of one page fails only when none is.\<close>

definition free_pages :: "ram_manager \<Rightarrow> memory \<Rightarrow> nat set" where
  "free_pages mgr mem = {k. \<not> is_used mgr k mem}"

lemma finite_free_pages [simp]: "finite (free_pages mgr mem)"
proof (rule finite_subset)
  show "free_pages mgr mem \<subseteq> {..<total_sectors mgr}"
    by (auto simp: free_pages_def intro: free_below)
qed simp

lemma owned_card:
  assumes "owned mgr mem0 ts mem"
  shows "card (free_pages mgr mem0) = length ts + card (free_pages mgr mem)"
proof -
  have "free_pages mgr mem0 = set ts \<union> free_pages mgr mem" "set ts \<inter> free_pages mgr mem = {}"
    using assms by (auto simp: owned_def free_pages_def)
  moreover have "card (set ts) = length ts" using assms by (simp add: owned_def distinct_card)
  ultimately show ?thesis by (simp add: card_Un_disjoint)
qed

lemma alloc_page_None:
  assumes "owned mgr mem0 ts mem" "allocate_sectors mgr 1 mem = (None, mem')"
  shows "card (free_pages mgr mem0) = length ts"
proof -
  have wf: "ram_wf mgr mem" using assms(1) by (simp add: owned_def)
  have "is_used mgr k mem" for k
    using ram.alloc_complete [OF wf, of 1 k] assms(2) by auto
  then have "free_pages mgr mem = {}" by (simp add: free_pages_def)
  with owned_card [OF assms(1)] show ?thesis by simp
qed

lemma owned_enough: "owned mgr mem0 ts mem \<Longrightarrow> length ts \<le> card (free_pages mgr mem0)"
  using owned_card by fastforce

section \<open>The loop over the gigabytes\<close>

definition mapped :: "ram_manager \<Rightarrow> memory \<Rightarrow> nat \<Rightarrow> nat \<Rightarrow> nat list \<Rightarrow> memory \<Rightarrow> bool" where
  "mapped mgr mem0 p4 p3 ps mem \<longleftrightarrow> owned mgr mem0 (rev ps @ [p3, p4]) mem \<and> length ps \<le> 512
     \<and> tab mem p4 = (replicate 512 0)[0 := table_entry (page_addr p3)]
     \<and> tab mem p3 = map (\<lambda>p. table_entry (page_addr p)) ps @ replicate (512 - length ps) 0
     \<and> (\<forall>j<length ps. tab mem (ps ! j) = map (huge_entry j) [0..<512])"

lemma map_gigabyte_None:
  "mapped mgr mem0 p4 p3 ps mem \<Longrightarrow> map_gigabyte mgr pdpt j mem = None \<Longrightarrow>
   card (free_pages mgr mem0) = length ps + 2"
  by (auto simp: map_gigabyte_def Let_def mapped_def split: option.splits prod.splits dest: alloc_page_None)

lemma map_gigabyte_Some:
  assumes inv: "mapped mgr mem0 p4 p3 ps mem" and len: "length ps < 512"
    and run: "map_gigabyte mgr (page_addr p3) (length ps) mem = Some mem'"
  obtains p where "mapped mgr mem0 p4 p3 (ps @ [p]) mem'"
proof -
  let ?j = "length ps" and ?ts = "rev ps @ [p3, p4]"
  from inv have ow: "owned mgr mem0 ?ts mem" by (simp add: mapped_def)
  from run obtain a mem1 where al: "allocate_sectors mgr 1 mem = (Some a, mem1)"
    and mem': "mem' = fold (\<lambda>i. set_entry a i (huge_entry ?j i)) [0..<512]
        (set_entry (page_addr p3) ?j (table_entry a) (clear_table a mem1))"
    by (auto simp: map_gigabyte_def Let_def split: option.splits prod.splits)
  from owned_alloc [OF ow al] obtain p where p: "a = page_addr p" "p \<notin> set ?ts"
      "owned mgr mem0 (p # ?ts) mem1" "p < 2 ^ 52" and old: "\<And>q. q \<in> set ?ts \<Longrightarrow> tab mem1 q = tab mem q"
    by blast
  define mem2 where "mem2 = clear_table a mem1"
  define mem3 where "mem3 = set_entry (page_addr p3) ?j (table_entry a) mem2"
  have mem': "mem' = fold (\<lambda>i. set_entry (page_addr p) i (huge_entry ?j i)) [0..<512] mem3"
    by (simp add: mem' mem2_def mem3_def p(1))
  have ow': "owned mgr mem0 (p # ?ts) mem'"
    unfolding mem' mem3_def mem2_def p(1) using p(3) len by (intro owned_fill owned_set owned_clear) auto
  have lt: "q < 2 ^ 52" if "q \<in> set (p # ?ts)" for q using ownedD(1) [OF p(3) that] .
  have ne: "q \<noteq> p" if "q \<in> set ?ts" for q using that p(2) by auto
  have keep: "tab mem' q = tab mem3 q" if "q \<in> set ?ts" for q
  proof (rule tab_cong)
    show "q < 2 ^ 52" using lt that by simp
    show "mem' x = mem3 x" if "in_page q x" for x
      unfolding mem' using that in_page_unique [of q x p] ne [OF \<open>q \<in> set ?ts\<close>]
      by (intro fill_frame) (auto simp: p(4) [simplified])
  qed
  have keep2: "tab mem2 q = tab mem q" if "q \<in> set ?ts" for q
  proof -
    have "tab mem2 q = tab mem1 q"
    proof (rule tab_cong)
      show "q < 2 ^ 52" using lt that by simp
      show "mem2 x = mem1 x" if "in_page q x" for x
        unfolding mem2_def p(1) using that in_page_unique [of q x p] ne [OF \<open>q \<in> set ?ts\<close>]
        by (intro clear_frame) (auto simp: p(4) [simplified])
    qed
    then show ?thesis using old that by simp
  qed
  have keep3: "tab mem3 q = tab mem q" if "q \<in> set ?ts" "q \<noteq> p3" for q
    unfolding mem3_def using tab_set_other [of p3 q ?j] lt [of p3] lt [of q] that len keep2 by simp
  have t3: "tab mem3 p3 = (tab mem p3)[?j := table_entry a]"
    unfolding mem3_def using tab_set_same [of p3 ?j] lt [of p3] len keep2 [of p3] by simp
  have "tab mem' p = map (huge_entry ?j) [0..<512]"
    unfolding mem' using tab_fill [OF p(4), of 512] by simp
  moreover have "tab mem' p3 = map (\<lambda>p. table_entry (page_addr p)) (ps @ [p]) @ replicate (512 - length (ps @ [p])) 0"
    using keep [of p3] t3 inv len by (simp add: mapped_def p(1) list_update_append Cons_replicate_eq
        replicate_Suc [symmetric] Suc_diff_Suc [symmetric] del: replicate_Suc)
      (metis Suc_diff_Suc list_update_code(2) replicate_Suc)
  moreover have dist: "distinct (p # ?ts)" using ow' by (simp add: owned_def)
  moreover have "tab mem' p4 = tab mem p4" using keep [of p4] keep3 [of p4] dist by auto
  moreover have "tab mem' (ps ! j) = tab mem (ps ! j)" if "j < ?j" for j
  proof -
    have "ps ! j \<in> set ?ts" "ps ! j \<noteq> p3" using that dist nth_mem [OF that] by auto
    then show ?thesis using keep keep3 by simp
  qed
  ultimately have "mapped mgr mem0 p4 p3 (ps @ [p]) mem'"
    using inv ow' len by (auto simp: mapped_def nth_append less_Suc_eq)
  then show thesis by (rule that)
qed

lemma map_gigabytes:
  assumes "mapped mgr mem0 p4 p3 [] mem" "n \<le> 512"
  shows "case for_opt (map_gigabyte mgr (page_addr p3)) [0..<n] mem of
      None \<Rightarrow> card (free_pages mgr mem0) < n + 2
    | Some mem' \<Rightarrow> \<exists>ps. length ps = n \<and> mapped mgr mem0 p4 p3 ps mem'"
  using assms(2)
proof (induction n)
  case 0
  then show ?case using assms(1) by auto
next
  case (Suc n)
  show ?case
  proof (cases "for_opt (map_gigabyte mgr (page_addr p3)) [0..<n] mem")
    case None
    with Suc show ?thesis by (simp add: for_opt_snoc)
  next
    case (Some mem1)
    with Suc obtain ps where ps: "length ps = n" "mapped mgr mem0 p4 p3 ps mem1" by auto
    show ?thesis
    proof (cases "map_gigabyte mgr (page_addr p3) n mem1")
      case None
      with map_gigabyte_None [OF ps(2) None] Some ps(1) show ?thesis by (simp add: for_opt_snoc)
    next
      case (Some mem')
      with map_gigabyte_Some [OF ps(2)] ps(1) Suc.prems obtain p where "mapped mgr mem0 p4 p3 (ps @ [p]) mem'" by auto
      with \<open>for_opt _ _ mem = Some mem1\<close> Some ps(1) show ?thesis
        by (simp add: for_opt_snoc) (metis length_append_singleton)
    qed
  qed
qed

section \<open>The bits of the entries\<close>

lemma phys_mask_eq: "phys_mask = mask 52 AND NOT (mask 12)"
  by (simp add: phys_mask_def mask_eq_exp_minus_1)

lemma bit_phys_mask: "bit phys_mask n \<longleftrightarrow> 12 \<le> n \<and> n < 52"
  by (auto simp: phys_mask_eq bit_simps)

lemma not_bit_nat: "(m :: nat) < 2 ^ k \<Longrightarrow> k \<le> n \<Longrightarrow> \<not> bit m n"
proof -
  assume "m < 2 ^ k" "k \<le> n"
  then have "m < 2 ^ n" by (meson less_le_trans one_le_numeral power_increasing)
  then show ?thesis by (simp add: bit_iff_odd)
qed

lemma not_bit_u64: "unat (x :: u64) < 2 ^ k \<Longrightarrow> k \<le> n \<Longrightarrow> \<not> bit x n"
  using not_bit_nat [of "unat x" k n] by (simp add: bit_unsigned_iff) 

lemma bit_flag: "k < 64 \<Longrightarrow> bit (push_bit k (1 :: u64)) n \<longleftrightarrow> n = k"
  by (auto simp: bit_simps)

lemma bit_page_addr: "p < 2 ^ 40 \<Longrightarrow> bit (page_addr p) n \<longleftrightarrow> 12 \<le> n \<and> n < 52 \<and> bit p (n - 12)"
proof -
  assume p: "p < 2 ^ 40"
  have "k < 40" if "bit p k" for k
    using not_bit_nat [OF p, of k] that by (meson not_less)
  then have "n < 52" if "12 \<le> n" "bit p (n - 12)" using that by fastforce
  moreover have "page_addr p = push_bit 12 (of_nat p)" by (simp add: page_addr_def push_bit_eq_mult)
  ultimately show ?thesis by (auto simp: bit_simps)
qed

lemma page_addr_masked: "p < 2 ^ 40 \<Longrightarrow> page_addr p AND phys_mask = page_addr p"
  by (rule bit_word_eqI) (auto simp: bit_page_addr bit_phys_mask bit_simps)

lemma bit_flags: "bit (PAGE_PRESENT :: u64) n \<longleftrightarrow> n = 0" "bit PAGE_WRITABLE n \<longleftrightarrow> n = 1"
   "bit PAGE_USER n \<longleftrightarrow> n = 2" "bit PAGE_HUGE n \<longleftrightarrow> n = 7"
  unfolding PAGE_PRESENT_def PAGE_WRITABLE_def PAGE_USER_def PAGE_HUGE_def
  by (rule bit_flag, simp)+

lemma table_entry_props:
  assumes "p < 2 ^ 40"
  shows "bit (table_entry (page_addr p)) 0" "\<not> bit (table_entry (page_addr p)) 7"
    "table_entry (page_addr p) AND phys_mask = page_addr p"
  by (simp_all add: table_entry_def bit_simps bit_flags bit_phys_mask)
   (rule bit_word_eqI, use assms in \<open>auto simp: bit_simps bit_flags bit_phys_mask bit_page_addr\<close>)

lemma huge_sum:
  fixes va :: u64
  assumes "unat va < 2 ^ 36"
  shows "of_nat (walk_index 2 va) * 1024 * 1024 * 1024 + of_nat (walk_index 1 va) * 2 * 1024 * 1024
     = va AND NOT (mask 21)"
proof -
  have hi: "n < 36" if "bit va n" for n
    using not_bit_u64 [OF assms, of n] that by (meson not_less)
  have "of_nat (walk_index 2 va) * 1024 * 1024 * 1024 = (push_bit 30 (take_bit 9 (drop_bit 30 va)))"
    "of_nat (walk_index 1 va) * 2 * 1024 * 1024 = (push_bit 21 (take_bit 9 (drop_bit 21 va)))"
    by (simp_all add: walk_index_def push_bit_eq_mult)
  moreover have "push_bit 30 (take_bit 9 (drop_bit 30 va)) + push_bit 21 (take_bit 9 (drop_bit 21 va))
    = push_bit 30 (take_bit 9 (drop_bit 30 va)) OR push_bit 21 (take_bit 9 (drop_bit 21 va))"
    by (rule disjunctive_add_eq_or, rule bit_word_eqI) (auto simp: bit_simps)
  moreover have "push_bit 30 (take_bit 9 (drop_bit 30 va)) OR push_bit 21 (take_bit 9 (drop_bit 21 va)) = va AND NOT (mask 21)"
    by (rule bit_word_eqI) (auto simp: bit_simps not_less dest: hi)
  ultimately show ?thesis by simp
qed

lemma bit_huge_mask: "bit (0x000FFFFFFFE00000 :: u64) n \<longleftrightarrow> 21 \<le> n \<and> n < 52"
proof -
  have eq: "(0x000FFFFFFFE00000 :: u64) = mask 52 AND NOT (mask 21)" by (simp add: mask_eq_exp_minus_1)
  show ?thesis unfolding eq by (auto simp: bit_simps)
qed

lemma huge_entry_bits:
  "bit (huge_entry j i) n \<longleftrightarrow>
     bit (of_nat j * 1024 * 1024 * 1024 + of_nat i * 2 * 1024 * 1024 :: u64) n \<and> 12 \<le> n \<and> n < 52
     \<or> n \<in> {0, 1, 2, 3, 4, 7}"
  unfolding huge_entry_def Let_def bit_or_iff bit_and_iff bit_phys_mask bit_flags
  using bit_flag [of 3 n] bit_flag [of 4 n] by auto

lemma huge_entry_target:
  assumes "unat va < 2 ^ 36"
  shows "(huge_entry (walk_index 2 va) (walk_index 1 va) AND 0x000FFFFFFFE00000) OR take_bit 21 va = va"
proof (rule bit_word_eqI)
  fix n assume "n < LENGTH(64)"
  have "n < 36" if "bit va n"
    using not_bit_u64 [OF assms, of n] that by (meson not_less)
  moreover have "21 \<le> n \<longrightarrow> (bit (of_nat (walk_index 2 va) * 1024 * 1024 * 1024 + of_nat (walk_index 1 va) * 2 * 1024 * 1024 :: u64) n \<longleftrightarrow> bit va n)"
    unfolding huge_sum [OF assms] by (auto simp: bit_simps dest: bit_imp_le_length)
  ultimately show "bit ((huge_entry (walk_index 2 va) (walk_index 1 va) AND 0x000FFFFFFFE00000) OR take_bit 21 va) n = bit va n"
    unfolding bit_or_iff bit_and_iff huge_entry_bits bit_huge_mask bit_take_bit_iff by auto
qed

lemma walk_index_less: "walk_index level va < 512"
proof -
  have "unat (take_bit 9 (drop_bit (12 + 9 * level) va)) < 2 ^ 9"
    unfolding unsigned_take_bit_eq by (rule take_bit_nat_less_exp)
  then show ?thesis by (simp add: walk_index_def)
qed

lemma walk_index_div: "walk_index level va = unat va div 2 ^ (12 + 9 * level) mod 512"
proof -
  have "walk_index level va = take_bit 9 (drop_bit (12 + 9 * level) (take_bit 64 (unat va)))"
    unfolding walk_index_def unsigned_take_bit_eq unsigned_drop_bit_eq by simp
  also have "take_bit 64 (unat va) = unat va" by (simp add: take_bit_nat_eq_self)
  finally show ?thesis by (simp add: take_bit_eq_mod drop_bit_eq_div)
qed

text \<open>One step of the walk reads the entry of a table.\<close>

lemma next_entry_tab: "tbl AND phys_mask = page_addr p \<Longrightarrow>
    next_entry mem tbl level va = (let e = tab mem p ! walk_index level va in if bit e 0 then Some e else None)"
  by (simp add: next_entry_def nth_tab walk_index_less Let_def del: of_nat_mult)

lemma walk_mapped:
  assumes m: "mapped mgr mem0 p4 p3 ps mem" and len: "length ps = 64" and tot: "total_sectors mgr \<le> 2 ^ 40"
    and va: "unat va < 2 ^ 48"
  shows "walk mem (page_addr p4) va = (if unat va < 2 ^ 36 then Some va else None)"
proof -
  from m have ow: "owned mgr mem0 (rev ps @ [p3, p4]) mem" by (simp add: mapped_def)
  have lt: "p < 2 ^ 40" if "p \<in> set (rev ps @ [p3, p4])" for p
    using ownedD(2) [OF ow that] tot by simp
  let ?i4 = "walk_index 3 va" and ?i3 = "walk_index 2 va" and ?i2 = "walk_index 1 va"
  have i4: "?i4 = unat va div 2 ^ 39" using va by (simp add: walk_index_div)
  have e4: "next_entry mem (page_addr p4) 3 va = (if ?i4 = 0 then Some (table_entry (page_addr p3)) else None)"
    using m table_entry_props [of p3] lt [of p3] walk_index_less [of 3 va]
      next_entry_tab [OF page_addr_masked [OF lt [of p4]], of mem 3 va]
    by (simp add: mapped_def Let_def nth_list_update)
  show ?thesis
  proof (cases "?i4 = 0")
    case False
    then have "\<not> unat va < 2 ^ 36" using i4 by auto
    with e4 False show ?thesis by (simp add: walk_def)
  next
    case True
    then have i3: "?i3 = unat va div 2 ^ 30" using i4 by (simp add: walk_index_div)
    have e3: "next_entry mem (table_entry (page_addr p3)) 2 va =
        (if ?i3 < 64 then Some (table_entry (page_addr (ps ! ?i3))) else None)"
      using m table_entry_props [of p3] table_entry_props [of "ps ! ?i3"] lt [of p3] lt [of "ps ! ?i3"] walk_index_less [of 2 va] len
      by (auto simp: next_entry_tab [where p = p3] mapped_def Let_def nth_append)
    show ?thesis
    proof (cases "?i3 < 64")
      case False
      then have "\<not> unat va < 2 ^ 36" using i3 by auto
      with e4 True e3 False show ?thesis by (simp add: walk_def)
    next
      case low: True
      then have lva: "unat va < 2 ^ 36" using i3 by auto
      let ?p = "ps ! ?i3"
      have "?p < 2 ^ 40" using lt [of ?p] low len by simp
      note tp = table_entry_props [OF this]
      have "next_entry mem (table_entry (page_addr ?p)) 1 va = Some (huge_entry ?i3 ?i2)"
        using m low len walk_index_less [of 1 va]
        by (simp add: next_entry_tab [where p = ?p] tp mapped_def Let_def huge_entry_bits)
      moreover have "bit (huge_entry ?i3 ?i2) 7" by (simp add: huge_entry_bits)
      ultimately show ?thesis
        using e4 True e3 low lva tp huge_entry_target [OF lva] by (simp add: walk_def)
    qed
  qed
qed

section \<open>Properties\<close>

lemma init_os_paging_spec:
  assumes wf: "ram_wf mgr mem" and tot: "total_sectors mgr \<le> 2 ^ 40"
  shows "case init_os_paging mgr mem of
      None \<Rightarrow> card (free_pages mgr mem) < 66
    | Some (cr3, mem') \<Rightarrow> \<exists>p4 p3 ps. cr3 = page_addr p4 \<and> length ps = 64 \<and> mapped mgr mem p4 p3 ps mem'"
proof -
  note ow0 = owned_Nil [OF wf]
  show ?thesis
  proof (cases "allocate_sectors mgr 1 mem")
    case (Pair r mem1)
    show ?thesis
    proof (cases r)
      case None
      with alloc_page_None [OF ow0] Pair show ?thesis by (simp add: init_os_paging_def)
    next
      case (Some a4)
      from owned_alloc [OF ow0 Pair [unfolded Some]] obtain p4 where p4: "a4 = page_addr p4" "owned mgr mem [p4] mem1" by blast
      show ?thesis
      proof (cases "allocate_sectors mgr 1 mem1")
        case P2: (Pair r2 mem2)
        show ?thesis
        proof (cases r2)
          case None
          with alloc_page_None [OF p4(2)] Pair Some P2 show ?thesis by (simp add: init_os_paging_def)
        next
          case S2: (Some a3)
          from owned_alloc [OF p4(2) P2 [unfolded S2]] obtain p3 where
            p3: "a3 = page_addr p3" "p3 \<noteq> p4" "owned mgr mem [p3, p4] mem2" by auto
          have lt: "p4 < 2 ^ 52" "p3 < 2 ^ 52" and lt40: "p4 < 2 ^ 40"
            using ownedD(1,2) [OF p3(3), of p3] ownedD(1,2) [OF p3(3), of p4] tot by auto
          define mem3 where "mem3 = set_entry a4 0 (table_entry a3) (clear_table a3 (clear_table a4 mem2))"
          have "owned mgr mem [p3, p4] mem3"
            unfolding mem3_def p4(1) p3(1) using p3(3) by (intro owned_set owned_clear) auto
          moreover have "tab (clear_table (page_addr p3) (clear_table (page_addr p4) mem2)) p4 = replicate 512 0"
            using p3(2) lt
            by (subst tab_cong [where mem = "clear_table (page_addr p4) mem2"])
              (auto intro!: clear_frame tab_clear dest: in_page_unique)
          then have "tab mem3 p4 = (replicate 512 0)[0 := table_entry (page_addr p3)]"
            unfolding mem3_def p4(1) p3(1) using tab_set_same [OF lt(1), of 0] by simp
          moreover have "tab mem3 p3 = replicate 512 0"
            unfolding mem3_def p4(1) p3(1) using tab_set_other [OF lt] tab_clear [OF lt(2)] p3(2) by simp
          ultimately have "mapped mgr mem p4 p3 [] mem3" by (simp add: mapped_def)
          from map_gigabytes [OF this, of 64] show ?thesis
            using Pair Some P2 S2 p4(1) p3(1) page_addr_masked [OF lt40]
            by (simp add: init_os_paging_def mem3_def Let_def split: option.splits) blast
        qed
      qed
    qed
  qed
qed

lemma init_os_paging_Some:
  assumes "ram_wf mgr mem" "total_sectors mgr \<le> 2 ^ 40" and run: "init_os_paging mgr mem = Some (cr3, mem')"
  shows "66 \<le> card (free_pages mgr mem)"
    "\<And>va. unat va < 2 ^ 48 \<Longrightarrow> walk mem' cr3 va = (if unat va < 2 ^ 36 then Some va else None)"
    "\<And>x. is_used mgr (unat x div 4096) mem \<Longrightarrow> \<not> in_bitmap mgr x \<Longrightarrow> mem' x = mem x"
proof -
  from run init_os_paging_spec [OF assms(1,2)] obtain p4 p3 ps where m: "cr3 = page_addr p4" "length ps = 64"
      "mapped mgr mem p4 p3 ps mem'" by auto
  then have ow: "owned mgr mem (rev ps @ [p3, p4]) mem'" by (simp add: mapped_def)
  show "66 \<le> card (free_pages mgr mem)" using owned_enough [OF ow] m(2) by simp
  show "walk mem' cr3 va = (if unat va < 2 ^ 36 then Some va else None)" if "unat va < 2 ^ 48" for va
    unfolding m(1) using walk_mapped [OF m(3,2) assms(2)] that by blast
  show "mem' x = mem x" if "is_used mgr (unat x div 4096) mem" "\<not> in_bitmap mgr x" for x
  proof -
    have "\<not> in_page p x" if "p \<in> set (rev ps @ [p3, p4])" for p
      using ownedD(3) [OF ow that] \<open>is_used mgr (unat x div 4096) mem\<close> by (auto simp: in_page_def)
    with that ow show ?thesis unfolding owned_def by blast
  qed
qed

text \<open>
  C10. The kernel's page tables are an identity map. \<open>init_os_paging\<close> panics exactly when fewer than 66
  pages are free. Otherwise the processor, started with the returned root, translates every address
  below 64 GiB to itself and faults on every other 48-bit address, and no byte of a page that was in use
  before has changed, the allocator's bitmap apart.
\<close>

theorem init_os_paging_identity:
  assumes "ram_wf mgr mem" "total_sectors mgr \<le> 2 ^ 40"
  shows "case init_os_paging mgr mem of
      None \<Rightarrow> card {k. \<not> is_used mgr k mem} < 66
    | Some (cr3, mem') \<Rightarrow> 66 \<le> card {k. \<not> is_used mgr k mem}
        \<and> (\<forall>va. unat va < 2 ^ 48 \<longrightarrow> walk mem' cr3 va = (if unat va < 2 ^ 36 then Some va else None))
        \<and> (\<forall>x. is_used mgr (unat x div 4096) mem \<and> \<not> in_bitmap mgr x \<longrightarrow> mem' x = mem x)"
proof (cases "init_os_paging mgr mem")
  case None
  with init_os_paging_spec [OF assms] show ?thesis by (simp add: free_pages_def)
next
  case (Some r)
  obtain cr3 mem' where r: "r = (cr3, mem')" by (cases r)
  show ?thesis
    unfolding Some r option.case prod.case using init_os_paging_Some [OF assms Some [unfolded r]]
    unfolding free_pages_def by blast
qed

text \<open>1024 pages of memory with the bitmap in the first one, the only page in use.\<close>

theorem init_os_paging_identity_witness:
  "\<exists>cr3 mem'. init_os_paging \<lparr>bitmap = 0, total_sectors = 1024\<rparr> ((\<lambda>_. 0)(0 := 1)) = Some (cr3, mem')
     \<and> walk mem' cr3 0x123456789 = Some 0x123456789 \<and> walk mem' cr3 0x1000000000 = None"
proof -
  let ?mgr = "\<lparr>bitmap = 0, total_sectors = 1024\<rparr>" and ?mem = "(\<lambda>_. 0)(0 := 1) :: memory"
  have us: "\<not> is_used ?mgr k ?mem" if "1 \<le> k" "k < 1024" for k
  proof (cases "k < 8")
    case True
    have "k \<in> {1, 2, 3, 4, 5, 6, 7}" using True that by auto
    then show ?thesis by (auto simp: is_used_def)
  next
    case False
    have "unat (of_nat (k div 8) :: u64) = k div 8" using that by (intro unat_of_nat_u64) auto
    then have "(of_nat (k div 8) :: u64) \<noteq> 0" using False by (metis div_greater_zero_iff linorder_not_less unat_0 less_irrefl zero_less_numeral)
    with that show ?thesis by (auto simp: is_used_def)
  qed
  have "unat x div 4096 = 0" if "in_bitmap ?mgr x" for x
    using that by (auto simp: in_bitmap_def bitmap_bytes_def in_region_iff_bounds)
  then have wf: "ram_wf ?mgr ?mem" by (auto simp: ram_wf_def ram_ok_def is_used_def)
  have "{1..<1024} \<subseteq> {k. \<not> is_used ?mgr k ?mem}" using us by auto
  then have "card {1..<1024 :: nat} \<le> card {k. \<not> is_used ?mgr k ?mem}"
    using finite_free_pages [of ?mgr ?mem] unfolding free_pages_def by (rule card_mono [rotated])
  then have many: "\<not> card {k. \<not> is_used ?mgr k ?mem} < 66" by simp
  note th = init_os_paging_identity [OF wf]
  show ?thesis
  proof (cases "init_os_paging ?mgr ?mem")
    case None
    with th many show ?thesis by simp
  next
    case (Some r)
    obtain cr3 mem' where r: "r = (cr3, mem')" by (cases r)
    have "\<forall>va. unat va < 2 ^ 48 \<longrightarrow> walk mem' cr3 va = (if unat va < 2 ^ 36 then Some va else None)"
      using th unfolding Some r by simp
    from this [rule_format, of "0x123456789"] this [rule_format, of "0x1000000000"] Some r show ?thesis by simp
  qed
qed

end
