(* ===== verification/Idt.thy ===== *)
theory Idt imports Prelude begin

text \<open>
  The interrupt descriptor table, \<open>kernel/src/interrupts.rs\<close>: 256 gates of 16 bytes, of which \<open>init_idt\<close> fills three
  (page fault, keyboard, system call). The addresses of the handlers and of the table are link-time constants
  and hence arguments. \<open>lidt\<close> takes the pointer record, the result of \<open>init_idt\<close>.
\<close>

record idt_entry =
  offset_low :: u16
  selector :: u16
  ist :: u8
  flags :: u8
  offset_mid :: u16
  offset_high :: u32
  reserved_bits :: u32

record idtr =
  limit :: u16
  idt_base :: u64

definition idt_entry_new :: idt_entry where
  "idt_entry_new = \<lparr>offset_low = 0, selector = 0, ist = 0, flags = 0, offset_mid = 0, offset_high = 0, reserved_bits = 0\<rparr>"

definition IDT_0 :: "idt_entry list" where
  "IDT_0 = replicate 256 idt_entry_new"

definition set_handler :: "u64 \<Rightarrow> idt_entry \<Rightarrow> idt_entry" where
  "set_handler handler e = e\<lparr>offset_low := ucast handler, selector := 0x38, ist := 0, flags := 0x8E,
     offset_mid := ucast (drop_bit 16 handler), offset_high := ucast (drop_bit 32 handler), reserved_bits := 0\<rparr>"

definition size_of_idt_entry :: nat where "size_of_idt_entry = 2 + 2 + 1 + 1 + 2 + 4 + 4"

definition set_gate :: "nat \<Rightarrow> u64 \<Rightarrow> idt_entry list \<Rightarrow> idt_entry list" where
  "set_gate n h idt = idt[n := set_handler h (idt ! n)]"

definition init_idt :: "u64 \<Rightarrow> u64 \<Rightarrow> u64 \<Rightarrow> u64 \<Rightarrow> idt_entry list \<Rightarrow> idt_entry list \<times> idtr" where
  "init_idt page_fault_handler keyboard_handler syscall_int80_handler idt_addr idt =
     (let idt = set_gate 14 page_fault_handler idt;
          idt = set_gate 0x21 keyboard_handler idt;
          idt = set_gate 0x80 syscall_int80_handler idt
      in (idt, \<lparr>limit = of_nat (256 * size_of_idt_entry - 1), idt_base = idt_addr\<rparr>))"

section \<open>What the processor finds\<close>

text \<open>
  The processor's reading of a gate: a vector is dispatched when its gate is present and of type interrupt gate
  (\<open>flags\<close> 0x8E), to the address in the three parts of the offset.
\<close>

definition gate_target :: "idt_entry \<Rightarrow> u64" where
  "gate_target e = ucast (offset_low e) OR push_bit 16 (ucast (offset_mid e)) OR push_bit 32 (ucast (offset_high e))"

definition dispatch_vector :: "idtr \<Rightarrow> idt_entry list \<Rightarrow> nat \<Rightarrow> u64 option" where
  "dispatch_vector p idt n =
     (if (n + 1) * 16 \<le> unat (limit p) + 1 \<and> n < length idt \<and> flags (idt ! n) = 0x8E then Some (gate_target (idt ! n)) else None)"

lemma gate_target_set_handler [simp]: "gate_target (set_handler h e) = h"
proof -
  have "ucast (ucast h :: u16) OR push_bit 16 (ucast (ucast (drop_bit 16 h) :: u16) :: u64)
      OR push_bit 32 (ucast (ucast (drop_bit 32 h) :: u32) :: u64) = h"
  proof (rule bit_word_eqI)
    fix n assume n: "n < LENGTH(64)"
    consider "n < 16" | "16 \<le> n" "n < 32" | "32 \<le> n" by linarith
    then show "bit (ucast (ucast h :: u16) OR push_bit 16 (ucast (ucast (drop_bit 16 h) :: u16) :: u64)
        OR push_bit 32 (ucast (ucast (drop_bit 32 h) :: u32) :: u64)) n = bit h n"
      using n by cases (auto simp: bit_simps)
  qed
  then show ?thesis by (simp add: gate_target_def set_handler_def)
qed

lemma flags_set_handler [simp]: "flags (set_handler h e) = 0x8E"
  by (simp add: set_handler_def)

lemma nth_IDT_0: "n < 256 \<Longrightarrow> IDT_0 ! n = idt_entry_new" "length IDT_0 = 256"
  by (simp_all add: IDT_0_def del: replicate.simps)

lemma nth_set_gate: "n < length idt \<Longrightarrow> set_gate n h idt ! k = (if k = n then set_handler h (idt ! n) else idt ! k)"
  by (auto simp: set_gate_def)

lemma length_set_gate [simp]: "length (set_gate n h idt) = length idt"
  by (simp add: set_gate_def)

text \<open>After \<open>init_idt\<close> the processor dispatches exactly three vectors, 14, 0x21 and 0x80, each to the very address its
  handler was installed with, although the table keeps the address in three pieces.\<close>

theorem init_idt_dispatch:
  "(case init_idt pf kb sc base IDT_0 of (idt, p) \<Rightarrow>
      idt_base p = base \<and> dispatch_vector p idt = [14 \<mapsto> pf, 0x21 \<mapsto> kb, 0x80 \<mapsto> sc])"
proof -
  define idt where "idt = set_gate 0x80 sc (set_gate 0x21 kb (set_gate 14 pf IDT_0))"
  define p where "p = \<lparr>limit = of_nat (256 * size_of_idt_entry - 1), idt_base = base\<rparr>"
  have len: "length idt = 256" by (simp add: idt_def nth_IDT_0)
  have lim: "unat (limit p) = 4095" by (simp add: p_def size_of_idt_entry_def)
  have "dispatch_vector p idt n = ([14 \<mapsto> pf, 0x21 \<mapsto> kb, 0x80 \<mapsto> sc]) n" for n
  proof (cases "n < 256")
    case True
    then have e: "idt ! n = (if n = 0x80 then set_handler sc idt_entry_new else if n = 0x21 then set_handler kb idt_entry_new
        else if n = 14 then set_handler pf idt_entry_new else idt_entry_new)"
      by (simp add: idt_def nth_set_gate nth_IDT_0)
    show ?thesis using True by (simp only: dispatch_vector_def lim len e) (simp add: idt_entry_new_def)
  qed (simp add: dispatch_vector_def len)
  then show ?thesis by (auto simp: init_idt_def Let_def fun_eq_iff idt_def p_def)
qed

end
