(* ===== verification/Kmain.thy ===== *)
theory Kmain imports Boot_Memory Os_Paging Idt Ahci_Setup Ahci_Disk Shell begin

text \<open>
  The kernel's entry point, \<open>kmain\<close> in \<open>kernel/src/main.rs\<close>, put together from the components: memory, interrupt controllers,
  interrupt table, page tables, boot menu, disk and then one of the two modes. The CPU control registers it sets
  are not part of the state; \<open>mov cr3\<close> makes its result the page table root, returned by \<open>kmain_init\<close>. The heap
  (a third-party allocator) is only the block of pages it is given. The addresses of the handlers and of the
  interrupt table are link-time constants.
\<close>

record kernel_symbols =
  sym_page_fault_handler :: u64
  sym_keyboard_handler :: u64
  sym_syscall_int80_handler :: u64
  sym_IDT :: u64

record 'd kernel_start =
  ks_mgr :: ram_manager
  ks_ahci_mem :: u64
  ks_pml4 :: u64
  ks_idt :: "idt_entry list"
  ks_idtr :: idtr
  ks_world :: "'d kworld"

definition kmain_init :: "'d bus \<Rightarrow> kernel_symbols \<Rightarrow> mmap_config \<Rightarrow> 'd kworld \<Rightarrow> 'd kernel_start option" where
  "kmain_init bus sy cfg w = do {
     (mgr, ahci_mem_common, heap, mem) \<leftarrow> boot_memory cfg (ram (hw w));
     let w = on_hw (on_ram (\<lambda>_. mem)) w;
     let w = on_hw (out8 bus 0x21 0xFD) w;
     let w = apic_init bus w;
     let w = init_io_apic bus w;
     let (idt, p) = init_idt (sym_page_fault_handler sy) (sym_keyboard_handler sy) (sym_syscall_int80_handler sy) (sym_IDT sy) IDT_0;
     (pml4_phys, mem) \<leftarrow> init_os_paging mgr (ram (hw w));
     Some \<lparr>ks_mgr = mgr, ks_ahci_mem = ahci_mem_common, ks_pml4 = pml4_phys, ks_idt = idt, ks_idtr = p,
       ks_world = on_hw (on_ram (\<lambda>_. mem)) w\<rparr> }"

text \<open>The screen with the menu, and the mode chosen.\<close>

definition present :: "frame_buffer_config \<Rightarrow> double_buffer \<Rightarrow> 'd kworld \<Rightarrow> 'd kworld" where
  "present fb db w = on_hw (on_ram (db_flip db fb)) w"

definition kmain_menu :: "'d bus \<Rightarrow> u8 list \<Rightarrow> frame_buffer_config \<Rightarrow> 'd kworld \<Rightarrow> (nat \<times> double_buffer \<times> 'd kworld) option" where
  "kmain_menu bus font fb w = do {
     let env = \<lparr>se_io = ahci_io bus \<lparr>AHCI_ABAR = 0, AHCI_PORT = -1, AHCI_CT_BASE = 0, AHCI_DATA_PTR = 0\<rparr>, se_bus = bus, se_font = font,
       se_fb = fb, se_abar = 0\<rparr>;
     db \<leftarrow> draw_menu env (db_new fb);
     (mode, w) \<leftarrow> boot_menu bus (present fb db w);
     Some (mode, db, w) }"

text \<open>Mode 1: the disk, and the console of the standard boot.\<close>

definition kmain_standard ::
  "'d bus \<Rightarrow> u8 list \<Rightarrow> frame_buffer_config \<Rightarrow> u64 \<Rightarrow> double_buffer \<Rightarrow> screen \<Rightarrow> 'd kworld \<Rightarrow> (ahci_globals \<times> screen \<times> 'd kworld) option" where
  "kmain_standard bus font fb ahci_mem db sc w = do {
     db \<leftarrow> draw_string_db font 200 200 (str ''Booting Forward OS...'') 0x00FF00 (clear_screen_db 0x000000 db);
     let w = present fb db w;
     (g, m) \<leftarrow> ahci_setup bus ahci_mem (hw w);
     Some (g, set_framebuffer (frame_buffer fb) (pixels_per_scan_line fb) (horizontal_resolution fb) (vertical_resolution fb) sc, set_hw m w) }"

text \<open>Mode 2: the second copy of the disk setup, and the shell, under the executor; it never returns.\<close>

definition debug_setup :: "'d bus \<Rightarrow> u64 \<Rightarrow> 'd machine \<Rightarrow> (ahci_globals \<times> 'd machine) option" where
  "debug_setup bus ahci_mem_common m = ahci_setup bus ahci_mem_common m"

definition kmain_debug ::
  "('d kworld \<Rightarrow> 'd kworld) \<Rightarrow> 'd bus \<Rightarrow> u8 list \<Rightarrow> frame_buffer_config \<Rightarrow> u64 \<Rightarrow> double_buffer \<Rightarrow> 'd kworld \<Rightarrow> (unit \<times> 'd kworld) option" where
  "kmain_debug irq bus font fb ahci_mem db w = do {
     (c, db) \<leftarrow> write_line font (str ''Debug Shell Mode Started.'') 0x00FFFF (console_new, clear_screen_db 0x000000 db);
     let w = present fb db w;
     (g, m) \<leftarrow> debug_setup bus ahci_mem (hw w);
     let env = \<lparr>se_io = ahci_io bus g, se_bus = bus, se_font = font, se_fb = fb, se_abar = AHCI_ABAR g\<rparr>;
     block_on irq bus (poll_shell env) (False, shell_new c db) (set_hw m w) }"

end
