(* ===== verification/Standard_Boot.thy ===== *)
theory Standard_Boot imports E1000 Elf_Loader Futures Pci begin

text \<open>
  The standard boot, \<open>standard_boot\<close> in \<open>kernel/src/boot/mod.rs\<close>: a fixed sequence that exercises the kernel, file calls, the
  network card (an ARP request for the gateway's address), memory calls, a timed sleep and a program in a
  container. It ends by halting for ever: the result is the state it halts in, \<open>None\<close> a panic or a wait that never ends.
  The addresses of the local variables are arguments.
\<close>

record boot_locals =
  bl_result :: u64
  bl_buf :: u64
  bl_buf2 :: u64
  bl_test_data :: u64
  bl_var :: u64
  bl_header :: u64

section \<open>Helpers\<close>

text \<open>\<open>draw_string(x, y, msg, color); flip();\<close>\<close>

definition put_line :: "'d platform \<Rightarrow> u32 \<Rightarrow> u32 \<Rightarrow> u8 list \<Rightarrow> u32 \<Rightarrow> 'd os \<Rightarrow> 'd os option" where
  "put_line pf x y msg color s = map_option flip_screen (draw_text pf x y msg color s)"

definition clear_screen :: "u32 \<Rightarrow> 'd os \<Rightarrow> 'd os" where
  "clear_screen color s = s\<lparr>SCREEN := fill_screen color (SCREEN s)\<rparr>"

text \<open>An \<open>i32\<close> in decimal, and \<open>{:02X?}\<close> of a list of bytes.\<close>

definition fmt_i32 :: "u32 \<Rightarrow> u8 list" where
  "fmt_i32 n = fmt_int (scast n)"

fun join_bytes :: "u8 list \<Rightarrow> u8 list" where
  "join_bytes [] = []"
| "join_bytes [b] = fmt_hex02 b"
| "join_bytes (b # bs) = fmt_hex02 b @ str '', '' @ join_bytes bs"

definition fmt_debug_bytes :: "u8 list \<Rightarrow> u8 list" where
  "fmt_debug_bytes bs = str ''['' @ join_bytes bs @ str '']''"

section \<open>Files\<close>

definition boot_greeting :: "'d platform \<Rightarrow> regs \<Rightarrow> boot_locals \<Rightarrow> 'd os \<Rightarrow> 'd os option" where
  "boot_greeting pf rg l s = do {
     s \<leftarrow> put_line pf 200 200 (str ''Hello, Forward OS!'') 0x00FFFFFF (clear_screen 0x00336699 s);
     s \<leftarrow> k_sys_mget pf rg 1 0 (bl_result l) (on_mem (wr64 (bl_result l) 0) s);
     put_line pf 200 440 (str ''MGET test: 0x'' @ fmt_hex (rd64 (os_mem s) (bl_result l))) 0x00FFFF00 s }"

text \<open>Reading 512 bytes into a zeroed buffer and showing them; a length past the buffer would panic.\<close>

definition read_and_show :: "'d platform \<Rightarrow> regs \<Rightarrow> u32 \<Rightarrow> u64 \<Rightarrow> u8 list \<Rightarrow> u32 \<Rightarrow> 'd os \<Rightarrow> 'd os option" where
  "read_and_show pf rg fd buf msg y s = do {
     (n, s) \<leftarrow> k_sys_read_file pf rg fd buf 512 (on_mem (fill_bytes buf 512 0) s);
     s \<leftarrow> put_line pf 200 y (msg @ fmt_int n @ str '' bytes'') 0x00FFFF00 s;
     if sint n > 0 then
       if unat n > 512 then None
       else put_line pf 200 (y + 20) (rd_bytes (os_mem s) buf (unat n)) 0x00FFFFFF s
     else Some s }"

definition boot_file_test :: "'d platform \<Rightarrow> regs \<Rightarrow> boot_locals \<Rightarrow> 'd os \<Rightarrow> 'd os option" where
  "boot_file_test pf rg l s = do {
     (fd, s) \<leftarrow> on_files (syscall_open (p_disk pf) (str ''TXT.TXT'')) s;
     s \<leftarrow> put_line pf 200 220 (str ''fd='' @ fmt_i32 fd) 0x00FF00 s;
     if sint fd \<ge> 0 then do {
       s \<leftarrow> read_and_show pf rg fd (bl_buf l) (str ''read: '') 240 s;
       s \<leftarrow> put_line pf 10 500 (str ''test_data ptr=0x'' @ fmt_hex (bl_test_data l)) 0x00FFFF00 s;
       (write_ret, s) \<leftarrow> k_SYS_WRITE_FILE pf rg fd (bl_test_data l) 22 s;
       s \<leftarrow> put_line pf 200 280 (str ''write: '' @ fmt_int write_ret) 0x00FFFF00 s;
       (seek_ret, s) \<leftarrow> k_SYS_LSEEK pf rg fd 0 0 s;
       s \<leftarrow> put_line pf 200 290 (str ''seek: '' @ fmt_int seek_ret) 0x00FFFF00 s;
       (pos, s) \<leftarrow> k_sys_seek pf rg fd 0 s;
       s \<leftarrow> put_line pf 200 430 (str ''Seek pos: '' @ fmt_int pos) 0x00FFFF00 s;
       s \<leftarrow> read_and_show pf rg fd (bl_buf2 l) (str ''after write: '') 300 s;
       (r, s) \<leftarrow> k_sys_close pf rg fd s;
       put_line pf 200 340 (str ''close: '' @ fmt_i32 r) 0x00FFFF00 s }
     else Some s }"

section \<open>Network\<close>

definition arp_request :: "u8 list \<Rightarrow> u8 list" where
  "arp_request our_mac =
     [0xff, 0xff, 0xff, 0xff, 0xff, 0xff] @ take 6 our_mac
     @ [0x08, 0x06]
     @ [0x00, 0x01, 0x08, 0x00]
     @ [0x06, 0x04, 0x00, 0x01]
     @ take 6 our_mac
     @ [0x0a, 0x00, 0x02, 0x0f]
     @ [0x00, 0x00, 0x00, 0x00, 0x00, 0x00]
     @ [0x0a, 0x00, 0x02, 0x02]"

text \<open>The sender's address of an ARP reply; \<open>None\<close> when the packet is something else.\<close>

definition arp_reply_mac :: "u8 list \<Rightarrow> u8 list option" where
  "arp_reply_mac pkt =
     (if length pkt \<ge> 42 \<and> pkt ! 12 = 0x08 \<and> pkt ! 13 = 0x06 \<and> pkt ! 20 = 0x00 \<and> pkt ! 21 = 0x02
      then Some (take 6 (drop 22 pkt)) else None)"

text \<open>Polls until a reply comes, perhaps for ever. The card gets on only while the CPU is in the loop.\<close>

partial_function (option) arp_listen :: "'d platform \<Rightarrow> e1000 \<Rightarrow> 'd os \<Rightarrow> (u8 list \<times> 'd os) option" where
  "arp_listen pf nic s =
     (case poll_receive pf nic s of
        (None, s) \<Rightarrow> arp_listen pf nic (set_machine (spin (p_bus pf) 1 (os_machine s)) s)
      | (Some (buf, len), s) \<Rightarrow>
          (case draw_text pf 200 600 (str ''RX: '' @ fmt_dec (of_nat len) @ str '' bytes'') 0x00FF00 s of
             None \<Rightarrow> None
           | Some s \<Rightarrow>
               (case arp_reply_mac (rd_bytes (os_mem s) buf len) of
                  Some host_mac \<Rightarrow>
                    map_option (\<lambda>s. (host_mac, s)) (put_line pf 200 620 (str ''Host MAC: '' @ fmt_debug_bytes host_mac) 0x00FFFF00 s)
                | None \<Rightarrow> arp_listen pf nic (set_machine (spin (p_bus pf) 1 (os_machine (flip_screen s))) (flip_screen s)))))"

definition boot_network :: "'d platform \<Rightarrow> regs \<Rightarrow> boot_locals \<Rightarrow> 'd os \<Rightarrow> 'd os option" where
  "boot_network pf rg l s =
     (case find_e1000 (p_bus pf) (dev (os_machine s)) of
        (None, d) \<Rightarrow> Some (set_machine ((os_machine s)\<lparr>dev := d\<rparr>) s)
      | (Some nic_dev, d) \<Rightarrow> do {
          (nic, s) \<leftarrow> new_nic pf rg (bl_var l) (bar0 nic_dev) (set_machine ((os_machine s)\<lparr>dev := d\<rparr>) s);
          s \<leftarrow> draw_text pf 200 520 (str ''NIC MAC: '' @ fmt_debug_bytes (mac nic)) 0x00FF00 s;
          s \<leftarrow> put_line pf 200 540 (str ''E1000: RX/TX ready'') 0x00FFFF00 s;
          let s = snd (send pf nic (arp_request (mac nic)) s);
          s \<leftarrow> put_line pf 200 560 (str ''ARP sent'') 0x00FF00 s;
          s \<leftarrow> put_line pf 200 580 (str ''Listening...'') 0x00FFFF00 s;
          (host_mac, s) \<leftarrow> arp_listen pf nic s;
          Some s })"

section \<open>Memory\<close>

definition boot_munmap_test :: "'d platform \<Rightarrow> regs \<Rightarrow> boot_locals \<Rightarrow> 'd os \<Rightarrow> 'd os option" where
  "boot_munmap_test pf rg l s = do {
     s \<leftarrow> put_line pf 200 700 (str ''=== SYS_MUNMAP Test ==='') 0x00FFFF00 s;
     s \<leftarrow> k_sys_mmap pf rg 1 4096 (bl_var l) (on_mem (wr64 (bl_var l) 0) s);
     let test_addr = rd64 (os_mem s) (bl_var l);
     s \<leftarrow> put_line pf 200 720 (str ''Allocated: 0x'' @ fmt_hex test_addr) 0x00FF00 s;
     s \<leftarrow> (if test_addr \<noteq> 0 \<and> test_addr \<noteq> 0xFFFFFFFFFFFFFFFF
          then let s = on_mem (wr64 test_addr 0x12345678) s
               in put_line pf 200 740 (str ''Write/Read: 0x'' @ fmt_hex (rd64 (os_mem s) test_addr)) 0x00FF00 s
          else Some s);
     (munmap_ret, s) \<leftarrow> k_sys_munmap pf rg test_addr 1 s;
     s \<leftarrow> put_line pf 200 760 (str ''Munmap returned: '' @ fmt_int munmap_ret) 0x00FFFF s;
     s \<leftarrow> k_sys_mmap pf rg 1 4096 (bl_var l) (on_mem (wr64 (bl_var l) 0) s);
     put_line pf 200 780 (str ''Re-allocated: 0x'' @ fmt_hex (rd64 (os_mem s) (bl_var l))) 0x00FF00 s }"

section \<open>Container and sleep\<close>

definition on_world :: "('d kworld \<Rightarrow> 'd kworld) \<Rightarrow> 'd os \<Rightarrow> 'd os" where
  "on_world f s = s\<lparr>world := f (world s)\<rparr>"

definition boot_container_setup :: "'d platform \<Rightarrow> regs \<Rightarrow> boot_locals \<Rightarrow> 'd os \<Rightarrow> (u32 \<times> 'd os) option" where
  "boot_container_setup pf rg l s = do {
     let s = on_world (\<lambda>w. w\<lparr>CTABLE := init_containers (CTABLE w)\<rparr>) s;
     s \<leftarrow> k_sys_mmap pf rg 64 4096 (bl_var l) (on_mem (wr64 (bl_var l) 0) s);
     let container_mem = rd64 (os_mem s) (bl_var l);
     s \<leftarrow> put_line pf 200 660 (str ''Container mem: 0x'' @ fmt_hex container_mem) 0x00FFFF00 s;
     let (container_id, ct) = create_container container_mem 64 ''test_container'' (CTABLE (world s));
     let s = on_world (\<lambda>w. w\<lparr>CTABLE := ct\<rparr>) s;
     s \<leftarrow> put_line pf 200 640 (str ''Container ID: '' @ fmt_dec (ucast container_id)) 0x00FFFF00 s;
     Some (container_id, s) }"

text \<open>The timed block as a future: read the clock, sleep, read it again. A frequency of 0 divides by zero.\<close>

datatype timed = Timed_Start | Timed_Sleep u64 sleep_future

definition poll_timed_sleep :: "'d bus \<Rightarrow> u64 \<Rightarrow> sleep_future \<Rightarrow> 'd kworld \<Rightarrow> u64 poll_result \<times> timed \<times> 'd kworld" where
  "poll_timed_sleep bus start f w =
     (case poll_sleep bus f w of
        (Panicked, f, w) \<Rightarrow> (Panicked, Timed_Sleep start f, w)
      | (Pending, f, w) \<Rightarrow> (Pending, Timed_Sleep start f, w)
      | (Ready _, f, w) \<Rightarrow>
          (case GLOBAL_TIMER w of None \<Rightarrow> (Panicked, Timed_Sleep start f, w)
           | Some t \<Rightarrow>
               (case now bus t (hw w) of (fin, m) \<Rightarrow>
                  let w = w\<lparr>hw := m\<rparr>
                  in if frequency t = 0 then (Panicked, Timed_Sleep start f, w)
                     else (Ready ((fin - start) * 1000 div frequency t), Timed_Sleep start f, w))))"

definition poll_timed :: "'d bus \<Rightarrow> u64 \<Rightarrow> (timed, 'd, u64) poll_fun" where
  "poll_timed bus ms st w =
     (case st of
        Timed_Sleep start f \<Rightarrow> poll_timed_sleep bus start f w
      | Timed_Start \<Rightarrow>
          (case GLOBAL_TIMER w of None \<Rightarrow> (Panicked, st, w)
           | Some t \<Rightarrow>
               (case now bus t (hw w) of (start, m) \<Rightarrow>
                  (case sleep_ms bus ms (w\<lparr>hw := m\<rparr>) of
                     None \<Rightarrow> (Panicked, st, w)
                   | Some (f, w) \<Rightarrow> poll_timed_sleep bus start f w))))"

definition boot_sleep_test :: "('d kworld \<Rightarrow> 'd kworld) \<Rightarrow> 'd platform \<Rightarrow> 'd os \<Rightarrow> 'd os option" where
  "boot_sleep_test irq pf s = do {
     w \<leftarrow> init_timer (p_bus pf) (world s);
     (elapsed_ms, w) \<leftarrow> block_on irq (p_bus pf) (poll_timed (p_bus pf) 1000) Timed_Start w;
     put_line pf 200 500 (str ''Sleep 1s -> actual '' @ fmt_dec elapsed_ms @ str '' ms'') 0x00FFFF00 (s\<lparr>world := w\<rparr>) }"

partial_function (option) wait_shift :: "'d bus \<Rightarrow> 'd kworld \<Rightarrow> 'd kworld option" where
  "wait_shift bus w =
     (case poll_keyboard bus w of
        (Some sc, w) \<Rightarrow> if sc = 0x2A \<or> sc = 0x36 then Some w else wait_shift bus (pause bus w)
      | (None, w) \<Rightarrow> wait_shift bus (pause bus w))"

text \<open>
  The work in the container never waits, so that the executor polls it once, after one turn's interrupts; in a
  stopped container it is not run.
\<close>

definition boot_container_run ::
  "('d kworld \<Rightarrow> 'd kworld) \<Rightarrow> (u64 \<Rightarrow> 'd os \<Rightarrow> 'd os option) \<Rightarrow> 'd platform \<Rightarrow> regs \<Rightarrow> boot_locals \<Rightarrow> u32 \<Rightarrow> 'd os \<Rightarrow> 'd os option" where
  "boot_container_run irq program pf rg l container_id s =
     (let s = on_world irq s in
      if get_container_state container_id (CTABLE (world s)) = Some Stopped then Some s
      else do {
        s \<leftarrow> put_line pf 200 680 (str ''[CONTAINER] Started!'') 0x00FF00 s;
        (r, s) \<leftarrow> load_and_run_container program pf rg (bl_header l) (bl_var l) (str ''APP.ELF'') s;
        s \<leftarrow> put_line pf 150 700 (str ''[CONTAINER] ELF returned: '' @ fmt_int r) 0x00FFFF00 s;
        put_line pf 150 720 (str ''[CONTAINER] Work done!'') 0x00FF00 s })"

definition standard_boot ::
  "('d kworld \<Rightarrow> 'd kworld) \<Rightarrow> (u64 \<Rightarrow> 'd os \<Rightarrow> 'd os option) \<Rightarrow> 'd platform \<Rightarrow> regs \<Rightarrow> boot_locals \<Rightarrow> 'd os \<Rightarrow> 'd os option" where
  "standard_boot irq program pf rg l s = do {
     s \<leftarrow> boot_greeting pf rg l s;
     s \<leftarrow> boot_file_test pf rg l s;
     s \<leftarrow> draw_text pf 200 400 (str ''Test Complete!'') 0x00FF0000 s;
     s \<leftarrow> put_line pf 200 420 (str ''Press SHIFT for debug mode'') 0x00FFFF00 s;
     s \<leftarrow> boot_network pf rg l s;
     s \<leftarrow> boot_munmap_test pf rg l s;
     (container_id, s) \<leftarrow> boot_container_setup pf rg l s;
     s \<leftarrow> boot_sleep_test irq pf s;
     w \<leftarrow> wait_shift (p_bus pf) (world s);
     let s = clear_screen 0x00336699 (s\<lparr>world := w\<rparr>);
     s \<leftarrow> boot_container_run irq program pf rg l container_id s;
     put_line pf 150 740 (str ''[CONTAINER] Finished!'') 0x00FF00 s }"

end
