(* ===== verification/Bootloader.thy ===== *)
theory Bootloader imports Boot_Memory Draw begin

text \<open>
  The UEFI boot loader, \<open>bootloader/src/main.rs\<close>: it reads the kernel's file, unpacks its ELF segments, allocates a stack,
  describes the screen and the firmware's memory map to the kernel and jumps to it. The firmware and the ELF library are
  parameters (the record \<open>firmware\<close>): the contents of \<open>kernel.elf\<close>, what an allocation does to memory and
  which address it gives, the graphics mode, the entry point and program headers of a file, and where the memory map lies
  once the boot services are left. \<open>None\<close> is a panic (\<open>unwrap\<close>, \<open>expect\<close>). The state of the
  floating-point unit (\<open>finit\<close>) and the interrupt flag are not modelled.
\<close>

section \<open>Unpacking the kernel\<close>

record program_header =
  ph_load :: bool
  virtual_addr :: u64
  mem_size :: u64
  file_size :: u64
  ph_offset :: u64

text \<open>The pages a segment touches: the address of the first and how many.\<close>

definition segment_pages :: "program_header \<Rightarrow> u64 \<times> u64" where
  "segment_pages ph =
     (let aligned_start = virtual_addr ph AND NOT 0xFFF;
          aligned_end = (virtual_addr ph + mem_size ph + 0xFFF) AND NOT 0xFFF
      in (aligned_start, (aligned_end - aligned_start) div 0x1000))"

definition unpack_segment :: "(u64 \<Rightarrow> u64 \<Rightarrow> memory \<Rightarrow> memory) \<Rightarrow> u64 \<Rightarrow> program_header \<Rightarrow> memory \<Rightarrow> memory" where
  "unpack_segment allocate_pages kernel_data ph mem =
     (if ph_load ph then
        let (aligned_start, pages) = segment_pages ph;
            mem = allocate_pages aligned_start pages mem;
            dest = virtual_addr ph;
            src = kernel_data + ph_offset ph;
            mem = wr_bytes dest (rd_bytes mem src (unat (file_size ph))) mem
        in if mem_size ph > file_size ph
           then fill_bytes (dest + file_size ph) (unat (mem_size ph - file_size ph)) 0 mem else mem
      else mem)"

definition unpack_kernel :: "(u64 \<Rightarrow> u64 \<Rightarrow> memory \<Rightarrow> memory) \<Rightarrow> u64 \<Rightarrow> program_header list \<Rightarrow> memory \<Rightarrow> memory" where
  "unpack_kernel allocate_pages kernel_data phs mem = fold (unpack_segment allocate_pages kernel_data) phs mem"

section \<open>The memory map\<close>

text \<open>From the addresses of the firmware's descriptors; a descriptor of the library's own type has 40 bytes.\<close>

definition size_of_MemoryDescriptor :: nat where "size_of_MemoryDescriptor = 40"

definition real_desc_size :: "u64 list \<Rightarrow> u64" where
  "real_desc_size entries =
     (let e1 = (if 0 < length entries then entries ! 0 else 0);
          e2 = (if 1 < length entries then entries ! 1 else 0)
      in if e2 > e1 then e2 - e1 else of_nat size_of_MemoryDescriptor)"

definition handover :: "u64 list \<Rightarrow> mmap_config" where
  "handover entries =
     (let d = real_desc_size entries
      in \<lparr>mm_ptr = (if 0 < length entries then entries ! 0 else 0), mm_len = of_nat (length entries) * d, mm_desc_size = d\<rparr>)"

section \<open>The loader as a whole\<close>

record gop_mode =
  gop_base :: u64
  gop_stride :: u64
  gop_resolution :: "u64 \<times> u64"

record firmware =
  fw_file :: "u8 list option"
  fw_alloc :: "nat \<Rightarrow> memory \<Rightarrow> u64 \<times> memory"
  fw_elf :: "u8 list \<Rightarrow> (u64 \<times> program_header list) option"
  fw_gop :: "gop_mode option"
  fw_allocate_at :: "u64 \<Rightarrow> u64 \<Rightarrow> memory \<Rightarrow> memory"
  fw_allocate_any :: "nat \<Rightarrow> memory \<Rightarrow> (u64 \<times> memory) option"
  fw_exit :: "memory \<Rightarrow> u64 list \<times> memory"

text \<open>The control registers, and the registers the kernel is entered with.\<close>

record control_regs =
  cr0 :: u64
  cr4 :: u64

record entry_state =
  es_rip :: u64
  es_rsp :: u64
  es_rdi :: u64
  es_rsi :: u32
  es_rdx :: u32
  es_rcx :: u32
  es_r8 :: u64

text \<open>The file in a zeroed vector: its address, its length and the entry point.\<close>

definition read_kernel :: "firmware \<Rightarrow> memory \<Rightarrow> (u64 \<times> nat \<times> u64 \<times> memory) option" where
  "read_kernel fw mem = do {
     file_data \<leftarrow> fw_file fw;
     let (data, mem) = fw_alloc fw (length file_data) mem;
     let mem = fill_bytes data (length file_data) 0 mem;
     let mem = wr_bytes data file_data mem;
     (entry_point, _) \<leftarrow> fw_elf fw (rd_bytes mem data (length file_data));
     Some (data, length file_data, entry_point, mem) }"

text \<open>The mode's sizes are \<open>usize\<close> and are cut to 32 bits.\<close>

definition gop_config :: "gop_mode \<Rightarrow> frame_buffer_config" where
  "gop_config mode = \<lparr>frame_buffer = gop_base mode, pixels_per_scan_line = ucast (gop_stride mode),
     horizontal_resolution = ucast (fst (gop_resolution mode)), vertical_resolution = ucast (snd (gop_resolution mode))\<rparr>"

definition stack_size :: nat where "stack_size = 0x100000"

definition init_cpu :: "control_regs \<Rightarrow> control_regs" where
  "init_cpu c =
     (let r0 = cr0 c AND NOT (push_bit 2 1); r0 = r0 OR push_bit 1 1;
          r4 = cr4 c OR push_bit 9 1; r4 = r4 OR push_bit 10 1
      in c\<lparr>cr0 := r0, cr4 := r4\<rparr>)"

text \<open>The structure on the loader's stack, three fields of 8 bytes.\<close>

definition store_mmap_config :: "u64 \<Rightarrow> mmap_config \<Rightarrow> memory \<Rightarrow> memory" where
  "store_mmap_config a c mem = wr64 (a + 16) (mm_desc_size c) (wr64 (a + 8) (mm_len c) (wr64 a (mm_ptr c) mem))"

text \<open>The jump: a fresh stack, aligned, with a 0 in the place of a return address.\<close>

definition jump_to_kernel :: "u64 \<Rightarrow> u64 \<Rightarrow> frame_buffer_config \<Rightarrow> u64 \<Rightarrow> memory \<Rightarrow> entry_state \<times> memory" where
  "jump_to_kernel entry_point stack_top config mmap_config_addr mem =
     (let rsp = (stack_top AND - 16) - 8
      in (\<lparr>es_rip = entry_point, es_rsp = rsp, es_rdi = frame_buffer config, es_rsi = pixels_per_scan_line config,
          es_rdx = horizontal_resolution config, es_rcx = vertical_resolution config, es_r8 = mmap_config_addr\<rparr>,
          wr64 rsp 0 mem))"

definition loader_main ::
  "firmware \<Rightarrow> u64 \<Rightarrow> control_regs \<Rightarrow> memory \<Rightarrow> (entry_state \<times> control_regs \<times> memory) option" where
  "loader_main fw mmap_config_addr c mem = do {
     (kernel_data, len, entry_point, mem) \<leftarrow> read_kernel fw mem;
     config \<leftarrow> map_option gop_config (fw_gop fw);
     (_, phs) \<leftarrow> fw_elf fw (rd_bytes mem kernel_data len);
     let mem = unpack_kernel (fw_allocate_at fw) kernel_data phs mem;
     (stack_base, mem) \<leftarrow> fw_allocate_any fw (stack_size div 0x1000) mem;
     let stack_top = stack_base + of_nat stack_size;
     let c = init_cpu c;
     let (entries, mem) = fw_exit fw mem;
     let mem = store_mmap_config mmap_config_addr (handover entries) mem;
     let (es, mem) = jump_to_kernel entry_point stack_top config mmap_config_addr mem;
     Some (es, c, mem) }"

section \<open>What the kernel reads\<close>

text \<open>The memory map arrives. For a map of \<open>n\<close> descriptors that lie one behind the other at a constant distance (the
  library's own size if there is only one), without wrapping, the kernel's loop over the structure it is handed
  runs exactly \<open>n\<close> times and looks at exactly the firmware's descriptors, although the loader only measures the
  distance between the first two.\<close>

theorem memory_map_handover:
  assumes entries: "entries = map (\<lambda>i. p + of_nat i * d) [0..<n]"
    and d: "0 < d" "n = 1 \<longrightarrow> d = 40" and wrap: "unat p + n * unat d < 2 ^ 64"
  shows "desc_count (handover entries) = Some n \<and> (\<forall>i<n. desc_addr (handover entries) i = entries ! i)"
proof (cases "n = 0")
  case True
  then show ?thesis by (simp add: entries handover_def real_desc_size_def desc_count_def size_of_MemoryDescriptor_def Let_def)
next
  case False
  have d0: "0 < unat d" using d(1) by (simp add: word_less_nat_alt)
  have size: "real_desc_size entries = d"
  proof (cases "n = 1")
    case True
    then show ?thesis using d(2) by (simp add: entries real_desc_size_def size_of_MemoryDescriptor_def)
  next
    case False
    with \<open>n \<noteq> 0\<close> have n: "2 \<le> n" by simp
    then have "2 * unat d \<le> n * unat d" by (rule mult_le_mono1)
    then have "unat p + unat d < 2 ^ 64" using wrap by linarith
    then have "unat (p + d) = unat p + unat d" by (simp add: unat_word_ariths)
    then have "p < p + d" using d0 by (simp add: word_less_nat_alt)
    then show ?thesis using n by (simp add: entries real_desc_size_def)
  qed
  have "unat (of_nat n * d) = n * unat d"
  proof -
    have nd: "n * unat d < 2 ^ 64" using wrap by linarith
    have "n * 1 \<le> n * unat d" using d0 by (intro mult_le_mono2) simp
    with nd have "n < 2 ^ 64" by linarith
    with nd show ?thesis by (simp add: unat_word_ariths)
  qed
  then have "unat ((of_nat n * d) div d) = n" using d0 by (simp add: unat_div)
  then show ?thesis
    using d(1) False by (auto simp: handover_def size desc_count_def desc_addr_def Let_def) (simp_all add: entries)
qed

theorem memory_map_handover_witness:
  "desc_count (handover [0x5000, 0x5030, 0x5060]) = Some 3"
  using memory_map_handover [of "[0x5000, 0x5030, 0x5060]" "0x5000" "0x30" 3] by (simp add: upt_rec numeral_3_eq_3)

section \<open>One segment\<close>

lemma align_down: "(x :: u64) AND NOT 0xFFF = of_nat (unat x div 4096 * 4096)"
proof -
  have "x AND NOT 0xFFF = x AND NOT (mask 12)" by (simp add: mask_eq_exp_minus_1)
  also have "\<dots> = push_bit 12 (drop_bit 12 x)" by (rule bit_word_eqI) (auto simp: bit_simps)
  also have "\<dots> = (x div 4096) * 4096" by (simp add: push_bit_eq_mult drop_bit_eq_div)
  also have "x div 4096 = of_nat (unat x div 4096)" using of_nat_unat_u64 [of "x div 4096"] by (simp add: unat_div)
  finally show ?thesis by simp
qed

text \<open>Memory is allocated without changing anything but the pages it is asked for.\<close>

definition alloc_within :: "(u64 \<Rightarrow> u64 \<Rightarrow> memory \<Rightarrow> memory) \<Rightarrow> bool" where
  "alloc_within allocate_pages \<longleftrightarrow> (\<forall>a n mem x. \<not> in_region a (unat n * 4096) x \<longrightarrow> allocate_pages a n mem x = mem x)"

lemma segment_pages_cover:
  assumes "unat (virtual_addr ph) + unat (mem_size ph) + 0xFFF < 2 ^ 64" "segment_pages ph = (a, n)" "i < unat (mem_size ph)"
  shows "in_region a (unat n * 4096) (virtual_addr ph + of_nat i)" "unat a mod 4096 = 0"
proof -
  let ?v = "unat (virtual_addr ph)" and ?e = "unat (virtual_addr ph) + unat (mem_size ph) + 0xFFF"
  have e: "unat (virtual_addr ph + mem_size ph + 0xFFF) = ?e"
    using assms(1) by (simp add: unat_word_ariths)
  have a: "unat a = ?v div 4096 * 4096" and b: "unat ((virtual_addr ph + mem_size ph + 0xFFF) AND NOT 0xFFF) = ?e div 4096 * 4096"
    and n: "n = (((virtual_addr ph + mem_size ph + 0xFFF) AND NOT 0xFFF) - a) div 0x1000"
  proof -
    have le: "?v div 4096 * 4096 < 2 ^ 64" "?e div 4096 * 4096 < 2 ^ 64"
      using assms(1) div_times_less_eq_dividend [of ?v 4096] div_times_less_eq_dividend [of ?e 4096] by linarith+
    have "a = virtual_addr ph AND NOT 0xFFF" using assms(2) by (simp add: segment_pages_def Let_def)
    then show "unat a = ?v div 4096 * 4096" unfolding align_down using le(1) by (simp only: unat_of_nat_u64)
    show "unat ((virtual_addr ph + mem_size ph + 0xFFF) AND NOT 0xFFF) = ?e div 4096 * 4096"
      unfolding align_down e using le(2) by (simp only: unat_of_nat_u64)
    show "n = (((virtual_addr ph + mem_size ph + 0xFFF) AND NOT 0xFFF) - a) div 0x1000"
      using assms(2) by (auto simp: segment_pages_def Let_def)
  qed
  have "?v div 4096 \<le> ?e div 4096" by (rule div_le_mono) simp
  then have "unat n = (?e div 4096 * 4096 - ?v div 4096 * 4096) div 4096"
    using a b by (simp add: n unat_div unat_sub word_le_nat_alt)
  then have "unat n * 4096 = ?e div 4096 * 4096 - ?v div 4096 * 4096"
    by (simp add: diff_mult_distrib [symmetric])
  moreover have "?v + i < ?e div 4096 * 4096" using assms(3) by (simp add: less_eq_div_iff_mult_less_eq)
  moreover have "unat (virtual_addr ph + of_nat i) = ?v + i"
    using assms(1,3) by (simp add: unat_word_ariths)
  moreover have le: "?v div 4096 * 4096 \<le> ?v + i" using div_times_less_eq_dividend [of ?v 4096] by linarith
  ultimately have "unat (virtual_addr ph + of_nat i - a) < unat n * 4096"
    using a by (simp add: unat_sub word_le_nat_alt diff_less_mono)
  then show "in_region a (unat n * 4096) (virtual_addr ph + of_nat i)" by (simp add: in_region_def)
  show "unat a mod 4096 = 0" by (simp add: a)
qed

text \<open>C20. One segment of the kernel. If the file part is not longer than the memory part, the addresses do not wrap, the firmware
  touches only the pages it is asked for and the file lies outside them, then after unpacking the segment has the
  file's bytes followed by zeros up to its size in memory, and nothing outside the pages that were asked for has
  changed; the pages start on a page boundary.\<close>

theorem unpack_segment_image:
  assumes "ph_load ph" "file_size ph \<le> mem_size ph" "unat (virtual_addr ph) + unat (mem_size ph) + 0xFFF < 2 ^ 64"
    and alloc: "alloc_within allocate_pages" and pages: "segment_pages ph = (a, n)" and ne: "0 < unat (mem_size ph)"
    and src: "\<And>i. i < unat (file_size ph) \<Longrightarrow> \<not> in_region a (unat n * 4096) (kernel_data + ph_offset ph + of_nat i)"
  shows "(let mem' = unpack_segment allocate_pages kernel_data ph mem in
    rd_bytes mem' (virtual_addr ph) (unat (mem_size ph))
      = rd_bytes mem (kernel_data + ph_offset ph) (unat (file_size ph)) @ replicate (unat (mem_size ph) - unat (file_size ph)) 0
    \<and> (\<forall>x. \<not> in_region a (unat n * 4096) x \<longrightarrow> mem' x = mem x) \<and> unat a mod 4096 = 0)"
proof -
  let ?f = "unat (file_size ph)" and ?m = "unat (mem_size ph)" and ?v = "virtual_addr ph"
  define m1 where "m1 = allocate_pages a n mem"
  define bytes where "bytes = rd_bytes m1 (kernel_data + ph_offset ph) ?f"
  define m2 where "m2 = fill_bytes (?v + file_size ph) (?m - ?f) 0 (wr_bytes ?v bytes m1)"
  note cover = segment_pages_cover [OF assms(3) pages]
  have fm: "?f \<le> ?m" using assms(2) by (simp add: word_le_nat_alt)
  have m1: "m1 x = mem x" if "\<not> in_region a (unat n * 4096) x" for x
    using alloc that by (simp add: m1_def alloc_within_def)
  have bytes: "bytes = rd_bytes mem (kernel_data + ph_offset ph) ?f"
    unfolding bytes_def by (rule rd_bytes_cong) (use m1 src in blast)
  have run: "unpack_segment allocate_pages kernel_data ph mem = m2"
  proof (cases "mem_size ph > file_size ph")
    case True
    then have "unat (mem_size ph - file_size ph) = ?m - ?f" using assms(2) by (simp add: unat_sub)
    with True assms(1) show ?thesis by (simp add: unpack_segment_def pages Let_def m1_def m2_def bytes_def)
  next
    case False
    then have "?m - ?f = 0" using assms(2) by (simp add: word_less_nat_alt)
    then have "m2 = wr_bytes ?v bytes m1" by (simp add: m2_def fill_bytes_def)
    with False assms(1) show ?thesis by (simp add: unpack_segment_def pages Let_def m1_def bytes_def)
  qed
  have big: "?m < 2 ^ 64" by simp
  have zero: "in_region (?v + file_size ph) (?m - ?f) (?v + of_nat i) \<longleftrightarrow> ?f \<le> i" if "i < ?m" for i
  proof (cases "?f \<le> i")
    case True
    have e: "?v + of_nat i = ?v + file_size ph + of_nat (i - ?f)" using True by (simp add: of_nat_diff)
    have b: "i - ?f < 2 ^ 64" "i - ?f < ?m - ?f" using True that big by linarith+
    show ?thesis using in_region_offset [OF b(1), of "?v + file_size ph" "?m - ?f"] b(2) True unfolding e by blast
  next
    case False
    then have "?v + of_nat i - (?v + file_size ph) = of_nat i - of_nat ?f" by simp
    moreover have "i < 2 ^ 64" using that big by linarith
    then have "unat (of_nat i - of_nat ?f :: u64) = 2 ^ 64 + i - ?f"
      using False unat_of_nat_u64 [of i] by (simp add: unat_sub_if')
    moreover have "\<not> 2 ^ 64 + i - ?f < ?m - ?f" using False that big by linarith
    ultimately show ?thesis using False by (simp add: in_region_def)
  qed
  have "rd_bytes m2 ?v ?m = bytes @ replicate (?m - ?f) 0"
  proof (rule nth_equalityI)
    fix i assume "i < length (rd_bytes m2 ?v ?m)"
    then have i: "i < ?m" by simp
    have "i < 2 ^ 64" using i big by linarith
    then have wr: "wr_bytes ?v bytes m1 (?v + of_nat i) = bytes ! i" if "i < ?f"
      using wr_bytes_offset [of i bytes ?v m1] that by (simp add: bytes_def)
    from i show "rd_bytes m2 ?v ?m ! i = (bytes @ replicate (?m - ?f) 0) ! i"
      using zero [OF i] fm wr
      by (cases "?f \<le> i") (simp_all add: m2_def fill_bytes_def nth_append bytes_def not_le)
  qed (use fm in \<open>simp add: bytes_def\<close>)
  moreover have "m2 x = mem x" if out: "\<not> in_region a (unat n * 4096) x" for x
  proof -
    have no: "x \<noteq> ?v + of_nat i" if "i < ?m" for i using cover(1) [OF that] out by auto
    have "\<not> in_region ?v ?m x" using no by (auto elim: in_regionE)
    then have "\<not> in_region ?v (length bytes) x" using fm in_region_mono [of ?v "length bytes" x ?m] by (auto simp: bytes_def)
    moreover have "\<not> in_region (?v + file_size ph) (?m - ?f) x"
    proof
      assume "in_region (?v + file_size ph) (?m - ?f) x"
      then obtain j where j: "j < ?m - ?f" "x = ?v + file_size ph + of_nat j" by (auto elim: in_regionE)
      then have "x = ?v + of_nat (?f + j)" by simp
      moreover have "?f + j < ?m" using j(1) by linarith
      ultimately show False using no [of "?f + j"] by blast
    qed
    ultimately show ?thesis using m1 [OF out] by (simp add: m2_def fill_bytes_def wr_bytes_other)
  qed
  ultimately show ?thesis using cover(2) [of 0] ne by (simp add: run bytes Let_def)
qed

theorem unpack_segment_image_witness:
  "rd_bytes (unpack_segment (\<lambda>a n mem. mem) 0x1000 \<lparr>ph_load = True, virtual_addr = 0x100010, mem_size = 4, file_size = 2, ph_offset = 8\<rparr>
     ((\<lambda>_. 7)(0x1008 := 1, 0x1009 := 2))) 0x100010 4 = [1, 2, 0, 0]"
proof -
  let ?ph = "\<lparr>ph_load = True, virtual_addr = 0x100010, mem_size = 4, file_size = 2, ph_offset = 8\<rparr>"
  have p: "segment_pages ?ph = (0x100000, 1)" by code_simp
  have out: "\<not> in_region 0x100000 (unat 1 * 4096) (0x1000 + ph_offset ?ph + of_nat i)" if "i < unat (file_size ?ph)" for i
  proof -
    have "unat (file_size ?ph) = 2" by simp
    with that have "i = 0 \<or> i = 1" by linarith
    then show ?thesis by (auto simp: in_region_iff_bounds)
  qed
  have "rd_bytes (unpack_segment (\<lambda>a n mem. mem) 0x1000 ?ph ((\<lambda>_. 7)(0x1008 := 1, 0x1009 := 2))) 0x100010 4
      = rd_bytes ((\<lambda>_. 7)(0x1008 := 1, 0x1009 := 2)) (0x1000 + 8) 2 @ replicate 2 0"
    using unpack_segment_image [of ?ph "\<lambda>a n mem. mem" "0x100000" 1 "0x1000" "(\<lambda>_. 7)(0x1008 := 1, 0x1009 := 2)"] p out
    by (simp add: alloc_within_def Let_def)
  also have "\<dots> = [1, 2, 0, 0]" by code_simp
  finally show ?thesis .
qed

end
