(* ===== verification/Kernel.thy ===== *)
theory Kernel imports Kmain Standard_Boot Bootloader begin

text \<open>
  The kernel from its entry to the end of either mode, \<open>_start\<close> and \<open>kmain\<close> in \<open>kernel/src/main.rs\<close>, over the parts in
  \<open>Kmain\<close> and \<open>Standard_Boot\<close>, and the chain from the boot loader's jump to a kernel with its memory, page tables and
  interrupts set up. What happens besides the code is a record of parameters: the interrupts that arrive while the
  executor waits, the program in \<open>APP.ELF\<close>, the registers after an interrupt, the devices, link-time addresses and
  the font.
\<close>

record 'd kernel_env =
  ke_irq :: "'d kworld \<Rightarrow> 'd kworld"
  ke_program :: "u64 \<Rightarrow> 'd os \<Rightarrow> 'd os option"
  ke_iret :: "regs \<Rightarrow> regs \<Rightarrow> regs"
  ke_symbols :: kernel_symbols
  ke_bus :: "'d bus"
  ke_font :: "u8 list"
  ke_path_buf :: u64
  ke_regs :: regs
  ke_locals :: boot_locals

section \<open>Entry\<close>

text \<open>\<open>_start\<close> changes to a stack below 32 MiB; the call pushes the return address.\<close>

definition start_rsp :: u64 where
  "start_rsp = (let rsp = 0x1FFFFF0; rsp = rsp AND - 16; rsp = rsp - 8 in rsp - 8)"

text \<open>An operation on \<open>ax\<close> leaves the other 48 bits of \<open>rax\<close>.\<close>

definition set_ax :: "(u16 \<Rightarrow> u16) \<Rightarrow> u64 \<Rightarrow> u64" where
  "set_ax f r = (r AND NOT 0xFFFF) OR ucast (f (ucast r))"

definition kmain_cpu :: "control_regs \<Rightarrow> control_regs" where
  "kmain_cpu c =
     (let r = cr0 c; r = set_ax (\<lambda>ax. ax AND 0xFFFB) r; r = set_ax (\<lambda>ax. ax OR 0x22) r; c = c\<lparr>cr0 := r\<rparr>;
          r = cr4 c; r = set_ax (\<lambda>ax. ax OR 0x600) r
      in c\<lparr>cr4 := r\<rparr>)"

text \<open>The structure at \<open>mmap_config_ptr\<close>.\<close>

definition read_mmap_config :: "memory \<Rightarrow> u64 \<Rightarrow> mmap_config" where
  "read_mmap_config mem a = \<lparr>mm_ptr = rd64 mem a, mm_len = rd64 mem (a + 8), mm_desc_size = rd64 mem (a + 16)\<rparr>"

section \<open>All of kmain\<close>

text \<open>The kernel's statics when the boot menu is left.\<close>

definition kernel_state :: "'d kernel_start \<Rightarrow> 'd kworld \<Rightarrow> 'd os" where
  "kernel_state k w = \<lparr>world = w, FDS = FD_TABLE_0, SCREEN = initial_screen, RAM_MGR = Some (ks_mgr k), SYSCALL_RET = 0\<rparr>"

definition kmain :: "'d kernel_env \<Rightarrow> u64 \<Rightarrow> u32 \<Rightarrow> u32 \<Rightarrow> u32 \<Rightarrow> u64 \<Rightarrow> 'd kworld \<Rightarrow> 'd os option" where
  "kmain e fb_ptr stride h_res v_res mmap_config_ptr w = do {
     let fb = \<lparr>frame_buffer = fb_ptr, pixels_per_scan_line = stride, horizontal_resolution = h_res, vertical_resolution = v_res\<rparr>;
     k \<leftarrow> kmain_init (ke_bus e) (ke_symbols e) (read_mmap_config (ram (hw w)) mmap_config_ptr) w;
     (boot_mode, db, w) \<leftarrow> kmain_menu (ke_bus e) (ke_font e) fb (ks_world k);
     let s = kernel_state k w;
     if boot_mode = 1 then do {
       (g, sc, w) \<leftarrow> kmain_standard (ke_bus e) (ke_font e) fb (ks_ahci_mem k) db (SCREEN s) w;
       let pf = \<lparr>p_disk = ahci_io (ke_bus e) g, p_bus = ke_bus e, p_font = ke_font e, p_path_buf = ke_path_buf e, iret = ke_iret e\<rparr>;
       standard_boot (ke_irq e) (ke_program e) pf (ke_regs e) (ke_locals e) (s\<lparr>world := w, SCREEN := sc\<rparr>) }
     else do {
       (_, w) \<leftarrow> kmain_debug (ke_irq e) (ke_bus e) (ke_font e) fb (ks_ahci_mem k) db w;
       Some (s\<lparr>world := w\<rparr>) } }"

text \<open>The processor enters the kernel with what the loader left in its registers.\<close>

definition enter_kernel :: "'d kernel_env \<Rightarrow> entry_state \<Rightarrow> 'd kworld \<Rightarrow> 'd os option" where
  "enter_kernel e es w = kmain e (es_rdi es) (es_rsi es) (es_rdx es) (es_rcx es) (es_r8 es) w"

section \<open>Control registers\<close>

lemma bit_set_ax:
  assumes "\<And>x j. j < 16 \<Longrightarrow> bit (f x) j \<longleftrightarrow> g (bit x j) j"
  shows "bit (set_ax f r) i \<longleftrightarrow> (if i < 16 then g (bit r i) i else bit r i)"
proof (cases "i < 16")
  case True
  then have "\<not> bit (NOT 0xFFFF :: u64) i"
  proof -
    have "bit (mask 16 :: u64) i" using True by (simp add: bit_simps)
    then show ?thesis by (simp add: mask_eq_exp_minus_1 bit_simps)
  qed
  with True assms show ?thesis by (simp add: set_ax_def bit_simps)
next
  case False
  then have "\<not> bit (0xFFFF :: u64) i"
  proof -
    have "\<not> bit (mask 16 :: u64) i" using False by (simp add: bit_simps)
    then show ?thesis by (simp add: mask_eq_exp_minus_1)
  qed
  with False show ?thesis by (auto simp: set_ax_def bit_simps dest: bit_imp_le_length)
qed

lemma set_ax_or:
  assumes "m < 16" "n < 16"
  shows "set_ax (\<lambda>ax. ax OR push_bit m 1 OR push_bit n 1) r = r OR push_bit m 1 OR push_bit n 1"
proof (rule bit_word_eqI)
  fix i assume "i < LENGTH(64)"
  then show "bit (set_ax (\<lambda>ax. ax OR push_bit m 1 OR push_bit n 1) r) i \<longleftrightarrow> bit (r OR push_bit m 1 OR push_bit n 1) i"
    using assms by (subst bit_set_ax [where g = "\<lambda>b j. b \<or> j = m \<or> j = n"]) (auto simp: bit_simps)
qed

lemma set_ax_clear:
  assumes "m < 16"
  shows "set_ax (\<lambda>ax. ax AND NOT (push_bit m 1)) r = r AND NOT (push_bit m 1)"
proof (rule bit_word_eqI)
  fix i assume "i < LENGTH(64)"
  then show "bit (set_ax (\<lambda>ax. ax AND NOT (push_bit m 1)) r) i \<longleftrightarrow> bit (r AND NOT (push_bit m 1)) i"
    using assms by (subst bit_set_ax [where g = "\<lambda>b j. b \<and> j \<noteq> m"]) (auto simp: bit_simps)
qed

lemma cr_again:
  "m \<noteq> n \<Longrightarrow> (((r AND NOT (push_bit m 1)) OR push_bit n 1) AND NOT (push_bit m 1)) OR push_bit n 1 OR push_bit k 1
     = (r AND NOT (push_bit m 1)) OR push_bit n 1 OR push_bit k 1"
  "(r OR push_bit n 1 OR push_bit k 1) OR push_bit n 1 OR push_bit k 1 = r OR push_bit n 1 OR push_bit k 1"
  for r :: u64
  by (rule bit_word_eqI, auto simp: bit_simps)+

text \<open>The kernel repeats the loader's setting of the control registers and adds bit 5 of \<open>cr0\<close>.\<close>

lemma kmain_cpu_init_cpu:
  "kmain_cpu (init_cpu c) = c\<lparr>cr0 := (cr0 c AND NOT (push_bit 2 1)) OR push_bit 1 1 OR push_bit 5 1,
     cr4 := cr4 c OR push_bit 9 1 OR push_bit 10 1\<rparr>"
proof -
  have i: "(0xFFFB :: u16) = NOT (push_bit 2 1)" "x OR (0x22 :: u16) = x OR push_bit 1 1 OR push_bit 5 1"
    "x OR (0x600 :: u16) = x OR push_bit 9 1 OR push_bit 10 1" for x
    by (simp_all add: or.assoc)
  have s: "set_ax (\<lambda>ax. ax OR push_bit 1 1 OR push_bit 5 1) r = r OR push_bit 1 1 OR push_bit 5 1"
    "set_ax (\<lambda>ax. ax OR push_bit 9 1 OR push_bit 10 1) r = r OR push_bit 9 1 OR push_bit 10 1"
    "set_ax (\<lambda>ax. ax AND NOT (push_bit 2 1)) r = r AND NOT (push_bit 2 1)" for r
    using set_ax_or [of 1 5 r] set_ax_or [of 9 10 r] set_ax_clear [of 2 r] by simp_all
  have g: "(((r AND NOT (push_bit 2 1)) OR push_bit 1 1) AND NOT (push_bit 2 1)) OR push_bit 1 1 OR push_bit 5 1
      = (r AND NOT (push_bit 2 1)) OR push_bit 1 1 OR push_bit 5 1"
    "((r OR push_bit 9 1) OR push_bit 10 1) OR push_bit 9 1 OR push_bit 10 1 = r OR push_bit 9 1 OR push_bit 10 1" for r :: u64
    using cr_again(1) [of 2 1 r 5] cr_again(2) [of r 9 10] by (simp_all add: or.assoc)
  show ?thesis
    by (cases c) (simp only: kmain_cpu_def init_cpu_def Let_def i s g control_regs.simps)
qed

section \<open>The structure handed over\<close>

lemma read_store_mmap_config: "read_mmap_config (store_mmap_config a c mem) a = c"
proof -
  have a: "rd64 (wr64 (a + 16) v (wr64 (a + 8) u m)) a = rd64 m a" for u v m
  proof (rule rd64_cong)
    fix i :: nat assume "i < 8"
    then show "wr64 (a + 16) v (wr64 (a + 8) u m) (a + of_nat i) = m (a + of_nat i)"
      using not_in_sub_region [of i 16 8 a] not_in_sub_region [of i 8 8 a] by (simp add: wr64_other)
  qed
  have b: "rd64 (wr64 (a + 16) v m) (a + 8) = rd64 m (a + 8)" for v m
  proof (rule rd64_cong)
    fix i :: nat assume "i < 8"
    then show "wr64 (a + 16) v m (a + 8 + of_nat i) = m (a + 8 + of_nat i)"
      using not_in_sub_region [of "8 + i" 16 8 a] by (simp add: wr64_other add.assoc)
  qed
  show ?thesis by (simp add: read_mmap_config_def store_mmap_config_def a b)
qed

lemma read_mmap_config_cong:
  assumes "\<And>i. i < 24 \<Longrightarrow> mem' (a + of_nat i) = mem (a + of_nat i)"
  shows "read_mmap_config mem' a = read_mmap_config mem a"
proof -
  have "rd64 mem' (a + of_nat j) = rd64 mem (a + of_nat j)" if "j \<le> 16" for j
  proof (rule rd64_cong)
    fix i :: nat assume "i < 8"
    then show "mem' (a + of_nat j + of_nat i) = mem (a + of_nat j + of_nat i)"
      using assms [of "j + i"] that by (simp add: add.assoc)
  qed
  from this [of 0] this [of 8] this [of 16] show ?thesis by (simp add: read_mmap_config_def)
qed

lemma loader_main_Some:
  assumes "loader_main fw a c mem = Some (es :: entry_state, c', mem')"
  obtains m stack_base where "es_r8 es = a" "c' = init_cpu c"
    "es_rsp es = ((stack_base + of_nat stack_size) AND - 16) - 8"
    "mem' = wr64 (es_rsp es) 0 (store_mmap_config a (handover (fst (fw_exit fw m))) (snd (fw_exit fw m)))"
proof -
  define P where "P r \<longleftrightarrow> (\<forall>es c' mem'. r = Some (es, c', mem') \<longrightarrow> (\<exists>m stack_base. es_r8 es = a \<and> c' = init_cpu c
    \<and> es_rsp es = ((stack_base + of_nat stack_size) AND - 16) - 8
    \<and> mem' = wr64 (es_rsp es) 0 (store_mmap_config a (handover (fst (fw_exit fw m))) (snd (fw_exit fw m)))))"
    for r :: "(entry_state \<times> control_regs \<times> memory) option"
  have none: "P None" by (simp add: P_def)
  have jump: "P (case fw_exit fw m of (entries, mem) \<Rightarrow>
      case jump_to_kernel ep (stack_base + of_nat stack_size) config a (store_mmap_config a (handover entries) mem) of
        (es, mem) \<Rightarrow> Some (es, init_cpu c, mem))" for m ep stack_base config
    by (auto simp: P_def jump_to_kernel_def Let_def split_def)
  have "P (loader_main fw a c mem)"
    unfolding loader_main_def Let_def by (auto simp: none jump bind_eq_None_conv split: prod.split Option.bind_split)
  with assms that show thesis unfolding P_def by blast
qed

lemma loader_main_config:
  assumes run: "loader_main fw a c mem = Some (es, c', mem')" and map: "\<And>m. fst (fw_exit fw m) = entries"
    and apart: "\<And>i. i < 24 \<Longrightarrow> \<not> in_region (es_rsp es) 8 (a + of_nat i)"
  shows "read_mmap_config mem' (es_r8 es) = handover entries"
proof -
  from loader_main_Some [OF run] obtain m where r8: "es_r8 es = a"
    and mem': "mem' = wr64 (es_rsp es) 0 (store_mmap_config a (handover entries) (snd (fw_exit fw m)))"
    unfolding map by blast
  have "read_mmap_config mem' a = read_mmap_config (store_mmap_config a (handover entries) (snd (fw_exit fw m))) a"
    by (rule read_mmap_config_cong) (use apart in \<open>simp add: mem' wr64_other\<close>)
  then show ?thesis by (simp add: r8 read_store_mmap_config)
qed

section \<open>The kernel's memory, tables and interrupts\<close>

lemma init_devices_simps [simp]:
  "ram (hw (apic_init bus w)) = ram (hw w)" "EOI_CALLBACK (apic_init bus w)"
  "ram (hw (init_io_apic bus w)) = ram (hw w)" "EOI_CALLBACK (init_io_apic bus w) = EOI_CALLBACK w"
  "ram (hw (on_hw (out8 bus q v) w)) = ram (hw w)"
  by (simp_all add: apic_init_def init_io_apic_def write_io_apic_def set_eoi_callback_def on_hw_def reg_wr_def out8_def Let_def)

lemma kmain_init_spec:
  assumes ram: "init_ram cfg mem = Some (mgr, mem1)" "desc_count cfg = Some n" "map_ok cfg mem n mgr"
      "total_sectors mgr \<le> 2 ^ 28" "0x8046 \<le> total_sectors mgr"
    and conv: "\<And>k. 0x4000 \<le> k \<Longrightarrow> k < 0x8046 \<Longrightarrow> is_conventional cfg mem n k"
    and w: "ram (hw w) = mem"
  obtains k where "kmain_init bus sy cfg w = Some k" "ks_mgr k = mgr" "ks_ahci_mem k = 0x4000000"
    "\<And>va. unat va < 2 ^ 48 \<Longrightarrow> walk (ram (hw (ks_world k))) (ks_pml4 k) va = (if unat va < 2 ^ 36 then Some va else None)"
    "dispatch_vector (ks_idtr k) (ks_idt k)
       = [14 \<mapsto> sym_page_fault_handler sy, 0x21 \<mapsto> sym_keyboard_handler sy, 0x80 \<mapsto> sym_syscall_int80_handler sy]"
    "EOI_CALLBACK (ks_world k)"
    "\<And>x. unat x < 0x8004000 \<Longrightarrow> \<not> in_bitmap mgr x \<Longrightarrow> ram (hw (ks_world k)) x = mem x"
proof -
  obtain mem2 where b: "boot_memory cfg mem = Some (mgr, 0x4000000, 0x4004000, mem2)" and wf: "ram_wf mgr mem2"
    and us: "\<And>k. is_used mgr k mem2 \<longleftrightarrow> k < 0x8004 \<or> total_sectors mgr \<le> k \<or> \<not> is_conventional cfg mem n k"
    and fr: "\<And>x. \<not> in_bitmap mgr x \<Longrightarrow> mem2 x = mem x"
    by (rule boot_memory_spec [OF ram(1-4)]) (use ram(5) conv in auto)
  have "{0x8004..<0x8046} \<subseteq> free_pages mgr mem2" using ram(5) conv by (auto simp: free_pages_def us)
  then have "card {0x8004..<0x8046 :: nat} \<le> card (free_pages mgr mem2)" by (intro card_mono) auto
  then have free: "66 \<le> card (free_pages mgr mem2)" by simp
  have tot: "total_sectors mgr \<le> 2 ^ 40" using ram(4) by simp
  obtain cr3 mem3 where p: "init_os_paging mgr mem2 = Some (cr3, mem3)"
    using init_os_paging_spec [OF wf tot] free by (cases "init_os_paging mgr mem2") auto
  note pg = init_os_paging_Some [OF wf tot p]
  obtain idt q where i: "init_idt (sym_page_fault_handler sy) (sym_keyboard_handler sy) (sym_syscall_int80_handler sy) (sym_IDT sy) IDT_0
      = (idt, q)" by fastforce
  have d: "dispatch_vector q idt
      = [14 \<mapsto> sym_page_fault_handler sy, 0x21 \<mapsto> sym_keyboard_handler sy, 0x80 \<mapsto> sym_syscall_int80_handler sy]"
    using init_idt_dispatch [where pf = "sym_page_fault_handler sy" and kb = "sym_keyboard_handler sy"
        and sc = "sym_syscall_int80_handler sy" and base = "sym_IDT sy"]
    by (simp add: i)
  let ?w = "init_io_apic bus (apic_init bus (on_hw (out8 bus 0x21 0xFD) (on_hw (on_ram (\<lambda>_. mem2)) w)))"
  let ?k = "\<lparr>ks_mgr = mgr, ks_ahci_mem = 0x4000000, ks_pml4 = cr3, ks_idt = idt, ks_idtr = q,
    ks_world = on_hw (on_ram (\<lambda>_. mem3)) ?w\<rparr>"
  have r: "ram (hw ?w) = mem2" "ram (hw (on_hw (on_ram (\<lambda>_. m)) v)) = m" "EOI_CALLBACK (on_hw f v) = EOI_CALLBACK v" for m v f
    by (simp_all add: on_hw_def out8_def)
  have run: "kmain_init bus sy cfg w = Some ?k"
    unfolding kmain_init_def Let_def w b Option.bind.bind_lunit prod.case i r p by simp
  have keep: "mem3 x = mem x" if "unat x < 0x8004000" "\<not> in_bitmap mgr x" for x
    using pg(3) [of x] fr [of x] that by (simp add: us less_mult_imp_div_less)
  show thesis
    by (rule that [OF run]) (simp_all only: kernel_start.simps r pg(2) d keep init_devices_simps HOL.simp_thms)
qed

lemma loader_stack:
  assumes "loader_main fw a c mem = Some (es, c', mem')"
  shows "unat (es_rsp es) mod 16 = 8"
proof -
  from loader_main_Some [OF assms] obtain b :: u64 where "es_rsp es = (b AND - 16) - 8" by blast
  moreover have "unat ((b AND - 16) - 8) mod 16 = 8"
  proof -
    have "take_bit 4 (b AND NOT (mask 4)) = 0" by (rule bit_word_eqI) (auto simp: bit_simps)
    moreover have "(- 16 :: u64) = NOT (mask 4)" by (simp add: mask_eq_exp_minus_1)
    ultimately have "take_bit 4 (b AND - 16) = 0" by simp
    then have "(b AND - 16) mod 16 = 0" by (simp add: take_bit_eq_mod)
    then have z: "unat (b AND - 16) mod 16 = 0" using unat_mod [of "b AND - 16" 16] by simp
    have "unat ((b AND - 16) + - 8) = (unat (b AND - 16) + unat (- 8 :: u64)) mod 2 ^ 64"
      by (simp only: unat_word_ariths) simp
    then have "unat ((b AND - 16) - 8) = (unat (b AND - 16) + 18446744073709551608) mod 2 ^ 64" by simp
    moreover have "(16 :: nat) dvd 2 ^ 64" by simp
    ultimately have "unat ((b AND - 16) - 8) mod 16 = (unat (b AND - 16) + 18446744073709551608) mod 16"
      by (simp only: mod_mod_cancel)
    also have "\<dots> = 8" using z by presburger
    finally show ?thesis .
  qed
  ultimately show ?thesis by simp
qed

section \<open>From the loader to the kernel\<close>

text \<open>C13. The boot chain. Suppose the loader's \<open>main\<close> gets as far as the jump; the firmware's memory map is \<open>n\<close> descriptors
  one behind the other; the memory from \<open>0x4000000\<close> to \<open>0x8046000\<close> is conventional; and the map fits the kernel's
  bitmap. Then \<open>kmain\<close>, reading the structure through the pointer in \<open>r8\<close>, gets to its boot menu: the page allocator
  manages the map the firmware gave, the AHCI structures are at \<open>0x4000000\<close>, the processor with the new page
  tables translates the first 64 GiB to themselves and nothing else, exactly the three vectors of the kernel are
  dispatched, the end of interrupts is signalled, and below \<open>0x8004000\<close> no byte but the bitmap's has changed
  since the jump, the unpacked kernel included (the records that the heap's own library keeps in the heap, at
  \<open>0x4004000\<close>, are outside the model). The control registers allow SSE, as the loader already set them.
  The loader jumps with the stack as the calling convention wants it at a function's entry, 8 above a multiple
  of 16; \<open>_start\<close> calls \<open>kmain\<close> with a stack that is off by 8.\<close>

theorem boot_chain:
  assumes loader: "loader_main fw a c mem0 = Some (es, c', mem)"
    and map: "\<And>m. fst (fw_exit fw m) = map (\<lambda>i. p + of_nat i * d) [0..<n]"
      "0 < d" "n = 1 \<longrightarrow> d = 40" "unat p + n * unat d < 2 ^ 64"
    and apart: "\<And>i. i < 24 \<Longrightarrow> \<not> in_region (es_rsp es) 8 (a + of_nat i)"
    and cfg: "cfg = handover (map (\<lambda>i. p + of_nat i * d) [0..<n])"
    and ram: "init_ram cfg mem = Some (mgr, mem1)" "map_ok cfg mem n mgr" "total_sectors mgr \<le> 2 ^ 28" "0x8046 \<le> total_sectors mgr"
    and conv: "\<And>k. 0x4000 \<le> k \<Longrightarrow> k < 0x8046 \<Longrightarrow> is_conventional cfg mem n k"
    and w: "ram (hw w) = mem"
  shows "(\<exists>k. kmain_init bus sy (read_mmap_config mem (es_r8 es)) w = Some k \<and> ks_mgr k = mgr \<and> ks_ahci_mem k = 0x4000000
      \<and> (\<forall>va. unat va < 2 ^ 48 \<longrightarrow>
           walk (ram (hw (ks_world k))) (ks_pml4 k) va = (if unat va < 2 ^ 36 then Some va else None))
      \<and> dispatch_vector (ks_idtr k) (ks_idt k)
         = [14 \<mapsto> sym_page_fault_handler sy, 0x21 \<mapsto> sym_keyboard_handler sy, 0x80 \<mapsto> sym_syscall_int80_handler sy]
      \<and> EOI_CALLBACK (ks_world k)
      \<and> (\<forall>x. unat x < 0x8004000 \<and> \<not> in_bitmap mgr x \<longrightarrow> ram (hw (ks_world k)) x = mem x))
    \<and> kmain_cpu c' = c\<lparr>cr0 := (cr0 c AND NOT (push_bit 2 1)) OR push_bit 1 1 OR push_bit 5 1,
         cr4 := cr4 c OR push_bit 9 1 OR push_bit 10 1\<rparr>
    \<and> unat (es_rsp es) mod 16 = 8 \<and> unat start_rsp mod 16 = 0"
proof -
  have cfg': "read_mmap_config mem (es_r8 es) = cfg"
    unfolding cfg by (rule loader_main_config [OF loader map(1) apart])
  have cnt: "desc_count cfg = Some n" unfolding cfg using memory_map_handover [OF refl map(2-4)] by blast
  have c': "c' = init_cpu c" by (rule loader_main_Some [OF loader])
  have s: "unat start_rsp mod 16 = 0" by (simp add: start_rsp_def)
  show ?thesis
    unfolding cfg' c' kmain_cpu_init_cpu
    by (rule kmain_init_spec [OF ram(1) cnt ram(2-4) conv w, of bus sy], assumption, assumption)
      (use loader_stack [OF loader] s in blast)
qed

text \<open>A firmware with an empty kernel file, \<open>0x8046\<close> pages of conventional memory and the stack at \<open>0x10000\<close>.\<close>

definition example_firmware :: firmware where
  "example_firmware = \<lparr>fw_file = Some [], fw_alloc = \<lambda>n mem. (0x8000, mem), fw_elf = \<lambda>bs. Some (0x100000, []),
     fw_gop = Some \<lparr>gop_base = 0x80000000, gop_stride = 800, gop_resolution = (800, 600)\<rparr>,
     fw_allocate_at = \<lambda>a n mem. mem, fw_allocate_any = \<lambda>n mem. Some (0x10000, mem),
     fw_exit = \<lambda>mem. ([0x1000], example_mem 0x8046)\<rparr>"

definition example_boot_mem :: memory where
  "example_boot_mem = wr64 0x10FFF8 0 (store_mmap_config 0x3000 (handover [0x1000]) (example_mem 0x8046))"

definition example_entry :: entry_state where
  "example_entry = \<lparr>es_rip = 0x100000, es_rsp = 0x10FFF8, es_rdi = 0x80000000, es_rsi = 800, es_rdx = 800, es_rcx = 600, es_r8 = 0x3000\<rparr>"

lemma example_loader:
  "loader_main example_firmware 0x3000 c mem = Some (example_entry, init_cpu c, example_boot_mem)"
  by (simp add: loader_main_def read_kernel_def example_firmware_def gop_config_def unpack_kernel_def
      stack_size_def jump_to_kernel_def example_entry_def example_boot_mem_def Let_def)

lemma example_boot_mem_low: "i < 32 \<Longrightarrow> example_boot_mem (0x1000 + of_nat i) = example_mem 0x8046 (0x1000 + of_nat i)"
proof -
  assume i: "i < 32"
  then have u: "unat (0x1000 + of_nat i :: u64) = 0x1000 + i" by (simp add: unat_word_ariths)
  have "\<not> in_region b 8 (0x1000 + of_nat i)" if "unat b \<in> {0x10FFF8, 0x3000, 0x3008, 0x3010}" for b :: u64
    using that i by (subst in_region_iff_bounds) (auto simp: u)
  then show ?thesis by (simp add: example_boot_mem_def store_mmap_config_def wr64_other)
qed

lemma example_boot_region: "one_region (handover [0x1000]) example_boot_mem 0x8046"
proof -
  have c: "example_boot_mem (0x1000 + of_nat j + of_nat i) = example_mem 0x8046 (0x1000 + of_nat j + of_nat i)" if "i + j < 32" for i j
    using example_boot_mem_low [of "j + i"] that by (simp add: add.assoc add.commute)
  have q: "rd64 example_boot_mem (0x1000 + of_nat j) = rd64 (example_mem 0x8046) (0x1000 + of_nat j)" if "j \<le> 24" for j
    by (rule rd64_cong) (use that in \<open>auto intro!: c\<close>)
  have t: "rd32 example_boot_mem 0x1000 = rd32 (example_mem 0x8046) 0x1000"
    by (rule rd32_cong) (use c [of _ 0] in simp)
  show ?thesis
    using example_region [of "0x8046"] q [of 8] q [of 24] t
    by (simp add: one_region_def desc_type_def desc_start_def desc_pages_def handover_def real_desc_size_def
        size_of_MemoryDescriptor_def desc_count_def desc_addr_def Let_def)
qed

theorem boot_chain_witness:
  "\<forall>(bus :: unit bus) sy w. \<exists>k. kmain_init bus sy (read_mmap_config example_boot_mem 0x3000)
     (w\<lparr>hw := \<lparr>ram = example_boot_mem, dev = ()\<rparr>\<rparr>) = Some k
     \<and> walk (ram (hw (ks_world k))) (ks_pml4 k) 0x123456789 = Some 0x123456789
     \<and> walk (ram (hw (ks_world k))) (ks_pml4 k) 0x1000000000 = None \<and> EOI_CALLBACK (ks_world k)"
proof (intro allI)
  fix bus :: "unit bus" and sy and w :: "unit kworld"
  let ?w = "w\<lparr>hw := \<lparr>ram = example_boot_mem, dev = ()\<rparr>\<rparr>"
  obtain mgr mem1 where i: "init_ram (handover [0x1000]) example_boot_mem = Some (mgr, mem1)"
    using init_ram_total [OF one_regionD(1) [OF example_boot_region]] by blast
  have le: "(0x8046 :: u64) \<le> 0x10000000" by simp
  note ok = one_region_ok [OF example_boot_region le i]
  have m: "fst (fw_exit example_firmware m) = map (\<lambda>i. 0x1000 + of_nat i * 40) [0..<Suc 0]" for m
    by (simp add: example_firmware_def)
  have apart: "\<not> in_region (es_rsp example_entry) 8 (0x3000 + of_nat i)" if "i < 24" for i
  proof -
    have "unat (0x3000 + of_nat i :: u64) = 0x3000 + i" using that by (simp add: unat_word_ariths)
    then show ?thesis using that by (subst in_region_iff_bounds) (auto simp: example_entry_def)
  qed
  have sm: "total_sectors mgr \<le> 2 ^ 28" "0x8046 \<le> total_sectors mgr" by (simp_all add: ok(2))
  have conv: "is_conventional (handover [0x1000]) example_boot_mem (Suc 0) k" if "k < 0x8046" for k
    using that by (simp add: one_regionD [OF example_boot_region])
  have h: "handover [0x1000] = handover (map (\<lambda>i. 0x1000 + of_nat i * 40) [0..<Suc 0])" by simp
  have w: "ram (hw ?w) = example_boot_mem" by simp
  have *: "0 < (40 :: u64)" "Suc 0 = 1 \<longrightarrow> (40 :: u64) = 40" "unat (0x1000 :: u64) + Suc 0 * unat (40 :: u64) < 2 ^ 64" by simp_all
  note chain = boot_chain [OF example_loader m * apart h i ok(1) sm conv w, of bus sy, THEN conjunct1]
  have r8: "es_r8 example_entry = 0x3000" by (simp add: example_entry_def)
  from chain obtain k where k: "kmain_init bus sy (read_mmap_config example_boot_mem 0x3000) ?w = Some k"
      and wk: "\<forall>va. unat va < 2 ^ 48 \<longrightarrow>
         walk (ram (hw (ks_world k))) (ks_pml4 k) va = (if unat va < 2 ^ 36 then Some va else None)"
      and e: "EOI_CALLBACK (ks_world k)"
    unfolding r8 by blast
  show "\<exists>k. kmain_init bus sy (read_mmap_config example_boot_mem 0x3000) ?w = Some k
     \<and> walk (ram (hw (ks_world k))) (ks_pml4 k) 0x123456789 = Some 0x123456789
     \<and> walk (ram (hw (ks_world k))) (ks_pml4 k) 0x1000000000 = None \<and> EOI_CALLBACK (ks_world k)"
    by (intro exI [of _ k] conjI k e) (use wk [rule_format, of "0x123456789"] wk [rule_format, of "0x1000000000"] in simp_all)
qed

end
