(* ===== verification/File_Grow.thy ===== *)
theory File_Grow imports File_Write_Correct begin

text \<open>
  Writing past the end of a file's clusters: the clusters the allocator takes, in order, are the free ones of the FAT;
  linking them to the end of the chain is a function of the disk (\<open>link_clusters\<close>), and the write is then the write
  inside a chain of \<open>File_Write_Correct\<close>, on the disk with the longer chain. The specification reads off everything:
  the clusters taken, the FAT, the file's bytes (a gap keeps what the new clusters held), and the frame.
\<close>

section \<open>The free clusters\<close>

definition free_clusters :: "simple_fs \<Rightarrow> (u64 \<Rightarrow> u8 list) \<Rightarrow> u32 list" where
  "free_clusters fs D = map of_nat (filter (\<lambda>c. 2 \<le> c \<and> fat_value fs D (of_nat c) = 0) [0..<unat (fat_sz32 fs) * 128])"

text \<open>
  A FAT whose sectors exist and lie below the data region, and whose cluster numbers stay below the marks.
\<close>

definition fat_ok :: "(u64 \<Rightarrow> bool) \<Rightarrow> simple_fs \<Rightarrow> bool" where
  "fat_ok valid fs \<longleftrightarrow> (\<forall>s<unat (fat_sz32 fs). valid (get_fat_lba fs + of_nat s) \<and> get_fat_lba fs + of_nat s < cluster_begin_lba fs)
     \<and> unat (cluster_begin_lba fs) < 2 ^ 63 \<and> unat (fat_sz32 fs) * 128 \<le> 0x0FFFFFF8"

lemma of_nat_unat_u32: "of_nat (unat c) = (c :: u32)"
  by simp

lemma find_filter: "List.find P xs = (case filter P xs of [] \<Rightarrow> None | x # _ \<Rightarrow> Some x)"
  by (induction xs) auto

lemma first_free_clusters:
  "map_option of_nat (first_free fs D (unat (fat_sz32 fs))) = (case free_clusters fs D of [] \<Rightarrow> None | c # _ \<Rightarrow> Some c)"
  by (simp add: first_free_def free_clusters_def find_filter split: list.split)

lemma free_clustersD:
  assumes "unat (fat_sz32 fs) * 128 \<le> 0x0FFFFFF8"
  shows "c \<in> set (free_clusters fs D) \<longleftrightarrow> 2 \<le> c \<and> unat c < unat (fat_sz32 fs) * 128 \<and> fat_value fs D c = 0"
    "distinct (free_clusters fs D)"
proof -
  have un: "unat (of_nat n :: u32) = n" if "n < unat (fat_sz32 fs) * 128" for n
    using that assms by (simp add: unat_of_nat take_bit_nat_eq_self)
  show "c \<in> set (free_clusters fs D) \<longleftrightarrow> 2 \<le> c \<and> unat c < unat (fat_sz32 fs) * 128 \<and> fat_value fs D c = 0"
  proof
    assume "c \<in> set (free_clusters fs D)"
    then obtain n where "c = of_nat n" "2 \<le> n" "fat_value fs D (of_nat n) = 0" "n < unat (fat_sz32 fs) * 128"
      by (auto simp: free_clusters_def)
    with un [of n] show "2 \<le> c \<and> unat c < unat (fat_sz32 fs) * 128 \<and> fat_value fs D c = 0"
      by (simp add: word_le_nat_alt)
  next
    assume h: "2 \<le> c \<and> unat c < unat (fat_sz32 fs) * 128 \<and> fat_value fs D c = 0"
    then have "2 \<le> unat c" by (simp add: word_le_nat_alt)
    with h have "unat c \<in> set (filter (\<lambda>c. 2 \<le> c \<and> fat_value fs D (of_nat c) = 0) [0..<unat (fat_sz32 fs) * 128])"
      by (simp only: set_filter mem_Collect_eq set_upt atLeastLessThan_iff of_nat_unat_u32 simp_thms le0)
    then have "of_nat (unat c) \<in> set (free_clusters fs D)" unfolding free_clusters_def set_map by (rule imageI)
    then show "c \<in> set (free_clusters fs D)" by (simp only: of_nat_unat_u32)
  qed
  show "distinct (free_clusters fs D)"
    unfolding free_clusters_def distinct_map
  proof
    show "inj_on (of_nat :: nat \<Rightarrow> u32) (set (filter (\<lambda>c. 2 \<le> c \<and> fat_value fs D (of_nat c) = 0) [0..<unat (fat_sz32 fs) * 128]))"
    proof (rule inj_onI)
      fix x y
      assume h: "x \<in> set (filter (\<lambda>c. 2 \<le> c \<and> fat_value fs D (of_nat c) = 0) [0..<unat (fat_sz32 fs) * 128])"
        "y \<in> set (filter (\<lambda>c. 2 \<le> c \<and> fat_value fs D (of_nat c) = 0) [0..<unat (fat_sz32 fs) * 128])" "(of_nat x :: u32) = of_nat y"
      then have b: "x < unat (fat_sz32 fs) * 128" "y < unat (fat_sz32 fs) * 128" by simp_all
      have "x = unat (of_nat x :: u32)" using un [OF b(1)] by (rule sym)
      also have "\<dots> = y" unfolding h(3) by (rule un [OF b(2)])
      finally show "x = y" .
    qed
  qed simp
qed

lemma free_small: "fat_ok valid fs \<Longrightarrow> c \<in> set (free_clusters fs D) \<Longrightarrow> live_cluster c \<and> c AND 0x0FFFFFFF = c"
proof -
  assume ok: "fat_ok valid fs" and c: "c \<in> set (free_clusters fs D)"
  have r: "2 \<le> c" "unat c < 0x0FFFFFF8" using ok c by (auto simp: fat_ok_def free_clustersD)
  then have "c < 2 ^ 28" by (simp add: word_less_nat_alt)
  then have "take_bit 28 c = c" unfolding take_bit_eq_mod by (rule mod_word_less)
  then have "c AND 0x0FFFFFFF = c" by (simp add: take_bit_eq_mask mask_eq_exp_minus_1)
  moreover have "live_cluster c" using r by (auto simp: live_cluster_def word_less_nat_alt)
  ultimately show ?thesis by blast
qed

section \<open>Linking clusters to the end of a chain\<close>

fun link_clusters :: "simple_fs \<Rightarrow> u32 \<Rightarrow> u32 list \<Rightarrow> (u64 \<Rightarrow> u8 list) \<Rightarrow> u64 \<Rightarrow> u8 list" where
  "link_clusters fs e [] D = D"
| "link_clusters fs e (n # ns) D = link_clusters fs n ns (put_fat fs n 0x0FFFFFFF (put_fat fs e n D))"

lemma link_append: "link_clusters fs e (ns @ ms) D = link_clusters fs (last (e # ns)) ms (link_clusters fs e ns D)"
  by (induction ns arbitrary: e D) auto

lemma put_fat_length: "(\<And>l. length (D l) = 512) \<Longrightarrow> length (put_fat fs c v D l) = 512"
  by (rule length_put_fat)

lemma link_length: "(\<And>l. length (D l) = 512) \<Longrightarrow> length (link_clusters fs e ns D l) = 512"
  by (induction ns arbitrary: e D) (simp_all add: length_put_fat)

lemma link_other: "(\<And>k. k \<in> set (e # ns) \<Longrightarrow> l \<noteq> fat_sector fs k) \<Longrightarrow> link_clusters fs e ns D l = D l"
  by (induction ns arbitrary: e D) (auto simp: put_fat_def Let_def)

text \<open>Each sector of the result depends on the same sector only.\<close>

lemma link_local: "D' l = D l \<Longrightarrow> link_clusters fs e ns D' l = link_clusters fs e ns D l"
proof (induction ns arbitrary: e D D')
  case (Cons n ns)
  have "put_fat fs n 0x0FFFFFFF (put_fat fs e n D') l = put_fat fs n 0x0FFFFFFF (put_fat fs e n D) l"
    using Cons.prems by (auto simp: put_fat_def Let_def)
  from Cons.IH [of "put_fat fs n 0x0FFFFFFF (put_fat fs e n D')" "put_fat fs n 0x0FFFFFFF (put_fat fs e n D)" n, OF this]
  show ?case by simp
qed simp

lemma link_fat_value:
  assumes "\<And>l. length (D l) = 512" "k \<notin> set (e # ns)"
  shows "fat_value fs (link_clusters fs e ns D) k = fat_value fs D k"
  using assms
proof (induction ns arbitrary: e D)
  case (Cons n ns)
  have l1: "length (put_fat fs e n D l) = 512" for l using Cons.prems(1) by (rule length_put_fat)
  have l2: "length (put_fat fs n 0x0FFFFFFF (put_fat fs e n D) l) = 512" for l using l1 by (rule length_put_fat)
  have "fat_value fs (link_clusters fs n ns (put_fat fs n 0x0FFFFFFF (put_fat fs e n D))) k
      = fat_value fs (put_fat fs n 0x0FFFFFFF (put_fat fs e n D)) k"
    by (rule Cons.IH [OF l2]) (use Cons.prems(2) in simp)
  then show ?case using Cons.prems fat_value_put_fat [OF l1] fat_value_put_fat [OF Cons.prems(1)] by simp
qed simp

lemma link_chain:
  assumes "\<And>l. length (D l) = 512" "distinct (e # ns)" "\<And>n. n \<in> set ns \<Longrightarrow> live_cluster n \<and> n AND 0x0FFFFFFF = n"
    and "ns = [] \<Longrightarrow> \<not> live_cluster (fat_value fs D e)"
  shows "cluster_chain fs (link_clusters fs e ns D) (fat_value fs (link_clusters fs e ns D) e) ns"
  using assms
proof (induction ns arbitrary: e D)
  case Nil
  then show ?case by (simp add: chain_Nil_iff)
next
  case (Cons n ns)
  let ?D = "put_fat fs n 0x0FFFFFFF (put_fat fs e n D)"
  have l1: "length (put_fat fs e n D l) = 512" for l using Cons.prems(1) by (rule length_put_fat)
  have l2: "length (?D l) = 512" for l using l1 by (rule length_put_fat)
  have fin: "\<not> live_cluster (fat_value fs ?D n)"
    using fat_value_put_fat [OF l1] by (simp add: live_cluster_def)
  have "cluster_chain fs (link_clusters fs n ns ?D) (fat_value fs (link_clusters fs n ns ?D) n) ns"
    by (rule Cons.IH [OF l2]) (use Cons.prems(2,3) fin in auto)
  moreover have "fat_value fs (link_clusters fs n ns ?D) e = n"
    using link_fat_value [OF l2, of e n ns] Cons.prems(2) Cons.prems(3) [of n]
      fat_value_put_fat [OF l1] fat_value_put_fat [OF Cons.prems(1)] by auto
  ultimately show ?case using Cons.prems(3) [of n] by (simp add: chain_Cons_iff)
qed

lemma cluster_chain_snoc:
  assumes "cluster_chain fs D c xs" "\<And>k. k \<in> set (butlast xs) \<Longrightarrow> fat_value fs D' k = fat_value fs D k"
    and "xs \<noteq> []" "cluster_chain fs D' (fat_value fs D' (last xs)) ys"
  shows "cluster_chain fs D' c (xs @ ys)"
  using assms
proof (induction rule: cluster_chain.induct)
  case (chain_end c)
  then show ?case by simp
next
  case (chain_step c cs)
  show ?case
  proof (cases "cs = []")
    case True
    then show ?thesis using chain_step by (auto intro: cluster_chain.chain_step)
  next
    case False
    then have "fat_value fs D' c = fat_value fs D c" using chain_step.prems(1) [of c] by simp
    with chain_step False show ?thesis by (auto intro!: cluster_chain.chain_step)
  qed
qed

text \<open>The chain of a file with new clusters linked to its end.\<close>

lemma link_file_chain:
  assumes len: "\<And>l. length (D l) = 512" and fc: "file_chain fs D c cs" and dist: "distinct (cs @ ns)"
    and ns: "\<And>n. n \<in> set ns \<Longrightarrow> live_cluster n \<and> n AND 0x0FFFFFFF = n"
  shows "file_chain fs (link_clusters fs (last cs) ns D) c (cs @ ns)"
proof -
  let ?D = "link_clusters fs (last cs) ns D"
  from fc obtain rest where r: "cs = c # rest" "cluster_chain fs D (fat_value fs D c) rest" by (auto simp: file_chain_def)
  have same: "fat_value fs ?D k = fat_value fs D k" if "k \<in> set cs" "k \<noteq> last cs" for k
    by (rule link_fat_value [OF len]) (use that dist in auto)
  have end0: "\<not> live_cluster (fat_value fs D (last cs))"
  proof (cases rest rule: rev_cases)
    case Nil
    then show ?thesis using r by (simp add: chain_Nil_iff)
  next
    case (snoc rs z)
    have "\<not> live_cluster (fat_value fs D z)" if "cluster_chain fs D k (rs @ [z])" for k
      using that by (induction rs arbitrary: k) (auto simp: chain_Cons_iff chain_Nil_iff)
    with r snoc show ?thesis by auto
  qed
  have tail: "cluster_chain fs ?D (fat_value fs ?D (last cs)) ns"
  proof (rule link_chain [OF len])
    show "distinct (last cs # ns)" using dist r(1) by (metis Int_iff distinct.simps(2) distinct_append empty_iff last_in_set list.distinct(1))
  qed (use ns end0 in auto)
  show ?thesis
  proof (cases "rest = []")
    case True
    then show ?thesis using r tail by (simp add: file_chain_def)
  next
    case False
    have dr: "distinct cs" using dist by simp
    have c: "c \<noteq> last cs" using dr r(1) False last_in_set [OF False] by auto
    have "cluster_chain fs ?D (fat_value fs D c) (rest @ ns)"
    proof (rule cluster_chain_snoc [OF r(2) _ False])
      fix k assume k: "k \<in> set (butlast rest)"
      then have "k \<noteq> last rest" using dr r(1) False by (metis append_butlast_last_id disjoint_iff distinct_append distinct.simps(2) list.set_intros(1))
      then show "fat_value fs ?D k = fat_value fs D k" using same [of k] k r(1) False by (auto dest: in_set_butlastD)
    next
      show "cluster_chain fs ?D (fat_value fs ?D (last rest)) ns" using tail r(1) False by simp
    qed
    then show ?thesis using same [of c] c r(1) by (simp add: file_chain_def)
  qed
qed

section \<open>The free clusters after a step\<close>

lemma fat_ok_sector:
  assumes "fat_ok valid fs" "unat c < unat (fat_sz32 fs) * 128"
  shows "valid (fat_sector fs c)" "fat_sector fs c < cluster_begin_lba fs"
proof -
  have "unat c div 128 < unat (fat_sz32 fs)" using assms(2) by (simp add: less_mult_imp_div_less)
  then show "valid (fat_sector fs c)" "fat_sector fs c < cluster_begin_lba fs"
    using assms(1) by (simp_all add: fat_ok_def fat_sector_eq)
qed

lemma fat_ok_layout:
  assumes "fat_ok valid fs" "set ns \<subseteq> set (free_clusters fs D)"
  shows "data_layout fs ns"
proof -
  have "unat (fat_sz32 fs) * 128 \<le> 0x0FFFFFF8" using assms(1) by (simp add: fat_ok_def)
  note fc = free_clustersD(1) [OF this]
  have "2 \<le> c \<and> fat_sector fs c < cluster_begin_lba fs" if "c \<in> set ns" for c
    using that assms fat_ok_sector(2) [OF assms(1), of c] fc by blast
  then show ?thesis using assms(1) by (simp add: data_layout_def fat_ok_def)
qed

lemma data_layout_append [simp]: "data_layout fs (xs @ ys) \<longleftrightarrow> data_layout fs xs \<and> data_layout fs ys"
  by (auto simp: data_layout_def)

lemma chain_valid_append [simp]: "chain_valid valid fs (xs @ ys) \<longleftrightarrow> chain_valid valid fs xs \<and> chain_valid valid fs ys"
  by (auto simp: chain_valid_def)

lemma free_clusters_cong:
  assumes "unat (fat_sz32 fs) * 128 \<le> 0x0FFFFFF8"
    and "\<And>c. unat c < unat (fat_sz32 fs) * 128 \<Longrightarrow> fat_value fs D' c = fat_value fs D c"
  shows "free_clusters fs D' = free_clusters fs D"
proof -
  have "fat_value fs D' (of_nat n) = fat_value fs D (of_nat n)" if "n < unat (fat_sz32 fs) * 128" for n
    using that assms by (simp add: unat_of_nat take_bit_nat_eq_self)
  then show ?thesis unfolding free_clusters_def by (intro arg_cong [where f = "map of_nat"] filter_cong) auto
qed

lemma free_clusters_data:
  assumes ok: "fat_ok valid fs" and c: "2 \<le> c" and D': "\<forall>l. l \<notin> set (cluster_lbas fs c) \<longrightarrow> D' l = D l"
  shows "free_clusters fs D' = free_clusters fs D"
proof (rule free_clusters_cong)
  show "unat (fat_sz32 fs) * 128 \<le> 0x0FFFFFF8" using ok by (simp add: fat_ok_def)
  fix k :: u32 assume "unat k < unat (fat_sz32 fs) * 128"
  then have "fat_sector fs k < cluster_begin_lba fs" by (rule fat_ok_sector(2) [OF ok])
  then have "fat_sector fs k \<notin> set (cluster_lbas fs c)"
    using cluster_lbas_ge [OF _ c, of fs] ok by (auto simp: fat_ok_def not_le [symmetric])
  then show "fat_value fs D' k = fat_value fs D k" using D' by (simp add: fat_value_def)
qed

lemma free_clusters_link:
  assumes ok: "fat_ok valid fs" and len: "\<And>l. length (D l) = 512"
    and free: "free_clusters fs D = n # rest" and e: "fat_value fs D e \<noteq> 0"
  shows "free_clusters fs (link_clusters fs e [n] D) = rest" "fat_value fs (link_clusters fs e [n] D) n = 0x0FFFFFFF"
proof -
  let ?D = "put_fat fs n 0x0FFFFFFF (put_fat fs e n D)" and ?N = "unat (fat_sz32 fs) * 128"
  have small: "?N \<le> 0x0FFFFFF8" using ok by (simp add: fat_ok_def)
  have n: "n \<in> set (free_clusters fs D)" using free by simp
  then have n0: "fat_value fs D n = 0" "n \<noteq> 0" "n AND 0x0FFFFFFF = n"
    using free_clustersD(1) [OF small] free_small [OF ok n] by auto
  have l1: "length (put_fat fs e n D l) = 512" for l using len by (rule length_put_fat)
  have fv: "fat_value fs ?D k = (if k = n then 0x0FFFFFFF else if k = e then n else fat_value fs D k)" for k
    using fat_value_put_fat [OF l1] fat_value_put_fat [OF len] n0(3) by simp
  have "filter (\<lambda>c. 2 \<le> c \<and> fat_value fs ?D (of_nat c) = 0) [0..<?N]
      = filter (\<lambda>c. (of_nat c :: u32) \<noteq> n) (filter (\<lambda>c. 2 \<le> c \<and> fat_value fs D (of_nat c) = 0) [0..<?N])"
    unfolding filter_filter by (rule filter_cong) (use n0 e fv in auto)
  then have "free_clusters fs ?D = filter (\<lambda>c. c \<noteq> n) (free_clusters fs D)"
    by (simp add: free_clusters_def filter_map comp_def)
  moreover have "distinct (free_clusters fs D)" by (rule free_clustersD(2) [OF small])
  ultimately show "free_clusters fs (link_clusters fs e [n] D) = rest" using free by (auto simp: filter_id_conv)
  show "fat_value fs (link_clusters fs e [n] D) n = 0x0FFFFFFF" using fv [of n] by simp
qed

section \<open>The walk to the position, with growth\<close>

text \<open>What the loop does after a cluster it has filled: \<open>k\<close> bytes remain.\<close>

definition write_on ::
  "'d disk_io \<Rightarrow> simple_fs \<Rightarrow> u32 \<Rightarrow> u64 \<Rightarrow> nat \<Rightarrow> nat \<Rightarrow> 'd machine \<Rightarrow> (nat \<times> 'd machine) option" where
  "write_on io fs x src k done_n m =
    (if k = 0 then Some (done_n, m)
     else case next_or_alloc io fs x m of None \<Rightarrow> None
       | Some (None, m) \<Rightarrow> Some (done_n, m)
       | Some (Some c, m) \<Rightarrow> write_loop io fs c src k done_n 0 m)"

lemma write_on_0 [simp]: "write_on io fs x src 0 done_n m = Some (done_n, m)"
  by (simp add: write_on_def)

lemma write_loop_step:
  assumes "write_cluster io fs c src len off m = Some (n, m1)" "0 < n" "n \<le> len"
  shows "write_loop io fs c src len acc off m = write_on io fs c (src + of_nat n) (len - n) (acc + n) m1"
  using assms by (subst write_loop.simps) (simp add: write_on_def)

context block_device begin

lemma next_or_alloc_link:
  assumes inv: "inv m" and ok: "fat_ok valid fs" and c: "valid (fat_sector fs c)" "\<not> live_cluster (fat_value fs (disk m) c)"
      "fat_value fs (disk m) c \<noteq> 0"
    and free: "free_clusters fs (disk m) = n # rest"
  obtains m' where "next_or_alloc io fs c m = Some (Some n, m')" "inv m'" "disk m' = link_clusters fs c [n] (disk m)"
    "\<And>x. \<not> scratch x \<Longrightarrow> ram m' x = ram m x" "free_clusters fs (disk m') = rest" "file_chain fs (disk m') n [n]"
    "fat_value fs (disk m') n \<noteq> 0"
proof -
  have v: "\<forall>s<unat (fat_sz32 fs). valid (get_fat_lba fs + of_nat s)" "unat (fat_sz32 fs) * 128 \<le> 2 ^ 32"
    using ok by (simp_all add: fat_ok_def)
  obtain k where k: "first_free fs (disk m) (unat (fat_sz32 fs)) = Some k" "n = of_nat k"
    using first_free_clusters [of fs "disk m"] free by (auto simp: option.map_sel split: option.splits)
  obtain m' where m': "next_or_alloc io fs c m = Some (Some n, m')" "inv m'" "disk m' = link_clusters fs c [n] (disk m)"
      "\<forall>x. \<not> scratch x \<longrightarrow> ram m' x = ram m x"
    using next_or_alloc_end [OF inv c(1) v c(2) k(1)] k(2) by auto
  have len: "length (disk m l) = 512" for l using inv by (rule sector_length)
  note fl = free_clusters_link [OF ok len free c(3)]
  have "file_chain fs (disk m') n [n]"
    using fl(2) by (simp add: m'(3) file_chain_def chain_Nil_iff live_cluster_def del: link_clusters.simps)
  then show thesis using m' fl by (intro that [of m']) simp_all
qed

lemma skip_grow:
  assumes "inv m" "fat_ok valid fs" "file_chain fs (disk m) c (c # cs')" "chain_valid valid fs (c # cs' @ ns)"
    and "fat_value fs (disk m) (last (c # cs')) \<noteq> 0" "ns = take (length ns) (free_clusters fs (disk m))"
    and "unat start \<le> unat offset" "unat offset < 2 ^ 63" "0 < spc fs" "(unat offset - unat start) div (spc fs * 512) = k"
    and "k \<le> length (cs' @ ns)" "ns \<noteq> [] \<longrightarrow> k = length (cs' @ ns)"
  shows "\<exists>m'. skip_clusters (next_or_alloc io fs) (cluster_size fs) offset c start m
      = Some (True, (c # cs' @ ns) ! k, start + of_nat (k * (spc fs * 512)), m')
    \<and> inv m' \<and> disk m' = link_clusters fs (last (c # cs')) ns (disk m) \<and> (\<forall>x. \<not> scratch x \<longrightarrow> ram m' x = ram m x)"
  using assms
proof (induction k arbitrary: c cs' ns start m)
  case 0
  then have "ns = []" by auto
  have lt: "unat offset - unat start < spc fs * 512" using "0.prems"(9,10) by (simp add: div_eq_0_iff)
  have cz: "spc fs * 512 < 2 ^ 20" using spc_less [of fs] by simp
  have "unat (start + cluster_size fs) = unat start + spc fs * 512"
    using "0.prems"(7,8) cz by (simp add: unat_word_ariths unat_cluster_size)
  then have "\<not> start + cluster_size fs \<le> offset" using lt "0.prems"(7) by (simp add: word_le_nat_alt)
  then show ?case using "0.prems"(1) \<open>ns = []\<close> by (subst skip_clusters.simps) simp
next
  case (Suc k)
  let ?cz = "spc fs * 512" and ?D = "disk m"
  have cz: "?cz < 2 ^ 20" "0 < ?cz" using spc_less [of fs] Suc.prems(9) by simp_all
  have plus: "unat (start + cluster_size fs) = unat start + ?cz"
    using Suc.prems(7,8) cz by (simp add: unat_word_ariths unat_cluster_size)
  have ge: "?cz \<le> unat offset - unat start"
  proof (rule ccontr)
    assume "\<not> ?cz \<le> unat offset - unat start"
    then have "(unat offset - unat start) div ?cz = 0" by simp
    with Suc.prems(10) show False by simp
  qed
  then have le: "start + cluster_size fs \<le> offset" using plus Suc.prems(7) by (simp add: word_le_nat_alt)
  have k: "(unat offset - unat (start + cluster_size fs)) div ?cz = k"
  proof -
    have "unat offset - unat start = ?cz + (unat offset - unat (start + cluster_size fs))" using plus ge by simp
    then have "(unat offset - unat start) div ?cz = Suc ((unat offset - unat (start + cluster_size fs)) div ?cz)"
      using cz(2) by (metis div_add_self1 add.commute Suc_eq_plus1 neq0_conv)
    with Suc.prems(10) show ?thesis by simp
  qed
  have le': "unat (start + cluster_size fs) \<le> unat offset" using plus ge Suc.prems(7) by simp
  have st: "start + cluster_size fs + of_nat (k * ?cz) = start + of_nat (Suc k * ?cz)"
    by (simp add: cluster_size_def spc_def unsigned_ucast_eq algebra_simps)
  have vc: "valid (fat_sector fs c)" using Suc.prems(4) by simp
  show ?case
  proof (cases cs')
    case (Cons c' cs'')
    have "chain_valid valid fs (c # c' # cs'')" using Suc.prems(4) Cons by simp
    then obtain m1 where m1: "next_or_alloc io fs c m = Some (Some c', m1)" "keeps m m1"
      using next_or_alloc_follows [of fs ?D] Suc.prems(1,3) Cons unfolding follows_def by blast
    have i1: "inv m1" "disk m1 = ?D" using m1(2) by (auto dest: keepsD)
    obtain m2 where m2: "skip_clusters (next_or_alloc io fs) (cluster_size fs) offset c' (start + cluster_size fs) m1
        = Some (True, (c' # cs'' @ ns) ! k, start + cluster_size fs + of_nat (k * ?cz), m2)"
        "inv m2" "disk m2 = link_clusters fs (last (c' # cs'')) ns (disk m1)" "\<forall>x. \<not> scratch x \<longrightarrow> ram m2 x = ram m1 x"
      using Suc.IH [OF i1(1) Suc.prems(2), of c' cs'' ns "start + cluster_size fs"] Suc.prems Cons i1(2) k le'
        file_chain_tail [of fs ?D c c' cs''] by auto
    show ?thesis using m2 le m1 i1 st Cons keepsD(3) [OF m1(2)] by (subst skip_clusters.simps) simp
  next
    case Nil
    then obtain n ns' where ns: "ns = n # ns'" using Suc.prems(11) by (cases ns) auto
    then obtain rest where rest: "free_clusters fs ?D = n # rest" "ns' = take (length ns') rest"
      using Suc.prems(6) by (cases "free_clusters fs ?D") auto
    have end0: "\<not> live_cluster (fat_value fs ?D c)" using Suc.prems(3) Nil by (simp add: file_chain_def chain_Nil_iff)
    have nz: "fat_value fs ?D c \<noteq> 0" using Suc.prems(5) Nil by simp
    obtain m1 where m1: "next_or_alloc io fs c m = Some (Some n, m1)" "inv m1" "disk m1 = link_clusters fs c [n] ?D"
        "\<And>x. \<not> scratch x \<Longrightarrow> ram m1 x = ram m x" "free_clusters fs (disk m1) = rest" "file_chain fs (disk m1) n [n]"
        "fat_value fs (disk m1) n \<noteq> 0"
      by (rule next_or_alloc_link [OF Suc.prems(1,2) vc end0 nz rest(1)]) (rule that)
    obtain m2 where m2: "skip_clusters (next_or_alloc io fs) (cluster_size fs) offset n (start + cluster_size fs) m1
        = Some (True, (n # [] @ ns') ! k, start + cluster_size fs + of_nat (k * ?cz), m2)"
        "inv m2" "disk m2 = link_clusters fs (last [n]) ns' (disk m1)" "\<forall>x. \<not> scratch x \<longrightarrow> ram m2 x = ram m1 x"
      using Suc.IH [OF m1(2) Suc.prems(2), of n "[]" ns' "start + cluster_size fs"] Suc.prems Nil ns m1 rest k le' by auto
    show ?thesis using m2 le m1 st Nil ns by (subst skip_clusters.simps) simp
  qed
qed

section \<open>The loop over clusters, with growth\<close>

text \<open>The first \<open>n\<close> bytes at \<open>src\<close>, and the rest, as buffers of their own.\<close>

lemma buffer_split:
  assumes u: "user_buffer src (length bs)" and b: "rd_bytes (ram m) src (length bs) = bs" and n: "n \<le> length bs"
  shows "user_buffer src (length (take n bs))" "rd_bytes (ram m) src (length (take n bs)) = take n bs"
    "user_buffer (src + of_nat n) (length (drop n bs))" "rd_bytes (ram m) (src + of_nat n) (length (drop n bs)) = drop n bs"
proof -
  have l: "length (take n bs) = n" using n by simp
  show "user_buffer src (length (take n bs))" using user_buffer_le [OF u n] l by simp
  show "rd_bytes (ram m) src (length (take n bs)) = take n bs" using rd_bytes_slice [of 0 n "length bs" "ram m" src] n b by simp
  show "user_buffer (src + of_nat n) (length (drop n bs))" using user_buffer_drop [OF u, of n "length bs - n"] n by simp
  show "rd_bytes (ram m) (src + of_nat n) (length (drop n bs)) = drop n bs"
    using rd_bytes_slice [of n "length bs - n" "length bs" "ram m" src] b n by simp
qed

lemma buffer_later:
  assumes "user_buffer src n" "\<And>x. \<not> scratch x \<Longrightarrow> ram m' x = ram m x"
  shows "rd_bytes (ram m') src n = rd_bytes (ram m) src n"
  using assms by (intro rd_bytes_same) (simp add: user_buffer_def)

text \<open>One turn: what is written of the first cluster, seen on the disk with the longer chain.\<close>

lemma link_data_step:
  assumes lay: "data_layout fs (c # cs' @ ns)"
    and m1: "cluster_bytes fs D1 c = overwrite (cluster_bytes fs D c) off bs" "\<forall>l. l \<notin> set (cluster_lbas fs c) \<longrightarrow> D1 l = D l"
  shows "cluster_bytes fs (link_clusters fs (last (c # cs')) ns D1) c
      = overwrite (cluster_bytes fs (link_clusters fs (last (c # cs')) ns D) c) off bs"
    "\<forall>l. l \<notin> set (cluster_lbas fs c) \<longrightarrow> link_clusters fs (last (c # cs')) ns D1 l = link_clusters fs (last (c # cs')) ns D l"
proof -
  have sub: "set (last (c # cs') # ns) \<subseteq> set (c # cs' @ ns)" using last_in_set [of "c # cs'"] by auto
  have keep: "cluster_bytes fs (link_clusters fs (last (c # cs')) ns E) c = cluster_bytes fs E c" for E
  proof (rule cluster_bytes_cong)
    fix l assume l: "l \<in> set (cluster_lbas fs c)"
    show "link_clusters fs (last (c # cs')) ns E l = E l"
      by (rule link_other) (use l layout_fat_apart [OF lay, of c] sub in auto)
  qed
  show "cluster_bytes fs (link_clusters fs (last (c # cs')) ns D1) c
      = overwrite (cluster_bytes fs (link_clusters fs (last (c # cs')) ns D) c) off bs"
    unfolding keep by (rule m1(1))
  show "\<forall>l. l \<notin> set (cluster_lbas fs c) \<longrightarrow> link_clusters fs (last (c # cs')) ns D1 l = link_clusters fs (last (c # cs')) ns D l"
    using m1(2) link_local by blast
qed

lemma write_loop_grow_on:
  assumes "inv m" "fat_ok valid fs" "file_chain fs (disk m) c (c # cs')" "chain_valid valid fs (c # cs' @ ns)"
    "data_layout fs (c # cs' @ ns)" "distinct (c # cs' @ ns)"
    and "fat_value fs (disk m) (last (c # cs')) \<noteq> 0" "ns = take (length ns) (free_clusters fs (disk m))"
    and "user_buffer src (length bs)" "rd_bytes (ram m) src (length bs) = bs"
    and "unat off < spc fs * 512" "bs \<noteq> []" "unat off + length bs \<le> length (c # cs' @ ns) * (spc fs * 512)"
    and "ns \<noteq> [] \<longrightarrow> length (cs' @ ns) * (spc fs * 512) < unat off + length bs"
    and "k \<noteq> 0 \<longrightarrow> unat off + length bs = length (c # cs' @ ns) * (spc fs * 512)"
  shows "\<exists>m'. write_loop io fs c src (length bs + k) acc off m
      = write_on io fs (last (c # cs' @ ns)) (src + of_nat (length bs)) k (acc + length bs) m' \<and> inv m'
    \<and> rewritten fs (c # cs' @ ns) (unat off) bs (link_clusters fs (last (c # cs')) ns (disk m)) (disk m')
    \<and> (\<forall>x. \<not> scratch x \<longrightarrow> ram m' x = ram m x)"
  using assms
proof (induction "cs' @ ns" arbitrary: c cs' ns src bs acc off m)
  case Nil
  then have e: "cs' = []" "ns = []" by simp_all
  have len: "length (disk m l) = 512" for l using Nil.prems(1) by (rule sector_length)
  have fit: "unat off + length bs \<le> spc fs * 512" using Nil.prems(13) e by simp
  have nl: "length bs = min (length bs + k) (spc fs * 512 - unat off)"
    using fit Nil.prems(15) e by (cases "k = 0") auto
  have vl: "\<forall>l\<in>set (cluster_lbas fs c). valid l" using Nil.prems(4) by simp
  obtain m1 where m1: "write_cluster io fs c src (length bs + k) off m = Some (length bs, m1)" "inv m1"
      "cluster_bytes fs (disk m1) c = overwrite (cluster_bytes fs (disk m) c) (unat off) bs"
      "\<forall>l. l \<notin> set (cluster_lbas fs c) \<longrightarrow> disk m1 l = disk m l" "\<forall>x. \<not> scratch x \<longrightarrow> ram m1 x = ram m x"
    using write_cluster_spec [OF Nil.prems(1,9,10) vl Nil.prems(11) nl] by auto
  have "rewritten fs [c] (unat off) bs (disk m) (disk m1)"
    using m1(3,4) by (simp add: rewritten_def file_bytes_def chain_lbas_def)
  then show ?case using write_loop_step [OF m1(1), of acc] Nil.prems(12) m1(2,5) e by auto
next
  case (Cons x rest)
  let ?cz = "spc fs * 512" and ?CB = "cluster_bytes fs (disk m) c"
  have len: "length (disk m l) = 512" for l using Cons.prems(1) by (rule sector_length)
  have lb: "length ?CB = ?cz" using len by (rule length_cluster_bytes)
  define n where "n = min (length bs) (?cz - unat off)"
  have n0: "0 < n" "n \<le> length bs" using Cons.prems(11,12) by (simp_all add: n_def)
  note bsp = buffer_split [OF Cons.prems(9,10) n0(2)]
  have lbs: "length (take n bs) = n" using n0(2) by simp
  have vl: "\<forall>l\<in>set (cluster_lbas fs c). valid l" using Cons.prems(4) by simp
  have full: "k \<noteq> 0 \<longrightarrow> ?cz - unat off < length bs"
  proof
    assume "k \<noteq> 0"
    then have "unat off + length bs = ?cz + length (x # rest) * ?cz" using Cons.prems(15) unfolding Cons.hyps(2) [symmetric] by simp
    moreover have "?cz \<le> length (x # rest) * ?cz" by simp
    ultimately show "?cz - unat off < length bs" using Cons.prems(11) by linarith
  qed
  have nl: "length (take n bs) = min (length bs + k) (?cz - unat off)" using lbs n_def full by (cases "k = 0") auto
  obtain m1 where m1: "write_cluster io fs c src (length bs + k) off m = Some (n, m1)" "inv m1"
      "cluster_bytes fs (disk m1) c = overwrite ?CB (unat off) (take n bs)"
      "\<forall>l. l \<notin> set (cluster_lbas fs c) \<longrightarrow> disk m1 l = disk m l" "\<forall>x. \<not> scratch x \<longrightarrow> ram m1 x = ram m x"
    using write_cluster_spec [OF Cons.prems(1) bsp(1,2) vl Cons.prems(11) nl] lbs by auto
  have step: "write_loop io fs c src (length bs + k) acc off m
      = write_on io fs c (src + of_nat n) (length bs + k - n) (acc + n) m1"
    by (rule write_loop_step [OF m1(1) n0(1)]) (use n0(2) in simp)
  let ?E = "link_clusters fs (last (c # cs')) ns (disk m)" and ?E1 = "link_clusters fs (last (c # cs')) ns (disk m1)"
  have nc: "c \<notin> set (x # rest)" using Cons.prems(6) unfolding Cons.hyps(2) [symmetric] by simp
  have lay: "data_layout fs (c # x # rest)" using Cons.prems(5) unfolding Cons.hyps(2) [symmetric] .
  note E1 = link_data_step [OF Cons.prems(5) m1(3,4)]
  have fit: "unat off + length (take n bs) \<le> length (cluster_bytes fs ?E c)"
    using lbs n_def Cons.prems(11) link_length [OF len] by (simp add: length_cluster_bytes)
  show ?case
  proof (cases "length bs - n > 0")
    case False
    then have n: "n = length bs" using n0(2) by simp
    have k0: "k = 0" using full n n_def by (cases "k = 0") auto
    have "ns = []"
    proof (rule ccontr)
      assume "ns \<noteq> []"
      then have "length (cs' @ ns) * ?cz < unat off + length bs" using Cons.prems(14) by simp
      moreover have "?cz \<le> length (cs' @ ns) * ?cz" unfolding Cons.hyps(2) [symmetric] by simp
      moreover have "length bs \<le> ?cz - unat off" using n by (simp add: n_def)
      then have "unat off + length bs \<le> ?cz" using Cons.prems(11) by linarith
      ultimately show False by linarith
    qed
    have "rewritten fs (x # rest) 0 [] ?E1 ?E1" by (simp add: rewritten_def)
    from rewritten_Cons [OF nc lay E1 this fit] n \<open>ns = []\<close> have "rewritten fs (c # x # rest) (unat off) bs ?E (disk m1)" by simp
    then show ?thesis using step k0 m1(2,5) n Cons.hyps(2) by auto
  next
    case True
    then have n: "n = ?cz - unat off" by (simp add: n_def)
    let ?bs = "drop n bs"
    have fat_same: "disk m1 (fat_sector fs k) = disk m (fat_sector fs k)" if "k \<in> set (c # cs')" for k
      using m1(4) layout_fat_apart [OF Cons.prems(5), of c k] that by auto
    have fc1: "file_chain fs (disk m1) c (c # cs')" using file_chain_cong [OF Cons.prems(3)] fat_same by blast
    have last1: "fat_value fs (disk m1) (last (c # cs')) \<noteq> 0"
      using Cons.prems(7) fat_same [OF last_in_set] by (simp add: fat_value_def)
    have "2 \<le> c" using Cons.prems(5) by (simp add: data_layout_def)
    then have free1: "free_clusters fs (disk m1) = free_clusters fs (disk m)"
      by (rule free_clusters_data [OF Cons.prems(2) _ m1(4)])
    have z: "unat (0 :: u64) < ?cz" "?bs \<noteq> []" using Cons.prems(11) True by auto
    have tot: "unat off + length bs = ?cz + length ?bs" using n Cons.prems(11) n0(2) by simp
    have fits: "unat (0 :: u64) + length ?bs \<le> length (x # rest) * ?cz"
      using Cons.prems(13) tot unfolding Cons.hyps(2) [symmetric] by simp
    have more: "length rest * ?cz < unat (0 :: u64) + length ?bs" if "ns \<noteq> []"
      using Cons.prems(14) tot that unfolding Cons.hyps(2) [symmetric] by simp
    have exact: "unat (0 :: u64) + length ?bs = length (x # rest) * ?cz" if "k \<noteq> 0"
      using Cons.prems(15) tot that unfolding Cons.hyps(2) [symmetric] by simp
    have "\<exists>m2 m3. next_or_alloc io fs c m1 = Some (Some x, m2)
      \<and> write_loop io fs x (src + of_nat n) (length ?bs + k) (acc + n) 0 m2
        = write_on io fs (last (x # rest)) (src + of_nat n + of_nat (length ?bs)) k (acc + n + length ?bs) m3
      \<and> inv m3 \<and> rewritten fs (x # rest) (unat (0 :: u64)) ?bs ?E1 (disk m3) \<and> (\<forall>x. \<not> scratch x \<longrightarrow> ram m3 x = ram m x)"
    proof (cases cs')
      case (Cons c' cs'')
      with Cons.hyps(2) have xr: "x = c'" "rest = cs'' @ ns" by simp_all
      have "chain_valid valid fs (c # c' # cs'')" using Cons.prems(4) Cons by simp
      then obtain m2 where m2: "next_or_alloc io fs c m1 = Some (Some c', m2)" "keeps m1 m2"
        using next_or_alloc_follows [of fs "disk m1"] m1(2) fc1 Cons unfolding follows_def by blast
      have i2: "inv m2" "disk m2 = disk m1" "\<And>x. \<not> scratch x \<Longrightarrow> ram m2 x = ram m x"
        using m2(2) m1(5) by (auto simp: keeps_def)
      have b2: "rd_bytes (ram m2) (src + of_nat n) (length ?bs) = ?bs"
        using buffer_later [OF bsp(3) i2(3)] bsp(4) by simp
      have "\<exists>m3. write_loop io fs c' (src + of_nat n) (length ?bs + k) (acc + n) 0 m2
        = write_on io fs (last (c' # cs'' @ ns)) (src + of_nat n + of_nat (length ?bs)) k (acc + n + length ?bs) m3 \<and> inv m3
        \<and> rewritten fs (c' # cs'' @ ns) (unat (0 :: u64)) ?bs (link_clusters fs (last (c' # cs'')) ns (disk m2)) (disk m3)
        \<and> (\<forall>x. \<not> scratch x \<longrightarrow> ram m3 x = ram m2 x)"
      proof (rule Cons.hyps(1) [OF xr(2) i2(1) Cons.prems(2)])
        show "file_chain fs (disk m2) c' (c' # cs'')" using fc1 Cons i2(2) file_chain_tail by simp
        show "chain_valid valid fs (c' # cs'' @ ns)" "data_layout fs (c' # cs'' @ ns)" "distinct (c' # cs'' @ ns)"
          using Cons.prems(4,5,6) Cons by (auto simp: data_layout_def)
        show "fat_value fs (disk m2) (last (c' # cs'')) \<noteq> 0" using last1 Cons i2(2) by simp
        show "ns = take (length ns) (free_clusters fs (disk m2))" using Cons.prems(8) free1 i2(2) by simp
      qed (use bsp(3) b2 z fits more exact xr in auto)
      then show ?thesis using m2(1) i2(2,3) xr Cons by auto
    next
      case Nil
      with Cons.hyps(2) have ns: "ns = x # rest" by simp
      then obtain free' where free': "free_clusters fs (disk m1) = x # free'" "rest = take (length rest) free'"
        using Cons.prems(8) free1 by (cases "free_clusters fs (disk m)") auto
      have end0: "\<not> live_cluster (fat_value fs (disk m1) c)" using fc1 Nil by (simp add: file_chain_def chain_Nil_iff)
      have nz: "fat_value fs (disk m1) c \<noteq> 0" using last1 Nil by simp
      have vc: "valid (fat_sector fs c)" using Cons.prems(4) by simp
      obtain m2 where m2: "next_or_alloc io fs c m1 = Some (Some x, m2)" "inv m2" "disk m2 = link_clusters fs c [x] (disk m1)"
          "\<And>x. \<not> scratch x \<Longrightarrow> ram m2 x = ram m1 x" "free_clusters fs (disk m2) = free'" "file_chain fs (disk m2) x [x]"
          "fat_value fs (disk m2) x \<noteq> 0"
        by (rule next_or_alloc_link [OF m1(2) Cons.prems(2) vc end0 nz free'(1)]) (rule that)
      have r2: "\<And>x. \<not> scratch x \<Longrightarrow> ram m2 x = ram m x" using m2(4) m1(5) by simp
      have b2: "rd_bytes (ram m2) (src + of_nat n) (length ?bs) = ?bs"
        using buffer_later [OF bsp(3) r2] bsp(4) by simp
      have "\<exists>m3. write_loop io fs x (src + of_nat n) (length ?bs + k) (acc + n) 0 m2
        = write_on io fs (last (x # [] @ rest)) (src + of_nat n + of_nat (length ?bs)) k (acc + n + length ?bs) m3 \<and> inv m3
        \<and> rewritten fs (x # [] @ rest) (unat (0 :: u64)) ?bs (link_clusters fs (last [x]) rest (disk m2)) (disk m3)
        \<and> (\<forall>x. \<not> scratch x \<longrightarrow> ram m3 x = ram m2 x)"
      proof (rule Cons.hyps(1) [OF _ m2(2) Cons.prems(2)])
        show "chain_valid valid fs (x # [] @ rest)" "data_layout fs (x # [] @ rest)" "distinct (x # [] @ rest)"
          using Cons.prems(4,5,6) ns Nil by (auto simp: data_layout_def)
      qed (use bsp(3) b2 z fits more exact ns m2(5,6,7) free'(2) in auto)
      then show ?thesis using m2(1,3) r2 ns Nil by auto
    qed
    then obtain m2 m3 where m3: "next_or_alloc io fs c m1 = Some (Some x, m2)"
        "write_loop io fs x (src + of_nat n) (length ?bs + k) (acc + n) 0 m2
        = write_on io fs (last (x # rest)) (src + of_nat n + of_nat (length ?bs)) k (acc + n + length ?bs) m3"
        "inv m3" "rewritten fs (x # rest) (unat (0 :: u64)) ?bs ?E1 (disk m3)" "\<forall>x. \<not> scratch x \<longrightarrow> ram m3 x = ram m x"
      by blast
    have "length (cluster_bytes fs ?E c) = ?cz" using link_length [OF len] by (rule length_cluster_bytes)
    then have "unat off + length (take n bs) = length (cluster_bytes fs ?E c)" using lbs n Cons.prems(11) by simp
    with rewritten_Cons [OF nc lay E1 m3(4) [unfolded unat_0] fit]
    have "rewritten fs (c # x # rest) (unat off) (take n bs @ ?bs) ?E (disk m3)" by blast
    moreover have "write_loop io fs c src (length bs + k) acc off m
        = write_on io fs (last (c # x # rest)) (src + of_nat (length bs)) k (acc + length bs) m3"
    proof -
      have e: "src + of_nat n + of_nat (length ?bs) = src + of_nat (length bs)" "acc + n + length ?bs = acc + length bs"
        "length bs + k - n = length ?bs + k" "last (c # x # rest) = last (x # rest)"
        using n0(2) by (simp_all add: of_nat_diff)
      have "write_on io fs c (src + of_nat n) (length ?bs + k) (acc + n) m1
          = write_loop io fs x (src + of_nat n) (length ?bs + k) (acc + n) 0 m2"
        using True m3(1) by (simp add: write_on_def)
      then show ?thesis using step m3(2) unfolding e by simp
    qed
    ultimately show ?thesis using m3(3,5) unfolding Cons.hyps(2) [symmetric] by auto
  qed
qed

lemma write_loop_grow:
  assumes "inv m" "fat_ok valid fs" "file_chain fs (disk m) c (c # cs')" "chain_valid valid fs (c # cs' @ ns)"
    "data_layout fs (c # cs' @ ns)" "distinct (c # cs' @ ns)"
    and "fat_value fs (disk m) (last (c # cs')) \<noteq> 0" "ns = take (length ns) (free_clusters fs (disk m))"
    and "user_buffer src (length bs)" "rd_bytes (ram m) src (length bs) = bs"
    and "unat off < spc fs * 512" "bs \<noteq> []" "unat off + length bs \<le> length (c # cs' @ ns) * (spc fs * 512)"
    and "ns \<noteq> [] \<longrightarrow> length (cs' @ ns) * (spc fs * 512) < unat off + length bs"
  shows "\<exists>m'. write_loop io fs c src (length bs) acc off m = Some (acc + length bs, m') \<and> inv m'
    \<and> rewritten fs (c # cs' @ ns) (unat off) bs (link_clusters fs (last (c # cs')) ns (disk m)) (disk m')
    \<and> (\<forall>x. \<not> scratch x \<longrightarrow> ram m' x = ram m x)"
  using write_loop_grow_on [OF assms, of 0 acc] by simp

end

end
