(* ===== verification/Dir_Update.thy ===== *)
theory Dir_Update imports File_Write_Correct begin

text \<open>
  Updating the size in a directory entry (\<open>update_dir_entry\<close>): on the directory as a list of entries it sets the size of
  the first entry in use, before the end mark, that has the file's first cluster.
\<close>

fun set_entry_size :: "u32 \<Rightarrow> u32 \<Rightarrow> u8 list list \<Rightarrow> u8 list list" where
  "set_entry_size target new_size [] = []"
| "set_entry_size target new_size (e # es) =
    (if entry_name e ! 0 = 0 then e # es
     else if entry_in_use e \<and> entry_cluster e = target then overwrite e 28 (le_bytes new_size) # es
     else e # set_entry_size target new_size es)"

section \<open>One sector\<close>

lemma length_dir_entry: "length sec = 512 \<Longrightarrow> j < 16 \<Longrightarrow> length (dir_entry sec j) = 32"
  by (simp add: dir_entry_def)

lemma dir_entry_patch:
  assumes sec: "length sec = 512" and j: "j < 16" and k: "k < 16"
  shows "dir_entry (overwrite sec (32 * j + 28) (le_bytes v)) k
    = (if k = j then overwrite (dir_entry sec j) 28 (le_bytes v) else dir_entry sec k)"
proof (rule nth_equalityI)
  have fit: "32 * j + 28 + length (le_bytes v) \<le> length sec" using sec j by simp
  have len: "length (overwrite sec (32 * j + 28) (le_bytes v)) = 512" using fit sec by simp
  note e = length_dir_entry [OF len k] length_dir_entry [OF sec k] length_dir_entry [OF sec j]
  show l: "length (dir_entry (overwrite sec (32 * j + 28) (le_bytes v)) k)
      = length (if k = j then overwrite (dir_entry sec j) 28 (le_bytes v) else dir_entry sec k)"
    using e by simp
  fix i assume "i < length (dir_entry (overwrite sec (32 * j + 28) (le_bytes v)) k)"
  then have i: "i < 32" using e by simp
  have at: "dir_entry s n ! i = s ! (32 * n + i)" if "length s = 512" "n < 16" for s :: "u8 list" and n
    using that i by (simp add: dir_entry_def)
  have kj: "(32 * j + 28 \<le> 32 * k + i \<and> 32 * k + i < 32 * j + 28 + 4) \<longleftrightarrow> k = j \<and> 28 \<le> i"
  proof -
    have "k = j \<and> 28 \<le> i" if "32 * j + 28 \<le> 32 * k + i" "32 * k + i < 32 * j + 28 + 4"
    proof -
      have "k = j" using that i by linarith
      with that show ?thesis by simp
    qed
    then show ?thesis using i by auto
  qed
  have "32 * k + i < length sec" using sec k i by simp
  then have "dir_entry (overwrite sec (32 * j + 28) (le_bytes v)) k ! i
      = (if k = j \<and> 28 \<le> i then le_bytes v ! (i - 28) else sec ! (32 * k + i))"
    using at [OF len k] nth_overwrite [OF fit] kj by auto
  also have "\<dots> = (if k = j then overwrite (dir_entry sec j) 28 (le_bytes v) else dir_entry sec k) ! i"
    using i e at [OF sec k] at [OF sec j] by (simp add: nth_overwrite)
  finally show "dir_entry (overwrite sec (32 * j + 28) (le_bytes v)) k ! i
      = (if k = j then overwrite (dir_entry sec j) 28 (le_bytes v) else dir_entry sec k) ! i" .
qed

lemma find_slot_entries:
  assumes "length sec = 512" "distinct js" "set js \<subseteq> {..<16}"
  shows "case find_slot t sec js of
      Found j \<Rightarrow> j \<in> set js \<and> set_entry_size t v (map (dir_entry sec) js @ rest)
        = map (dir_entry (overwrite sec (32 * j + 28) (le_bytes v))) js @ rest
    | End_Of_Dir \<Rightarrow> set_entry_size t v (map (dir_entry sec) js @ rest) = map (dir_entry sec) js @ rest
    | Not_Here \<Rightarrow> set_entry_size t v (map (dir_entry sec) js @ rest) = map (dir_entry sec) js @ set_entry_size t v rest"
  using assms(2,3)
proof (induction js)
  case Nil
  then show ?case by simp
next
  case (Cons k js)
  have IH: "case find_slot t sec js of
      Found j \<Rightarrow> j \<in> set js \<and> set_entry_size t v (map (dir_entry sec) js @ rest)
        = map (dir_entry (overwrite sec (32 * j + 28) (le_bytes v))) js @ rest
    | End_Of_Dir \<Rightarrow> set_entry_size t v (map (dir_entry sec) js @ rest) = map (dir_entry sec) js @ rest
    | Not_Here \<Rightarrow> set_entry_size t v (map (dir_entry sec) js @ rest) = map (dir_entry sec) js @ set_entry_size t v rest"
    using Cons by simp
  have patch: "dir_entry (overwrite sec (32 * j + 28) (le_bytes v)) i
      = (if i = j then overwrite (dir_entry sec j) 28 (le_bytes v) else dir_entry sec i)" if "i \<in> set (k # js)" "j \<in> set (k # js)" for i j
    using that Cons.prems(2) by (intro dir_entry_patch [OF assms(1)]) auto
  let ?e = "dir_entry sec k"
  consider "entry_name ?e ! 0 = 0"
    | "entry_name ?e ! 0 \<noteq> 0" "entry_in_use ?e" "entry_cluster ?e = t"
    | "entry_name ?e ! 0 \<noteq> 0" "\<not> (entry_in_use ?e \<and> entry_cluster ?e = t)" by blast
  then show ?case
  proof cases
    case 1
    then show ?thesis by simp
  next
    case 2
    then have f: "find_slot t sec (k # js) = Found k" by (simp add: entry_in_use_def Let_def)
    have "map (dir_entry (overwrite sec (32 * k + 28) (le_bytes v))) js = map (dir_entry sec) js"
      using patch Cons.prems(1) by (intro map_cong) auto
    with 2 f patch [of k k] show ?thesis by simp
  next
    case 3
    then have f: "find_slot t sec (k # js) = find_slot t sec js" by (auto simp: entry_in_use_def Let_def)
    have "dir_entry (overwrite sec (32 * j + 28) (le_bytes v)) k = ?e" if "j \<in> set js" for j
      using patch [of k j] that Cons.prems(1) by auto
    with 3 f IH show ?thesis by (auto split: scan.splits)
  qed
qed

section \<open>One cluster, and the chain\<close>

definition sector_entries :: "(u64 \<Rightarrow> u8 list) \<Rightarrow> u64 list \<Rightarrow> u8 list list" where
  "sector_entries D ls = concat (map (\<lambda>l. map (dir_entry (D l)) [0..<16]) ls)"

lemma sector_entries_cong: "(\<And>l. l \<in> set ls \<Longrightarrow> D' l = D l) \<Longrightarrow> sector_entries D' ls = sector_entries D ls"
  unfolding sector_entries_def by (intro arg_cong [where f = concat] map_cong) auto

lemma dir_entries_sectors: "dir_entries fs D (c # cs) = sector_entries D (cluster_lbas fs c) @ dir_entries fs D cs"
  by (simp add: dir_entries_def sector_entries_def del: upt_rec_numeral)

lemma dir_entries_cong: "(\<And>l. l \<in> chain_lbas fs cs \<Longrightarrow> D' l = D l) \<Longrightarrow> dir_entries fs D' cs = dir_entries fs D cs"
proof (induction cs)
  case (Cons c cs)
  then show ?case unfolding dir_entries_sectors
    by (intro arg_cong2 [where f = append] sector_entries_cong) (auto simp: chain_lbas_def)
qed (simp add: dir_entries_def)

context block_device begin

lemma update_cluster_spec:
  assumes "inv m" "\<forall>i\<in>set is. valid (lba + of_nat i)" "distinct (map (\<lambda>i. lba + of_nat i) is)"
  shows "\<exists>fin m'. update_cluster io t v lba is m = Some (fin, m') \<and> inv m' \<and> (\<not> fin \<longrightarrow> disk m' = disk m)
    \<and> (\<forall>rest. set_entry_size t v (sector_entries (disk m) (map (\<lambda>i. lba + of_nat i) is) @ rest)
         = sector_entries (disk m') (map (\<lambda>i. lba + of_nat i) is) @ (if fin then rest else set_entry_size t v rest))
    \<and> (\<forall>l. l \<notin> set (map (\<lambda>i. lba + of_nat i) is) \<longrightarrow> disk m' l = disk m l)
    \<and> (\<forall>x. \<not> scratch x \<longrightarrow> ram m' x = ram m x)"
  using assms
proof (induction "is" arbitrary: m)
  case Nil
  then show ?case by (intro exI [of _ False] exI [of _ m]) (simp add: sector_entries_def)
next
  case (Cons i "is")
  let ?l = "lba + of_nat i" and ?ls = "map (\<lambda>i. lba + of_nat i) is"
  have v: "valid ?l" using Cons.prems(2) by simp
  have len: "length (disk m ?l) = 512" using Cons.prems(1) by (rule sector_length)
  obtain m1 where m1: "io_read io ?l m = Some m1" "keeps m m1" "buffer io m1 = disk m ?l"
    by (rule read_bufferE [OF Cons.prems(1) v])
  have i1: "inv m1" "disk m1 = disk m" using m1(2) by (auto dest: keepsD)
  have split: "sector_entries D (map (\<lambda>i. lba + of_nat i) (i # is)) = map (dir_entry (D ?l)) [0..<16] @ sector_entries D ?ls" for D
    by (simp add: sector_entries_def del: upt_rec_numeral)
  have js: "distinct [0..<16]" "set [0..<16] \<subseteq> {..<16 :: nat}" by (simp_all add: atLeast0LessThan del: upt_rec_numeral)
  note slot = find_slot_entries [OF len js, of t v]
  show ?case
  proof (cases "find_slot t (disk m ?l) [0..<16]")
    case (Found j)
    let ?o = "32 * j + 28"
    have f: "j < 16" "set_entry_size t v (map (dir_entry (disk m ?l)) [0..<16] @ rest)
        = map (dir_entry (overwrite (disk m ?l) ?o (le_bytes v))) [0..<16] @ rest" for rest
      using slot [of rest] Found by (simp_all del: upt_rec_numeral)
    let ?m2 = "on_ram (wr32 (io_data io + of_nat ?o) v) m1"
    have inv2: "inv ?m2" "disk ?m2 = disk m" using i1 by (simp_all add: ram_inv_iff ram_disk)
    obtain m3 where m3: "io_write io ?l ?m2 = Some m3" "inv m3"
        "disk m3 = (disk ?m2)(?l := rd_bytes (ram ?m2) (io_data io) 512)" "\<And>x. \<not> scratch x \<Longrightarrow> ram m3 x = ram ?m2 x"
      by (rule writeE [OF inv2(1) v]) blast
    have "?o + length (le_bytes v) \<le> 512" using f(1) by simp
    then have "rd_bytes (ram ?m2) (io_data io) 512 = overwrite (disk m ?l) ?o (le_bytes v)"
      using m1(3) rd_bytes_wr_bytes_at [of ?o "le_bytes v" 512 "io_data io" "ram m1"] by (simp add: wr32_bytes buffer_def)
    then have d3: "disk m3 = (disk m)(?l := overwrite (disk m ?l) ?o (le_bytes v))" using m3(3) inv2(2) by simp
    have r3: "ram m3 x = ram m x" if "\<not> scratch x" for x
    proof -
      have "\<not> in_region (io_data io) 512 x" using that buffer_scratch [OF Cons.prems(1)] by blast
      then have "\<not> in_region (io_data io + of_nat ?o) 4 x"
        using in_region_sub [of "io_data io" ?o 4 x 512] f(1) by auto
      then show ?thesis using m3(4) [OF that] keepsD(3) [OF m1(2) that] by (simp add: wr32_other)
    qed
    have "sector_entries (disk m3) ?ls = sector_entries (disk m) ?ls"
    proof (rule sector_entries_cong)
      fix l assume "l \<in> set ?ls"
      then have "l \<noteq> ?l" using Cons.prems(3) by (metis distinct.simps(2) list.map(2))
      then show "disk m3 l = disk m l" by (simp add: d3)
    qed
    then have "set_entry_size t v (sector_entries (disk m) (map (\<lambda>i. lba + of_nat i) (i # is)) @ rest)
        = sector_entries (disk m3) (map (\<lambda>i. lba + of_nat i) (i # is)) @ rest" for rest
      unfolding split using f(2) [of "sector_entries (disk m) ?ls @ rest"] by (simp add: d3 del: upt_rec_numeral)
    moreover have "update_cluster io t v lba (i # is) m = Some (True, m3)"
      using m1(1,3) m3(1) Found by (simp del: upt_rec_numeral)
    moreover have "disk m3 l = disk m l" if "l \<notin> set (map (\<lambda>i. lba + of_nat i) (i # is))" for l using that by (simp add: d3)
    ultimately show ?thesis using m3(2) r3
      by (intro exI [of _ True] exI [of _ m3]) (simp del: update_cluster.simps list.map)
  next
    case End_Of_Dir
    have "set_entry_size t v (sector_entries (disk m) (map (\<lambda>i. lba + of_nat i) (i # is)) @ rest)
        = sector_entries (disk m1) (map (\<lambda>i. lba + of_nat i) (i # is)) @ rest" for rest
      unfolding split using slot [of "sector_entries (disk m) ?ls @ rest"] End_Of_Dir by (simp add: i1 del: upt_rec_numeral)
    moreover have "update_cluster io t v lba (i # is) m = Some (True, m1)"
      using m1(1,3) End_Of_Dir by (simp del: upt_rec_numeral)
    ultimately show ?thesis using i1 keepsD(3) [OF m1(2)] by (intro exI [of _ True] exI [of _ m1]) simp
  next
    case Not_Here
    have "\<forall>i\<in>set is. valid (lba + of_nat i)" "distinct ?ls" using Cons.prems(2,3) by simp_all
    from Cons.IH [OF i1(1) this] obtain fin m2 where m2: "update_cluster io t v lba is m1 = Some (fin, m2)" "inv m2"
        "\<not> fin \<longrightarrow> disk m2 = disk m1" "\<And>rest. set_entry_size t v (sector_entries (disk m1) ?ls @ rest)
         = sector_entries (disk m2) ?ls @ (if fin then rest else set_entry_size t v rest)"
        "\<forall>l. l \<notin> set ?ls \<longrightarrow> disk m2 l = disk m1 l" "\<forall>x. \<not> scratch x \<longrightarrow> ram m2 x = ram m1 x"
      by blast
    have "disk m2 ?l = disk m ?l" using m2(5) Cons.prems(3) i1(2) by auto
    then have "set_entry_size t v (sector_entries (disk m) (map (\<lambda>i. lba + of_nat i) (i # is)) @ rest)
        = sector_entries (disk m2) (map (\<lambda>i. lba + of_nat i) (i # is)) @ (if fin then rest else set_entry_size t v rest)" for rest
      unfolding split using slot [of "sector_entries (disk m) ?ls @ rest"] Not_Here m2(4) [of rest] i1(2)
      by (simp del: upt_rec_numeral)
    moreover have "update_cluster io t v lba (i # is) m = Some (fin, m2)"
      using m1(1,3) m2(1) Not_Here by (simp del: upt_rec_numeral)
    ultimately show ?thesis using m2(2,3,5,6) i1(2) keepsD(3) [OF m1(2)]
      by (intro exI [of _ fin] exI [of _ m2]) simp
  qed
qed

lemma update_walk_spec:
  assumes "cluster_chain fs D c cs" "disk m = D" "inv m" "chain_valid valid fs cs" "data_layout fs cs"
  shows "\<exists>m'. update_walk io fs t v c m = Some m' \<and> inv m'
    \<and> dir_entries fs (disk m') cs = set_entry_size t v (dir_entries fs D cs)
    \<and> (\<forall>l. l \<notin> chain_lbas fs cs \<longrightarrow> disk m' l = D l) \<and> (\<forall>x. \<not> scratch x \<longrightarrow> ram m' x = ram m x)"
  using assms
proof (induction arbitrary: m rule: cluster_chain.induct)
  case (chain_end c)
  then show ?case by (subst update_walk.simps) (simp add: dir_entries_def)
next
  case (chain_step c cs)
  let ?base = "get_lba_of_cluster fs c" and ?is = "[0..<unat (sectors_per_clus fs)]"
  have cl: "map (\<lambda>i. ?base + of_nat i) ?is = cluster_lbas fs c" by (simp add: cluster_lbas_def)
  have vl: "\<forall>i\<in>set ?is. valid (?base + of_nat i)" using chain_step.prems(3) by (auto simp: cluster_lbas_def)
  have dist: "distinct (map (\<lambda>i. ?base + of_nat i) ?is)"
  proof -
    have "inj_on (\<lambda>i. ?base + of_nat i) (set ?is)"
    proof (rule inj_onI)
      fix i j assume ij: "i \<in> set ?is" "j \<in> set ?is" "?base + of_nat i = ?base + of_nat j"
      have "i < 2 ^ 64" "j < 2 ^ 64" using ij(1,2) spc_less [of fs] by (simp_all add: spc_def)
      with ij(3) add_of_nat_u64_inj show "i = j" by blast
    qed
    then show ?thesis by (simp add: distinct_map)
  qed
  from update_cluster_spec [OF chain_step.prems(2) vl dist, of t v] obtain fin m1 where
    m1: "update_cluster io t v ?base ?is m = Some (fin, m1)" "inv m1" "\<not> fin \<longrightarrow> disk m1 = disk m"
      "\<And>rest. set_entry_size t v (sector_entries (disk m) (cluster_lbas fs c) @ rest)
         = sector_entries (disk m1) (cluster_lbas fs c) @ (if fin then rest else set_entry_size t v rest)"
      "\<forall>l. l \<notin> set (cluster_lbas fs c) \<longrightarrow> disk m1 l = disk m l" "\<forall>x. \<not> scratch x \<longrightarrow> ram m1 x = ram m x"
    unfolding cl by blast
  have D: "disk m = D" by (rule chain_step.prems(1))
  have nc: "c \<notin> set cs" using cluster_chain_distinct [of fs D c "c # cs"] chain_step.hyps by (auto intro: cluster_chain.chain_step)
  have apart: "set (cluster_lbas fs c) \<inter> chain_lbas fs cs = {}"
    using layout_lbas_apart [OF chain_step.prems(4), of c] nc by (auto simp: chain_lbas_def)
  show ?case
  proof (cases fin)
    case True
    have "dir_entries fs (disk m1) cs = dir_entries fs D cs"
      by (rule dir_entries_cong) (use m1(5) apart D in auto)
    then have "dir_entries fs (disk m1) (c # cs) = set_entry_size t v (dir_entries fs D (c # cs))"
      unfolding dir_entries_sectors using m1(4) [of "dir_entries fs D cs"] True D by simp
    moreover have "update_walk io fs t v c m = Some m1"
      using m1(1) True chain_step.hyps(1) by (subst update_walk.simps) simp
    ultimately show ?thesis using m1(2,5,6) D by (auto simp: chain_lbas_def)
  next
    case False
    then have d1: "disk m1 = D" using m1(3) D by simp
    have vf: "valid (fat_sector fs c)" using chain_step.prems(3) by simp
    obtain m2 where m2: "read_fat io fs c m1 = Some (fat_value fs D c, m2)" "keeps m1 m2"
      using read_fatE [OF m1(2) vf] d1 by auto
    have i2: "inv m2" "disk m2 = D" using m2(2) d1 by (auto dest: keepsD)
    have "chain_valid valid fs cs" "data_layout fs cs" using chain_step.prems(3,4) by (auto simp: data_layout_def)
    from chain_step.IH [OF i2(2,1) this] obtain m3 where m3: "update_walk io fs t v (fat_value fs D c) m2 = Some m3" "inv m3"
        "dir_entries fs (disk m3) cs = set_entry_size t v (dir_entries fs D cs)"
        "\<forall>l. l \<notin> chain_lbas fs cs \<longrightarrow> disk m3 l = D l" "\<forall>x. \<not> scratch x \<longrightarrow> ram m3 x = ram m2 x"
      by blast
    have "sector_entries (disk m3) (cluster_lbas fs c) = sector_entries D (cluster_lbas fs c)"
      by (rule sector_entries_cong) (use m3(4) apart in auto)
    then have "dir_entries fs (disk m3) (c # cs) = set_entry_size t v (dir_entries fs D (c # cs))"
      unfolding dir_entries_sectors using m1(4) [of "dir_entries fs D cs"] False D d1 m3(3) by simp
    moreover have "update_walk io fs t v c m = Some m3"
      using m1(1) False chain_step.hyps(1) m2(1) m3(1) by (subst update_walk.simps) simp
    ultimately show ?thesis using m3(2,4,5) m1(6) keepsD(3) [OF m2(2)]
      by (intro exI [of _ m3]) (simp add: chain_lbas_def)
  qed
qed

end

end
