(* ===== verification/File_Append.thy ===== *)
theory File_Append imports File_Grow Dir_Update File_System begin

text \<open>
  \<open>sys_write_file\<close> when the file grows: the clusters it takes, the longer chain, the bytes, and the size in the
  directory entry; and the property on the AHCI driver.
\<close>

section \<open>Chains, seen through the FAT values\<close>

lemma cluster_chain_fat_cong:
  "cluster_chain fs D c cs \<Longrightarrow> (\<And>k. k \<in> set cs \<Longrightarrow> fat_value fs D' k = fat_value fs D k) \<Longrightarrow> cluster_chain fs D' c cs"
proof (induction rule: cluster_chain.induct)
  case (chain_end c)
  then show ?case by (intro cluster_chain.chain_end)
next
  case (chain_step c cs)
  then show ?case by (intro cluster_chain.chain_step) simp_all
qed

lemma file_chain_fat_cong:
  assumes "file_chain fs D c cs" "\<And>k. k \<in> set cs \<Longrightarrow> fat_value fs D' k = fat_value fs D k"
  shows "file_chain fs D' c cs"
proof -
  from assms(1) obtain rest where r: "cs = c # rest" "cluster_chain fs D (fat_value fs D c) rest" by (auto simp: file_chain_def)
  with assms(2) cluster_chain_fat_cong [OF r(2)] show ?thesis by (simp add: file_chain_def)
qed

lemma file_chain_suffix: "file_chain fs D c (pre @ x # rest) \<Longrightarrow> file_chain fs D x (x # rest)"
proof (induction pre arbitrary: c)
  case Nil
  then show ?case by (auto simp: file_chain_def)
next
  case (Cons p pre)
  have c: "c = p" using Cons.prems by (simp add: file_chain_def)
  show ?case
  proof (cases pre)
    case Nil
    then show ?thesis using Cons.prems c by (auto simp: file_chain_def chain_Cons_iff)
  next
    case (Cons q pre')
    then have "file_chain fs D q (pre @ x # rest)" using Cons.prems c by (auto simp: file_chain_def chain_Cons_iff)
    then show ?thesis by (rule Cons.IH)
  qed
qed

text \<open>A chain whose last entry is an end mark holds no free cluster.\<close>

lemma file_chain_nonzero:
  assumes "file_chain fs D c cs" "fat_value fs D (last cs) \<noteq> 0" "k \<in> set cs"
  shows "fat_value fs D k \<noteq> 0"
proof -
  have nz: "cluster_chain fs D x xs \<Longrightarrow> k \<in> set xs \<Longrightarrow> fat_value fs D (last xs) \<noteq> 0 \<Longrightarrow> fat_value fs D k \<noteq> 0" for x xs
  proof (induction rule: cluster_chain.induct)
    case (chain_step c cs)
    show ?case
    proof (cases "k = c \<and> cs \<noteq> []")
      case True
      then have "live_cluster (fat_value fs D c)" using chain_step.hyps(2) by (auto elim: cluster_chain.cases)
      then show ?thesis using True by (auto simp: live_cluster_def)
    next
      case False
      then show ?thesis using chain_step by (cases "cs = []") auto
    qed
  qed simp
  from assms(1) obtain rest where r: "cs = c # rest" "cluster_chain fs D (fat_value fs D c) rest" by (auto simp: file_chain_def)
  show ?thesis
  proof (cases "k = c \<and> rest \<noteq> []")
    case True
    then have "live_cluster (fat_value fs D c)" using r(2) by (auto elim: cluster_chain.cases)
    then show ?thesis using True by (auto simp: live_cluster_def)
  next
    case False
    then show ?thesis using assms(2,3) r nz [OF r(2)] by (cases "rest = []") auto
  qed
qed

lemma free_take_props:
  assumes ok: "fat_ok valid fs" and ns: "ns = take (length ns) (free_clusters fs D)"
  shows "set ns \<subseteq> set (free_clusters fs D)" "distinct ns" "\<And>k. k \<in> set ns \<Longrightarrow> fat_value fs D k = 0"
proof -
  have small: "unat (fat_sz32 fs) * 128 \<le> 0x0FFFFFF8" using ok by (simp add: fat_ok_def)
  show sub: "set ns \<subseteq> set (free_clusters fs D)" by (subst ns) (rule set_take_subset)
  show "distinct ns" by (subst ns) (rule distinct_take [OF free_clustersD(2) [OF small]])
  show "\<And>k. k \<in> set ns \<Longrightarrow> fat_value fs D k = 0" using sub free_clustersD(1) [OF small] by blast
qed

text \<open>After linking some free clusters the rest are still free, and the new last entry is an end mark.\<close>

lemma link_free:
  assumes ok: "fat_ok valid fs" and "\<And>l. length (D l) = 512" "ns = take (length ns) (free_clusters fs D)" "fat_value fs D e \<noteq> 0"
  shows "free_clusters fs (link_clusters fs e ns D) = drop (length ns) (free_clusters fs D)
    \<and> fat_value fs (link_clusters fs e ns D) (last (e # ns)) \<noteq> 0"
  using assms(2-4)
proof (induction ns arbitrary: e D)
  case (Cons n ns)
  then obtain rest where rest: "free_clusters fs D = n # rest" "ns = take (length ns) rest"
    by (cases "free_clusters fs D") auto
  let ?D = "link_clusters fs e [n] D"
  note l = free_clusters_link [OF ok Cons.prems(1) rest(1) Cons.prems(3)]
  have "free_clusters fs (link_clusters fs n ns ?D) = drop (length ns) (free_clusters fs ?D)
    \<and> fat_value fs (link_clusters fs n ns ?D) (last (n # ns)) \<noteq> 0"
    by (rule Cons.IH [OF link_length [OF Cons.prems(1)]]) (use l rest(2) in auto)
  then show ?case using l(1) rest(1) by simp
qed simp

section \<open>The end of the system call\<close>

context block_device begin

lemma write_finish_grow:
  assumes inv: "inv m" and v: "valid 2048" and d: "get_fd fd tbl = Some d"
    and grow: "ucast (fd_size d) < fd_position d + of_nat n"
    and root: "cluster_chain fs (disk m) (root_cluster fs) rs" "chain_valid valid fs rs" "data_layout fs rs"
  shows "\<exists>m'. write_finish io fs fd n tbl m = Some (set_fd fd (d\<lparr>fd_position := fd_position d + of_nat n,
        fd_size := ucast (fd_position d + of_nat n)\<rparr>) tbl, m') \<and> inv m'
    \<and> dir_entries fs (disk m') rs = set_entry_size (fd_cluster d) (ucast (fd_position d + of_nat n)) (dir_entries fs (disk m) rs)
    \<and> (\<forall>l. l \<notin> chain_lbas fs rs \<longrightarrow> disk m' l = disk m l) \<and> (\<forall>x. \<not> scratch x \<longrightarrow> ram m' x = ram m x)"
proof -
  let ?sz = "ucast (fd_position d + of_nat n) :: u32"
  obtain m1 where m1: "update_walk io fs (fd_cluster d) ?sz (root_cluster fs) m = Some m1" "inv m1"
      "dir_entries fs (disk m1) rs = set_entry_size (fd_cluster d) ?sz (dir_entries fs (disk m) rs)"
      "\<forall>l. l \<notin> chain_lbas fs rs \<longrightarrow> disk m1 l = disk m l" "\<forall>x. \<not> scratch x \<longrightarrow> ram m1 x = ram m x"
    using update_walk_spec [OF root(1) refl inv root(2,3), of "fd_cluster d" ?sz] by blast
  let ?m2 = "io_spin io 500000 m1"
  have k2: "keeps m1 ?m2" using m1(2) by (rule spin_keeps)
  obtain m3 where m3: "io_read io 2048 ?m2 = Some m3" "keeps ?m2 m3" by (rule read_bufferE [OF keepsD(1) [OF k2] v])
  have k: "keeps m1 m3" using k2 m3(2) by (rule keeps_trans)
  have "write_finish io fs fd n tbl m = Some (set_fd fd (d\<lparr>fd_position := fd_position d + of_nat n, fd_size := ?sz\<rparr>) tbl, m3)"
    using d grow m1(1) m3(1) port_present [OF inv] by (simp add: write_finish_def update_dir_entry_def Let_def)
  then show ?thesis using m1 k by (intro exI [of _ m3]) (simp add: keeps_def)
qed

end

text \<open>A rewritten end of a chain is a rewritten chain.\<close>

lemma rewritten_suffix:
  assumes "rewritten fs cs' off bs E D'" "distinct (pre @ cs')" "data_layout fs (pre @ cs')"
  shows "rewritten fs (pre @ cs') (length (file_bytes fs E pre) + off) bs E D'"
proof -
  have apart: "chain_lbas fs pre \<inter> chain_lbas fs cs' = {}"
    by (rule chain_lbas_apart [OF assms(3)]) (use assms(2) in auto)
  then have "file_bytes fs D' pre = file_bytes fs E pre"
    using assms(1) by (intro file_bytes_cong) (auto simp: rewritten_def)
  then show ?thesis using assms(1) by (auto simp: rewritten_def file_bytes_def chain_lbas_def overwrite_append2)
qed

section \<open>The system call\<close>

text \<open>
  What a growing write makes of the disk: \<open>cs\<close> are the file's clusters before, \<open>ns\<close> the new ones, \<open>rs\<close> those of the root
  directory.
\<close>

definition grown_file ::
  "simple_fs \<Rightarrow> u32 \<Rightarrow> u32 list \<Rightarrow> u32 list \<Rightarrow> u32 list \<Rightarrow> nat \<Rightarrow> u8 list \<Rightarrow> u32 \<Rightarrow> (u64 \<Rightarrow> u8 list) \<Rightarrow> (u64 \<Rightarrow> u8 list) \<Rightarrow> bool" where
  "grown_file fs c cs ns rs pos bs new_size D D' \<longleftrightarrow>
     file_chain fs D' c (cs @ ns) \<and> fat_value fs D' (last (cs @ ns)) \<noteq> 0
     \<and> file_bytes fs D' (cs @ ns) = overwrite (file_bytes fs D (cs @ ns)) pos bs
     \<and> cluster_chain fs D' (root_cluster fs) rs
     \<and> dir_entries fs D' rs = set_entry_size c new_size (dir_entries fs D rs)
     \<and> (\<forall>k. fat_sector fs k < cluster_begin_lba fs \<longrightarrow> k \<notin> set (last cs # ns) \<longrightarrow> fat_value fs D' k = fat_value fs D k)
     \<and> (\<forall>l. l \<notin> chain_lbas fs (cs @ ns @ rs) \<union> fat_sector fs ` set (last cs # ns) \<longrightarrow> D' l = D l)"

lemma link_data:
  assumes "l \<in> chain_lbas fs xs" "data_layout fs xs" "data_layout fs (e # ns)"
  shows "link_clusters fs e ns D l = D l"
proof (rule link_other)
  fix k assume "k \<in> set (e # ns)"
  then have "fat_sector fs k < cluster_begin_lba fs" using assms(3) by (auto simp: data_layout_def)
  moreover have "cluster_begin_lba fs \<le> l"
    using assms(1,2) cluster_lbas_ge [of fs] by (auto simp: chain_lbas_def data_layout_def)
  ultimately show "l \<noteq> fat_sector fs k" by auto
qed

lemma low_outside: "data_layout fs xs \<Longrightarrow> l < cluster_begin_lba fs \<Longrightarrow> l \<notin> chain_lbas fs xs"
  using cluster_lbas_ge [of fs] by (fastforce simp: chain_lbas_def data_layout_def not_le [symmetric])

lemma rewritten_root:
  assumes len: "\<And>l. length (D l) = 512" and ne: "cs \<noteq> []"
    and lay: "data_layout fs (cs @ ns @ rs)" and dist: "set (cs @ ns) \<inter> set rs = {}"
    and root: "cluster_chain fs D (root_cluster fs) rs"
    and w: "rewritten fs (cs @ ns) pos bs (link_clusters fs (last cs) ns D) D1"
  shows "cluster_chain fs D1 (root_cluster fs) rs"
proof (rule cluster_chain_fat_cong [OF root])
  let ?E = "link_clusters fs (last cs) ns D"
  fix k assume k: "k \<in> set rs"
  then have "fat_sector fs k < cluster_begin_lba fs" using lay by (auto simp: data_layout_def)
  then have "fat_sector fs k \<notin> chain_lbas fs (cs @ ns)" using low_outside [of fs "cs @ ns"] lay by auto
  then have "fat_value fs D1 k = fat_value fs ?E k" using w by (simp add: rewritten_def fat_value_def)
  also have "\<dots> = fat_value fs D k"
    by (rule link_fat_value [OF len]) (use k dist last_in_set [OF ne] in auto)
  finally show "fat_value fs D1 k = fat_value fs D k" .
qed

text \<open>From the clusters' contents to the whole file system.\<close>

lemma grown_fileI:
  assumes len: "\<And>l. length (D l) = 512" and chain: "file_chain fs D c cs" "fat_value fs D (last cs) \<noteq> 0"
    and free: "fat_ok valid fs" "ns = take (length ns) (free_clusters fs D)"
    and lay: "data_layout fs (cs @ ns @ rs)" and dist: "set (cs @ ns) \<inter> set rs = {}"
    and root: "cluster_chain fs D (root_cluster fs) rs"
    and w: "rewritten fs (cs @ ns) pos bs (link_clusters fs (last cs) ns D) D1"
    and d: "dir_entries fs D2 rs = set_entry_size c new_size (dir_entries fs D1 rs)" "\<forall>l. l \<notin> chain_lbas fs rs \<longrightarrow> D2 l = D1 l"
  shows "grown_file fs c cs ns rs pos bs new_size D D2"
proof -
  let ?E = "link_clusters fs (last cs) ns D"
  note fp = free_take_props [OF free]
  have ne: "cs \<noteq> []" using chain(1) by (auto simp: file_chain_def)
  have dn: "distinct (cs @ ns)"
    using file_chain_distinct [OF chain(1)] fp(2,3) file_chain_nonzero [OF chain] by auto
  have le: "data_layout fs (last cs # ns)" using lay last_in_set [OF ne] by (auto simp: data_layout_def)
  have fe: "file_chain fs ?E c (cs @ ns)"
    by (rule link_file_chain [OF len chain(1) dn]) (use free_small [OF free(1)] fp(1) in blast)
  have low1: "D1 l = ?E l" if "l < cluster_begin_lba fs" for l
  proof -
    have "l \<notin> chain_lbas fs (cs @ ns)" using that low_outside [of fs "cs @ ns"] lay by auto
    then show ?thesis using w by (auto simp: rewritten_def)
  qed
  have low2: "D2 l = ?E l" if "l < cluster_begin_lba fs" for l
  proof -
    have "l \<notin> chain_lbas fs rs" using that low_outside [of fs rs] lay by auto
    then show ?thesis using d(2) low1 [OF that] by simp
  qed
  have fv: "fat_value fs D2 k = fat_value fs ?E k" if "fat_sector fs k < cluster_begin_lba fs" for k
    using low2 [OF that] by (simp add: fat_value_def)
  have sub: "fat_sector fs k < cluster_begin_lba fs" if "k \<in> set (cs @ ns @ rs)" for k using that lay by (auto simp: data_layout_def)
  have keepv: "fat_value fs ?E k = fat_value fs D k" if "k \<notin> set (last cs # ns)" for k
    by (rule link_fat_value [OF len that])
  have rs_out: "k \<notin> set (last cs # ns)" if "k \<in> set rs" for k using that dist last_in_set [OF ne] by auto
  have "cluster_chain fs ?E (root_cluster fs) rs" by (rule cluster_chain_fat_cong [OF root]) (rule keepv [OF rs_out])
  then have c2: "cluster_chain fs D2 (root_cluster fs) rs"
    by (rule cluster_chain_fat_cong) (rule fv [OF sub], auto)
  have f2: "file_chain fs D2 c (cs @ ns)" by (rule file_chain_fat_cong [OF fe]) (rule fv [OF sub], auto)
  have "fat_value fs ?E (last (cs @ ns)) \<noteq> 0" using link_free [OF free(1) len free(2) chain(2)] by (cases "ns = []") simp_all
  moreover have "last (cs @ ns) \<in> set (cs @ ns @ rs)" using last_in_set [of "cs @ ns"] ne by auto
  ultimately have n2: "fat_value fs D2 (last (cs @ ns)) \<noteq> 0" using fv [OF sub] by simp
  have apart: "chain_lbas fs (cs @ ns) \<inter> chain_lbas fs rs = {}"
    by (rule chain_lbas_apart [OF lay _ _ dist]) auto
  have "file_bytes fs D2 (cs @ ns) = file_bytes fs D1 (cs @ ns)"
    by (rule file_bytes_cong) (use d(2) apart in blast)
  moreover have "file_bytes fs ?E (cs @ ns) = file_bytes fs D (cs @ ns)"
    by (rule file_bytes_cong, erule link_data [OF _ _ le]) (use lay in simp)
  ultimately have b2: "file_bytes fs D2 (cs @ ns) = overwrite (file_bytes fs D (cs @ ns)) pos bs"
    using w by (simp add: rewritten_def)
  have r1: "D1 l = D l" if "l \<in> chain_lbas fs rs" for l
  proof -
    have "l \<notin> chain_lbas fs (cs @ ns)" using that apart by blast
    then have "D1 l = ?E l" using w by (auto simp: rewritten_def)
    also have "\<dots> = D l" by (rule link_data [OF that _ le]) (use lay in simp)
    finally show ?thesis .
  qed
  have e2: "dir_entries fs D2 rs = set_entry_size c new_size (dir_entries fs D rs)"
    unfolding d(1) by (intro arg_cong [where f = "set_entry_size c new_size"] dir_entries_cong r1)
  have o2: "D2 l = D l" if "l \<notin> chain_lbas fs (cs @ ns @ rs) \<union> fat_sector fs ` set (last cs # ns)" for l
  proof -
    have "l \<notin> chain_lbas fs rs" "l \<notin> chain_lbas fs (cs @ ns)" using that by (auto simp: chain_lbas_def)
    then have "D2 l = ?E l" using d(2) w by (simp add: rewritten_def)
    also have "\<dots> = D l" by (rule link_other) (use that in blast)
    finally show ?thesis .
  qed
  show "grown_file fs c cs ns rs pos bs new_size D D2"
    unfolding grown_file_def
  proof (intro conjI allI impI)
    show "fat_value fs D2 k = fat_value fs D k" if "fat_sector fs k < cluster_begin_lba fs" "k \<notin> set (last cs # ns)" for k
      using fv [OF that(1)] keepv [OF that(2)] by simp
  qed (fact f2 n2 b2 c2 e2 | erule o2)+
qed

text \<open>The clusters taken before the cluster of the position, and those taken while writing.\<close>

lemma nat_div_bounds: "0 < z \<Longrightarrow> (q :: nat) = p div z \<Longrightarrow> q * z \<le> p \<and> p < (q + 1) * z \<and> p - q * z = p mod z"
  by (metis add.commute div_times_less_eq_dividend minus_div_mult_eq_mod mult.commute mult_Suc_right plus_1_eq_Suc
      dividend_less_times_div add_mult_distrib mult_1)

context block_device begin

lemma write_clusters_grow_on:
  assumes inv: "inv m" and ok: "fat_ok valid fs"
    and chain: "file_chain fs (disk m) c cs" "fat_value fs (disk m) (last cs) \<noteq> 0"
    and ns: "ns = take (length ns) (free_clusters fs (disk m))"
    and va: "chain_valid valid fs (cs @ ns)" and lay: "data_layout fs (cs @ ns)"
    and buf: "user_buffer src (length bs)" "rd_bytes (ram m) src (length bs) = bs" "bs \<noteq> []"
    and small: "unat pos < 2 ^ 63" and fits: "unat pos + length bs \<le> length (cs @ ns) * (spc fs * 512)"
    and need: "ns \<noteq> [] \<longrightarrow> (length (cs @ ns) - 1) * (spc fs * 512) < unat pos + length bs"
    and exact: "k \<noteq> 0 \<longrightarrow> unat pos + length bs = length (cs @ ns) * (spc fs * 512)"
  shows "\<exists>x start m1 m2. skip_clusters (next_or_alloc io fs) (cluster_size fs) pos c 0 m = Some (True, x, start, m1)
    \<and> write_loop io fs x src (length bs + k) acc (pos - start) m1
        = write_on io fs (last (cs @ ns)) (src + of_nat (length bs)) k (acc + length bs) m2 \<and> inv m2
    \<and> rewritten fs (cs @ ns) (unat pos) bs (link_clusters fs (last cs) ns (disk m)) (disk m2)
    \<and> (\<forall>x. \<not> scratch x \<longrightarrow> ram m2 x = ram m x)"
proof -
  let ?cz = "spc fs * 512" and ?D = "disk m"
  define q where "q = unat pos div ?cz"
  define ns1 where "ns1 = take (q + 1 - length cs) ns"
  define ns2 where "ns2 = drop (q + 1 - length cs) ns"
  have nss: "ns = ns1 @ ns2" by (simp add: ns1_def ns2_def)
  have len: "length (?D l) = 512" for l using inv by (rule sector_length)
  obtain cs0 where cs0: "cs = c # cs0" using chain(1) by (auto simp: file_chain_def)
  have l0: "0 < length bs" using buf(3) by simp
  then have z: "0 < ?cz" using fits by (cases "spc fs") auto
  have q: "q * ?cz \<le> unat pos" "unat pos < (q + 1) * ?cz" "unat pos - q * ?cz = unat pos mod ?cz"
    using nat_div_bounds [OF z q_def] by blast+
  have "q * ?cz < length (cs @ ns) * ?cz" using q(1) fits l0 by linarith
  then have qn: "q < length (cs @ ns)" using z by simp
  have l1: "length ns1 = q + 1 - length cs" using qn by (simp add: ns1_def)
  have "ns1 \<noteq> [] \<longrightarrow> 0 < length ns1" by simp
  then have k1: "q \<le> length (cs0 @ ns1)" "ns1 \<noteq> [] \<longrightarrow> q = length (cs0 @ ns1)"
    using l1 arg_cong [OF cs0, of length] by (simp_all, linarith+)
  define x where "x = (cs @ ns1) ! q"
  define cs2 where "cs2 = drop (q + 1) (cs @ ns1)"
  define start where "start = (0 :: u64) + of_nat (q * ?cz)"
  have split: "cs @ ns1 = take q (cs @ ns1) @ x # cs2"
    unfolding x_def cs2_def using k1(1) cs0 by (simp only: Suc_eq_plus1 [symmetric]) (rule id_take_nth_drop, simp)
  have full: "cs @ ns = take q (cs @ ns1) @ (x # cs2 @ ns2)" using split nss by (metis append.assoc append_Cons)
  have lq: "length (take q (cs @ ns1)) = q" using k1(1) cs0 by simp
  have ns1: "ns1 = take (length ns1) (free_clusters fs ?D)"
    using ns nss by (metis append_eq_conv_conj take_take min.cobounded1 length_append le_add1 min.absorb1)
  obtain m1 where m1: "skip_clusters (next_or_alloc io fs) (cluster_size fs) pos c 0 m = Some (True, x, start, m1)"
      "inv m1" "disk m1 = link_clusters fs (last cs) ns1 ?D" "\<forall>x. \<not> scratch x \<longrightarrow> ram m1 x = ram m x"
  proof -
    have "chain_valid valid fs (c # cs0 @ ns1)" using va nss cs0 by simp
    from skip_grow [OF inv ok chain(1) [unfolded cs0] this _ ns1, of 0 pos q] chain(2) small z k1
    show ?thesis using that by (auto simp: cs0 x_def start_def q_def)
  qed
  note lf = link_free [OF ok len ns1 chain(2)]
  have dist: "distinct (cs @ ns)"
    using file_chain_distinct [OF chain(1)] free_take_props(2,3) [OF ok ns] file_chain_nonzero [OF chain] by auto
  have sub1: "set ns1 \<subseteq> set (free_clusters fs ?D)" by (rule free_take_props(1) [OF ok ns1])
  have "file_chain fs (disk m1) c (cs @ ns1)"
    unfolding m1(3) by (rule link_file_chain [OF len chain(1)]) (use dist nss sub1 free_small [OF ok] in auto)
  then have fx: "file_chain fs (disk m1) x (x # cs2)" by (subst (asm) split) (rule file_chain_suffix)
  have lastx: "last (x # cs2) = last (last cs # ns1)"
    using arg_cong [OF split, of last] cs0 by (auto simp: last_append split: if_splits)
  have free2: "ns2 = take (length ns2) (free_clusters fs (disk m1))"
  proof -
    have "ns2 = drop (length ns1) ns" using nss by simp
    also have "\<dots> = take (length ns2) (drop (length ns1) (free_clusters fs ?D))"
      by (subst ns) (simp add: drop_take nss)
    finally show ?thesis using lf m1(3) by simp
  qed
  have link2: "link_clusters fs (last (x # cs2)) ns2 (disk m1) = link_clusters fs (last cs) ns ?D"
    unfolding m1(3) lastx nss link_append ..
  have st: "unat start = q * ?cz" using q(1) small by (simp add: start_def unat_of_nat take_bit_nat_eq_self del: of_nat_mult)
  have off: "unat (pos - start) = unat pos - q * ?cz" using st q(1) by (simp add: unat_sub word_le_nat_alt)
  have b1: "rd_bytes (ram m1) src (length bs) = bs" using buffer_later [OF buf(1), of m1 m] m1(4) buf(2) by simp
  have lfull: "length (cs @ ns) = q + length (x # cs2 @ ns2)" using full lq by (metis length_append)
  have fits2: "unat (pos - start) + length bs \<le> length (x # cs2 @ ns2) * ?cz"
    using fits off q(1) unfolding lfull by (simp only: add_mult_distrib)
  have "\<exists>m2. write_loop io fs x src (length bs + k) acc (pos - start) m1
        = write_on io fs (last (x # cs2 @ ns2)) (src + of_nat (length bs)) k (acc + length bs) m2 \<and> inv m2
      \<and> rewritten fs (x # cs2 @ ns2) (unat (pos - start)) bs (link_clusters fs (last (x # cs2)) ns2 (disk m1)) (disk m2)
      \<and> (\<forall>x. \<not> scratch x \<longrightarrow> ram m2 x = ram m1 x)"
  proof (rule write_loop_grow_on [OF m1(2) ok fx])
    show "chain_valid valid fs (x # cs2 @ ns2)" "data_layout fs (x # cs2 @ ns2)" "distinct (x # cs2 @ ns2)"
      using va lay dist unfolding full by simp_all
    show "fat_value fs (disk m1) (last (x # cs2)) \<noteq> 0" unfolding lastx m1(3) using lf by blast
    show "unat (pos - start) < ?cz" using off q by (simp add: add_mult_distrib)
    show "k \<noteq> 0 \<longrightarrow> unat (pos - start) + length bs = length (x # cs2 @ ns2) * ?cz"
      using exact off q(1) unfolding lfull by (simp only: add_mult_distrib) linarith
    show "ns2 \<noteq> [] \<longrightarrow> length (cs2 @ ns2) * ?cz < unat (pos - start) + length bs"
    proof
      assume "ns2 \<noteq> []"
      then have "(length (cs @ ns) - 1) * ?cz < unat pos + length bs" using need nss by simp
      moreover have "length (cs @ ns) - 1 = q + length (cs2 @ ns2)" using lfull by simp
      ultimately show "length (cs2 @ ns2) * ?cz < unat (pos - start) + length bs"
        using off q(1) by (simp only: add_mult_distrib)
    qed
  qed (fact buf b1 free2 fits2)+
  then obtain m2 where m2: "write_loop io fs x src (length bs + k) acc (pos - start) m1
        = write_on io fs (last (cs @ ns)) (src + of_nat (length bs)) k (acc + length bs) m2" "inv m2"
      "rewritten fs (x # cs2 @ ns2) (unat (pos - start)) bs (link_clusters fs (last cs) ns ?D) (disk m2)"
      "\<forall>x. \<not> scratch x \<longrightarrow> ram m2 x = ram m1 x" unfolding link2 full by auto
  have "length (file_bytes fs (link_clusters fs (last cs) ns ?D) (take q (cs @ ns1))) = q * ?cz"
    by (subst length_file_bytes [OF link_length [OF len]]) (simp only: lq)
  then have "rewritten fs (cs @ ns) (unat pos) bs (link_clusters fs (last cs) ns ?D) (disk m2)"
    using rewritten_suffix [OF m2(3), of "take q (cs @ ns1)"] dist lay off q(1) unfolding full by simp
  then show ?thesis using m1(1,4) m2(1,2,4) by auto
qed

lemma write_clusters_grow:
  assumes inv: "inv m" and ok: "fat_ok valid fs"
    and chain: "file_chain fs (disk m) c cs" "fat_value fs (disk m) (last cs) \<noteq> 0"
    and ns: "ns = take (length ns) (free_clusters fs (disk m))"
    and va: "chain_valid valid fs (cs @ ns)" and lay: "data_layout fs (cs @ ns)"
    and buf: "user_buffer src (length bs)" "rd_bytes (ram m) src (length bs) = bs" "bs \<noteq> []"
    and small: "unat pos < 2 ^ 63" and fits: "unat pos + length bs \<le> length (cs @ ns) * (spc fs * 512)"
    and need: "ns \<noteq> [] \<longrightarrow> (length (cs @ ns) - 1) * (spc fs * 512) < unat pos + length bs"
  shows "\<exists>x start m1 m2. skip_clusters (next_or_alloc io fs) (cluster_size fs) pos c 0 m = Some (True, x, start, m1)
    \<and> write_loop io fs x src (length bs) acc (pos - start) m1 = Some (acc + length bs, m2) \<and> inv m2
    \<and> rewritten fs (cs @ ns) (unat pos) bs (link_clusters fs (last cs) ns (disk m)) (disk m2)
    \<and> (\<forall>x. \<not> scratch x \<longrightarrow> ram m2 x = ram m x)"
  using write_clusters_grow_on [OF assms, of 0 acc] by simp

lemma sys_write_file_grow:
  assumes inv: "inv m" and vol: "volume_at valid (disk m) fs" and v2048: "valid 2048" and ok: "fat_ok valid fs"
    and d: "get_fd fd tbl = Some d" "\<not> fd_is_dir d"
    and chain: "file_chain fs (disk m) (fd_cluster d) cs" "fat_value fs (disk m) (last cs) \<noteq> 0"
    and ns: "ns = take (length ns) (free_clusters fs (disk m))"
    and root: "cluster_chain fs (disk m) (root_cluster fs) rs"
    and va: "chain_valid valid fs (cs @ ns @ rs)" and lay: "data_layout fs (cs @ ns @ rs)" and dist: "set (cs @ ns) \<inter> set rs = {}"
    and pos: "unat (fd_size d) < unat (fd_position d) + unat buf_len" "unat (fd_position d) + unat buf_len < 2 ^ 32"
    and fits: "unat (fd_position d) + unat buf_len \<le> length (cs @ ns) * (spc fs * 512)"
    and need: "ns \<noteq> [] \<longrightarrow> (length (cs @ ns) - 1) * (spc fs * 512) < unat (fd_position d) + unat buf_len"
    and buf: "buf \<noteq> 0" "buf_len \<noteq> 0" "user_buffer buf (unat buf_len)"
  shows "\<exists>m'. sys_write_file io fd buf buf_len tbl m = Some (buf_len, False, set_fd fd
        (d\<lparr>fd_position := fd_position d + buf_len, fd_size := ucast (fd_position d + buf_len)\<rparr>) tbl, m') \<and> inv m'
    \<and> grown_file fs (fd_cluster d) cs ns rs (unat (fd_position d)) (rd_bytes (ram m) buf (unat buf_len))
        (ucast (fd_position d + buf_len)) (disk m) (disk m')
    \<and> (\<forall>x. \<not> scratch x \<longrightarrow> ram m' x = ram m x)"
proof -
  let ?bs = "rd_bytes (ram m) buf (unat buf_len)" and ?pos = "fd_position d" and ?D = "disk m"
  have len: "length (?D l) = 512" for l using inv by (rule sector_length)
  have ne: "cs \<noteq> []" using chain(1) by (auto simp: file_chain_def)
  have n0: "0 < unat buf_len" using buf(2) by (simp add: unat_gt_0)
  obtain m1 where m1: "fs_init io m = Some (Some fs, m1)" "keeps m m1"
    by (rule fs_init_volume [OF inv vol])
  have i1: "inv m1" "disk m1 = ?D" "\<forall>x. \<not> scratch x \<longrightarrow> ram m1 x = ram m x" using m1(2) by (auto simp: keeps_def)
  have u: "user_buffer buf (length ?bs)" using buf(3) by simp
  have b1: "rd_bytes (ram m1) buf (length ?bs) = ?bs" using buffer_later [OF u, of m1 m] i1(3) by simp
  have bne: "?bs \<noteq> []" using n0 by (metis length_rd_bytes less_nat_zero_code list.size(3))
  have small: "unat ?pos < 2 ^ 63" using pos(2) by simp
  obtain x start m2 m3 where w: "skip_clusters (next_or_alloc io fs) (cluster_size fs) ?pos (fd_cluster d) 0 m1 = Some (True, x, start, m2)"
      "write_loop io fs x buf (unat buf_len) 0 (?pos - start) m2 = Some (unat buf_len, m3)" "inv m3"
      "rewritten fs (cs @ ns) (unat ?pos) ?bs (link_clusters fs (last cs) ns ?D) (disk m3)"
      "\<forall>x. \<not> scratch x \<longrightarrow> ram m3 x = ram m1 x"
    using write_clusters_grow [OF i1(1) ok, unfolded i1(2), OF chain ns _ _ u b1 bne small, of 0] va lay fits need by auto
  have nat_pos: "unat (?pos + buf_len) = unat ?pos + unat buf_len" using pos(2) by (simp add: unat_word_ariths)
  have grow: "ucast (fd_size d) < ?pos + of_nat (unat buf_len)"
    using pos(1) nat_pos unat_lt_u32 [of "fd_size d"] by (simp add: word_less_nat_alt)
  note root3 = rewritten_root [OF len ne lay dist root w(4)]
  obtain m4 where m4: "write_finish io fs fd (unat buf_len) tbl m3 = Some (set_fd fd (d\<lparr>fd_position := ?pos + buf_len,
        fd_size := ucast (?pos + buf_len)\<rparr>) tbl, m4)" "inv m4"
      "dir_entries fs (disk m4) rs = set_entry_size (fd_cluster d) (ucast (?pos + buf_len)) (dir_entries fs (disk m3) rs)"
      "\<forall>l. l \<notin> chain_lbas fs rs \<longrightarrow> disk m4 l = disk m3 l" "\<forall>x. \<not> scratch x \<longrightarrow> ram m4 x = ram m3 x"
    using write_finish_grow [OF w(3) v2048 d(1) grow root3] va lay by auto
  have "grown_file fs (fd_cluster d) cs ns rs (unat ?pos) ?bs (ucast (?pos + buf_len)) ?D (disk m4)"
    by (rule grown_fileI [OF len chain ok ns lay dist root w(4) m4(3,4)])
  moreover have "sys_write_file io fd buf buf_len tbl m = Some (buf_len, False, set_fd fd
        (d\<lparr>fd_position := ?pos + buf_len, fd_size := ucast (?pos + buf_len)\<rparr>) tbl, m4)"
    using buf(1,2) d m1(1) w(1,2) m4(1) by (simp add: sys_write_file_def)
  ultimately show ?thesis using m4(2,5) w(5) i1(3) by auto
qed

end

end
