(* ===== verification/File_Reopen.thy ===== *)
theory File_Reopen imports File_Append begin

text \<open>
  A file that grows, seen from outside: the write on the AHCI driver, and what opening the file again and reading it
  gives.
\<close>

text \<open>
  The state in which a write up to byte \<open>e\<close> of the file starting at cluster \<open>c\<close> needs the new clusters \<open>ns\<close>: the chain
  \<open>cs\<close> of the file ends with an end mark, \<open>ns\<close> are the first free clusters, as many as are needed to reach \<open>e\<close>, \<open>rs\<close> is
  the chain of the root directory, and all of them are apart and on the disk.
\<close>

definition growth :: "(u64 \<Rightarrow> bool) \<Rightarrow> simple_fs \<Rightarrow> (u64 \<Rightarrow> u8 list) \<Rightarrow> u32 \<Rightarrow> u32 list \<Rightarrow> u32 list \<Rightarrow> u32 list \<Rightarrow> nat \<Rightarrow> bool" where
  "growth valid fs D c cs ns rs e \<longleftrightarrow>
     fat_ok valid fs \<and> file_chain fs D c cs \<and> fat_value fs D (last cs) \<noteq> 0
     \<and> ns = take (length ns) (free_clusters fs D)
     \<and> cluster_chain fs D (root_cluster fs) rs
     \<and> chain_valid valid fs (cs @ ns @ rs) \<and> data_layout fs (cs @ ns @ rs) \<and> set (cs @ ns) \<inter> set rs = {}
     \<and> e \<le> length (cs @ ns) * (spc fs * 512) \<and> (ns \<noteq> [] \<longrightarrow> (length (cs @ ns) - 1) * (spc fs * 512) < e)"

section \<open>Looking up a resized entry\<close>

lemma entry_resize:
  assumes "length e = 32"
  shows "entry_name (overwrite e 28 (le_bytes v)) = entry_name e" "entry_attr (overwrite e 28 (le_bytes v)) = entry_attr e"
    "entry_cluster (overwrite e 28 (le_bytes v)) = entry_cluster e" "entry_size (overwrite e 28 (le_bytes v)) = v"
proof -
  have fit: "28 + length (le_bytes v) \<le> length e" using assms by simp
  show "entry_name (overwrite e 28 (le_bytes v)) = entry_name e"
    using assms by (simp add: entry_name_def overwrite_def)
  show "entry_attr (overwrite e 28 (le_bytes v)) = entry_attr e" "entry_cluster (overwrite e 28 (le_bytes v)) = entry_cluster e"
    using assms by (simp_all add: entry_attr_def entry_cluster_def le16_def nth_overwrite [OF fit])
  show "entry_size (overwrite e 28 (le_bytes v)) = v"
    using assms by (simp add: entry_size_def le32_overwrite_same)
qed

lemma dir_lookup_Cons:
  "dir_lookup f (e # es) = (if entry_name e ! 0 = 0 then None
     else if entry_in_use e then (case f e of Some y \<Rightarrow> Some y | None \<Rightarrow> dir_lookup f es) else dir_lookup f es)"
  by (simp add: dir_lookup_def split: option.split)

lemma lookup_resized:
  assumes "\<forall>e\<in>set es. length e = 32" "dir_lookup (match_entry name) es = Some (c, sz)"
    and "\<forall>e\<in>set es. entry_in_use e \<longrightarrow> entry_cluster e = c \<longrightarrow> match_entry name e \<noteq> None"
  shows "dir_lookup (match_entry name) (set_entry_size c v es) = Some (c, v)"
  using assms
proof (induction es)
  case Nil
  then show ?case by (simp add: dir_lookup_def)
next
  case (Cons e es)
  note r = entry_resize [of e v]
  have e32: "length e = 32" using Cons.prems(1) by simp
  have n0: "entry_name e ! 0 \<noteq> 0" using Cons.prems(2) by (auto simp: dir_lookup_Cons split: if_splits)
  show ?case
  proof (cases "entry_in_use e \<and> entry_cluster e = c")
    case True
    then have "match_entry name e \<noteq> None" using Cons.prems(3) by simp
    then have "match_entry name (overwrite e 28 (le_bytes v)) = Some (c, v)" "entry_in_use (overwrite e 28 (le_bytes v))"
      using True r [OF e32] by (simp_all add: match_entry_def display_name_def entry_in_use_def split: if_splits)
    then show ?thesis using True n0 r(1) [OF e32] by (simp add: dir_lookup_Cons)
  next
    case False
    then have m: "entry_in_use e \<longrightarrow> match_entry name e = None"
      using Cons.prems(2) n0 by (auto simp: dir_lookup_Cons match_entry_def split: if_splits)
    then have "dir_lookup (match_entry name) es = Some (c, sz)"
      using Cons.prems(2) n0 by (auto simp: dir_lookup_Cons split: if_splits)
    with Cons.IH Cons.prems(1,3) m show ?thesis using False n0 by (auto simp: dir_lookup_Cons)
  qed
qed

lemma dir_entries_length: "(\<And>l. length (D l) = 512) \<Longrightarrow> e \<in> set (dir_entries fs D cs) \<Longrightarrow> length e = 32"
  by (auto simp: dir_entries_def length_dir_entry)

context block_device begin

lemma sys_write_file_growth:
  assumes "inv m" "volume_at valid (disk m) fs" "valid 2048" "get_fd fd tbl = Some d" "\<not> fd_is_dir d"
    and g: "growth valid fs (disk m) (fd_cluster d) cs ns rs (unat (fd_position d) + unat buf_len)"
    and "unat (fd_size d) < unat (fd_position d) + unat buf_len" "unat (fd_position d) + unat buf_len < 2 ^ 32"
    and "buf \<noteq> 0" "buf_len \<noteq> 0" "user_buffer buf (unat buf_len)"
  shows "\<exists>m'. sys_write_file io fd buf buf_len tbl m = Some (buf_len, False, set_fd fd
        (d\<lparr>fd_position := fd_position d + buf_len, fd_size := ucast (fd_position d + buf_len)\<rparr>) tbl, m') \<and> inv m'
    \<and> grown_file fs (fd_cluster d) cs ns rs (unat (fd_position d)) (rd_bytes (ram m) buf (unat buf_len))
        (ucast (fd_position d + buf_len)) (disk m) (disk m')
    \<and> (\<forall>x. \<not> scratch x \<longrightarrow> ram m' x = ram m x)"
  by (rule sys_write_file_grow [OF assms(1-3) _ assms(4,5) _ _ _ _ _ _ _ assms(7,8) _ _ assms(9-11)])
    (use g [unfolded growth_def] in blast)+

lemma syscall_open_found:
  assumes inv: "inv m" and vol: "volume_at valid (disk m) fs"
    and root: "cluster_chain fs (disk m) (root_cluster fs) rs" "chain_valid valid fs rs"
    and found: "dir_lookup (match_entry name) (dir_entries fs (disk m) rs) = Some (c, sz)"
    and alloc: "allocate_fd c False sz tbl = (fd, tbl')"
  shows "\<exists>m'. syscall_open io name tbl m = Some (fd, tbl', m') \<and> keeps m m'"
proof -
  obtain m1 where m1: "fs_init io m = Some (Some fs, m1)" "keeps m m1"
    by (rule fs_init_volume [OF inv vol])
  have i1: "inv m1" "disk m1 = disk m" using m1(2) by (auto dest: keepsD)
  obtain m2 where m2: "find_entry io fs (root_cluster fs) name m1 = Some (Some (c, sz), m2)" "keeps m1 m2"
    using dir_walk_spec [OF root(1) i1(2,1) root(2), of "match_entry name"] found unfolding find_entry_def by auto
  have "syscall_open io name tbl m = Some (fd, tbl', m2)"
    using port_present [OF inv] m1(1) m2(1) alloc by (simp add: syscall_open_def)
  then show ?thesis using keeps_trans [OF m1(2) m2(2)] by blast
qed

end

section \<open>The properties\<close>

text \<open>
  C4. Writing past the size of an open file, within its clusters or beyond: \<open>sys_write_file\<close> returns the length; it links
  the first free clusters of the FAT, as many as are needed, to the end of the file's chain, the chain then holds the
  caller's bytes from the position on and what the clusters held elsewhere (a gap is not cleared), the directory entry of
  the file gets the new size, the other entries, the other FAT values and all other sectors stay; position and size of the
  descriptor follow, and no memory outside the driver's changes.
\<close>

theorem sys_write_file_extends:
  assumes "ahci_contract bus g idle sectors cap dma" "idle (dev m)"
    and "volume_at (\<lambda>l. l < cap) (sectors (dev m)) fs" "2048 < cap"
    and "get_fd fd tbl = Some d" "\<not> fd_is_dir d"
    and g: "growth (\<lambda>l. l < cap) fs (sectors (dev m)) (fd_cluster d) cs ns rs (unat (fd_position d) + unat buf_len)"
    and "unat (fd_size d) < unat (fd_position d) + unat buf_len" "unat (fd_position d) + unat buf_len < 2 ^ 32"
    and "buf \<noteq> 0" "buf_len \<noteq> 0" "\<forall>i<unat buf_len. \<not> ahci_scratch g dma (buf + of_nat i)"
  shows "\<exists>m'. sys_write_file (ahci_io bus g) fd buf buf_len tbl m = Some (buf_len, False, set_fd fd
        (d\<lparr>fd_position := fd_position d + buf_len, fd_size := ucast (fd_position d + buf_len)\<rparr>) tbl, m')
      \<and> idle (dev m')
      \<and> grown_file fs (fd_cluster d) cs ns rs (unat (fd_position d)) (rd_bytes (ram m) buf (unat buf_len))
          (ucast (fd_position d + buf_len)) (sectors (dev m)) (sectors (dev m'))
      \<and> (\<forall>x. \<not> ahci_scratch g dma x \<longrightarrow> ram m' x = ram m x)"
proof -
  have inv: "ahci_contract bus g idle sectors cap dma \<and> idle (dev m)" using assms(1,2) by blast
  have u: "ahci.user_buffer g dma buf (unat buf_len)" using assms(12) by (simp add: ahci.user_buffer_def)
  from ahci.sys_write_file_growth [OF inv assms(3-6) g assms(8-11) u] show ?thesis by blast
qed

lemma sample_free_clusters: "take 1 (free_clusters sample_fs sample_disk) = [4]"
proof -
  have "unat (fat_sz32 sample_fs) = 1" by (simp add: sample_fs_def)
  then show ?thesis
    using first_free_clusters [of sample_fs sample_disk] sample_first_free by (auto split: list.splits)
qed

lemma sample_growth: "growth (\<lambda>l. l < 2 ^ 48) sample_fs sample_disk 3 [3] [4] [2] 601"
proof -
  have ok: "fat_ok (\<lambda>l. l < 2 ^ 48) sample_fs" by (simp add: fat_ok_def sample_fs_def get_fat_lba_def)
  have lb: "cluster_lbas sample_fs 4 = [5]" by (simp add: cluster_lbas_def sample_fs_def get_lba_of_cluster_def)
  have fs: "fat_sector sample_fs c = 2" if "c = 2 \<or> c = 3 \<or> c = 4" for c
    using that by (auto simp: fat_sector_def get_fat_lba_def sample_fs_def Let_def)
  have "chain_valid (\<lambda>l. l < 2 ^ 48) sample_fs ([3] @ [4] @ [2])" "data_layout sample_fs ([3] @ [4] @ [2])"
    by (simp_all add: sample_lbas lb fs data_layout_def) (simp_all add: sample_fs_def)
  then show ?thesis
    using ok sample_free_clusters sample_chain [of 2] sample_file_chain sample_fat
    by (simp add: growth_def) (simp add: sample_fs_def spc_def)
qed

lemma sample_user600: "\<forall>i<unat (600 :: u64). \<not> ahci_scratch sim_globals (\<lambda>x. False) (0x100000 + of_nat i)"
  using sample_scratch [of "0x100000" 600] by simp

theorem sys_write_file_extends_witness:
  "\<exists>m' tbl'. sys_write_file (ahci_io sim_hw sim_globals) 3 0x100000 600 sample_table sample_machine = Some (600, False, tbl', m')
    \<and> file_chain sample_fs (sim_sectors (dev m')) 3 [3, 4]"
proof -
  have cap: "(2048 :: u64) < 2 ^ 48" and nz: "(0x100000 :: u64) \<noteq> 0" "(600 :: u64) \<noteq> 0" by simp_all
  have d: "fd_cluster sample_open = 3" "\<not> fd_is_dir sample_open" "unat (fd_position sample_open) + unat (600 :: u64) = 601"
    "unat (fd_size sample_open) = 5" by (simp_all add: sample_open_def)
  have g: "growth (\<lambda>l. l < 2 ^ 48) sample_fs sample_disk (fd_cluster sample_open) [3] [4] [2]
      (unat (fd_position sample_open) + unat (600 :: u64))" unfolding d by (rule sample_growth)
  have p: "unat (fd_size sample_open) < unat (fd_position sample_open) + unat (600 :: u64)"
    "unat (fd_position sample_open) + unat (600 :: u64) < 2 ^ 32" unfolding d by simp_all
  from sys_write_file_extends [OF sim_ahci_contract sample_idle, unfolded sample_sectors,
      OF sample_volume cap sample_table_3 d(2) g p nz sample_user600]
  show ?thesis by (auto simp: grown_file_def sample_open_def)
qed

lemma volume_kept:
  assumes vol: "volume_at valid D fs" "part_lba fs < cluster_begin_lba fs" "\<forall>k\<in>set (last cs # ns). fat_sector fs k \<notin> {0, part_lba fs}"
    and lay: "data_layout fs (cs @ ns @ rs)" and g: "grown_file fs c cs ns rs pos bs sz D D'"
  shows "volume_at valid D' fs"
proof -
  have same: "D' l = D l" if "l < cluster_begin_lba fs" "\<forall>k\<in>set (last cs # ns). fat_sector fs k \<noteq> l" for l
  proof -
    have "l \<notin> chain_lbas fs (cs @ ns @ rs) \<union> fat_sector fs ` set (last cs # ns)"
      using low_outside [OF lay that(1)] that(2) by blast
    then show ?thesis using g unfolding grown_file_def by blast
  qed
  have part: "part_lba fs = mbr_part_lba (D 0)"
    using vol(1) by (auto simp: volume_at_def parse_bpb_def Let_def split: if_splits)
  have "0 < cluster_begin_lba fs" using vol(2) by (metis word_gt_0 word_not_simps(1))
  then have "D' 0 = D 0" "D' (part_lba fs) = D (part_lba fs)"
    by (rule same, use vol(3) in auto) (rule same [OF vol(2)], use vol(3) in auto)
  then show ?thesis using vol(1) part by (simp add: volume_at_def)
qed

lemma reopen_fd:
  assumes "length tbl = 256" "get_fd fd tbl = Some d" "3 \<le> unat fd"
  obtains fd' tbl' where "allocate_fd c False sz (snd (close_fd fd (set_fd fd nd tbl))) = (fd', tbl')"
    "get_fd fd' tbl' = Some \<lparr>fd_cluster = c, fd_position = 0, fd_is_dir = False, fd_size = sz\<rparr>"
proof -
  let ?d = "\<lparr>fd_cluster = c, fd_position = 0, fd_is_dir = False, fd_size = sz\<rparr>" and ?t = "snd (close_fd fd (set_fd fd nd tbl))"
  have ok: "fd_ok tbl" using assms(1) by (simp add: fd_ok_def)
  have h: "fd \<in> fd_handles" using assms(2,3) by (auto simp: fd_handles_def get_fd_def split: if_splits)
  have ok1: "fd_ok (set_fd fd nd tbl)" using fds.store_ok [OF ok, of fd nd] assms(2) by simp
  have f: "fd_ok ?t" "get_fd fd ?t = None" using fds.free_ok [OF ok1 h] by blast+
  then obtain fd' tbl' where al: "alloc_entry ?d ?t = Some (fd', tbl')"
    using fds.alloc_full [OF f(1), of ?d] h by (cases "alloc_entry ?d ?t") auto
  show thesis by (rule that [of fd' tbl']) (use al fds.alloc_ok [OF f(1) al] in \<open>simp_all add: allocate_fd_alloc\<close>)
qed

text \<open>
  C1. A file that grew keeps what it holds: after a write past its size, closing the descriptor, opening the file by its
  name and reading as many bytes as it now has delivers the bytes before the position as its clusters held them, followed
  by the bytes that were written. The directory entry found by the name is the only one with the file's first cluster up
  to the name's case, and the volume's own sectors are neither in the FAT nor in the data region.
\<close>

theorem append_reopen_read:
  assumes c: "ahci_contract bus g idle sectors cap dma" "idle (dev m)"
    and vol: "volume_at (\<lambda>l. l < cap) (sectors (dev m)) fs" "2048 < cap" "part_lba fs < cluster_begin_lba fs"
      "\<forall>k\<in>set (last cs # ns). fat_sector fs k \<notin> {0, part_lba fs}"
    and d: "get_fd fd tbl = Some d" "\<not> fd_is_dir d" "length tbl = 256" "3 \<le> unat fd"
    and g: "growth (\<lambda>l. l < cap) fs (sectors (dev m)) (fd_cluster d) cs ns rs (unat (fd_position d) + unat buf_len)"
    and pos: "unat (fd_size d) < unat (fd_position d) + unat buf_len" "unat (fd_position d) + unat buf_len < 2 ^ 32"
    and entry: "dir_lookup (match_entry name) (dir_entries fs (sectors (dev m)) rs) = Some (fd_cluster d, sz)"
      "\<forall>e\<in>set (dir_entries fs (sectors (dev m)) rs). entry_in_use e \<longrightarrow> entry_cluster e = fd_cluster d \<longrightarrow> match_entry name e \<noteq> None"
    and buf: "buf \<noteq> 0" "buf_len \<noteq> 0" "\<forall>i<unat buf_len. \<not> ahci_scratch g dma (buf + of_nat i)"
    and buf2: "buf2 \<noteq> 0" "\<forall>i<unat (fd_position d) + unat buf_len. \<not> ahci_scratch g dma (buf2 + of_nat i)"
  shows "\<exists>m1 tbl1 fd' m2 tbl2 m3 tbl3. sys_write_file (ahci_io bus g) fd buf buf_len tbl m = Some (buf_len, False, tbl1, m1)
    \<and> syscall_open (ahci_io bus g) name (snd (close_fd fd tbl1)) m1 = Some (fd', tbl2, m2)
    \<and> sys_read_file (ahci_io bus g) fd' buf2 (fd_position d + buf_len) tbl2 m2 = Some (fd_position d + buf_len, tbl3, m3)
    \<and> rd_bytes (ram m3) buf2 (unat (fd_position d) + unat buf_len)
        = take (unat (fd_position d)) (file_bytes fs (sectors (dev m)) (cs @ ns)) @ rd_bytes (ram m) buf (unat buf_len)"
proof -
  let ?D = "sectors (dev m)" and ?pos = "fd_position d" and ?bs = "rd_bytes (ram m) buf (unat buf_len)"
    and ?sz = "ucast (fd_position d + buf_len) :: u32" and ?c = "fd_cluster d" and ?n = "unat (fd_position d) + unat buf_len"
  have inv: "ahci_contract bus g idle sectors cap dma \<and> idle (dev m)" using c by blast
  have len: "length (?D l) = 512" for l using ahci.sector_length [OF inv] .
  note h = g [unfolded growth_def]
  have u: "ahci.user_buffer g dma buf (unat buf_len)" using buf(3) by (simp add: ahci.user_buffer_def)
  let ?d1 = "d\<lparr>fd_position := ?pos + buf_len, fd_size := ?sz\<rparr>"
  let ?tbl1 = "set_fd fd ?d1 tbl"
  obtain m1 where m1: "sys_write_file (ahci_io bus g) fd buf buf_len tbl m = Some (buf_len, False, ?tbl1, m1)"
      "idle (dev m1)" "grown_file fs ?c cs ns rs (unat ?pos) ?bs ?sz ?D (sectors (dev m1))"
    using ahci.sys_write_file_growth [OF inv vol(1,2) d(1,2) g pos buf(1,2) u] by blast
  note gf = m1(3) [unfolded grown_file_def]
  have inv1: "ahci_contract bus g idle sectors cap dma \<and> idle (dev m1)" using c(1) m1(2) by blast
  have vol1: "volume_at (\<lambda>l. l < cap) (sectors (dev m1)) fs"
    by (rule volume_kept [OF vol(1,3,4) _ m1(3)]) (use h in blast)
  have va: "chain_valid (\<lambda>l. l < cap) fs (cs @ ns)" "chain_valid (\<lambda>l. l < cap) fs rs" using h by simp_all
  have found: "dir_lookup (match_entry name) (dir_entries fs (sectors (dev m1)) rs) = Some (?c, ?sz)"
    using lookup_resized [OF _ entry, of ?sz] dir_entries_length [of ?D _ fs rs] len gf by auto
  obtain fd' tbl2 where al: "allocate_fd ?c False ?sz (snd (close_fd fd ?tbl1)) = (fd', tbl2)"
      "get_fd fd' tbl2 = Some \<lparr>fd_cluster = ?c, fd_position = 0, fd_is_dir = False, fd_size = ?sz\<rparr>"
    by (rule reopen_fd [OF d(3,1,4), where nd = ?d1]) (rule that)
  obtain m2 where m2: "syscall_open (ahci_io bus g) name (snd (close_fd fd ?tbl1)) m1 = Some (fd', tbl2, m2)"
      "idle (dev m2)" "sectors (dev m2) = sectors (dev m1)"
    using ahci.syscall_open_found [OF inv1 vol1 _ va(2) found al(1)] gf ahci_keeps by blast
  have inv2: "ahci_contract bus g idle sectors cap dma \<and> idle (dev m2)" using c(1) m2(2) by blast
  have sum: "unat (?pos + buf_len) = ?n" using pos(2) by (simp add: unat_word_ariths)
  then have sz: "unat ?sz = ?n" using pos(2) by (simp add: unsigned_ucast_eq take_bit_nat_eq_self)
  let ?F = "file_bytes fs ?D (cs @ ns)"
  have fb: "file_bytes fs (sectors (dev m2)) (cs @ ns) = overwrite ?F (unat ?pos) ?bs" using gf m2(3) by simp
  have fit: "unat ?pos + length ?bs \<le> length ?F" using h len by (simp add: length_file_bytes)
  have vol2: "volume_at (\<lambda>l. l < cap) (sectors (dev m2)) fs" using vol1 m2(3) by simp
  let ?d2 = "\<lparr>fd_cluster = ?c, fd_position = 0, fd_is_dir = False, fd_size = ?sz\<rparr>"
  have nz: "0 < ?n" using buf(2) by (simp add: unat_gt_0)
  have r: "\<not> fd_is_dir ?d2" "file_chain fs (sectors (dev m2)) (fd_cluster ?d2) (cs @ ns)" "unat (fd_position ?d2) < unat (fd_size ?d2)"
    "unat (fd_size ?d2) \<le> length (file_bytes fs (sectors (dev m2)) (cs @ ns))" "?pos + buf_len \<noteq> 0"
    "?n = min (unat (?pos + buf_len)) (unat (fd_size ?d2) - unat (fd_position ?d2))"
    using gf m2(3) sum sz nz fit unfolding fb by auto
  have u2: "ahci.user_buffer g dma buf2 ?n" using buf2(2) pos(2) by (simp add: ahci.user_buffer_def)
  obtain m3 tbl3 where m3: "sys_read_file (ahci_io bus g) fd' buf2 (?pos + buf_len) tbl2 m2 = Some (of_nat ?n, tbl3, m3)"
      "ahci.delivered sectors g dma bus idle cap buf2 (take ?n (drop (unat (fd_position ?d2)) (file_bytes fs (sectors (dev m2)) (cs @ ns)))) m2 m3"
    using ahci.sys_read_file_spec [OF inv2 vol2 al(2) r(1,2) va(1) r(3,4) buf2(1) r(5) u2 r(6)] by blast
  have "take ?n (overwrite ?F (unat ?pos) ?bs) = take (unat ?pos) ?F @ ?bs"
    using fit by (simp add: overwrite_def)
  then have "rd_bytes (ram m3) buf2 ?n = take (unat ?pos) ?F @ ?bs"
    using m3(2) fit unfolding ahci.delivered_def fb by (simp add: min_absorb2)
  moreover have "of_nat ?n = ?pos + buf_len" by simp
  ultimately show ?thesis using m1(1) m2(1) m3(1) by auto
qed

lemma sample_other_entry: "j < 15 \<Longrightarrow> entry_cluster (dir_entry (sample_disk 3) (Suc j)) = 0"
  by (simp add: entry_cluster_def le16_def dir_entry_def nth_sample_sector sample_disk_def)

lemma sample_own_entry:
  assumes "e \<in> set (dir_entries sample_fs sample_disk [2])" "entry_cluster e = 3"
  shows "match_entry [0x61, 0x2E, 0x74, 0x78, 0x74] e \<noteq> None"
proof -
  obtain j where j: "j < 16" "e = dir_entry (sample_disk 3) j"
    using assms(1) by (auto simp: dir_entries_def sample_lbas simp del: upt_rec_numeral)
  with assms(2) sample_other_entry sample_name show ?thesis by (cases j) auto
qed

theorem append_reopen_read_witness:
  "\<exists>m1 tbl1 fd' m2 tbl2 m3 tbl3. sys_write_file (ahci_io sim_hw sim_globals) 3 0x100000 600 sample_table sample_machine = Some (600, False, tbl1, m1)
    \<and> syscall_open (ahci_io sim_hw sim_globals) [0x61, 0x2E, 0x74, 0x78, 0x74] (snd (close_fd 3 tbl1)) m1 = Some (fd', tbl2, m2)
    \<and> sys_read_file (ahci_io sim_hw sim_globals) fd' 0x200000 601 tbl2 m2 = Some (601, tbl3, m3)
    \<and> rd_bytes (ram m3) 0x200000 601 = 0x48 # replicate 600 0"
proof -
  have cap: "(2048 :: u64) < 2 ^ 48" and nz: "(0x100000 :: u64) \<noteq> 0" "(600 :: u64) \<noteq> 0" "(0x200000 :: u64) \<noteq> 0"
    and part: "part_lba sample_fs < cluster_begin_lba sample_fs" "\<forall>k\<in>set (last [3] # [4]). fat_sector sample_fs k \<notin> {0, part_lba sample_fs}"
    and len: "length sample_table = 256" "3 \<le> unat (3 :: u32)"
    by (simp_all add: sample_fs_def fat_sector_def get_fat_lba_def Let_def sample_table_def FD_TABLE_0_def)
  have d: "fd_cluster sample_open = 3" "\<not> fd_is_dir sample_open" "unat (fd_position sample_open) + unat (600 :: u64) = 601"
    "unat (fd_size sample_open) = 5" "unat (fd_position sample_open) = 1" "fd_position sample_open + 600 = 601"
    by (simp_all add: sample_open_def)
  have g: "growth (\<lambda>l. l < 2 ^ 48) sample_fs sample_disk (fd_cluster sample_open) [3] [4] [2]
      (unat (fd_position sample_open) + unat (600 :: u64))" unfolding d(1,3) by (rule sample_growth)
  have p: "unat (fd_size sample_open) < unat (fd_position sample_open) + unat (600 :: u64)"
    "unat (fd_position sample_open) + unat (600 :: u64) < 2 ^ 32" unfolding d(3,4) by simp_all
  have e: "dir_lookup (match_entry [0x61, 0x2E, 0x74, 0x78, 0x74]) (dir_entries sample_fs sample_disk [2]) = Some (fd_cluster sample_open, 5)"
    "\<forall>e\<in>set (dir_entries sample_fs sample_disk [2]). entry_in_use e \<longrightarrow> entry_cluster e = fd_cluster sample_open \<longrightarrow>
      match_entry [0x61, 0x2E, 0x74, 0x78, 0x74] e \<noteq> None"
    unfolding d(1) using sample_name sample_own_entry by (auto simp: sample_entries)
  have u2: "\<forall>i<unat (fd_position sample_open) + unat (600 :: u64). \<not> ahci_scratch sim_globals (\<lambda>x. False) (0x200000 + of_nat i)"
    unfolding d(3) using sample_scratch [of "0x200000" 601] by simp
  have b: "take 1 (file_bytes sample_fs sample_disk ([3] @ [4])) = [0x48]" "rd_bytes (ram sample_machine) 0x100000 (unat (600 :: u64)) = replicate 600 0"
  proof -
    have "file_bytes sample_fs sample_disk ([3] @ [4]) = sample_disk 4 @ cluster_bytes sample_fs sample_disk 4"
      by (simp add: file_bytes_def cluster_bytes_def sample_lbas)
    moreover have "take 1 (sample_disk 4) = [0x48]"
      unfolding sample_disk_def using slice_sample_sector [of 0 1] by (simp add: upt_eval)
    ultimately show "take 1 (file_bytes sample_fs sample_disk ([3] @ [4])) = [0x48]" by simp
    show "rd_bytes (ram sample_machine) 0x100000 (unat (600 :: u64)) = replicate 600 0"
      by (simp add: rd_bytes_def sample_machine_def map_replicate_const del: upt_rec_numeral replicate.simps)
  qed
  from append_reopen_read [OF sim_ahci_contract sample_idle, unfolded sample_sectors,
      OF sample_volume cap part sample_table_3 d(2) len g p e nz(1,2) sample_user600 nz(3) u2]
  show ?thesis unfolding d(3,5,6) b by (auto simp del: replicate.simps)
qed

end
