(* ===== verification/Files_Apart.thy ===== *)
theory Files_Apart imports File_Reopen begin

text \<open>
  The invariant of the volume as a whole: the chains of the root directory and of all files are apart, and every write to
  one of the files keeps it so, whatever the other files are.
\<close>

definition files_apart :: "(u64 \<Rightarrow> bool) \<Rightarrow> simple_fs \<Rightarrow> (u64 \<Rightarrow> u8 list) \<Rightarrow> u32 list \<Rightarrow> u32 list list \<Rightarrow> bool" where
  "files_apart valid fs D rs css \<longleftrightarrow> fat_ok valid fs \<and> rs \<noteq> [] \<and> cluster_chain fs D (root_cluster fs) rs
    \<and> (\<forall>cs\<in>set css. file_chain fs D (hd cs) cs) \<and> (\<forall>cs\<in>set (rs # css). fat_value fs D (last cs) \<noteq> 0)
    \<and> distinct (concat (rs # css)) \<and> data_layout fs (concat (rs # css)) \<and> chain_valid valid fs (concat (rs # css))"

lemma root_file_chain: "cluster_chain fs D c rs \<Longrightarrow> rs \<noteq> [] \<Longrightarrow> file_chain fs D c rs"
  by (cases rs) (auto simp: file_chain_def chain_Cons_iff)

lemma apart_nonzero: "files_apart valid fs D rs css \<Longrightarrow> k \<in> set (concat (rs # css)) \<Longrightarrow> fat_value fs D k \<noteq> 0"
proof -
  assume f: "files_apart valid fs D rs css" and "k \<in> set (concat (rs # css))"
  then obtain cs where cs: "cs \<in> set (rs # css)" "k \<in> set cs" by auto
  have "file_chain fs D (root_cluster fs) rs" using f by (simp add: files_apart_def root_file_chain)
  then have "\<exists>c. file_chain fs D c cs" using f cs(1) unfolding files_apart_def by auto
  moreover have "fat_value fs D (last cs) \<noteq> 0" using f cs(1) unfolding files_apart_def by blast
  ultimately show ?thesis using file_chain_nonzero [of fs D _ cs k] cs(2) by blast
qed

lemma apart_free:
  assumes f: "files_apart valid fs D rs css" and ns: "ns = take (length ns) (free_clusters fs D)"
  shows "set ns \<inter> set (concat (rs # css)) = {}" "distinct ns"
proof -
  have ok: "fat_ok valid fs" using f by (simp add: files_apart_def)
  show "set ns \<inter> set (concat (rs # css)) = {}" using free_take_props(3) [OF ok ns] apart_nonzero [OF f] by blast
  show "distinct ns" by (rule free_take_props(2) [OF ok ns])
qed

text \<open>The number of new clusters for a chain of \<open>k\<close> clusters of \<open>z\<close> bytes to reach byte \<open>e\<close>.\<close>

lemma clusters_needed:
  fixes e z k n :: nat
  assumes "0 < e" "e \<le> (k + free) * z" and n: "n = (e + z - 1) div z - k"
  shows "n \<le> free" "e \<le> (k + n) * z" "n \<noteq> 0 \<longrightarrow> (k + n - 1) * z < e"
proof -
  have z: "0 < z" using assms(1,2) by (cases z) auto
  define q where "q = (e + z - 1) div z"
  have dm: "q * z + (e + z - 1) mod z = e + z - 1" "(e + z - 1) mod z < z" using z by (simp_all add: q_def)
  have q: "e \<le> q * z" using dm z by linarith
  have q0: "0 < q" using q assms(1) by (cases q) auto
  then have "q * z = (q - 1) * z + z" by (cases q) simp_all
  then have less: "(q - 1) * z < e" using dm z by linarith
  have "e + z - 1 < (k + free + 1) * z" using assms(2) z by (simp add: add_mult_distrib)
  then have "q < k + free + 1" unfolding q_def by (rule less_mult_imp_div_less)
  then show "n \<le> free" using n by (simp add: q_def)
  have kn: "q \<le> k + n" "n \<noteq> 0 \<longrightarrow> k + n = q" using n by (simp_all add: q_def)
  show "e \<le> (k + n) * z" using q mult_le_mono1 [OF kn(1), of z] by linarith
  show "n \<noteq> 0 \<longrightarrow> (k + n - 1) * z < e" using less kn(2) by auto
qed

text \<open>The clusters a write takes, from the invariant.\<close>

lemma apart_growth:
  assumes f: "files_apart valid fs D rs (A @ cs # B)" and free: "chain_valid valid fs (free_clusters fs D)"
    and e: "0 < e" "e \<le> (length cs + length (free_clusters fs D)) * (spc fs * 512)"
  obtains ns where "growth valid fs D (hd cs) cs ns rs e"
proof -
  define ns where "ns = take ((e + spc fs * 512 - 1) div (spc fs * 512) - length cs) (free_clusters fs D)"
  note n = clusters_needed [OF e refl]
  have l: "length ns = (e + spc fs * 512 - 1) div (spc fs * 512) - length cs" using n(1) by (simp add: ns_def)
  have ns: "ns = take (length ns) (free_clusters fs D)" by (simp add: l) (simp add: ns_def)
  note fr = apart_free [OF f ns]
  have ok: "fat_ok valid fs" using f by (simp add: files_apart_def)
  have sub: "set ns \<subseteq> set (free_clusters fs D)" by (rule free_take_props(1) [OF ok ns])
  have "chain_valid valid fs ns" using free sub by (auto simp: chain_valid_def)
  moreover have "data_layout fs ns" by (rule fat_ok_layout [OF ok sub])
  moreover have "set (cs @ ns) \<inter> set rs = {}" using f fr(1) by (auto simp: files_apart_def)
  moreover have "ns \<noteq> [] \<longrightarrow> length ns \<noteq> 0" by simp
  ultimately have "growth valid fs D (hd cs) cs ns rs e"
    using f ns n(2,3) unfolding growth_def l [symmetric] length_append by (simp add: files_apart_def)
  then show thesis by (rule that)
qed

text \<open>What a write to the file \<open>cs\<close> must leave alone to keep the files apart.\<close>

lemma apart_kept:
  assumes f: "files_apart valid fs D rs (A @ cs # B)" and ns: "ns = take (length ns) (free_clusters fs D)" "chain_valid valid fs ns"
    and own: "file_chain fs D' (hd cs) (cs @ ns)" "fat_value fs D' (last (cs @ ns)) \<noteq> 0"
    and fat: "\<And>k. fat_sector fs k < cluster_begin_lba fs \<Longrightarrow> k \<notin> set (last cs # ns) \<Longrightarrow> fat_value fs D' k = fat_value fs D k"
    and other: "\<And>l. l \<notin> chain_lbas fs (cs @ ns @ rs) \<Longrightarrow> l \<notin> fat_sector fs ` set (last cs # ns) \<Longrightarrow> D' l = D l"
  shows "files_apart valid fs D' rs (A @ (cs @ ns) # B) \<and> (\<forall>f\<in>set (A @ B). file_bytes fs D' f = file_bytes fs D f)"
proof -
  let ?all = "concat (rs # A @ (cs @ ns) # B)"
  note fr = apart_free [OF f ns(1)]
  have ok: "fat_ok valid fs" using f by (simp add: files_apart_def)
  have lns: "data_layout fs ns" by (rule fat_ok_layout [OF ok free_take_props(1) [OF ok ns(1)]])
  have lay: "data_layout fs ?all" "chain_valid valid fs ?all" "distinct ?all"
    using f lns ns(2) fr by (auto simp: files_apart_def)
  have ne: "cs \<noteq> []" using f by (auto simp: files_apart_def file_chain_def)
  have apart: "k \<notin> set (last cs # ns)" if "k \<in> set xs" "xs \<in> set (rs # A @ B)" for k xs
    using that last_in_set [OF ne] lay(3) by auto
  have same: "fat_value fs D' k = fat_value fs D k" if "k \<in> set xs" "xs \<in> set (rs # A @ B)" for k xs
  proof (rule fat [OF _ apart [OF that]])
    have "k \<in> set ?all" using that by auto
    then show "fat_sector fs k < cluster_begin_lba fs" using lay(1) by (auto simp only: data_layout_def)
  qed
  have chains: "file_chain fs D' (hd xs) xs \<and> fat_value fs D' (last xs) \<noteq> 0" if x: "xs \<in> set (A @ B)" for xs
  proof -
    have h: "file_chain fs D (hd xs) xs" "fat_value fs D (last xs) \<noteq> 0" using f x by (auto simp: files_apart_def)
    then have "xs \<noteq> []" by (auto simp: file_chain_def)
    then show ?thesis using file_chain_fat_cong [OF h(1), of D'] same [of _ xs] x h(2) by simp
  qed
  have root: "cluster_chain fs D' (root_cluster fs) rs" "fat_value fs D' (last rs) \<noteq> 0"
    using f cluster_chain_fat_cong [of fs D _ rs D'] same [of _ rs] by (auto simp: files_apart_def)
  have "files_apart valid fs D' rs (A @ (cs @ ns) # B)"
    unfolding files_apart_def using ok f lay root own chains ne by (auto simp: files_apart_def)
  moreover have "file_bytes fs D' xs = file_bytes fs D xs" if x: "xs \<in> set (A @ B)" for xs
  proof (rule file_bytes_cong, rule other)
    fix l assume l: "l \<in> chain_lbas fs xs"
    have "chain_lbas fs xs \<inter> chain_lbas fs (cs @ ns @ rs) = {}"
      by (rule chain_lbas_apart [OF lay(1)]) (use x lay(3) in auto)
    then show "l \<notin> chain_lbas fs (cs @ ns @ rs)" using l by blast
    have lx: "data_layout fs xs" using x lay(1) by (auto simp: data_layout_def)
    show "l \<notin> fat_sector fs ` set (last cs # ns)"
    proof
      assume "l \<in> fat_sector fs ` set (last cs # ns)"
      then obtain k where k: "l = fat_sector fs k" "k \<in> set ?all" using last_in_set [OF ne] by auto
      then have "l < cluster_begin_lba fs" using lay(1) by (auto simp only: data_layout_def)
      then show False using low_outside [OF lx] l by blast
    qed
  qed
  ultimately show ?thesis by blast
qed

text \<open>Replacing bytes inside the clusters of a file keeps the files apart.\<close>

lemma apart_in_place:
  assumes f: "files_apart valid fs D rs (A @ cs # B)" and D': "\<And>l. l \<notin> chain_lbas fs cs \<Longrightarrow> D' l = D l"
  shows "files_apart valid fs D' rs (A @ cs # B) \<and> (\<forall>f\<in>set (A @ B). file_bytes fs D' f = file_bytes fs D f)"
proof -
  have fc: "file_chain fs D (hd cs) cs" and lay: "data_layout fs cs" using f by (simp_all add: files_apart_def)
  have ne: "cs \<noteq> []" using fc by (auto simp: file_chain_def)
  have fv: "fat_value fs D' k = fat_value fs D k" if "fat_sector fs k < cluster_begin_lba fs" for k
    using D' low_outside [OF lay that] by (simp add: fat_value_def)
  have in_cs: "fat_sector fs k < cluster_begin_lba fs" if "k \<in> set cs" for k using lay that by (auto simp: data_layout_def)
  have "files_apart valid fs D' rs (A @ (cs @ []) # B) \<and> (\<forall>f\<in>set (A @ B). file_bytes fs D' f = file_bytes fs D f)"
  proof (rule apart_kept [OF f])
    show "file_chain fs D' (hd cs) (cs @ [])" using file_chain_fat_cong [OF fc, of D'] fv in_cs by simp
    show "fat_value fs D' (last (cs @ [])) \<noteq> 0"
      using f fv [OF in_cs [OF last_in_set [OF ne]]] by (simp add: files_apart_def)
    show "D' l = D l" if "l \<notin> chain_lbas fs (cs @ [] @ rs)" for l using D' that by (auto simp: chain_lbas_def)
  qed (use fv in auto)
  then show ?thesis by simp
qed

section \<open>Every write\<close>

text \<open>The descriptor after a write of \<open>n\<close> bytes.\<close>

definition fd_written :: "file_descriptor \<Rightarrow> u64 \<Rightarrow> file_descriptor" where
  "fd_written d n = d\<lparr>fd_position := fd_position d + n,
     fd_size := (if unat (fd_size d) < unat (fd_position d + n) then ucast (fd_position d + n) else fd_size d)\<rparr>"

context block_device begin

text \<open>The end of the call, from the clusters' contents.\<close>

lemma write_finish_apart:
  assumes inv: "inv m" and v: "valid 2048" and len: "\<And>l. length (D l) = 512"
    and f: "files_apart valid fs D rs (A @ cs # B)" and tk: "ns = take (length ns) (free_clusters fs D)" "chain_valid valid fs ns"
    and d: "get_fd fd tbl = Some d" "fd_cluster d = hd cs"
    and w: "rewritten fs (cs @ ns) (unat (fd_position d)) bs (link_clusters fs (last cs) ns D) (disk m)"
    and small: "unat (fd_position d) + length bs < 2 ^ 32" and new: "ns \<noteq> [] \<longrightarrow> unat (fd_size d) < unat (fd_position d) + length bs"
  shows "\<exists>m'. write_finish io fs fd (length bs) tbl m = Some (set_fd fd (fd_written d (of_nat (length bs))) tbl, m') \<and> inv m'
    \<and> files_apart valid fs (disk m') rs (A @ (cs @ ns) # B)
    \<and> file_bytes fs (disk m') (cs @ ns) = overwrite (file_bytes fs D (cs @ ns)) (unat (fd_position d)) bs
    \<and> (\<forall>f\<in>set (A @ B). file_bytes fs (disk m') f = file_bytes fs D f) \<and> (\<forall>x. \<not> scratch x \<longrightarrow> ram m' x = ram m x)"
proof -
  let ?pos = "fd_position d" and ?n = "of_nat (length bs) :: u64"
  have ok: "fat_ok valid fs" and chain: "file_chain fs D (hd cs) cs" "fat_value fs D (last cs) \<noteq> 0"
    and root: "cluster_chain fs D (root_cluster fs) rs" "chain_valid valid fs rs" "data_layout fs rs"
    using f by (simp_all add: files_apart_def)
  have ne: "cs \<noteq> []" using chain(1) by (auto simp: file_chain_def)
  have lay: "data_layout fs (cs @ ns @ rs)"
    using f fat_ok_layout [OF ok free_take_props(1) [OF ok tk(1)]] by (simp add: files_apart_def)
  have dist: "set (cs @ ns) \<inter> set rs = {}" using f apart_free [OF f tk(1)] by (auto simp: files_apart_def)
  have e: "unat (?pos + ?n) = unat ?pos + length bs" using small by (simp add: unat_word_ariths)
  show ?thesis
  proof (cases "unat (fd_size d) < unat ?pos + length bs")
    case True
    then have grow: "ucast (fd_size d) < ?pos + of_nat (length bs)" using e by (simp add: word_less_nat_alt)
    note root3 = rewritten_root [OF len ne lay dist root(1) w]
    obtain m' where m': "write_finish io fs fd (length bs) tbl m = Some (set_fd fd (d\<lparr>fd_position := ?pos + ?n,
          fd_size := ucast (?pos + ?n)\<rparr>) tbl, m')" "inv m'"
        "dir_entries fs (disk m') rs = set_entry_size (hd cs) (ucast (?pos + ?n)) (dir_entries fs (disk m) rs)"
        "\<forall>l. l \<notin> chain_lbas fs rs \<longrightarrow> disk m' l = disk m l" "\<forall>x. \<not> scratch x \<longrightarrow> ram m' x = ram m x"
      using write_finish_grow [OF inv v d(1) grow root3 root(2,3)] d(2) by auto
    note h = grown_fileI [OF len chain ok tk(1) lay dist root(1) w m'(3,4), unfolded grown_file_def]
    have k: "files_apart valid fs (disk m') rs (A @ (cs @ ns) # B) \<and> (\<forall>f\<in>set (A @ B). file_bytes fs (disk m') f = file_bytes fs D f)"
      by (rule apart_kept [OF f tk]) (use h in auto)
    have "fd_written d ?n = d\<lparr>fd_position := ?pos + ?n, fd_size := ucast (?pos + ?n)\<rparr>"
      using True e by (simp add: fd_written_def)
    then show ?thesis using m'(1,2,5) h k by (intro exI [of _ m']) simp
  next
    case False
    then have ns: "ns = []" using new by auto
    have k0: "?pos + of_nat (length bs) \<le> ucast (fd_size d)" using False e by (simp add: word_le_nat_alt)
    obtain m' where m': "write_finish io fs fd (length bs) tbl m = Some (set_fd fd (d\<lparr>fd_position := ?pos + ?n\<rparr>) tbl, m')" "keeps m m'"
      using write_finish_spec [OF inv v d(1) k0] by blast
    have D': "disk m' = disk m" using m'(2) by (rule keepsD(2))
    have k: "files_apart valid fs (disk m') rs (A @ cs # B) \<and> (\<forall>f\<in>set (A @ B). file_bytes fs (disk m') f = file_bytes fs D f)"
      by (rule apart_in_place [OF f]) (use w ns D' in \<open>simp add: rewritten_def\<close>)
    have "fd_written d ?n = d\<lparr>fd_position := ?pos + ?n\<rparr>"
      using False e by (simp add: fd_written_def)
    then show ?thesis using m' k w ns D' by (intro exI [of _ m']) (simp add: rewritten_def keeps_def)
  qed
qed

lemma sys_write_file_apart:
  assumes inv: "inv m" and vol: "volume_at valid (disk m) fs" "valid 2048"
    and d: "get_fd fd tbl = Some d" "\<not> fd_is_dir d" "fd_cluster d = hd cs" "unat (fd_size d) \<le> length cs * (spc fs * 512)"
    and f: "files_apart valid fs (disk m) rs (A @ cs # B)"
    and space: "chain_valid valid fs (free_clusters fs (disk m))"
      "unat (fd_position d) + unat buf_len \<le> (length cs + length (free_clusters fs (disk m))) * (spc fs * 512)"
      "unat (fd_position d) + unat buf_len < 2 ^ 32"
    and buf: "buf \<noteq> 0" "buf_len \<noteq> 0" "user_buffer buf (unat buf_len)"
  shows "\<exists>ns m'. sys_write_file io fd buf buf_len tbl m = Some (buf_len, False, set_fd fd (fd_written d buf_len) tbl, m') \<and> inv m'
    \<and> files_apart valid fs (disk m') rs (A @ (cs @ ns) # B)
    \<and> unat (fd_size (fd_written d buf_len)) \<le> length (cs @ ns) * (spc fs * 512)
    \<and> file_bytes fs (disk m') (cs @ ns)
        = overwrite (file_bytes fs (disk m) (cs @ ns)) (unat (fd_position d)) (rd_bytes (ram m) buf (unat buf_len))
    \<and> (\<forall>f\<in>set (A @ B). file_bytes fs (disk m') f = file_bytes fs (disk m) f)
    \<and> (\<forall>x. \<not> scratch x \<longrightarrow> ram m' x = ram m x)"
proof -
  let ?D = "disk m" and ?pos = "fd_position d" and ?e = "unat (fd_position d) + unat buf_len"
  have len: "length (?D l) = 512" for l using inv by (rule sector_length)
  have e0: "0 < ?e" using buf(2) by (simp add: unat_gt_0)
  have e: "unat (?pos + buf_len) = ?e" using space(3) by (simp add: unat_word_ariths)
  have sz: "unat (ucast (?pos + buf_len) :: u32) = ?e" using space(3) e by (simp add: unsigned_ucast_eq take_bit_nat_eq_self)
  let ?bs = "rd_bytes (ram m) buf (unat buf_len)"
  obtain ns where g: "growth valid fs ?D (fd_cluster d) cs ns rs ?e"
    by (rule apart_growth [OF f space(1) e0 space(2)]) (simp add: d(3) that)
  note gr = g [unfolded growth_def]
  obtain m1 where m1: "fs_init io m = Some (Some fs, m1)" "keeps m m1"
    by (rule fs_init_volume [OF inv vol(1)])
  have i1: "inv m1" "disk m1 = ?D" "\<forall>x. \<not> scratch x \<longrightarrow> ram m1 x = ram m x" using m1(2) by (auto simp: keeps_def)
  have u: "user_buffer buf (length ?bs)" using buf(3) by simp
  have b1: "rd_bytes (ram m1) buf (length ?bs) = ?bs" using buffer_later [OF u, of m1 m] i1(3) by simp
  have bne: "?bs \<noteq> []" using buf(2) by (metis length_rd_bytes list.size(3) unat_eq_zero)
  have small: "unat ?pos < 2 ^ 63" "unat ?pos + length ?bs < 2 ^ 32" using space(3) by simp_all
  obtain x start m2 m3 where w: "skip_clusters (next_or_alloc io fs) (cluster_size fs) ?pos (fd_cluster d) 0 m1 = Some (True, x, start, m2)"
      "write_loop io fs x buf (length ?bs) 0 (?pos - start) m2 = Some (0 + length ?bs, m3)" "inv m3"
      "rewritten fs (cs @ ns) (unat ?pos) ?bs (link_clusters fs (last cs) ns ?D) (disk m3)"
      "\<forall>x. \<not> scratch x \<longrightarrow> ram m3 x = ram m1 x"
    using write_clusters_grow [OF i1(1), unfolded i1(2), of fs "fd_cluster d" cs ns buf ?bs ?pos 0] gr u b1 bne small(1) by auto
  have tk: "ns = take (length ns) (free_clusters fs ?D)" "chain_valid valid fs ns" using gr by auto
  have new: "ns \<noteq> [] \<longrightarrow> unat (fd_size d) < unat ?pos + length ?bs"
  proof
    assume "ns \<noteq> []"
    then have "length cs \<le> length (cs @ ns) - 1" by (cases ns) simp_all
    then have "length cs * (spc fs * 512) \<le> (length (cs @ ns) - 1) * (spc fs * 512)" by (rule mult_le_mono1)
    moreover have "(length (cs @ ns) - 1) * (spc fs * 512) < ?e" using gr \<open>ns \<noteq> []\<close> by blast
    ultimately show "unat (fd_size d) < unat ?pos + length ?bs" using d(4) unfolding length_rd_bytes by linarith
  qed
  obtain m4 where m4: "write_finish io fs fd (length ?bs) tbl m3 = Some (set_fd fd (fd_written d (of_nat (length ?bs))) tbl, m4)" "inv m4"
      "files_apart valid fs (disk m4) rs (A @ (cs @ ns) # B)"
      "file_bytes fs (disk m4) (cs @ ns) = overwrite (file_bytes fs ?D (cs @ ns)) (unat ?pos) ?bs"
      "\<forall>f\<in>set (A @ B). file_bytes fs (disk m4) f = file_bytes fs ?D f" "\<forall>x. \<not> scratch x \<longrightarrow> ram m4 x = ram m3 x"
    using write_finish_apart [OF w(3) vol(2) len f tk d(1,3) w(4) small(2) new] by blast
  have "sys_write_file io fd buf buf_len tbl m = Some (buf_len, False, set_fd fd (fd_written d buf_len) tbl, m4)"
    using buf(1,2) d(1,2) m1(1) w(1,2) m4(1) by (simp add: sys_write_file_def)
  moreover have "unat (fd_size (fd_written d buf_len)) \<le> length (cs @ ns) * (spc fs * 512)"
  proof -
    have "length cs * (spc fs * 512) \<le> length (cs @ ns) * (spc fs * 512)" by (rule mult_le_mono1) simp
    then have "unat (fd_size d) \<le> length (cs @ ns) * (spc fs * 512)" using d(4) by (rule order_trans [rotated])
    moreover have "unat (ucast (?pos + buf_len) :: u32) \<le> length (cs @ ns) * (spc fs * 512)" unfolding sz using gr by blast
    ultimately show ?thesis by (simp add: fd_written_def)
  qed
  ultimately show ?thesis using m4(2-6) w(5) i1(3) by (intro exI [of _ ns] exI [of _ m4]) simp
qed

end

text \<open>
  C2. No write mixes files up: when the root directory and the files of a volume have chains that are apart, and the FAT
  has enough free clusters, a write of any length at any position of any of the files, inside it or past its end, returns
  the length; afterwards the chains are apart again, the written file's one with the clusters it took, that file holds the
  bytes, every other file holds what it held, and the descriptor's size still lies inside the chain, so that the next
  write finds what this one needs.
\<close>

theorem writes_keep_files_apart:
  assumes "ahci_contract bus g idle sectors cap dma" "idle (dev m)"
    and "volume_at (\<lambda>l. l < cap) (sectors (dev m)) fs" "2048 < cap"
    and "get_fd fd tbl = Some d" "\<not> fd_is_dir d" "fd_cluster d = hd cs" "unat (fd_size d) \<le> length cs * (spc fs * 512)"
    and "files_apart (\<lambda>l. l < cap) fs (sectors (dev m)) rs (A @ cs # B)"
    and "chain_valid (\<lambda>l. l < cap) fs (free_clusters fs (sectors (dev m)))"
      "unat (fd_position d) + unat buf_len \<le> (length cs + length (free_clusters fs (sectors (dev m)))) * (spc fs * 512)"
      "unat (fd_position d) + unat buf_len < 2 ^ 32"
    and "buf \<noteq> 0" "buf_len \<noteq> 0" "\<forall>i<unat buf_len. \<not> ahci_scratch g dma (buf + of_nat i)"
  shows "\<exists>ns m'. sys_write_file (ahci_io bus g) fd buf buf_len tbl m = Some (buf_len, False, set_fd fd (fd_written d buf_len) tbl, m')
    \<and> idle (dev m')
    \<and> files_apart (\<lambda>l. l < cap) fs (sectors (dev m')) rs (A @ (cs @ ns) # B)
    \<and> unat (fd_size (fd_written d buf_len)) \<le> length (cs @ ns) * (spc fs * 512)
    \<and> file_bytes fs (sectors (dev m')) (cs @ ns)
        = overwrite (file_bytes fs (sectors (dev m)) (cs @ ns)) (unat (fd_position d)) (rd_bytes (ram m) buf (unat buf_len))
    \<and> (\<forall>f\<in>set (A @ B). file_bytes fs (sectors (dev m')) f = file_bytes fs (sectors (dev m)) f)"
proof -
  have inv: "ahci_contract bus g idle sectors cap dma \<and> idle (dev m)" using assms(1,2) by blast
  have u: "ahci.user_buffer g dma buf (unat buf_len)" using assms(15) by (simp add: ahci.user_buffer_def)
  from ahci.sys_write_file_apart [OF inv assms(3-14) u] show ?thesis by blast
qed

lemma sample_fat_ok: "fat_ok (\<lambda>l. l < 2 ^ 48) sample_fs"
  by (simp add: fat_ok_def sample_fs_def get_fat_lba_def)

lemma sample_free_valid: "chain_valid (\<lambda>l. l < 2 ^ 48) sample_fs (free_clusters sample_fs sample_disk)"
  unfolding chain_valid_def
proof
  fix c assume "c \<in> set (free_clusters sample_fs sample_disk)"
  then have c: "2 \<le> c" "unat c < 128" using free_clustersD(1) [of sample_fs] by (auto simp: sample_fs_def)
  have "fat_sector sample_fs c = 2" using c(2) by (simp add: fat_sector_eq get_fat_lba_def sample_fs_def)
  moreover have "l < 2 ^ 48" if "l \<in> set (cluster_lbas sample_fs c)" for l
  proof -
    have "l = 3 + (ucast c - 2)" using that by (simp add: cluster_lbas_def get_lba_of_cluster_def sample_fs_def)
    then have "l = 1 + of_nat (unat c)" by simp
    then have "unat l \<le> 1 + unat c" by (simp add: unat_word_ariths)
    then show ?thesis using c(2) by (simp add: word_less_nat_alt)
  qed
  ultimately show "fat_sector sample_fs c < 2 ^ 48 \<and> (\<forall>l\<in>set (cluster_lbas sample_fs c). l < 2 ^ 48)" by simp
qed

lemma sample_apart: "files_apart (\<lambda>l. l < 2 ^ 48) sample_fs sample_disk [2] ([] @ [3] # [])"
proof -
  have "data_layout sample_fs [2]" "data_layout sample_fs [3]" "chain_valid (\<lambda>l. l < 2 ^ 48) sample_fs [2]"
    "chain_valid (\<lambda>l. l < 2 ^ 48) sample_fs [3]"
    using sample_growth by (simp_all add: growth_def data_layout_def)
  then show ?thesis
    using sample_fat_ok sample_chain [of 2] sample_file_chain sample_fat
    by (simp add: files_apart_def data_layout_def) (simp add: sample_fs_def)
qed

theorem writes_keep_files_apart_witness:
  "\<exists>ns m' tbl'. sys_write_file (ahci_io sim_hw sim_globals) 3 0x100000 600 sample_table sample_machine = Some (600, False, tbl', m')
    \<and> files_apart (\<lambda>l. l < 2 ^ 48) sample_fs (sim_sectors (dev m')) [2] [[3] @ ns]"
proof -
  have cap: "(2048 :: u64) < 2 ^ 48" and nz: "(0x100000 :: u64) \<noteq> 0" "(600 :: u64) \<noteq> 0" by simp_all
  have d: "fd_cluster sample_open = hd [3]" "\<not> fd_is_dir sample_open" "unat (fd_position sample_open) + unat (600 :: u64) = 601"
    "unat (fd_size sample_open) = 5" "spc sample_fs = 1" by (simp_all add: sample_open_def sample_fs_def spc_def)
  obtain x xs where "free_clusters sample_fs sample_disk = x # xs"
    using sample_free_clusters by (cases "free_clusters sample_fs sample_disk") auto
  then have p: "unat (fd_size sample_open) \<le> length [3 :: u32] * (spc sample_fs * 512)"
    "unat (fd_position sample_open) + unat (600 :: u64) \<le> (length [3 :: u32] + length (free_clusters sample_fs sample_disk)) * (spc sample_fs * 512)"
    "unat (fd_position sample_open) + unat (600 :: u64) < 2 ^ 32" unfolding d by simp_all
  from writes_keep_files_apart [OF sim_ahci_contract sample_idle, unfolded sample_sectors,
      OF sample_volume cap sample_table_3 d(2,1) p(1) sample_apart sample_free_valid p(2,3) nz sample_user600]
  show ?thesis by auto
qed

end
