(* ===== verification/Disk_Full.thy ===== *)
theory Disk_Full imports Files_Apart begin

text \<open>
  Writing when the disk runs full: the loop takes every free cluster there is, fills the last one, finds no more, and
  \<open>sys_write_file\<close> returns how far it came. The part that is written is written as by a write of that length.
\<close>

lemma file_chain_end: "file_chain fs D c cs \<Longrightarrow> \<not> live_cluster (fat_value fs D (last cs))"
proof -
  have fin: "cluster_chain fs D x xs \<Longrightarrow> xs \<noteq> [] \<Longrightarrow> \<not> live_cluster (fat_value fs D (last xs))" for x xs
  proof (induction rule: cluster_chain.induct)
    case (chain_step c cs)
    then show ?case by (cases "cs = []") (auto simp: chain_Nil_iff)
  qed simp
  assume "file_chain fs D c cs"
  then obtain rest where r: "cs = c # rest" "cluster_chain fs D (fat_value fs D c) rest" by (auto simp: file_chain_def)
  then show ?thesis using fin [OF r(2)] by (cases "rest = []") (auto simp: chain_Nil_iff)
qed

context block_device begin

lemma next_or_alloc_full:
  assumes inv: "inv m" and ok: "fat_ok valid fs" and c: "valid (fat_sector fs c)" "\<not> live_cluster (fat_value fs (disk m) c)"
    and full: "free_clusters fs (disk m) = []"
  obtains m' where "next_or_alloc io fs c m = Some (None, m')" "keeps m m'"
proof -
  have v: "\<forall>s<unat (fat_sz32 fs). valid (get_fat_lba fs + of_nat s)" "unat (fat_sz32 fs) * 128 \<le> 2 ^ 32"
    using ok by (simp_all add: fat_ok_def)
  have none: "map_option of_nat (first_free fs (disk m) (unat (fat_sz32 fs))) = (None :: u32 option)"
    using first_free_clusters [of fs "disk m"] full by simp
  obtain m1 where m1: "next_cluster io fs c m = Some (None, m1)" "keeps m m1"
    using next_clusterE [OF inv c(1)] c(2) by auto
  have i1: "inv m1" "disk m1 = disk m" using m1(2) by (auto dest: keepsD)
  obtain m2 where m2: "alloc_cluster io fs m1 = Some (None, m2)" "keeps m1 m2"
    using alloc_cluster_spec [OF i1(1) v] unfolding i1(2) none by blast
  have "next_or_alloc io fs c m = Some (None, m2)"
    using m1(1) m2(1) by (simp add: next_or_alloc_def write_next_cluster_def)
  then show thesis using keeps_trans [OF m1(2) m2(2)] by (rule that)
qed

text \<open>Both loops: all free clusters, all bytes that fit.\<close>

lemma write_clusters_full:
  assumes inv: "inv m" and f: "files_apart valid fs (disk m) rs (A @ cs # B)"
    and ns: "ns = free_clusters fs (disk m)" "chain_valid valid fs ns"
    and buf: "user_buffer src (length bs)" "rd_bytes (ram m) src (length bs) = bs" "bs \<noteq> []"
    and small: "unat pos < 2 ^ 63" and exact: "unat pos + length bs = length (cs @ ns) * (spc fs * 512)"
  shows "\<exists>x start m1 m2. skip_clusters (next_or_alloc io fs) (cluster_size fs) pos (hd cs) 0 m = Some (True, x, start, m1)
    \<and> write_loop io fs x src (length bs + k) 0 (pos - start) m1 = Some (length bs, m2) \<and> inv m2
    \<and> rewritten fs (cs @ ns) (unat pos) bs (link_clusters fs (last cs) ns (disk m)) (disk m2)
    \<and> (\<forall>x. \<not> scratch x \<longrightarrow> ram m2 x = ram m x)"
proof -
  let ?D = "disk m" and ?E = "link_clusters fs (last cs) ns (disk m)"
  have len: "length (?D l) = 512" for l using inv by (rule sector_length)
  have ok: "fat_ok valid fs" and chain: "file_chain fs ?D (hd cs) cs" "fat_value fs ?D (last cs) \<noteq> 0"
    and va: "chain_valid valid fs (cs @ ns)" using f ns(2) by (simp_all add: files_apart_def)
  have tk: "ns = take (length ns) (free_clusters fs ?D)" using ns(1) by simp
  have lay: "data_layout fs (cs @ ns)"
    using f fat_ok_layout [OF ok free_take_props(1) [OF ok tk]] by (simp add: files_apart_def)
  have ne: "cs \<noteq> []" using chain(1) by (auto simp: file_chain_def)
  have l0: "0 < length bs" using buf(3) by simp
  then have z: "0 < spc fs * 512" using exact by (cases "spc fs") auto
  have need: "ns \<noteq> [] \<longrightarrow> (length (cs @ ns) - 1) * (spc fs * 512) < unat pos + length bs"
    unfolding exact using z ne by simp
  obtain x start m1 m2 where w: "skip_clusters (next_or_alloc io fs) (cluster_size fs) pos (hd cs) 0 m = Some (True, x, start, m1)"
      "write_loop io fs x src (length bs + k) 0 (pos - start) m1
        = write_on io fs (last (cs @ ns)) (src + of_nat (length bs)) k (length bs) m2" "inv m2"
      "rewritten fs (cs @ ns) (unat pos) bs ?E (disk m2)" "\<forall>x. \<not> scratch x \<longrightarrow> ram m2 x = ram m x"
    using write_clusters_grow_on [OF inv ok chain tk va lay buf small _ need, of k 0] exact by auto
  have low: "disk m2 l = ?E l" if "l < cluster_begin_lba fs" for l
    using w(4) low_outside [OF lay that] by (simp add: rewritten_def)
  have fv: "fat_value fs (disk m2) k = fat_value fs ?E k" if "fat_sector fs k < cluster_begin_lba fs" for k
    using low [OF that] by (simp add: fat_value_def)
  have small_fat: "unat (fat_sz32 fs) * 128 \<le> 0x0FFFFFF8" using ok by (simp add: fat_ok_def)
  have "free_clusters fs (disk m2) = free_clusters fs ?E"
    by (rule free_clusters_cong [OF small_fat fv]) (rule fat_ok_sector(2) [OF ok])
  also have "\<dots> = []" using link_free [OF ok len tk chain(2)] ns(1) by simp
  finally have full: "free_clusters fs (disk m2) = []" .
  have dn: "distinct (cs @ ns)"
    using file_chain_distinct [OF chain(1)] free_take_props(2,3) [OF ok tk] file_chain_nonzero [OF chain] by auto
  have "file_chain fs ?E (hd cs) (cs @ ns)"
    by (rule link_file_chain [OF len chain(1) dn]) (use free_small [OF ok] ns(1) in blast)
  from file_chain_end [OF this] have "\<not> live_cluster (fat_value fs ?E (last (cs @ ns)))" .
  moreover have lc: "last (cs @ ns) \<in> set (cs @ ns)" using ne by (intro last_in_set) simp
  moreover have "fat_sector fs (last (cs @ ns)) < cluster_begin_lba fs" using lay lc by (auto simp only: data_layout_def)
  ultimately have fin: "\<not> live_cluster (fat_value fs (disk m2) (last (cs @ ns)))" using fv by simp
  have vl: "valid (fat_sector fs (last (cs @ ns)))" using va lc by (auto simp only: chain_valid_def)
  obtain m3 where m3: "next_or_alloc io fs (last (cs @ ns)) m2 = Some (None, m3)" "keeps m2 m3"
    by (rule next_or_alloc_full [OF w(3) ok vl fin full])
  have "write_on io fs (last (cs @ ns)) (src + of_nat (length bs)) k (length bs) m2
      = Some (length bs, if k = 0 then m2 else m3)" using m3(1) by (simp add: write_on_def)
  moreover have "keeps m2 (if k = 0 then m2 else m3)" using m3(2) w(3) by (simp add: keeps_refl)
  ultimately show ?thesis using w
    by (intro exI [of _ x] exI [of _ start] exI [of _ m1] exI [of _ "if k = 0 then m2 else m3"]) (auto simp: keeps_def)
qed

lemma sys_write_file_full:
  assumes inv: "inv m" and vol: "volume_at valid (disk m) fs" "valid 2048"
    and d: "get_fd fd tbl = Some d" "\<not> fd_is_dir d" "fd_cluster d = hd cs" "unat (fd_size d) \<le> length cs * (spc fs * 512)"
    and f: "files_apart valid fs (disk m) rs (A @ cs # B)" and free: "chain_valid valid fs (free_clusters fs (disk m))"
    and n: "unat (fd_position d) + n = (length cs + length (free_clusters fs (disk m))) * (spc fs * 512)" "0 < n" "n < unat buf_len"
      "unat (fd_position d) + n < 2 ^ 32"
    and buf: "buf \<noteq> 0" "user_buffer buf (unat buf_len)"
  shows "\<exists>m'. sys_write_file io fd buf buf_len tbl m = Some (of_nat n, False, set_fd fd (fd_written d (of_nat n)) tbl, m') \<and> inv m'
    \<and> files_apart valid fs (disk m') rs (A @ (cs @ free_clusters fs (disk m)) # B)
    \<and> file_bytes fs (disk m') (cs @ free_clusters fs (disk m))
        = overwrite (file_bytes fs (disk m) (cs @ free_clusters fs (disk m))) (unat (fd_position d)) (rd_bytes (ram m) buf n)
    \<and> (\<forall>f\<in>set (A @ B). file_bytes fs (disk m') f = file_bytes fs (disk m) f)
    \<and> (\<forall>x. \<not> scratch x \<longrightarrow> ram m' x = ram m x)"
proof -
  let ?D = "disk m" and ?ns = "free_clusters fs (disk m)" and ?bs = "rd_bytes (ram m) buf n" and ?pos = "fd_position d"
  have len: "length (?D l) = 512" for l using inv by (rule sector_length)
  obtain m1 where m1: "fs_init io m = Some (Some fs, m1)" "keeps m m1"
    by (rule fs_init_volume [OF inv vol(1)])
  have i1: "inv m1" "disk m1 = ?D" "\<forall>x. \<not> scratch x \<longrightarrow> ram m1 x = ram m x" using m1(2) by (auto simp: keeps_def)
  have u: "user_buffer buf (length ?bs)" using buf(2) n(3,4) by (auto simp: user_buffer_def)
  have b1: "rd_bytes (ram m1) buf (length ?bs) = ?bs" using buffer_later [OF u, of m1 m] i1(3) by simp
  have bne: "?bs \<noteq> []" using n(2) by (metis length_rd_bytes less_nat_zero_code list.size(3))
  have small: "unat ?pos < 2 ^ 63" "unat ?pos + length ?bs < 2 ^ 32" using n(4) by simp_all
  have ex: "unat ?pos + length ?bs = length (cs @ ?ns) * (spc fs * 512)" using n(1) by simp
  have lb: "unat buf_len = length ?bs + (unat buf_len - n)" using n(3) by simp
  obtain x start m2 m3 where w: "skip_clusters (next_or_alloc io fs) (cluster_size fs) ?pos (hd cs) 0 m1 = Some (True, x, start, m2)"
      "write_loop io fs x buf (unat buf_len) 0 (?pos - start) m2 = Some (length ?bs, m3)" "inv m3"
      "rewritten fs (cs @ ?ns) (unat ?pos) ?bs (link_clusters fs (last cs) ?ns ?D) (disk m3)"
      "\<forall>x. \<not> scratch x \<longrightarrow> ram m3 x = ram m1 x"
    using write_clusters_full [OF i1(1), unfolded i1(2), OF f refl free u b1 bne small(1) ex, of "unat buf_len - n"]
    unfolding lb [symmetric] by blast
  have tk: "?ns = take (length ?ns) ?ns" by simp
  have z: "0 < spc fs * 512" using n(1,2) by (cases "spc fs") auto
  have new: "?ns \<noteq> [] \<longrightarrow> unat (fd_size d) < unat ?pos + length ?bs"
  proof
    assume "?ns \<noteq> []"
    then have "length cs * (spc fs * 512) < length (cs @ ?ns) * (spc fs * 512)" using z by simp
    then show "unat (fd_size d) < unat ?pos + length ?bs" using d(4) unfolding ex by linarith
  qed
  obtain m4 where m4: "write_finish io fs fd (length ?bs) tbl m3 = Some (set_fd fd (fd_written d (of_nat (length ?bs))) tbl, m4)" "inv m4"
      "files_apart valid fs (disk m4) rs (A @ (cs @ ?ns) # B)"
      "file_bytes fs (disk m4) (cs @ ?ns) = overwrite (file_bytes fs ?D (cs @ ?ns)) (unat ?pos) ?bs"
      "\<forall>f\<in>set (A @ B). file_bytes fs (disk m4) f = file_bytes fs ?D f" "\<forall>x. \<not> scratch x \<longrightarrow> ram m4 x = ram m3 x"
    using write_finish_apart [OF w(3) vol(2) len f tk free d(1,3) w(4) small(2) new] by blast
  have "buf_len \<noteq> 0" using n(3) by auto
  then have "sys_write_file io fd buf buf_len tbl m = Some (of_nat n, False, set_fd fd (fd_written d (of_nat n)) tbl, m4)"
    using buf(1) d(1-3) m1(1) w(1,2) m4(1) by (simp add: sys_write_file_def)
  then show ?thesis using m4(2-6) w(5) i1(3) by auto
qed

end

section \<open>The property\<close>

text \<open>
  C3. A full disk: when a write asks for more than the file's clusters and all free clusters together hold, and starts
  before their end, \<open>sys_write_file\<close> writes the \<open>n\<close> bytes that fit and returns \<open>n\<close>, less than it was asked for; the file has
  taken every free cluster, position and size of the descriptor are after the bytes written, the chains of the volume are
  apart and every other file holds what it held.
\<close>

theorem write_on_full_disk:
  assumes "ahci_contract bus g idle sectors cap dma" "idle (dev m)"
    and "volume_at (\<lambda>l. l < cap) (sectors (dev m)) fs" "2048 < cap"
    and "get_fd fd tbl = Some d" "\<not> fd_is_dir d" "fd_cluster d = hd cs" "unat (fd_size d) \<le> length cs * (spc fs * 512)"
    and "files_apart (\<lambda>l. l < cap) fs (sectors (dev m)) rs (A @ cs # B)"
    and "chain_valid (\<lambda>l. l < cap) fs (free_clusters fs (sectors (dev m)))"
    and "unat (fd_position d) + n = (length cs + length (free_clusters fs (sectors (dev m)))) * (spc fs * 512)"
      "0 < n" "n < unat buf_len" "unat (fd_position d) + n < 2 ^ 32"
    and "buf \<noteq> 0" "\<forall>i<unat buf_len. \<not> ahci_scratch g dma (buf + of_nat i)"
  shows "\<exists>m'. sys_write_file (ahci_io bus g) fd buf buf_len tbl m
        = Some (of_nat n, False, set_fd fd (fd_written d (of_nat n)) tbl, m') \<and> idle (dev m')
    \<and> files_apart (\<lambda>l. l < cap) fs (sectors (dev m')) rs (A @ (cs @ free_clusters fs (sectors (dev m))) # B)
    \<and> file_bytes fs (sectors (dev m')) (cs @ free_clusters fs (sectors (dev m)))
        = overwrite (file_bytes fs (sectors (dev m)) (cs @ free_clusters fs (sectors (dev m)))) (unat (fd_position d))
            (rd_bytes (ram m) buf n)
    \<and> (\<forall>f\<in>set (A @ B). file_bytes fs (sectors (dev m')) f = file_bytes fs (sectors (dev m)) f)"
proof -
  have inv: "ahci_contract bus g idle sectors cap dma \<and> idle (dev m)" using assms(1,2) by blast
  have u: "ahci.user_buffer g dma buf (unat buf_len)" using assms(16) by (simp add: ahci.user_buffer_def)
  from ahci.sys_write_file_full [OF inv assms(3-15) u] show ?thesis by blast
qed

lemma sample_fat_free: "4 \<le> c \<Longrightarrow> c < 128 \<Longrightarrow> fat_value sample_fs sample_disk (of_nat c) = 0"
proof -
  assume c: "4 \<le> c" "c < 128"
  then have u: "unat (of_nat c :: u32) = c" by (simp add: unat_of_nat take_bit_nat_eq_self)
  have s: "fat_sector sample_fs (of_nat c) = 2" using c u by (simp add: fat_sector_eq get_fat_lba_def sample_fs_def)
  have "fat_slot (of_nat c) = 4 * c" using c u by (simp add: fat_slot_eq)
  then show ?thesis using c by (simp add: fat_value_def s le32_def le16_def sample_disk_def)
qed

lemma sample_all_free: "free_clusters sample_fs sample_disk = map of_nat [4..<128]"
proof -
  have n: "unat (fat_sz32 sample_fs) * 128 = 128" by (simp add: sample_fs_def)
  have "[0..<128] = [0, 1, 2, 3] @ [4..<128]" by (simp add: upt_eval)
  moreover have "filter (\<lambda>c. 2 \<le> c \<and> fat_value sample_fs sample_disk (of_nat c) = 0) [4..<128] = [4..<128]"
    by (intro filter_True) (simp add: sample_fat_free)
  ultimately show ?thesis unfolding free_clusters_def n using sample_fat by simp
qed

theorem write_on_full_disk_witness:
  "\<exists>m' tbl'. sys_write_file (ahci_io sim_hw sim_globals) 3 0x100000 70000 sample_table sample_machine = Some (63999, False, tbl', m')
    \<and> files_apart (\<lambda>l. l < 2 ^ 48) sample_fs (sim_sectors (dev m')) [2] [map of_nat [3..<128]]"
proof -
  have cap: "(2048 :: u64) < 2 ^ 48" and nz: "(0x100000 :: u64) \<noteq> 0" by simp_all
  have d: "fd_cluster sample_open = hd [3]" "\<not> fd_is_dir sample_open" "unat (fd_position sample_open) = 1"
    "unat (fd_size sample_open) = 5" "spc sample_fs = 1" by (simp_all add: sample_open_def sample_fs_def spc_def)
  have l: "length (free_clusters sample_fs sample_disk) = 124" by (simp add: sample_all_free del: upt_rec_numeral)
  have p: "unat (fd_size sample_open) \<le> length [3 :: u32] * (spc sample_fs * 512)"
    "unat (fd_position sample_open) + 63999 = (length [3 :: u32] + length (free_clusters sample_fs sample_disk)) * (spc sample_fs * 512)"
    "(0 :: nat) < 63999" "63999 < unat (70000 :: u64)" "unat (fd_position sample_open) + 63999 < 2 ^ 32"
    unfolding d l by simp_all
  have u: "\<forall>i<unat (70000 :: u64). \<not> ahci_scratch sim_globals (\<lambda>x. False) (0x100000 + of_nat i)"
    using sample_scratch [of "0x100000" 70000] by simp
  have c: "[3] @ free_clusters sample_fs sample_disk = map of_nat [3..<128]"
    unfolding sample_all_free by (subst (2) upt_conv_Cons) (simp_all del: upt_rec_numeral)
  from write_on_full_disk [OF sim_ahci_contract sample_idle, unfolded sample_sectors,
      OF sample_volume cap sample_table_3 d(2,1) p(1) sample_apart sample_free_valid p(2-5) nz u]
  show ?thesis unfolding c by (auto simp del: upt_rec_numeral)
qed

end
